(* ===== verification/Prelude.thy ===== *)
theory Prelude
  imports Main "HOL-Library.AList" "HOL-Library.Multiset"
begin

text \<open>
  Shared vocabulary of the development: Go maps, Go's 32-bit integers and the generic lemmas the
  components use.

  A Go map may be nil, and the sources test for that (\<open>if m == nil\<close>), so a map is an
  option of an association list: \<open>None\<close> is the nil map.  Reading a nil map is allowed in Go
  and finds nothing (\<open>gm_get\<close>); writing one panics, and the sources allocate first, which is
  \<open>gm_make\<close>.  Association lists (rather than functions) keep \<open>len(m) == 0\<close>
  executable.
\<close>

named_theorems emits_intro "compositional rules for the effects a program may have"
named_theorems wp_simps "weakest preconditions of the program combinators"

type_synonym ('k, 'v) gomap = "('k \<times> 'v) list option"

text \<open>\<open>if m == nil { m = map[...]...{} }\<close>: the allocated map.\<close>

definition gm_make :: "('k, 'v) gomap \<Rightarrow> ('k \<times> 'v) list" where
  "gm_make m = (case m of None \<Rightarrow> [] | Some xs \<Rightarrow> xs)"

text \<open>\<open>v, ok := m[k]\<close>.\<close>

definition gm_get :: "('k, 'v) gomap \<Rightarrow> 'k \<Rightarrow> 'v option" where
  "gm_get m k = map_of (gm_make m) k"

text \<open>\<open>m[k]\<close>, with the zero value where the key is absent.\<close>

definition gm_index :: "'v \<Rightarrow> ('k, 'v) gomap \<Rightarrow> 'k \<Rightarrow> 'v" where
  "gm_index z m k = (case gm_get m k of None \<Rightarrow> z | Some v \<Rightarrow> v)"

text \<open>\<open>m[k] = v\<close> on an allocated map, and \<open>delete(m, k)\<close>, which is allowed on nil.\<close>

definition gm_set :: "'k \<Rightarrow> 'v \<Rightarrow> ('k, 'v) gomap \<Rightarrow> ('k, 'v) gomap" where
  "gm_set k v m = Some (AList.update k v (gm_make m))"

definition gm_delete :: "'k \<Rightarrow> ('k, 'v) gomap \<Rightarrow> ('k, 'v) gomap" where
  "gm_delete k m = map_option (AList.delete k) m"

text \<open>The conversion \<open>int32(v)\<close>: the low 32 bits in two's complement.\<close>

definition int32 :: "int \<Rightarrow> int" where
  "int32 v = signed_take_bit 31 v"

definition is_int32 :: "int \<Rightarrow> bool" where
  "is_int32 v \<longleftrightarrow> - (2 ^ 31) \<le> v \<and> v < 2 ^ 31"

lemma gm_get_None [simp]: "gm_get None k = None"
  by (simp add: gm_get_def gm_make_def)

lemma gm_get_set [simp]: "gm_get (gm_set k v m) k' = (if k' = k then Some v else gm_get m k')"
  by (simp add: gm_get_def gm_set_def gm_make_def update_conv')

lemma gm_get_delete [simp]: "gm_get (gm_delete k m) k' = (if k' = k then None else gm_get m k')"
  by (cases m) (auto simp: gm_get_def gm_delete_def gm_make_def delete_conv')

lemma gm_get_empty [simp]: "gm_get (Some []) k = None"
  by (simp add: gm_get_def gm_make_def)

lemma gm_get_Some_make [simp]: "gm_get (Some (gm_make m)) k = gm_get m k"
  by (simp add: gm_get_def gm_make_def)

lemma gm_index_set [simp]: "gm_index z (gm_set k v m) k' = (if k' = k then v else gm_index z m k')"
  by (simp add: gm_index_def)

lemma gm_index_delete [simp]:
  "gm_index z (gm_delete k m) k' = (if k' = k then z else gm_index z m k')"
  by (simp add: gm_index_def)

lemma gm_index_Some_make [simp]: "gm_index z (Some (gm_make m)) k = gm_index z m k"
  by (simp add: gm_index_def)

lemma gm_make_delete [simp]: "gm_make (gm_delete k m) = AList.delete k (gm_make m)"
  by (cases m) (simp_all add: gm_make_def gm_delete_def)

lemma gm_make_set [simp]: "gm_make (gm_set k v m) = AList.update k v (gm_make m)"
  by (simp add: gm_make_def gm_set_def)

lemma gm_make_simps [simp]: "gm_make None = []" "gm_make (Some xs) = xs"
  by (simp_all add: gm_make_def)

lemma int32_id [simp]: "is_int32 v \<Longrightarrow> int32 v = v"
  unfolding int32_def is_int32_def by (rule signed_take_bit_int_eq_self) simp_all

lemma int32_range: "is_int32 (int32 v)"
  unfolding int32_def is_int32_def
  using signed_take_bit_int_greater_eq_minus_exp [of 31 v] signed_take_bit_int_less_exp [of 31 v]
  by simp

text \<open>Lists: what \<open>rev\<close>, \<open>fold\<close> and \<open>distinct\<close> facts the components share.\<close>

lemma list_all_append_iff: "list_all P (xs @ ys) \<longleftrightarrow> list_all P xs \<and> list_all P ys"
  by simp

lemma list_all2_in2: "list_all2 P xs ys \<Longrightarrow> y \<in> set ys \<Longrightarrow> \<exists>x \<in> set xs. P x y"
  by (induction rule: list_all2_induct) auto

lemma list_all2_in1: "list_all2 P xs ys \<Longrightarrow> x \<in> set xs \<Longrightarrow> \<exists>y \<in> set ys. P x y"
  by (induction rule: list_all2_induct) auto

lemma distinct_mset_eq_set_eq:
  "mset xs = mset ys \<Longrightarrow> set xs = set ys"
  by (metis set_mset_mset)

end
