(* ===== verification/Breaker.thy ===== *)
theory Breaker
  imports Prelude
begin

text \<open>
  The circuit breaker around ConfigMap updates
  (\<open>controllers/dnsupstreampool_controller.go\<close>): per operator namespace a failure counter and
  the time until which updates are refused.  Each operation runs under \<open>configMapCircuitMu\<close>,
  so concurrent reconciles are sequences of these operations; a reading of \<open>time.Now()\<close> is an
  argument, in nanoseconds.

  The abstract specification is the two-state circuit \<open>circuit\<close>; the locale
  \<open>circuit_breaker\<close> is the refinement the reconciler relies on.
\<close>

abbreviation configMapUpdateFailureThreshold :: int where
  "configMapUpdateFailureThreshold \<equiv> 3"

abbreviation configMapCircuitOpenInterval :: int where
  "configMapCircuitOpenInterval \<equiv> 30000000000"

record breaker =
  br_FailureCounts :: "(string, int) gomap"
  br_OpenUntil :: "(string, int) gomap"

definition newBreaker :: breaker where
  "newBreaker = \<lparr>br_FailureCounts = None, br_OpenUntil = None\<rparr>"

definition ensureConfigMapCircuitState :: "breaker \<Rightarrow> breaker" where
  "ensureConfigMapCircuitState b =
     b\<lparr>br_FailureCounts := Some (gm_make (br_FailureCounts b)),
       br_OpenUntil := Some (gm_make (br_OpenUntil b))\<rparr>"

text \<open>\<open>t1\<close> and \<open>t2\<close> are the readings of the clock in the two places that read it.\<close>

definition recordConfigMapUpdateFailure :: "string \<Rightarrow> int \<Rightarrow> int \<Rightarrow> breaker \<Rightarrow> breaker" where
  "recordConfigMapUpdateFailure ns t1 t2 b0 =
     (let b = ensureConfigMapCircuitState b0;
          count = (\<lambda>b. let nextFailureCount = gm_index 0 (br_FailureCounts b) ns + 1 in
            if nextFailureCount \<ge> configMapUpdateFailureThreshold then
              b\<lparr>br_OpenUntil := gm_set ns (t2 + configMapCircuitOpenInterval) (br_OpenUntil b),
                br_FailureCounts := gm_set ns 0 (br_FailureCounts b)\<rparr>
            else b\<lparr>br_FailureCounts := gm_set ns nextFailureCount (br_FailureCounts b)\<rparr>)
      in case gm_get (br_OpenUntil b) ns of
           Some openUntil \<Rightarrow>
             if t1 < openUntil then b
             else count (b\<lparr>br_OpenUntil := gm_delete ns (br_OpenUntil b)\<rparr>)
         | None \<Rightarrow> count b)"

definition resetConfigMapUpdateFailures :: "string \<Rightarrow> breaker \<Rightarrow> breaker" where
  "resetConfigMapUpdateFailures ns b0 =
     (let b = ensureConfigMapCircuitState b0 in
      b\<lparr>br_FailureCounts := gm_delete ns (br_FailureCounts b),
        br_OpenUntil := gm_delete ns (br_OpenUntil b)\<rparr>)"

text \<open>\<open>(openUntil, true)\<close> is \<open>Some openUntil\<close>.\<close>

definition isConfigMapCircuitOpen :: "string \<Rightarrow> int \<Rightarrow> breaker \<Rightarrow> int option \<times> breaker" where
  "isConfigMapCircuitOpen ns now b0 =
     (let b = ensureConfigMapCircuitState b0 in
      case gm_get (br_OpenUntil b) ns of
        None \<Rightarrow> (None, b)
      | Some openUntil \<Rightarrow>
          if now > openUntil then (None, b\<lparr>br_OpenUntil := gm_delete ns (br_OpenUntil b)\<rparr>)
          else (Some openUntil, b))"

section \<open>The abstract circuit\<close>

datatype circuit = Closed int | Open int

fun circuitFail :: "int \<Rightarrow> int \<Rightarrow> circuit \<Rightarrow> circuit" where
  "circuitFail t1 t2 (Closed n) =
     (if n + 1 \<ge> 3 then Open (t2 + configMapCircuitOpenInterval) else Closed (n + 1))"
| "circuitFail t1 t2 (Open u) = (if t1 < u then Open u else Closed 1)"

fun circuitQuery :: "int \<Rightarrow> circuit \<Rightarrow> int option \<times> circuit" where
  "circuitQuery now (Closed n) = (None, Closed n)"
| "circuitQuery now (Open u) = (if now > u then (None, Closed 0) else (Some u, Open u))"

definition circuitOf :: "breaker \<Rightarrow> string \<Rightarrow> circuit" where
  "circuitOf b ns =
     (case gm_get (br_OpenUntil b) ns of
        Some u \<Rightarrow> Open u
      | None \<Rightarrow> Closed (gm_index 0 (br_FailureCounts b) ns))"

text \<open>The counter stays below the threshold, and an open circuit has none.\<close>

definition breakerInv :: "breaker \<Rightarrow> bool" where
  "breakerInv b \<longleftrightarrow>
     (\<forall>ns. 0 \<le> gm_index 0 (br_FailureCounts b) ns \<and> gm_index 0 (br_FailureCounts b) ns < 3 \<and>
       (gm_get (br_OpenUntil b) ns \<noteq> None \<longrightarrow> gm_index 0 (br_FailureCounts b) ns = 0))"

lemma breakerInv_new: "breakerInv newBreaker"
  by (simp add: breakerInv_def newBreaker_def gm_index_def)

lemma circuitOf_new: "circuitOf newBreaker ns = Closed 0"
  by (simp add: circuitOf_def newBreaker_def gm_index_def)

lemma breakerInv_fail: "breakerInv b \<Longrightarrow> breakerInv (recordConfigMapUpdateFailure ns t1 t2 b)"
  by (auto simp: breakerInv_def recordConfigMapUpdateFailure_def ensureConfigMapCircuitState_def
      Let_def split: option.split)

lemma breakerInv_reset: "breakerInv b \<Longrightarrow> breakerInv (resetConfigMapUpdateFailures ns b)"
  by (auto simp: breakerInv_def resetConfigMapUpdateFailures_def ensureConfigMapCircuitState_def Let_def)

lemma breakerInv_query: "breakerInv b \<Longrightarrow> breakerInv (snd (isConfigMapCircuitOpen ns now b))"
  by (auto simp: breakerInv_def isConfigMapCircuitOpen_def ensureConfigMapCircuitState_def Let_def
      split: option.split)

lemma circuitOf_fail:
  "breakerInv b \<Longrightarrow> circuitOf (recordConfigMapUpdateFailure ns t1 t2 b) ns' =
    (if ns' = ns then circuitFail t1 t2 (circuitOf b ns) else circuitOf b ns')"
  by (auto simp: breakerInv_def circuitOf_def recordConfigMapUpdateFailure_def
      ensureConfigMapCircuitState_def Let_def split: option.split)

lemma circuitOf_reset:
  "circuitOf (resetConfigMapUpdateFailures ns b) ns' = (if ns' = ns then Closed 0 else circuitOf b ns')"
  by (auto simp: circuitOf_def resetConfigMapUpdateFailures_def ensureConfigMapCircuitState_def Let_def
      split: option.split)

lemma circuitOf_query:
  "breakerInv b \<Longrightarrow> circuitOf (snd (isConfigMapCircuitOpen ns now b)) ns' =
    (if ns' = ns then snd (circuitQuery now (circuitOf b ns)) else circuitOf b ns')"
  by (auto simp: breakerInv_def circuitOf_def isConfigMapCircuitOpen_def
      ensureConfigMapCircuitState_def Let_def split: option.split)

lemma isOpen_query: "fst (isConfigMapCircuitOpen ns now b) = fst (circuitQuery now (circuitOf b ns))"
  by (auto simp: circuitOf_def isConfigMapCircuitOpen_def ensureConfigMapCircuitState_def Let_def
      split: option.split)

section \<open>The contract\<close>

datatype breakerEvent = Fail string int int | Query string int | Reset string

locale circuit_breaker =
  fixes fresh :: 'b
    and fail :: "string \<Rightarrow> int \<Rightarrow> int \<Rightarrow> 'b \<Rightarrow> 'b"
    and reset :: "string \<Rightarrow> 'b \<Rightarrow> 'b"
    and isOpen :: "string \<Rightarrow> int \<Rightarrow> 'b \<Rightarrow> int option \<times> 'b"
    and abs :: "'b \<Rightarrow> string \<Rightarrow> circuit"
    and inv :: "'b \<Rightarrow> bool"
  assumes inv_fresh: "inv fresh" and abs_fresh: "abs fresh ns = Closed 0"
    and inv_fail: "inv b \<Longrightarrow> inv (fail ns t1 t2 b)"
    and inv_reset: "inv b \<Longrightarrow> inv (reset ns b)"
    and inv_isOpen: "inv b \<Longrightarrow> inv (snd (isOpen ns t b))"
    and abs_fail: "inv b \<Longrightarrow> abs (fail ns t1 t2 b) ns' =
      (if ns' = ns then circuitFail t1 t2 (abs b ns) else abs b ns')"
    and abs_reset: "abs (reset ns b) ns' = (if ns' = ns then Closed 0 else abs b ns')"
    and abs_isOpen: "inv b \<Longrightarrow> abs (snd (isOpen ns t b)) ns' =
      (if ns' = ns then snd (circuitQuery t (abs b ns)) else abs b ns')"
    and fst_isOpen: "fst (isOpen ns t b) = fst (circuitQuery t (abs b ns))"
begin

fun step :: "breakerEvent \<Rightarrow> 'b \<Rightarrow> 'b" where
  "step (Fail ns t1 t2) b = fail ns t1 t2 b"
| "step (Query ns t) b = snd (isOpen ns t b)"
| "step (Reset ns) b = reset ns b"

lemma inv_step: "inv b \<Longrightarrow> inv (step e b)"
  by (cases e) (simp_all add: inv_fail inv_reset inv_isOpen)

lemma inv_run: "inv b \<Longrightarrow> inv (fold step es b)"
  by (induction es arbitrary: b) (simp_all add: inv_step)

text \<open>Three failures in a row open the circuit until the interval after the third has passed.\<close>

lemma three_failures:
  assumes "inv b" "abs b ns = Closed 0"
  shows "abs (fail ns t5 t6 (fail ns t3 t4 (fail ns t1 t2 b))) ns =
    Open (t6 + configMapCircuitOpenInterval)"
  using assms by (simp add: abs_fail inv_fail)

lemma open_blocks: "abs b ns = Open u \<Longrightarrow> now \<le> u \<Longrightarrow> fst (isOpen ns now b) = Some u"
  by (simp add: fst_isOpen)

lemma open_expires:
  "inv b \<Longrightarrow> abs b ns = Open u \<Longrightarrow> u < now \<Longrightarrow>
    fst (isOpen ns now b) = None \<and> abs (snd (isOpen ns now b)) ns = Closed 0"
  by (simp add: fst_isOpen abs_isOpen)

text \<open>
  Failures of \<open>ns\<close> since its last reset are at least what the circuit counts: a closed circuit
  that counts \<open>n\<close> has seen \<open>n\<close> of them, an open one three.
\<close>

fun isFail :: "string \<Rightarrow> breakerEvent \<Rightarrow> bool" where
  "isFail ns (Fail ns' t1 t2) \<longleftrightarrow> ns' = ns"
| "isFail ns _ \<longleftrightarrow> False"

definition failures :: "string \<Rightarrow> breakerEvent list \<Rightarrow> nat" where
  "failures ns es = length (filter (isFail ns) (takeWhile (\<lambda>e. e \<noteq> Reset ns) (rev es)))"

lemma failures_snoc:
  "failures ns (es @ [e]) =
    (if e = Reset ns then 0 else (if isFail ns e then Suc (failures ns es) else failures ns es))"
  by (simp add: failures_def)

lemma counts_failures:
  "(case abs (fold step es fresh) ns of
      Closed n \<Rightarrow> 0 \<le> n \<and> n < 3 \<and> n \<le> int (failures ns es)
    | Open u \<Rightarrow> 3 \<le> failures ns es)"
proof (induction es rule: rev_induct)
  case Nil
  then show ?case by (simp add: abs_fresh)
next
  case (snoc e es)
  have inv: "inv (fold step es fresh)" by (simp add: inv_run inv_fresh)
  show ?case
  proof (cases e)
    case (Fail ns' t1 t2)
    then show ?thesis
      using snoc inv by (cases "abs (fold step es fresh) ns")
        (auto simp: abs_fail failures_snoc split: circuit.splits if_splits)
  next
    case (Query ns' t)
    then show ?thesis
      using snoc inv by (cases "abs (fold step es fresh) ns")
        (auto simp: abs_isOpen failures_snoc split: circuit.splits if_splits)
  next
    case (Reset ns')
    then show ?thesis
      using snoc by (cases "ns' = ns") (auto simp: abs_reset failures_snoc split: circuit.splits if_splits)
  qed
qed

end

interpretation cb: circuit_breaker newBreaker recordConfigMapUpdateFailure
    resetConfigMapUpdateFailures isConfigMapCircuitOpen circuitOf breakerInv
  by unfold_locales
    (simp_all add: breakerInv_new circuitOf_new breakerInv_fail breakerInv_reset breakerInv_query
      circuitOf_fail circuitOf_reset circuitOf_query isOpen_query)

end
