(* ===== verification/GoSort.thy ===== *)
theory GoSort
  imports Prelude
begin

text \<open>
  Go's \<open>sort.Slice\<close> and \<open>sort.SliceStable\<close>.  For up to 12 (\<open>Slice\<close>) or 20
  (\<open>SliceStable\<close>) elements both run the library's insertion sort, which is the function
  \<open>insertionSort\<close> below, comparison by comparison: each element is swapped to the left
  while it is less than its left neighbour.  For longer slices the library promises only the
  contract proved here for \<open>insertionSort\<close> in the locale \<open>strict_weak\<close>: a permutation,
  sorted whenever \<open>lt\<close> is a strict weak order on the elements, and stable in the case of
  \<open>SliceStable\<close>.  A result with these properties is unique for \<open>SliceStable\<close>
  (\<open>stable_sorted_unique\<close>), and unique for \<open>Slice\<close> when elements that are not
  ordered are equal (\<open>sorted_unique\<close>), so in these cases the model is what the library
  computes at every length.
\<close>

text \<open>One pass: the sorted prefix is held reversed, so its last element comes first.\<close>

fun sift :: "('a \<Rightarrow> 'a \<Rightarrow> bool) \<Rightarrow> 'a \<Rightarrow> 'a list \<Rightarrow> 'a list" where
  "sift lt x [] = [x]"
| "sift lt x (y # ys) = (if lt x y then y # sift lt x ys else x # y # ys)"

definition insertionSort :: "('a \<Rightarrow> 'a \<Rightarrow> bool) \<Rightarrow> 'a list \<Rightarrow> 'a list" where
  "insertionSort lt xs = rev (fold (sift lt) xs [])"

lemma mset_sift [simp]: "mset (sift lt x ys) = add_mset x (mset ys)"
  by (induction ys) auto

lemma mset_fold_sift: "mset (fold (sift lt) xs acc) = mset xs + mset acc"
  by (induction xs arbitrary: acc) auto

lemma mset_insertionSort [simp]: "mset (insertionSort lt xs) = mset xs"
  by (simp add: insertionSort_def mset_fold_sift)

lemma set_insertionSort [simp]: "set (insertionSort lt xs) = set xs"
  by (metis mset_insertionSort set_mset_mset)

lemma length_insertionSort [simp]: "length (insertionSort lt xs) = length xs"
  by (metis mset_insertionSort size_mset)

lemma insertionSort_Nil_iff [simp]: "insertionSort lt xs = [] \<longleftrightarrow> xs = []"
  by (metis length_0_conv length_insertionSort)

lemma insertionSort_single [simp]: "insertionSort lt [x] = [x]"
  by (simp add: insertionSort_def)

text \<open>
  The contract of the comparator.  \<open>S\<close> is the set of elements on which it is a strict weak
  order: the comparators of the sources are not one on all values.
\<close>

locale strict_weak =
  fixes lt :: "'a \<Rightarrow> 'a \<Rightarrow> bool"
    and S :: "'a set"
  assumes lt_asym: "x \<in> S \<Longrightarrow> y \<in> S \<Longrightarrow> lt x y \<Longrightarrow> \<not> lt y x"
    and lt_negtrans: "x \<in> S \<Longrightarrow> y \<in> S \<Longrightarrow> z \<in> S \<Longrightarrow> \<not> lt x y \<Longrightarrow> \<not> lt y z \<Longrightarrow> \<not> lt x z"
begin

lemma lt_irrefl: "x \<in> S \<Longrightarrow> \<not> lt x x"
  using lt_asym by blast

lemma lt_trans: "x \<in> S \<Longrightarrow> y \<in> S \<Longrightarrow> z \<in> S \<Longrightarrow> lt x y \<Longrightarrow> lt y z \<Longrightarrow> lt x z"
  using lt_asym lt_negtrans by blast

text \<open>\<open>rev_ok\<close>: the reversed prefix is sorted downwards.\<close>

lemma sift_sorted:
  assumes "x \<in> S" "set ys \<subseteq> S" "sorted_wrt (\<lambda>a b. \<not> lt a b) ys"
  shows "sorted_wrt (\<lambda>a b. \<not> lt a b) (sift lt x ys)"
  using assms
proof (induction ys)
  case Nil
  then show ?case by simp
next
  case (Cons y ys)
  have in_sift: "set (sift lt x ys) = insert x (set ys)"
    by (metis mset_sift set_mset_add_mset_insert set_mset_mset)
  show ?case
  proof (cases "lt x y")
    case True
    then have "\<not> lt y x" using Cons.prems lt_asym by simp
    then show ?thesis using True Cons in_sift by auto
  next
    case False
    then have "\<forall>z \<in> set ys. \<not> lt x z"
      using Cons.prems lt_negtrans [of x y] by auto
    then show ?thesis using False Cons.prems by simp
  qed
qed

lemma fold_sift_sorted:
  "set xs \<subseteq> S \<Longrightarrow> set acc \<subseteq> S \<Longrightarrow> sorted_wrt (\<lambda>a b. \<not> lt a b) acc \<Longrightarrow>
    sorted_wrt (\<lambda>a b. \<not> lt a b) (fold (sift lt) xs acc)"
proof (induction xs arbitrary: acc)
  case Nil
  then show ?case by simp
next
  case (Cons x xs)
  have "set (sift lt x acc) = insert x (set acc)"
    by (metis mset_sift set_mset_add_mset_insert set_mset_mset)
  then show ?case using Cons sift_sorted by simp
qed

lemma insertionSort_sorted:
  "set xs \<subseteq> S \<Longrightarrow> sorted_wrt (\<lambda>a b. \<not> lt b a) (insertionSort lt xs)"
  by (simp add: insertionSort_def sorted_wrt_rev fold_sift_sorted)

lemma insertionSort_hd_least:
  assumes "set xs \<subseteq> S" "y \<in> set xs"
  shows "\<not> lt y (hd (insertionSort lt xs))"
proof -
  obtain h t where ht: "insertionSort lt xs = h # t"
    using assms(2) by (cases "insertionSort lt xs") auto
  then have "y = h \<or> y \<in> set t"
    using assms(2) set_insertionSort [of lt xs] by auto
  moreover have "\<not> lt h h"
    using assms ht set_insertionSort [of lt xs] lt_irrefl by auto
  ultimately show ?thesis
    using insertionSort_sorted [OF assms(1)] ht by auto
qed

text \<open>Stability: elements that are not ordered keep their order.\<close>

lemma sift_stable:
  assumes "x \<in> S" "set ys \<subseteq> S" "a \<in> S"
  shows "filter (\<lambda>b. \<not> lt a b \<and> \<not> lt b a) (sift lt x ys) =
         filter (\<lambda>b. \<not> lt a b \<and> \<not> lt b a) (x # ys)"
  using assms
proof (induction ys)
  case Nil
  then show ?case by simp
next
  case (Cons y ys)
  have "\<not> (\<not> lt a x \<and> \<not> lt x a \<and> \<not> lt a y \<and> \<not> lt y a)" if "lt x y"
    using that Cons.prems lt_negtrans [of x a y] by auto
  then show ?case using Cons by auto
qed

lemma fold_sift_stable:
  "set xs \<subseteq> S \<Longrightarrow> set acc \<subseteq> S \<Longrightarrow> a \<in> S \<Longrightarrow>
    filter (\<lambda>b. \<not> lt a b \<and> \<not> lt b a) (fold (sift lt) xs acc) =
    rev (filter (\<lambda>b. \<not> lt a b \<and> \<not> lt b a) xs) @ filter (\<lambda>b. \<not> lt a b \<and> \<not> lt b a) acc"
proof (induction xs arbitrary: acc)
  case Nil
  then show ?case by simp
next
  case (Cons x xs)
  have "set (sift lt x acc) = insert x (set acc)"
    by (metis mset_sift set_mset_add_mset_insert set_mset_mset)
  then show ?case using Cons sift_stable [of x acc a] by auto
qed

lemma insertionSort_stable:
  "set xs \<subseteq> S \<Longrightarrow> a \<in> S \<Longrightarrow>
    filter (\<lambda>b. \<not> lt a b \<and> \<not> lt b a) (insertionSort lt xs) =
    filter (\<lambda>b. \<not> lt a b \<and> \<not> lt b a) xs"
  by (simp add: insertionSort_def fold_sift_stable flip: rev_filter)

text \<open>A sorted permutation is unique where only equal elements are not ordered.\<close>

lemma sorted_unique:
  assumes "sorted_wrt (\<lambda>a b. \<not> lt b a) xs" "sorted_wrt (\<lambda>a b. \<not> lt b a) ys"
    and "mset xs = mset ys"
    and "\<And>a b. a \<in> set xs \<Longrightarrow> b \<in> set xs \<Longrightarrow> \<not> lt a b \<Longrightarrow> \<not> lt b a \<Longrightarrow> a = b"
  shows "xs = ys"
  using assms
proof (induction xs arbitrary: ys)
  case Nil
  then show ?case by simp
next
  case (Cons x xs)
  then obtain y ys' where ys: "ys = y # ys'" by (cases ys) auto
  have sets: "insert x (set xs) = insert y (set ys')"
    using Cons.prems(3) ys by (metis list.simps(15) set_mset_mset)
  have eq: "x = y"
  proof (rule ccontr)
    assume "x \<noteq> y"
    then have "x \<in> set ys'" "y \<in> set xs" using sets by auto
    then have "\<not> lt x y" "\<not> lt y x" using Cons.prems(1,2) ys by auto
    then show False using Cons.prems(4) \<open>y \<in> set xs\<close> \<open>x \<noteq> y\<close> by auto
  qed
  have "xs = ys'"
    by (rule Cons.IH) (use Cons.prems ys eq in auto)
  then show ?case using ys eq by simp
qed

text \<open>A sorted, stable rearrangement is unique on every list of \<open>S\<close>.\<close>

lemma stable_sorted_unique:
  assumes "set xs \<subseteq> S" "mset ys = mset xs"
    and "sorted_wrt (\<lambda>a b. \<not> lt b a) xs" "sorted_wrt (\<lambda>a b. \<not> lt b a) ys"
    and "\<And>a. a \<in> S \<Longrightarrow> filter (\<lambda>b. \<not> lt a b \<and> \<not> lt b a) ys = filter (\<lambda>b. \<not> lt a b \<and> \<not> lt b a) xs"
  shows "ys = xs"
  using assms
proof (induction xs arbitrary: ys)
  case Nil
  then show ?case by simp
next
  case (Cons x xs)
  then obtain y ys' where ys: "ys = y # ys'" by (cases ys) auto
  have sets: "insert x (set xs) = insert y (set ys')"
    using Cons.prems(2) ys by (metis list.simps(15) set_mset_mset)
  have inS: "x \<in> S" "y \<in> S" "set ys' \<subseteq> S" using sets Cons.prems(1) by auto
  have "x = y \<or> x \<in> set ys'" "y = x \<or> y \<in> set xs" using sets by auto
  then have "\<not> lt x y" "\<not> lt y x"
    using Cons.prems(3,4) ys inS lt_irrefl by auto
  then have eq: "x = y"
    using Cons.prems(5) [OF inS(1)] ys inS lt_irrefl by auto
  have filt: "filter (\<lambda>b. \<not> lt a b \<and> \<not> lt b a) ys' = filter (\<lambda>b. \<not> lt a b \<and> \<not> lt b a) xs"
    if "a \<in> S" for a
    using Cons.prems(5) [OF that] ys eq by (auto split: if_splits)
  have "ys' = xs"
    by (rule Cons.IH) (use Cons.prems ys eq filt in auto)
  then show ?case using ys eq by simp
qed

end

end
