(* ===== verification/GoStrings.thy ===== *)
theory GoStrings
  imports Prelude "HOL-Library.Sublist" "HOL-Library.List_Lexorder" "HOL-Library.Char_ord"
begin

text \<open>
  The parts of Go's \<open>strings\<close>, \<open>strconv\<close> and \<open>fmt\<close> packages the sources call.
  A Go string is a sequence of bytes, so it is a \<open>string\<close> (a list of 8-bit characters), and
  \<open><\<close> on it is Go's bytewise order (\<open>List_Lexorder\<close> over \<open>Char_ord\<close>).

  \<open>trimSpace\<close> works on the UTF-8 encodings of the runes that \<open>unicode.IsSpace\<close>
  accepts.  \<open>toLower\<close> maps ASCII letters and the two runes outside ASCII whose lower case is
  an ASCII letter (U+0130 and the Kelvin sign); it leaves the other bytes alone, where Go maps
  further letters to letters that are again outside ASCII.  The sources only compare the result
  with ASCII constants or pass it to a check that accepts ASCII only, so the two agree there.
\<close>

text \<open>Runes of \<open>unicode.IsSpace\<close>, encoded.\<close>

definition spaces :: "string list" where
  "spaces =
     [[CHR 0x09], [CHR 0x0A], [CHR 0x0B], [CHR 0x0C], [CHR 0x0D], [CHR 0x20],
      [CHR 0xC2, CHR 0x85], [CHR 0xC2, CHR 0xA0], [CHR 0xE1, CHR 0x9A, CHR 0x80],
      [CHR 0xE2, CHR 0x80, CHR 0x80], [CHR 0xE2, CHR 0x80, CHR 0x81],
      [CHR 0xE2, CHR 0x80, CHR 0x82], [CHR 0xE2, CHR 0x80, CHR 0x83],
      [CHR 0xE2, CHR 0x80, CHR 0x84], [CHR 0xE2, CHR 0x80, CHR 0x85],
      [CHR 0xE2, CHR 0x80, CHR 0x86], [CHR 0xE2, CHR 0x80, CHR 0x87],
      [CHR 0xE2, CHR 0x80, CHR 0x88], [CHR 0xE2, CHR 0x80, CHR 0x89],
      [CHR 0xE2, CHR 0x80, CHR 0x8A], [CHR 0xE2, CHR 0x80, CHR 0xA8],
      [CHR 0xE2, CHR 0x80, CHR 0xA9], [CHR 0xE2, CHR 0x80, CHR 0xAF],
      [CHR 0xE2, CHR 0x81, CHR 0x9F], [CHR 0xE3, CHR 0x80, CHR 0x80]]"

text \<open>Drop encoded runes from the left while one of them is a prefix.\<close>

function trimLeftWith :: "string list \<Rightarrow> string \<Rightarrow> string" where
  "trimLeftWith ps s =
     (case find (\<lambda>p. p \<noteq> [] \<and> prefix p s) ps of
        None \<Rightarrow> s
      | Some p \<Rightarrow> trimLeftWith ps (drop (length p) s))"
  by pat_completeness auto
termination
proof (relation "measure (\<lambda>(ps, s). length s)", goal_cases)
  case 1
  then show ?case by simp
next
  case (2 ps s p)
  then have "p \<noteq> []" "prefix p s" by (auto simp: find_Some_iff)
  then show ?case by (auto simp: prefix_def)
qed

declare trimLeftWith.simps [simp del]

text \<open>\<open>strings.TrimSpace\<close>.\<close>

definition trimSpace :: "string \<Rightarrow> string" where
  "trimSpace s = rev (trimLeftWith (map rev spaces) (rev (trimLeftWith spaces s)))"

definition lower_byte :: "char \<Rightarrow> char" where
  "lower_byte c = (if CHR ''A'' \<le> c \<and> c \<le> CHR ''Z'' then char_of (of_char c + 32 :: nat) else c)"

text \<open>\<open>strings.ToLower\<close>.\<close>

fun toLower :: "string \<Rightarrow> string" where
  "toLower [] = []"
| "toLower (c # cs) =
     (if take 2 (c # cs) = [CHR 0xC4, CHR 0xB0] then CHR ''i'' # toLower (drop 1 cs)
      else if take 3 (c # cs) = [CHR 0xE2, CHR 0x84, CHR 0xAA] then CHR ''k'' # toLower (drop 2 cs)
      else lower_byte c # toLower cs)"

text \<open>\<open>strings.TrimSuffix\<close> and \<open>strings.Count\<close> for a one-byte separator.\<close>

definition trimSuffix :: "string \<Rightarrow> string \<Rightarrow> string" where
  "trimSuffix s suf = (if suffix suf s then take (length s - length suf) s else s)"

definition countByte :: "string \<Rightarrow> char \<Rightarrow> nat" where
  "countByte s c = count_list s c"

text \<open>Decimal digits: \<open>%d\<close> of \<open>fmt.Sprintf\<close>.\<close>

definition digit :: "nat \<Rightarrow> char" where
  "digit n = char_of (48 + n)"

definition isDigit :: "char \<Rightarrow> bool" where
  "isDigit c \<longleftrightarrow> CHR ''0'' \<le> c \<and> c \<le> CHR ''9''"

definition digitVal :: "char \<Rightarrow> nat" where
  "digitVal c = of_char c - 48"

fun showNat :: "nat \<Rightarrow> string" where
  "showNat n = (if n < 10 then [digit n] else showNat (n div 10) @ [digit (n mod 10)])"

declare showNat.simps [simp del]

definition showInt :: "int \<Rightarrow> string" where
  "showInt i = (if i < 0 then CHR ''-'' # showNat (nat (- i)) else showNat (nat i))"

definition readDec :: "string \<Rightarrow> int" where
  "readDec s = foldl (\<lambda>a c. 10 * a + int (digitVal c)) 0 s"

text \<open>
  \<open>strconv.ParseInt(s, 10, 64)\<close>: an optional sign, then at least one digit and nothing else,
  and a value in range; \<open>None\<close> is any error.
\<close>

definition parseInt64 :: "string \<Rightarrow> int option" where
  "parseInt64 s =
     (let neg = (take 1 s = ''-'');
          ds = (if take 1 s = ''-'' \<or> take 1 s = ''+'' then drop 1 s else s)
      in if ds = [] \<or> \<not> list_all isDigit ds then None
         else let n = readDec ds
              in if neg then (if n \<le> 2 ^ 63 then Some (- n) else None)
                 else (if n < 2 ^ 63 then Some n else None))"

text \<open>\<open>strconv.ParseBool\<close>.\<close>

definition parseBool :: "string \<Rightarrow> bool option" where
  "parseBool s =
     (if s \<in> set [''1'', ''t'', ''T'', ''TRUE'', ''true'', ''True''] then Some True
      else if s \<in> set [''0'', ''f'', ''F'', ''FALSE'', ''false'', ''False''] then Some False
      else None)"

text \<open>\<open>strings.Join\<close>.\<close>

fun joinWith :: "string \<Rightarrow> string list \<Rightarrow> string" where
  "joinWith sep [] = []"
| "joinWith sep [x] = x"
| "joinWith sep (x # y # ys) = x @ sep @ joinWith sep (y # ys)"

section \<open>Trimming\<close>

text \<open>\<open>clean ps s\<close>: no rune of \<open>ps\<close> starts \<open>s\<close>.\<close>

definition clean :: "string list \<Rightarrow> string \<Rightarrow> bool" where
  "clean ps s \<longleftrightarrow> (\<forall>p \<in> set ps. p \<noteq> [] \<longrightarrow> \<not> prefix p s)"

lemma trimLeftWith_clean: "clean ps (trimLeftWith ps s)"
proof (induction ps s rule: trimLeftWith.induct)
  case (1 ps s)
  then show ?case
    by (subst trimLeftWith.simps) (auto simp: clean_def find_None_iff split: option.split)
qed

lemma trimLeftWith_id: "clean ps s \<Longrightarrow> trimLeftWith ps s = s"
  by (subst trimLeftWith.simps) (auto simp: clean_def find_Some_iff split: option.split)

lemma trimLeftWith_suffix: "suffix (trimLeftWith ps s) s"
proof (induction ps s rule: trimLeftWith.induct)
  case (1 ps s)
  show ?case
  proof (cases "find (\<lambda>p. p \<noteq> [] \<and> prefix p s) ps")
    case None
    then show ?thesis by (subst trimLeftWith.simps) simp
  next
    case (Some p)
    then show ?thesis
      using "1.IH" [OF Some] by (subst trimLeftWith.simps) (auto intro: suffix_order.trans suffix_drop)
  qed
qed

lemma clean_prefix: "clean ps s \<Longrightarrow> prefix t s \<Longrightarrow> clean ps t"
  by (meson clean_def prefix_order.trans)

lemma trimSpace_ends:
  "clean spaces (trimSpace s)" "clean (map rev spaces) (rev (trimSpace s))"
proof -
  let ?l = "trimLeftWith spaces s"
  have "suffix (trimLeftWith (map rev spaces) (rev ?l)) (rev ?l)"
    by (rule trimLeftWith_suffix)
  then have "prefix (trimSpace s) ?l"
    by (simp add: trimSpace_def suffix_to_prefix)
  with trimLeftWith_clean show "clean spaces (trimSpace s)"
    by (rule clean_prefix)
  show "clean (map rev spaces) (rev (trimSpace s))"
    by (simp add: trimSpace_def trimLeftWith_clean)
qed

text \<open>A string is unchanged by \<open>TrimSpace\<close> just when neither end is a space.\<close>

lemma trimSpace_eq_iff:
  "trimSpace s = s \<longleftrightarrow> clean spaces s \<and> clean (map rev spaces) (rev s)"
proof
  assume "trimSpace s = s"
  then show "clean spaces s \<and> clean (map rev spaces) (rev s)"
    using trimSpace_ends [of s] by simp
next
  assume "clean spaces s \<and> clean (map rev spaces) (rev s)"
  then show "trimSpace s = s"
    by (simp add: trimSpace_def trimLeftWith_id)
qed

lemma trimSpace_idem [simp]: "trimSpace (trimSpace s) = trimSpace s"
  using trimSpace_ends [of s] by (simp add: trimSpace_eq_iff)

lemma trimSpace_Nil [simp]: "trimSpace [] = []"
  by (simp add: trimSpace_def trimLeftWith_id clean_def)

lemma trimSpace_sublist: "set (trimSpace s) \<subseteq> set s"
proof -
  have "set (trimLeftWith (map rev spaces) (rev (trimLeftWith spaces s))) \<subseteq> set (trimLeftWith spaces s)"
    using set_mono_suffix [OF trimLeftWith_suffix [of "map rev spaces" "rev (trimLeftWith spaces s)"]]
    by simp
  also have "\<dots> \<subseteq> set s"
    using trimLeftWith_suffix [of spaces s] set_mono_suffix by blast
  finally show ?thesis by (simp add: trimSpace_def)
qed

text \<open>Bytes that occur at an end of an encoded space.\<close>

definition spaceBytes :: "char set" where
  "spaceBytes = set (map hd spaces) \<union> set (map last spaces)"

lemma spaces_ends:
  "list_all (\<lambda>p. p \<noteq> [] \<and> hd p \<in> spaceBytes \<and> last p \<in> spaceBytes) spaces"
  by (auto simp: spaceBytes_def list_all_iff spaces_def)

lemma clean_hd: "hd s \<notin> hd ` set ps \<Longrightarrow> clean ps s"
  by (auto simp: clean_def prefix_def)

lemma trimSpace_no_space_ends:
  assumes "hd s \<notin> spaceBytes" "last s \<notin> spaceBytes" "s \<noteq> []"
  shows "trimSpace s = s"
proof -
  have "hd ` set spaces \<subseteq> spaceBytes"
    using spaces_ends by (auto simp: list_all_iff)
  moreover have "hd ` set (map rev spaces) \<subseteq> spaceBytes"
    using spaces_ends by (auto simp: list_all_iff hd_rev)
  ultimately show ?thesis
    using assms by (auto simp only: trimSpace_eq_iff hd_rev intro!: clean_hd)
qed

lemma trimSpace_no_space:
  assumes "set s \<inter> spaceBytes = {}"
  shows "trimSpace s = s"
proof (cases "s = []")
  case False
  then have "hd s \<in> set s" "last s \<in> set s" by auto
  then show ?thesis using assms False by (intro trimSpace_no_space_ends) blast+
qed simp

section \<open>Decimal numbers\<close>

lemma of_char_digit: "n < 10 \<Longrightarrow> of_char (digit n) = 48 + n"
  by (simp add: digit_def)

lemma digitVal_digit [simp]: "n < 10 \<Longrightarrow> digitVal (digit n) = n"
  by (simp add: digitVal_def of_char_digit)

lemma isDigit_digit [simp]: "n < 10 \<Longrightarrow> isDigit (digit n)"
  by (simp add: isDigit_def less_eq_char_def of_char_digit)

lemma isDigit_not_sign: "isDigit c \<Longrightarrow> c \<noteq> CHR ''-'' \<and> c \<noteq> CHR ''+'' \<and> c \<noteq> CHR '':''"
  by (auto simp: isDigit_def less_eq_char_def)

lemma readDec_snoc: "readDec (s @ [c]) = 10 * readDec s + int (digitVal c)"
  by (simp add: readDec_def)

lemma showNat_digits: "showNat n \<noteq> [] \<and> list_all isDigit (showNat n) \<and> readDec (showNat n) = int n"
proof (induction n rule: showNat.induct)
  case (1 n)
  show ?case
  proof (cases "n < 10")
    case True
    then show ?thesis by (subst (1 2 3) showNat.simps) (simp add: readDec_def)
  next
    case False
    with 1 have "readDec (showNat (n div 10)) = int (n div 10)" "list_all isDigit (showNat (n div 10))"
      by auto
    moreover have "10 * int (n div 10) + int (n mod 10) = int n" by presburger
    ultimately show ?thesis using False
      by (subst (1 2 3) showNat.simps) (simp add: readDec_snoc)
  qed
qed

text \<open>Printing and parsing a 64-bit integer round-trips.\<close>

lemma parseInt64_showInt:
  assumes "- (2 ^ 63) \<le> i" "i < 2 ^ 63"
  shows "parseInt64 (showInt i) = Some i"
proof (cases "i < 0")
  case True
  then show ?thesis
    using assms showNat_digits [of "nat (- i)"] by (simp add: parseInt64_def showInt_def Let_def)
next
  case False
  obtain c cs where c: "showNat (nat i) = c # cs" "isDigit c"
    using showNat_digits [of "nat i"] by (cases "showNat (nat i)") auto
  then show ?thesis
    using False assms showNat_digits [of "nat i"] isDigit_not_sign [of c]
    by (simp add: parseInt64_def showInt_def Let_def)
qed

lemma showNat_inj: "showNat m = showNat n \<longleftrightarrow> m = n"
  by (metis showNat_digits of_nat_eq_iff)

lemma showNat_only_digits: "\<not> isDigit c \<Longrightarrow> c \<notin> set (showNat n)"
  using showNat_digits [of n] by (auto simp: list_all_iff)

lemma not_isDigit: "\<not> isDigit CHR ''-''" "\<not> isDigit CHR '':''"
  using isDigit_not_sign by blast+

lemma showNat_no_sign: "showNat n \<noteq> CHR ''-'' # cs"
  using showNat_only_digits [OF not_isDigit(1), of n] by (cases "showNat n") auto

lemma showInt_inj: "showInt i = showInt j \<longleftrightarrow> i = j"
  using showNat_no_sign showNat_no_sign [symmetric]
  by (auto simp: showInt_def showNat_inj)

lemma showInt_no_colon: "CHR '':'' \<notin> set (showInt i)"
  using showNat_only_digits [OF not_isDigit(2)] by (simp add: showInt_def)

lemma parseInt64_range: "parseInt64 s = Some i \<Longrightarrow> - (2 ^ 63) \<le> i \<and> i < 2 ^ 63"
proof -
  have "0 \<le> a \<Longrightarrow> 0 \<le> foldl (\<lambda>a c. 10 * a + int (digitVal c)) a t" for a t
    by (induction t arbitrary: a) auto
  then have "0 \<le> readDec t" for t
    by (simp add: readDec_def)
  then show "parseInt64 s = Some i \<Longrightarrow> - (2 ^ 63) \<le> i \<and> i < 2 ^ 63"
    by (auto simp: parseInt64_def Let_def split: if_splits) (smt (verit))+
qed

end
