(* ===== verification/Netip.thy ===== *)
theory Netip
  imports GoStrings
begin

text \<open>
  Go's \<open>netip.ParseAddr\<close>, which the sources use as a test: is a string an IP address?
  \<open>parseAddrOk s\<close> is \<open>err == nil\<close>.  The loops of \<open>parseIPv4Fields\<close> and
  \<open>parseIPv6\<close> are followed step by step, with the checks in their order.
\<close>

text \<open>
  The loop of \<open>parseIPv4Fields\<close>: the byte before (\<open>s[i-1]\<close>, \<open>None\<close> at
  \<open>i == 0\<close>), \<open>val\<close>, \<open>pos\<close>, \<open>digLen\<close> and the bytes left.
\<close>

fun ipv4Loop :: "char option \<Rightarrow> nat \<Rightarrow> nat \<Rightarrow> nat \<Rightarrow> string \<Rightarrow> bool" where
  "ipv4Loop prev v pos digLen [] \<longleftrightarrow> \<not> pos < 3"
| "ipv4Loop prev v pos digLen (c # cs) \<longleftrightarrow>
     (if isDigit c then
        (if digLen = 1 \<and> v = 0 then False
         else if v * 10 + digitVal c > 255 then False
         else ipv4Loop (Some c) (v * 10 + digitVal c) pos (digLen + 1) cs)
      else if c = CHR ''.'' then
        (if prev = None \<or> cs = [] \<or> prev = Some CHR ''.'' then False
         else if pos = 3 then False
         else ipv4Loop (Some c) 0 (pos + 1) 0 cs)
      else False)"

definition parseIPv4Ok :: "string \<Rightarrow> bool" where
  "parseIPv4Ok s \<longleftrightarrow> ipv4Loop None 0 0 0 s"

definition isHex :: "char \<Rightarrow> bool" where
  "isHex c \<longleftrightarrow> isDigit c \<or> (CHR ''a'' \<le> c \<and> c \<le> CHR ''f'') \<or> (CHR ''A'' \<le> c \<and> c \<le> CHR ''F'')"

text \<open>
  The checks after the loop of \<open>parseIPv6\<close>: the whole string was used, and an ellipsis
  stands for at least one group where fewer than 16 bytes were written, and for none otherwise.
\<close>

definition ipv6Done :: "nat \<Rightarrow> bool \<Rightarrow> bool" where
  "ipv6Done i ellipsis \<longleftrightarrow> (if i < 16 then ellipsis else \<not> ellipsis)"

text \<open>
  The loop of \<open>parseIPv6\<close>: \<open>i\<close> bytes are written, \<open>ellipsis\<close> says whether
  \<open>::\<close> was seen.  A group of more than four digits fails before its value could pass
  \<open>math.MaxUint16\<close>.
\<close>

function ipv6Loop :: "nat \<Rightarrow> bool \<Rightarrow> string \<Rightarrow> bool" where
  "ipv6Loop i ellipsis s \<longleftrightarrow>
     (if \<not> i < 16 then s = [] \<and> ipv6Done i ellipsis
      else let off = length (takeWhile isHex s); rest = drop off s in
        if off > 4 then False
        else if off = 0 then False
        else if take 1 rest = ''.'' then
          (if \<not> ellipsis \<and> i \<noteq> 12 then False
           else if i + 4 > 16 then False
           else parseIPv4Ok s \<and> ipv6Done (i + 4) ellipsis)
        else if rest = [] then ipv6Done (i + 2) ellipsis
        else if take 1 rest \<noteq> '':'' then False
        else if length rest = 1 then False
        else if take 1 (drop 1 rest) = '':'' then
          (if ellipsis then False
           else if drop 2 rest = [] then ipv6Done (i + 2) True
           else ipv6Loop (i + 2) True (drop 2 rest))
        else ipv6Loop (i + 2) ellipsis (drop 1 rest))"
  by pat_completeness auto
termination
  by (relation "measure (\<lambda>(i, e, s). 16 - i)") auto

declare ipv6Loop.simps [simp del]

definition parseIPv6Ok :: "string \<Rightarrow> bool" where
  "parseIPv6Ok inp \<longleftrightarrow>
     (let s = takeWhile (\<lambda>c. c \<noteq> CHR ''%'') inp;
          zone = drop (length s + 1) inp
      in if length s < length inp \<and> zone = [] then False
         else if take 2 s = ''::'' then
           (if drop 2 s = [] then True else ipv6Loop 0 True (drop 2 s))
         else ipv6Loop 0 False s)"

definition parseAddrOk :: "string \<Rightarrow> bool" where
  "parseAddrOk s \<longleftrightarrow>
     (case find (\<lambda>c. c = CHR ''.'' \<or> c = CHR '':'' \<or> c = CHR ''%'') s of
        None \<Rightarrow> False
      | Some c \<Rightarrow> if c = CHR ''.'' then parseIPv4Ok s
                  else if c = CHR '':'' then parseIPv6Ok s
                  else False)"

section \<open>What is accepted\<close>

lemma parseAddrOk_Nil [simp]: "\<not> parseAddrOk []"
  by (simp add: parseAddrOk_def)

text \<open>One octet, digit by digit.\<close>

lemma ipv4Loop_digits:
  assumes "list_all isDigit ds" "ds \<noteq> []" "n = foldl (\<lambda>a c. 10 * a + digitVal c) v ds" "n \<le> 255"
    and "v \<noteq> 0 \<or> (d = 0 \<and> (length ds = 1 \<or> digitVal (hd ds) \<noteq> 0))"
  shows "\<exists>k. ipv4Loop prev v pos d (ds @ s) = ipv4Loop (Some (last ds)) n pos k s"
  using assms
proof (induction ds arbitrary: prev v d)
  case Nil
  then show ?case by simp
next
  case (Cons c cs)
  define f where "f = (\<lambda>a c. 10 * a + digitVal c)"
  have mono: "a \<le> foldl f a xs" for a xs
  proof (induction xs arbitrary: a)
    case (Cons x xs)
    have "a \<le> f a x" by (simp add: f_def)
    also have "\<dots> \<le> foldl f (f a x) xs" by (rule Cons.IH)
    finally show ?case by simp
  qed simp
  have le: "f v c \<le> 255"
    using mono [of "f v c" cs] Cons.prems(3,4) by (simp add: f_def)
  have step: "ipv4Loop prev v pos d ((c # cs) @ s) = ipv4Loop (Some c) (f v c) pos (d + 1) (cs @ s)"
    using Cons.prems le by (auto simp: f_def mult.commute)
  show ?case
  proof (cases "cs = []")
    case True
    then show ?thesis using step Cons.prems(3) by (auto simp: f_def)
  next
    case False
    have "f v c \<noteq> 0"
      using Cons.prems(5) False by (auto simp: f_def)
    then show ?thesis
      using Cons.IH [of "f v c" "d + 1" "Some c"] Cons.prems False step by (simp add: f_def)
  qed
qed

lemma showNat_lead: "length (showNat n) = 1 \<or> digitVal (hd (showNat n)) \<noteq> 0"
proof (induction n rule: showNat.induct)
  case (1 n)
  show ?case
  proof (cases "n < 10")
    case True
    then show ?thesis by (subst (1) showNat.simps) simp
  next
    case False
    have ne: "showNat (n div 10) \<noteq> []" using showNat_digits by blast
    have "digitVal (hd (showNat (n div 10))) \<noteq> 0"
    proof (cases "n div 10 < 10")
      case True
      then show ?thesis using False by (subst showNat.simps) simp
    next
      case big: False
      then have "length (showNat (n div 10)) \<noteq> 1"
        using showNat_digits by (subst showNat.simps) (simp add: neq_Nil_conv)
      then show ?thesis using 1 False by blast
    qed
    then show ?thesis using False ne by (subst (2) showNat.simps) simp
  qed
qed

lemma readNat_showNat: "foldl (\<lambda>a c. 10 * a + digitVal c) 0 (showNat n) = n"
proof -
  have "int (foldl (\<lambda>a c. 10 * a + digitVal c) v s) = foldl (\<lambda>a c. 10 * a + int (digitVal c)) (int v) s" for v s
    by (induction s arbitrary: v) simp_all
  from this [of 0 "showNat n"] show ?thesis
    using showNat_digits [of n] by (simp add: readDec_def)
qed

lemma ipv4Loop_octet:
  assumes "n \<le> 255"
  shows "\<exists>c k. isDigit c \<and> ipv4Loop prev 0 pos 0 (showNat n @ s) = ipv4Loop (Some c) n pos k s"
proof -
  have "isDigit (last (showNat n))"
    using showNat_digits [of n] by (auto simp: list_all_iff)
  moreover have "\<exists>k. ipv4Loop prev 0 pos 0 (showNat n @ s) = ipv4Loop (Some (last (showNat n))) n pos k s"
    using assms showNat_digits [of n] showNat_lead [of n]
      readNat_showNat [of n] by (intro ipv4Loop_digits) auto
  ultimately show ?thesis by blast
qed

lemma ipv4Loop_dot:
  "isDigit c \<Longrightarrow> s \<noteq> [] \<Longrightarrow> pos < 3 \<Longrightarrow>
    ipv4Loop (Some c) v pos k (CHR ''.'' # s) = ipv4Loop (Some CHR ''.'') 0 (pos + 1) 0 s"
  by (auto simp: isDigit_def less_eq_char_def)

definition dottedQuad :: "nat \<Rightarrow> nat \<Rightarrow> nat \<Rightarrow> nat \<Rightarrow> string" where
  "dottedQuad a b c d = showNat a @ ''.'' @ showNat b @ ''.'' @ showNat c @ ''.'' @ showNat d"

lemma parseIPv4Ok_dottedQuad:
  assumes "a \<le> 255" "b \<le> 255" "c \<le> 255" "d \<le> 255"
  shows "parseIPv4Ok (dottedQuad a b c d)"
proof -
  have ne: "showNat n \<noteq> []" for n using showNat_digits by blast
  have octet: "ipv4Loop prev 0 pos 0 (showNat n @ CHR ''.'' # s) = ipv4Loop (Some CHR ''.'') 0 (pos + 1) 0 s"
    if "n \<le> 255" "s \<noteq> []" "pos < 3" for prev pos n s
    using ipv4Loop_octet [OF that(1), of prev pos "CHR ''.'' # s"] ipv4Loop_dot that(2,3) by metis
  have "ipv4Loop (Some CHR ''.'') 0 3 0 (showNat d @ [])"
    using ipv4Loop_octet [OF assms(4), of "Some CHR ''.''" 3 "[]"] by auto
  then have "ipv4Loop (Some CHR ''.'') 0 (Suc (Suc (Suc 0))) 0 (showNat d)"
    by (simp add: numeral_3_eq_3)
  then show ?thesis
    using assms by (simp add: parseIPv4Ok_def dottedQuad_def octet ne)
qed

text \<open>An accepted octet is at most 255.\<close>

lemma ipv4Loop_bound:
  "ipv4Loop prev v pos k (ds @ s) \<Longrightarrow> list_all isDigit ds \<Longrightarrow> v \<le> 255 \<Longrightarrow>
    foldl (\<lambda>a c. 10 * a + digitVal c) v ds \<le> 255 \<and>
    (\<exists>prev' k'. ipv4Loop prev' (foldl (\<lambda>a c. 10 * a + digitVal c) v ds) pos k' s)"
proof (induction ds arbitrary: prev v k)
  case (Cons c cs)
  then have "10 * v + digitVal c \<le> 255" "ipv4Loop (Some c) (10 * v + digitVal c) pos (k + 1) (cs @ s)"
    by (auto split: if_splits simp: mult.commute)
  then show ?case using Cons.IH [of "Some c" "10 * v + digitVal c" "k + 1"] Cons.prems(2) by simp
qed auto

lemma ipv4Loop_number:
  assumes "ipv4Loop prev 0 pos k (showNat n @ s)"
  shows "n \<le> 255 \<and> (\<exists>prev' k'. ipv4Loop prev' n pos k' s)"
  using ipv4Loop_bound [OF assms] showNat_digits [of n] readNat_showNat [of n] by simp

lemma ipv4Loop_after_dot: "ipv4Loop prev v pos k (CHR ''.'' # s) \<Longrightarrow> ipv4Loop (Some CHR ''.'') 0 (pos + 1) 0 s"
  by (auto simp: isDigit_def less_eq_char_def split: if_splits)

lemma parseIPv4Ok_dottedQuad_iff:
  "parseIPv4Ok (dottedQuad a b c d) \<longleftrightarrow> a \<le> 255 \<and> b \<le> 255 \<and> c \<le> 255 \<and> d \<le> 255"
proof
  assume "parseIPv4Ok (dottedQuad a b c d)"
  then have l1: "ipv4Loop None 0 0 0 (showNat a @ CHR ''.'' # showNat b @ CHR ''.'' # showNat c @ CHR ''.'' # showNat d @ [])"
    by (simp add: parseIPv4Ok_def dottedQuad_def)
  from ipv4Loop_number [OF l1] obtain p1 k1 where
    "a \<le> 255" and "ipv4Loop p1 a 0 k1 (CHR ''.'' # showNat b @ CHR ''.'' # showNat c @ CHR ''.'' # showNat d @ [])"
    by blast
  moreover from ipv4Loop_number [OF ipv4Loop_after_dot [OF calculation(2)]] obtain p2 k2 where
    "b \<le> 255" and "ipv4Loop p2 b (0 + 1) k2 (CHR ''.'' # showNat c @ CHR ''.'' # showNat d @ [])"
    by blast
  moreover from ipv4Loop_number [OF ipv4Loop_after_dot [OF calculation(4)]] obtain p3 k3 where
    "c \<le> 255" and "ipv4Loop p3 c (0 + 1 + 1) k3 (CHR ''.'' # showNat d @ [])"
    by blast
  moreover from ipv4Loop_number [OF ipv4Loop_after_dot [OF calculation(6)]] have "d \<le> 255" by blast
  ultimately show "a \<le> 255 \<and> b \<le> 255 \<and> c \<le> 255 \<and> d \<le> 255" by blast
qed (simp add: parseIPv4Ok_dottedQuad)

lemma find_append_None: "(\<And>x. x \<in> set xs \<Longrightarrow> \<not> P x) \<Longrightarrow> find P (xs @ ys) = find P ys"
  by (induction xs) auto

lemma dottedQuad_first_special:
  "find (\<lambda>c. c = CHR ''.'' \<or> c = CHR '':'' \<or> c = CHR ''%'') (dottedQuad a b c d) = Some CHR ''.''"
proof -
  have "\<not> (x = CHR ''.'' \<or> x = CHR '':'' \<or> x = CHR ''%'')" if "x \<in> set (showNat a)" for x
    using that showNat_digits [of a] by (auto simp: list_all_iff isDigit_def less_eq_char_def)
  then show ?thesis unfolding dottedQuad_def by (subst find_append_None) auto
qed

lemma parseAddrOk_dottedQuad_iff:
  "parseAddrOk (dottedQuad a b c d) \<longleftrightarrow> a \<le> 255 \<and> b \<le> 255 \<and> c \<le> 255 \<and> d \<le> 255"
  by (simp add: parseAddrOk_def dottedQuad_first_special parseIPv4Ok_dottedQuad_iff)

text \<open>The zone of an IPv6 address is not looked at beyond its being non-empty.\<close>

lemma takeWhile_neq: "c \<notin> set s \<Longrightarrow> takeWhile (\<lambda>x. x \<noteq> c) (s @ c # z) = s"
  by (induction s) auto

lemma takeWhile_neq_all: "c \<notin> set s \<Longrightarrow> takeWhile (\<lambda>x. x \<noteq> c) s = s"
  by (induction s) auto

lemma parseIPv6Ok_zone:
  assumes "CHR ''%'' \<notin> set s" "z \<noteq> []"
  shows "parseIPv6Ok (s @ CHR ''%'' # z) \<longleftrightarrow> parseIPv6Ok s"
  using assms(2) by (simp add: parseIPv6Ok_def Let_def takeWhile_neq [OF assms(1)]
      takeWhile_neq_all [OF assms(1)])


section \<open>A final dot\<close>

lemma isDigit_dot [simp]: "\<not> isDigit CHR ''.''"
  by (simp add: isDigit_def less_eq_char_def)

lemma isHex_dot [simp]: "\<not> isHex CHR ''.''"
  by (simp add: isHex_def less_eq_char_def)

lemma ipv4Loop_last_dot: "ipv4Loop prev v pos d s \<Longrightarrow> s \<noteq> [] \<Longrightarrow> last s \<noteq> CHR ''.''"
proof (induction prev v pos d s rule: ipv4Loop.induct)
  case (2 prev v pos digLen c cs)
  then show ?case by (cases "cs = []") (auto split: if_splits)
qed simp

lemma ipv6Loop_last_dot: "ipv6Loop i e s \<Longrightarrow> s \<noteq> [] \<Longrightarrow> last s \<noteq> CHR ''.''"
proof (induction i e s rule: ipv6Loop.induct)
  case (1 i e s)
  define off where "off = length (takeWhile isHex s)"
  define rest where "rest = drop off s"
  have rest: "rest = dropWhile isHex s"
    by (simp add: rest_def off_def dropWhile_eq_drop)
  show ?case
  proof (cases "rest = []")
    case True
    then have "\<forall>c \<in> set s. isHex c" using rest by (simp add: dropWhile_eq_Nil_conv)
    then show ?thesis using 1(4) by (metis isHex_dot last_in_set)
  next
    case False
    then have last: "last s = last rest"
      by (simp add: rest_def last_drop)
    have drop: "last (drop k rest) = last rest" if "drop k rest \<noteq> []" for k
      using that by (simp add: last_drop)
    have i: "i < 16"
      using 1(3,4) by (subst (asm) ipv6Loop.simps) (auto split: if_splits)
    consider "take 1 rest = ''.''" "parseIPv4Ok s"
      | "drop 2 rest = []" "take 1 rest = '':''" "take 1 (drop 1 rest) = '':''"
      | "ipv6Loop (i + 2) True (drop 2 rest)" "drop 2 rest \<noteq> []" "\<not> e" "take 1 (drop 1 rest) = '':''"
        "take 1 rest = '':''" "length rest \<noteq> 1" "off \<noteq> 0" "\<not> off > 4"
      | "ipv6Loop (i + 2) e (drop 1 rest)" "drop 1 rest \<noteq> []" "take 1 (drop 1 rest) \<noteq> '':''"
        "take 1 rest = '':''" "length rest \<noteq> 1" "off \<noteq> 0" "\<not> off > 4"
      using 1(3) False i
      by (subst (asm) ipv6Loop.simps)
        (auto simp: Let_def le_Suc_eq off_def [symmetric] rest_def [symmetric] split: if_splits)
    then show ?thesis
    proof cases
      case 1
      then show ?thesis using ipv4Loop_last_dot \<open>s \<noteq> []\<close> by (auto simp: parseIPv4Ok_def)
    next
      case 2
      then have "rest = ''::''"
        by (cases rest; cases "tl rest") (auto simp: numeral_2_eq_2)
      then show ?thesis using last by simp
    next
      case 3
      then have "last (drop 2 rest) \<noteq> CHR ''.''"
        using "1.IH"(1) [OF _ off_def rest_def] i False by auto
      then show ?thesis using last drop 3(2) by simp
    next
      case 4
      then have "last (drop 1 rest) \<noteq> CHR ''.''"
        using "1.IH"(2) [OF _ off_def rest_def] i False by auto
      then show ?thesis using last drop 4(2) by simp
    qed
  qed
qed

lemma parseIPv6Ok_last_dot:
  assumes "parseIPv6Ok s" "CHR ''%'' \<notin> set s" "s \<noteq> []"
  shows "last s \<noteq> CHR ''.''"
proof (cases "take 2 s = ''::''")
  case True
  then have s: "s = ''::'' @ drop 2 s" by (metis append_take_drop_id)
  show ?thesis
  proof (cases "drop 2 s = []")
    case True
    then have "s = ''::''" using s by simp
    then show ?thesis by simp
  next
    case False
    then have "ipv6Loop 0 True (drop 2 s)"
      using assms True by (simp add: parseIPv6Ok_def takeWhile_neq_all)
    then have "last (drop 2 s) \<noteq> CHR ''.''" using False by (rule ipv6Loop_last_dot)
    then show ?thesis using False by (simp add: last_drop)
  qed
next
  case False
  then have "ipv6Loop 0 False s"
    using assms by (simp add: parseIPv6Ok_def takeWhile_neq_all)
  then show ?thesis using assms(3) by (rule ipv6Loop_last_dot)
qed

text \<open>
  Removing a final dot from an accepted address leaves an accepted address, or one whose zone
  has become empty.
\<close>

lemma parseAddrOk_dot:
  assumes "parseAddrOk (x @ ''.'')"
  shows "parseAddrOk x \<or> (x \<noteq> [] \<and> last x = CHR ''%'')"
proof -
  let ?P = "\<lambda>c. c = CHR ''.'' \<or> c = CHR '':'' \<or> c = CHR ''%''"
  have no4: "\<not> parseIPv4Ok (x @ ''.'')"
    using ipv4Loop_last_dot [of None 0 0 0 "x @ ''.''"] by (auto simp: parseIPv4Ok_def)
  have find: "find ?P (x @ ''.'') = Some CHR '':''" and v6: "parseIPv6Ok (x @ ''.'')"
    using assms no4 by (auto simp: parseAddrOk_def split: option.splits if_splits)
  have findx: "find ?P x = Some CHR '':''"
    using find by (induction x) (auto split: if_splits)
  have "CHR ''%'' \<in> set x"
    using parseIPv6Ok_last_dot [OF v6] by auto
  then obtain a z where x: "x = a @ CHR ''%'' # z" "CHR ''%'' \<notin> set a"
    by (meson split_list_first)
  show ?thesis
  proof (cases "z = []")
    case True
    then show ?thesis using x by simp
  next
    case False
    have "parseIPv6Ok (a @ CHR ''%'' # (z @ ''.''))" using v6 x by simp
    then have "parseIPv6Ok x"
      using parseIPv6Ok_zone [OF x(2), of z] parseIPv6Ok_zone [OF x(2), of "z @ ''.''"] False x(1)
      by simp
    then show ?thesis using findx by (simp add: parseAddrOk_def)
  qed
qed

end
