(* ===== verification/ApiTypes.thy ===== *)
theory ApiTypes
  imports Netip
begin

text \<open>
  The data the controllers work on.  The Go types live in the module \<open>astradns-types\<close> and in
  Kubernetes' \<open>apimachinery\<close>, outside this repository; the records below hold the fields the
  sources read or write (they are visible in the sources and in the CRD schemas under
  \<open>config/crd/bases\<close>), with the field's Go name after a prefix that names the record.
  Values of type \<open>int32\<close> and \<open>int64\<close> are \<open>int\<close>; where the sources convert or
  count, the wrap-around is written out with \<open>int32\<close>.  A time is its distance from Go's zero
  time, so \<open>IsZero\<close> is \<open>= 0\<close>.

  Errors are values.  \<open>Errorf\<close> is an error made by \<open>errors.New\<close> or by
  \<open>fmt.Errorf\<close>, kept as its format and its arguments; \<open>Wrap\<close> is \<open>fmt.Errorf\<close>
  with a \<open>%w\<close> verb; \<open>Sentinel\<close> is one of the package's error variables, which Go
  compares by identity; \<open>ApiErr\<close> and \<open>Foreign\<close> come from the API server and from other
  packages.

  Functions of other packages are fields of the record \<open>k8s\<close> and arguments of the
  definitions; what the packages document of them are the predicates of the last section, which
  theorems take as hypotheses where they need them.
\<close>

datatype fmtArg = AInt int | AStr string

datatype apiError = NotFound | OtherApiError string

datatype goError =
    Errorf string "fmtArg list"
  | Wrap string "fmtArg list" goError
  | Sentinel string
  | ApiErr apiError
  | Foreign string

datatype message = MErr goError | MText string "fmtArg list"

text \<open>\<open>errors.Is(err, target)\<close>.\<close>

fun errorsIs :: "goError \<Rightarrow> goError \<Rightarrow> bool" where
  "errorsIs (Wrap f as e) target \<longleftrightarrow> Wrap f as e = target \<or> errorsIs e target"
| "errorsIs e target \<longleftrightarrow> e = target"

lemma errorsIs_refl [simp]: "errorsIs e e"
  by (cases e) simp_all

text \<open>\<open>apierrors.IsNotFound\<close> on the error of a client call.\<close>

definition isNotFound :: "apiError \<Rightarrow> bool" where
  "isNotFound e \<longleftrightarrow> e = NotFound"

section \<open>Objects\<close>

record objectMeta =
  om_Name :: string
  om_Namespace :: string
  om_UID :: string
  om_ResourceVersion :: string
  om_Generation :: int
  om_CreationTimestamp :: int
  om_DeletionTimestamp :: "int option"
  om_Annotations :: "(string, string) gomap"
  om_Finalizers :: "string list"

datatype conditionStatus = ConditionTrue | ConditionFalse

record condition =
  cd_Type :: string
  cd_Status :: conditionStatus
  cd_ObservedGeneration :: int
  cd_Reason :: string
  cd_Message :: message

record upstream =
  up_Address :: string
  up_Port :: int
  up_Transport :: string
  up_TLSServerName :: string
  up_Weight :: int
  up_Preference :: int

record domainFilter =
  df_Allow :: "string list"
  df_Deny :: "string list"
  df_Action :: string

record poolSpec =
  ps_Upstreams :: "upstream list"
  ps_WorkerThreads :: int
  ps_DNSSECMode :: string
  ps_DomainFilter :: domainFilter

record status =
  st_Conditions :: "condition list"
  st_ObservedGeneration :: int

record pool =
  po_Meta :: objectMeta
  po_Spec :: poolSpec
  po_Status :: status

record profileSpec =
  pf_MaxEntries :: int
  pf_PositiveTtlMinSeconds :: int
  pf_PositiveTtlMaxSeconds :: int
  pf_NegativeTtlSeconds :: int
  pf_PrefetchEnabled :: bool
  pf_PrefetchThreshold :: int

record profile =
  pr_Meta :: objectMeta
  pr_Spec :: profileSpec
  pr_Status :: status

record policySpec =
  pl_SelectorNamespaces :: "string list"
  pl_UpstreamPoolRef :: string
  pl_CacheProfileRef :: string

record policy =
  pc_Meta :: objectMeta
  pc_Spec :: policySpec
  pc_Status :: status
  pc_AppliedNodes :: int

record configMap =
  cm_Name :: string
  cm_Namespace :: string
  cm_Data :: "(string, string) gomap"

text \<open>\<open>corev1.Namespace\<close>: its metadata.\<close>

type_synonym namespace = objectMeta

section \<open>The engine configuration\<close>

text \<open>
  \<open>engine.UpstreamTransport\<close>, \<open>engine.DNSSECMode\<close> and
  \<open>engine.DomainFilterAction\<close> are string types; their constants have the values the CRD
  schema enumerates.
\<close>

abbreviation UpstreamTransportDNS :: string where "UpstreamTransportDNS \<equiv> ''dns''"
abbreviation UpstreamTransportDoT :: string where "UpstreamTransportDoT \<equiv> ''dot''"
abbreviation UpstreamTransportDoH :: string where "UpstreamTransportDoH \<equiv> ''doh''"
abbreviation DNSSECModeOff :: string where "DNSSECModeOff \<equiv> ''off''"
abbreviation DNSSECModeProcess :: string where "DNSSECModeProcess \<equiv> ''process''"
abbreviation DNSSECModeValidate :: string where "DNSSECModeValidate \<equiv> ''validate''"
abbreviation DomainFilterActionRefused :: string where "DomainFilterActionRefused \<equiv> ''refused''"
abbreviation DomainFilterActionNXDomain :: string where "DomainFilterActionNXDomain \<equiv> ''nxdomain''"

record upstreamConfig =
  uc_Address :: string
  uc_Port :: int
  uc_Transport :: string
  uc_TLSServerName :: string
  uc_Weight :: int
  uc_Preference :: int

record cacheConfig =
  cc_MaxEntries :: int
  cc_PositiveTtlMin :: int
  cc_PositiveTtlMax :: int
  cc_NegativeTtl :: int
  cc_PrefetchEnabled :: bool
  cc_PrefetchThreshold :: int

record engineConfig =
  ec_Upstreams :: "upstreamConfig list"
  ec_Cache :: cacheConfig
  ec_ListenAddr :: string
  ec_ListenPort :: int
  ec_WorkerThreads :: int
  ec_DNSSECMode :: string
  ec_DomainFilter :: domainFilter

section \<open>Functions of other packages\<close>

record k8s =
  isDNS1123Subdomain :: "string \<Rightarrow> string list"
  isDNS1123Label :: "string \<Rightarrow> string list"
  setStatusCondition :: "condition list \<Rightarrow> condition \<Rightarrow> condition list"
  containsFinalizer :: "string list \<Rightarrow> string \<Rightarrow> bool"
  addFinalizer :: "string list \<Rightarrow> string \<Rightarrow> string list"
  removeFinalizer :: "string list \<Rightarrow> string \<Rightarrow> string list"

definition lowerAlnum :: "char \<Rightarrow> bool" where
  "lowerAlnum c \<longleftrightarrow> isDigit c \<or> (CHR ''a'' \<le> c \<and> c \<le> CHR ''z'')"

text \<open>
  \<open>validation.IsDNS1123Subdomain\<close> documents: lower case alphanumeric characters, \<open>-\<close> or
  \<open>.\<close>, starting and ending with an alphanumeric character, at most 253 bytes; no error means
  all of this.
\<close>

definition dns1123_documented :: "k8s \<Rightarrow> bool" where
  "dns1123_documented K \<longleftrightarrow>
     (\<forall>s. isDNS1123Subdomain K s = [] \<longrightarrow>
        s \<noteq> [] \<and> length s \<le> 253 \<and> lowerAlnum (hd s) \<and> lowerAlnum (last s) \<and>
        list_all (\<lambda>c. lowerAlnum c \<or> c = CHR ''-'' \<or> c = CHR ''.'') s)"

text \<open>
  \<open>meta.SetStatusCondition\<close> documents: the condition of the new one's type is set to it, or
  added; conditions of other types stay.
\<close>

definition conditions_documented :: "k8s \<Rightarrow> bool" where
  "conditions_documented K \<longleftrightarrow>
     (\<forall>cs c. find (\<lambda>d. cd_Type d = cd_Type c) (setStatusCondition K cs c) = Some c \<and>
        (\<forall>t. t \<noteq> cd_Type c \<longrightarrow>
           find (\<lambda>d. cd_Type d = t) (setStatusCondition K cs c) = find (\<lambda>d. cd_Type d = t) cs))"

text \<open>All fields are updated to those of the new condition, so setting it again changes nothing.\<close>

definition conditions_settle :: "k8s \<Rightarrow> bool" where
  "conditions_settle K \<longleftrightarrow>
     (\<forall>cs c. setStatusCondition K (setStatusCondition K cs c) c = setStatusCondition K cs c)"

lemma conditions_find:
  "conditions_documented K \<Longrightarrow> cd_Type c = t \<Longrightarrow>
    find (\<lambda>d. cd_Type d = t) (setStatusCondition K cs c) = Some c"
  by (auto simp: conditions_documented_def)

text \<open>\<open>controllerutil.AddFinalizer\<close>, \<open>RemoveFinalizer\<close> and \<open>ContainsFinalizer\<close>.\<close>

definition finalizers_documented :: "k8s \<Rightarrow> bool" where
  "finalizers_documented K \<longleftrightarrow>
     (\<forall>fs f. (containsFinalizer K fs f \<longleftrightarrow> f \<in> set fs) \<and>
        set (addFinalizer K fs f) = insert f (set fs) \<and>
        set (removeFinalizer K fs f) = set fs - {f})"

lemma lowerAlnum_not_space: "lowerAlnum c \<Longrightarrow> c \<notin> spaceBytes"
  by (auto simp: lowerAlnum_def isDigit_def spaceBytes_def spaces_def less_eq_char_def)

lemma trimSpace_alnum: "s \<noteq> [] \<Longrightarrow> lowerAlnum (hd s) \<Longrightarrow> lowerAlnum (last s) \<Longrightarrow> trimSpace s = s"
  by (intro trimSpace_no_space_ends) (simp_all add: lowerAlnum_not_space)

lemmas lit_simps = lowerAlnum_def isDigit_def less_eq_char_def less_char_def

text \<open>A name the documented check accepts is unchanged by \<open>TrimSpace\<close>.\<close>

lemma dns1123_trim:
  assumes "dns1123_documented K" "isDNS1123Subdomain K s = []"
  shows "trimSpace s = s"
  using assms by (intro trimSpace_no_space_ends) (auto simp: dns1123_documented_def lowerAlnum_not_space)

lemma dns1123_last:
  assumes "dns1123_documented K" "isDNS1123Subdomain K s = []"
  shows "trimSuffix s ''.'' = s"
proof -
  have "s \<noteq> []" "lowerAlnum (last s)"
    using assms by (auto simp: dns1123_documented_def)
  moreover have "\<not> lowerAlnum CHR ''.''"
    by (simp add: lowerAlnum_def isDigit_def less_eq_char_def)
  ultimately show ?thesis
    by (auto simp: trimSuffix_def suffix_def)
qed

end
