(* ===== verification/Selection.thy ===== *)
theory Selection
  imports GoSort ApiTypes
begin

text \<open>
  Which pool of a namespace is active: \<open>initialRV\<close>, \<open>sortPoolsForSelection\<close> and the pure
  part of \<open>selectActivePoolName\<close> (\<open>controllers/dnsupstreampool_controller.go\<close>).

  The comparator of \<open>sort.Slice\<close> is a strict weak order on pools that all carry the stamp
  \<open>initial-resource-version\<close>, and on pools none of which does (both interpretations below), but
  not on a mixture of the two.
\<close>

abbreviation initialRVAnnotation :: string where
  "initialRVAnnotation \<equiv> ''dns.astradns.com/initial-resource-version''"

definition initialRV :: "pool \<Rightarrow> int" where
  "initialRV p =
     (if om_Annotations (po_Meta p) = None then 0
      else case parseInt64 (gm_index '''' (om_Annotations (po_Meta p)) initialRVAnnotation) of
        None \<Rightarrow> 0
      | Some v \<Rightarrow> v)"

abbreviation poolName :: "pool \<Rightarrow> string" where
  "poolName p \<equiv> om_Name (po_Meta p)"

abbreviation poolCreated :: "pool \<Rightarrow> int" where
  "poolCreated p \<equiv> om_CreationTimestamp (po_Meta p)"

definition poolLess :: "pool \<Rightarrow> pool \<Rightarrow> bool" where
  "poolLess a b =
     (let left = poolCreated a; right = poolCreated b in
      if left \<noteq> 0 \<and> right \<noteq> 0 \<and> left \<noteq> right then left < right
      else let leftIRV = initialRV a; rightIRV = initialRV b in
        if leftIRV > 0 \<and> rightIRV > 0 \<and> leftIRV \<noteq> rightIRV then leftIRV < rightIRV
        else poolName a < poolName b)"

definition sortPoolsForSelection :: "pool list \<Rightarrow> pool list" where
  "sortPoolsForSelection items = insertionSort poolLess items"

abbreviation poolSelectionReasonSingle :: string where "poolSelectionReasonSingle \<equiv> ''single_pool''"
abbreviation poolSelectionReasonOldest :: string where "poolSelectionReasonOldest \<equiv> ''oldest_pool''"

text \<open>\<open>selectActivePoolName\<close> after the listing: name, number of pools and reason.\<close>

definition selectFromPools :: "pool list \<Rightarrow> string \<times> int \<times> string" where
  "selectFromPools items =
     (case sortPoolsForSelection items of
        [] \<Rightarrow> ('''', 0, '''')
      | p # ps \<Rightarrow> (poolName p, int (length (p # ps)),
           if length (p # ps) > 1 then poolSelectionReasonOldest else poolSelectionReasonSingle))"

section \<open>The comparator\<close>

definition stampedPools :: "pool set" where
  "stampedPools = {p. poolCreated p \<noteq> 0 \<and> initialRV p > 0}"

definition unstampedPools :: "pool set" where
  "unstampedPools = {p. poolCreated p \<noteq> 0 \<and> \<not> initialRV p > 0}"

lemma poolLess_stamped:
  "a \<in> stampedPools \<Longrightarrow> b \<in> stampedPools \<Longrightarrow>
    poolLess a b \<longleftrightarrow> poolCreated a < poolCreated b \<or>
      poolCreated a = poolCreated b \<and>
        (initialRV a < initialRV b \<or> initialRV a = initialRV b \<and> poolName a < poolName b)"
  by (auto simp: poolLess_def stampedPools_def Let_def)

lemma poolLess_unstamped:
  "a \<in> unstampedPools \<Longrightarrow> b \<in> unstampedPools \<Longrightarrow>
    poolLess a b \<longleftrightarrow> poolCreated a < poolCreated b \<or>
      poolCreated a = poolCreated b \<and> poolName a < poolName b"
  by (auto simp: poolLess_def unstampedPools_def Let_def)

interpretation stamped: strict_weak poolLess stampedPools
  by unfold_locales (auto simp: poolLess_stamped)

interpretation unstamped: strict_weak poolLess unstampedPools
  by unfold_locales (auto simp: poolLess_unstamped)

lemma mset_sortPools [simp]: "mset (sortPoolsForSelection ps) = mset ps"
  by (simp add: sortPoolsForSelection_def)

lemma sortPools_Nil_iff [simp]: "sortPoolsForSelection ps = [] \<longleftrightarrow> ps = []"
  by (simp add: sortPoolsForSelection_def)

lemma length_sortPools [simp]: "length (sortPoolsForSelection ps) = length ps"
  by (simp add: sortPoolsForSelection_def)

lemma set_sortPools [simp]: "set (sortPoolsForSelection ps) = set ps"
  by (simp add: sortPoolsForSelection_def)

lemma sortPools_Nil [simp]: "sortPoolsForSelection [] = []"
  by (simp add: sortPoolsForSelection_def insertionSort_def)

lemma sortPools_single [simp]: "sortPoolsForSelection [p] = [p]"
  by (simp add: sortPoolsForSelection_def)

text \<open>Pools are not ordered only when their names, and so the pools of one listing, are equal.\<close>

lemma same_name_eq:
  assumes "distinct (map poolName ps)" "a \<in> set ps" "b \<in> set ps" "poolName a = poolName b"
  shows "a = b"
  using assms by (metis distinct_map inj_onD)

lemma sortPools_permutation:
  assumes "mset qs = mset ps" "distinct (map poolName ps)"
    and "set ps \<subseteq> stampedPools \<or> set ps \<subseteq> unstampedPools"
  shows "sortPoolsForSelection qs = sortPoolsForSelection ps"
proof -
  have sets: "set qs = set ps" using assms(1) by (rule distinct_mset_eq_set_eq)
  have m: "mset (sortPoolsForSelection qs) = mset (sortPoolsForSelection ps)"
    using assms(1) by simp
  show ?thesis
  proof (cases "set ps \<subseteq> stampedPools")
    case True
    have "a = b" if "a \<in> set ps" "b \<in> set ps" "\<not> poolLess a b" "\<not> poolLess b a" for a b
    proof -
      have "a \<in> stampedPools" "b \<in> stampedPools" using that(1,2) True by auto
      then have "poolName a = poolName b" using that(3,4) by (auto simp: poolLess_stamped)
      then show ?thesis using same_name_eq [OF assms(2)] that(1,2) by blast
    qed
    then show ?thesis
      using True sets m stamped.insertionSort_sorted [of qs] stamped.insertionSort_sorted [of ps]
      by (intro stamped.sorted_unique) (auto simp: sortPoolsForSelection_def)
  next
    case False
    then have uns: "set ps \<subseteq> unstampedPools" using assms(3) by blast
    have "a = b" if "a \<in> set ps" "b \<in> set ps" "\<not> poolLess a b" "\<not> poolLess b a" for a b
    proof -
      have "a \<in> unstampedPools" "b \<in> unstampedPools" using that(1,2) uns by auto
      then have "poolName a = poolName b" using that(3,4) by (auto simp: poolLess_unstamped)
      then show ?thesis using same_name_eq [OF assms(2)] that(1,2) by blast
    qed
    then show ?thesis
      using uns sets m unstamped.insertionSort_sorted [of qs] unstamped.insertionSort_sorted [of ps]
      by (intro unstamped.sorted_unique) (auto simp: sortPoolsForSelection_def)
  qed
qed

lemma selectFromPools_head:
  "ps \<noteq> [] \<Longrightarrow> fst (selectFromPools ps) = poolName (hd (sortPoolsForSelection ps))"
  by (cases "sortPoolsForSelection ps") (auto simp: selectFromPools_def)

lemma selectFromPools_count: "fst (snd (selectFromPools ps)) = int (length ps)"
proof (cases "sortPoolsForSelection ps")
  case Nil
  then show ?thesis by (simp add: selectFromPools_def)
next
  case (Cons q qs)
  have "length ps = Suc (length qs)" using length_sortPools [of ps] Cons by simp
  then show ?thesis using Cons by (simp add: selectFromPools_def)
qed

lemma selectFromPools_mem:
  "ps \<noteq> [] \<Longrightarrow> \<exists>p \<in> set ps. fst (selectFromPools ps) = poolName p"
  by (metis hd_in_set selectFromPools_head set_sortPools sortPools_Nil_iff)

end
