(* ===== verification/Metrics.thy ===== *)
theory Metrics
  imports Selection
begin

text \<open>
  The gauge \<open>astradns_active_pool_selected\<close>
  (\<open>recordActivePoolSelectionMetric\<close> and \<open>clearActivePoolSelectionMetric\<close> of
  \<open>controllers/dnsupstreampool_controller.go\<close>).  The operations return the calls they make on
  the gauge, which belongs to the Prometheus library; \<open>gaugeApply\<close> is what the library
  documents of them, on the set of exported series.  Both run under \<open>activePoolMetricMu\<close>.
\<close>

datatype gaugeCall =
    GaugeSet string string string
  | GaugeDelete string string string

text \<open>The name of the pool and the reason of its selection, for each namespace.\<close>

type_synonym activePoolSelectionState = "string \<times> string"

type_synonym metricState = "(string, activePoolSelectionState) gomap"

definition recordActivePoolSelectionMetric ::
    "string \<Rightarrow> string \<Rightarrow> string \<Rightarrow> metricState \<Rightarrow> gaugeCall list \<times> metricState" where
  "recordActivePoolSelectionMetric ns pool reason0 m0 =
     (if ns = '''' \<or> pool = '''' then ([], m0)
      else
        let reason = (if trimSpace reason0 = '''' then poolSelectionReasonSingle else reason0);
            m = Some (gm_make m0)
        in case gm_get m ns of
             Some (previousPool, previousReason) \<Rightarrow>
               if previousPool = pool \<and> previousReason = reason then ([GaugeSet ns pool reason], m)
               else ([GaugeDelete ns previousPool previousReason, GaugeSet ns pool reason],
                     gm_set ns (pool, reason) m)
           | None \<Rightarrow> ([GaugeSet ns pool reason], gm_set ns (pool, reason) m))"

definition clearActivePoolSelectionMetric :: "string \<Rightarrow> metricState \<Rightarrow> gaugeCall list \<times> metricState" where
  "clearActivePoolSelectionMetric ns m =
     (if ns = '''' then ([], m)
      else if m = None then ([], m)
      else case gm_get m ns of
        None \<Rightarrow> ([], m)
      | Some (previousPool, previousReason) \<Rightarrow>
          ([GaugeDelete ns previousPool previousReason], gm_delete ns m))"

section \<open>The exported series\<close>

fun gaugeApply :: "gaugeCall \<Rightarrow> (string \<times> string \<times> string) set \<Rightarrow> (string \<times> string \<times> string) set" where
  "gaugeApply (GaugeSet ns pool reason) S = insert (ns, pool, reason) S"
| "gaugeApply (GaugeDelete ns pool reason) S = S - {(ns, pool, reason)}"

text \<open>The series are exactly the remembered selections, so a namespace has at most one.\<close>

definition gaugeInv :: "metricState \<Rightarrow> (string \<times> string \<times> string) set \<Rightarrow> bool" where
  "gaugeInv m S \<longleftrightarrow> (\<forall>ns pool reason. (ns, pool, reason) \<in> S \<longleftrightarrow> gm_get m ns = Some (pool, reason))"

lemma gaugeInv_init: "gaugeInv None {}"
  by (simp add: gaugeInv_def)

lemma gaugeInv_record:
  "gaugeInv m S \<Longrightarrow> recordActivePoolSelectionMetric ns pool reason m = (calls, m') \<Longrightarrow>
    gaugeInv m' (fold gaugeApply calls S)"
  by (auto simp: gaugeInv_def recordActivePoolSelectionMetric_def Let_def split: if_splits option.splits)

lemma gaugeInv_clear:
  "gaugeInv m S \<Longrightarrow> clearActivePoolSelectionMetric ns m = (calls, m') \<Longrightarrow>
    gaugeInv m' (fold gaugeApply calls S)"
  by (auto simp: gaugeInv_def clearActivePoolSelectionMetric_def split: if_splits option.splits)

end
