(* ===== verification/Effects.thy ===== *)
theory Effects
  imports Breaker Metrics "HOL-Library.State_Monad"
begin

text \<open>
  How the controllers act on the world.  A controller is a program of the state monad.  Its state
  holds the world, a type parameter of which nothing is known, and the history \<open>effects\<close> of the
  calls made, each with its answer.  The API server, the clock and their neighbours are the fields
  of \<open>client\<close>, an argument of every program: a call is a function from the world to an answer and
  the next world, reads included, so other actors may change the world between any two calls.

  \<open>emits P m\<close> says that every effect of \<open>m\<close> satisfies \<open>P\<close>; the collection
  \<open>emits_intro\<close> proves it along the structure of a program.  \<open>wp m Q\<close> is the weakest
  precondition, computed by the collection \<open>wp_simps\<close>.
\<close>

datatype eventType = EventTypeNormal | EventTypeWarning

text \<open>
  The closures the sources pass to \<open>controllerutil.CreateOrUpdate\<close>: set a key of the
  ConfigMap's data, or delete one.
\<close>

datatype configMapMutation = SetDataKey string string | DeleteDataKey string

datatype effect =
    GetPool string string "apiError + pool"
  | ListPools string "apiError + pool list"
  | PatchPool pool pool "apiError + pool"
  | PatchPoolStatus pool pool "apiError + pool"
  | GetProfile string string "apiError + profile"
  | PatchProfileStatus profile profile "apiError + profile"
  | GetPolicy string string "apiError + policy"
  | ListPolicies "string option" "apiError + policy list"
  | PatchPolicy policy policy "apiError + policy"
  | PatchPolicyStatus policy policy "apiError + policy"
  | GetNamespace string "apiError + namespace"
  | ListNamespaces "apiError + namespace list"
  | PatchNamespace namespace namespace "apiError + namespace"
  | GetConfigMap string string "apiError + configMap"
  | CreateOrUpdateConfigMap configMap configMapMutation "apiError + unit"
  | ReadClock int
  | RecordEvent string string eventType string message
  | Gauge gaugeCall

record 'w client =
  cl_GetPool :: "string \<Rightarrow> string \<Rightarrow> 'w \<Rightarrow> (apiError + pool) \<times> 'w"
  cl_ListPools :: "string \<Rightarrow> 'w \<Rightarrow> (apiError + pool list) \<times> 'w"
  cl_PatchPool :: "pool \<Rightarrow> pool \<Rightarrow> 'w \<Rightarrow> (apiError + pool) \<times> 'w"
  cl_PatchPoolStatus :: "pool \<Rightarrow> pool \<Rightarrow> 'w \<Rightarrow> (apiError + pool) \<times> 'w"
  cl_GetProfile :: "string \<Rightarrow> string \<Rightarrow> 'w \<Rightarrow> (apiError + profile) \<times> 'w"
  cl_PatchProfileStatus :: "profile \<Rightarrow> profile \<Rightarrow> 'w \<Rightarrow> (apiError + profile) \<times> 'w"
  cl_GetPolicy :: "string \<Rightarrow> string \<Rightarrow> 'w \<Rightarrow> (apiError + policy) \<times> 'w"
  cl_ListPolicies :: "string option \<Rightarrow> 'w \<Rightarrow> (apiError + policy list) \<times> 'w"
  cl_PatchPolicy :: "policy \<Rightarrow> policy \<Rightarrow> 'w \<Rightarrow> (apiError + policy) \<times> 'w"
  cl_PatchPolicyStatus :: "policy \<Rightarrow> policy \<Rightarrow> 'w \<Rightarrow> (apiError + policy) \<times> 'w"
  cl_GetNamespace :: "string \<Rightarrow> 'w \<Rightarrow> (apiError + namespace) \<times> 'w"
  cl_ListNamespaces :: "'w \<Rightarrow> (apiError + namespace list) \<times> 'w"
  cl_PatchNamespace :: "namespace \<Rightarrow> namespace \<Rightarrow> 'w \<Rightarrow> (apiError + namespace) \<times> 'w"
  cl_GetConfigMap :: "string \<Rightarrow> string \<Rightarrow> 'w \<Rightarrow> (apiError + configMap) \<times> 'w"
  cl_CreateOrUpdate :: "configMap \<Rightarrow> (configMap \<Rightarrow> configMap) \<Rightarrow> 'w \<Rightarrow> (apiError + unit) \<times> 'w"
  cl_Now :: "'w \<Rightarrow> int \<times> 'w"

record 'w sys =
  world :: 'w
  effects :: "effect list"

text \<open>The memory of the pool reconciler beside the world.\<close>

record 'w poolSys = "'w sys" +
  circuit :: breaker
  metric :: metricState

text \<open>One call: ask the world, note the answer.\<close>

definition api :: "('a \<Rightarrow> effect) \<Rightarrow> ('w \<Rightarrow> 'a \<times> 'w) \<Rightarrow> (('w, 'z) sys_scheme, 'a) state" where
  "api e f = State (\<lambda>s. case f (world s) of (r, w) \<Rightarrow>
     (r, s\<lparr>world := w, effects := effects s @ [e r]\<rparr>))"

definition note_effect :: "effect \<Rightarrow> (('w, 'z) sys_scheme, unit) state" where
  "note_effect e = State (\<lambda>s. ((), s\<lparr>effects := effects s @ [e]\<rparr>))"

definition note_effects :: "effect list \<Rightarrow> (('w, 'z) sys_scheme, unit) state" where
  "note_effects es = State (\<lambda>s. ((), s\<lparr>effects := effects s @ es\<rparr>))"

text \<open>An operation on the breaker, and one on the metric with its gauge calls.\<close>

definition withCircuit :: "(breaker \<Rightarrow> 'a \<times> breaker) \<Rightarrow> ('w poolSys, 'a) state" where
  "withCircuit f = State (\<lambda>s. case f (circuit s) of (r, b) \<Rightarrow> (r, s\<lparr>circuit := b\<rparr>))"

definition withMetric :: "(metricState \<Rightarrow> gaugeCall list \<times> metricState) \<Rightarrow> ('w poolSys, unit) state" where
  "withMetric f = State (\<lambda>s. case f (metric s) of (calls, m) \<Rightarrow>
     ((), s\<lparr>metric := m, effects := effects s @ map Gauge calls\<rparr>))"

section \<open>Programs in normal form\<close>

text \<open>Binds to the right, branches outside: the calls come first, each with what follows it.\<close>

lemma bind_if_prog: "State_Monad.bind (if b then m else n) f = (if b then State_Monad.bind m f else State_Monad.bind n f)"
  by simp

lemma bind_sum_prog: "State_Monad.bind (case x of Inl a \<Rightarrow> g a | Inr b \<Rightarrow> h b) f =
    (case x of Inl a \<Rightarrow> State_Monad.bind (g a) f | Inr b \<Rightarrow> State_Monad.bind (h b) f)"
  by (cases x) simp_all

lemma bind_option_prog: "State_Monad.bind (case x of None \<Rightarrow> m | Some b \<Rightarrow> h b) f =
    (case x of None \<Rightarrow> State_Monad.bind m f | Some b \<Rightarrow> State_Monad.bind (h b) f)"
  by (cases x) simp_all

lemma option_of_sum: "(case (case x of Inl a \<Rightarrow> g a | Inr b \<Rightarrow> h b) of None \<Rightarrow> m | Some c \<Rightarrow> k c) =
    (case x of Inl a \<Rightarrow> (case g a of None \<Rightarrow> m | Some c \<Rightarrow> k c) | Inr b \<Rightarrow> (case h b of None \<Rightarrow> m | Some c \<Rightarrow> k c))"
  by (cases x) simp_all

lemma sum_of_sum: "(case (case x of Inl a \<Rightarrow> g a | Inr b \<Rightarrow> h b) of Inl c \<Rightarrow> m c | Inr d \<Rightarrow> k d) =
    (case x of Inl a \<Rightarrow> (case g a of Inl c \<Rightarrow> m c | Inr d \<Rightarrow> k d)
     | Inr b \<Rightarrow> (case h b of Inl c \<Rightarrow> m c | Inr d \<Rightarrow> k d))"
  by (cases x) simp_all

lemma sum_of_if: "(case (if b then x else y) of Inl c \<Rightarrow> m c | Inr d \<Rightarrow> k d) =
    (if b then (case x of Inl c \<Rightarrow> m c | Inr d \<Rightarrow> k d) else (case y of Inl c \<Rightarrow> m c | Inr d \<Rightarrow> k d))"
  by simp

lemmas prog_simps = Let_def bind_assoc bind_left_identity bind_if_prog bind_sum_prog bind_option_prog
  option_of_sum sum_of_sum sum_of_if option.case sum.case

section \<open>Weakest preconditions\<close>

definition wp :: "('s, 'a) state \<Rightarrow> ('a \<Rightarrow> 's \<Rightarrow> bool) \<Rightarrow> 's \<Rightarrow> bool" where
  "wp m Q s \<longleftrightarrow> Q (fst (run_state m s)) (snd (run_state m s))"

lemma wp_return [wp_simps]: "wp (State_Monad.return x) Q s = Q x s"
  by (simp add: wp_def)

lemma wp_bind [wp_simps]: "wp (State_Monad.bind m f) Q s = wp m (\<lambda>a. wp (f a) Q) s"
  by (simp add: wp_def split: prod.split)

lemma wp_api [wp_simps]:
  "wp (api e f) Q s = (case f (world s) of (r, w) \<Rightarrow> Q r (s\<lparr>world := w, effects := effects s @ [e r]\<rparr>))"
  by (simp add: wp_def api_def split: prod.split)

lemma wp_note_effect [wp_simps]: "wp (note_effect e) Q s = Q () (s\<lparr>effects := effects s @ [e]\<rparr>)"
  by (simp add: wp_def note_effect_def)

lemma wp_note_effects [wp_simps]: "wp (note_effects es) Q s = Q () (s\<lparr>effects := effects s @ es\<rparr>)"
  by (simp add: wp_def note_effects_def)

lemma wp_withCircuit [wp_simps]:
  "wp (withCircuit f) Q s = (case f (circuit s) of (r, b) \<Rightarrow> Q r (s\<lparr>circuit := b\<rparr>))"
  by (simp add: wp_def withCircuit_def split: prod.split)

lemma wp_withMetric [wp_simps]:
  "wp (withMetric f) Q s = (case f (metric s) of (calls, m) \<Rightarrow>
     Q () (s\<lparr>metric := m, effects := effects s @ map Gauge calls\<rparr>))"
  by (simp add: wp_def withMetric_def split: prod.split)

lemma wp_mono: "wp m Q s \<Longrightarrow> (\<And>a t. Q a t \<Longrightarrow> Q' a t) \<Longrightarrow> wp m Q' s"
  by (simp add: wp_def)

lemma wp_conj: "wp m (\<lambda>a t. Q a t \<and> R a t) s \<longleftrightarrow> wp m Q s \<and> wp m R s"
  by (simp add: wp_def)

text \<open>A run, computed.\<close>

lemma run_api: "run_state (api e f) s =
    (case f (world s) of (r, w) \<Rightarrow> (r, s\<lparr>world := w, effects := effects s @ [e r]\<rparr>))"
  by (simp add: api_def)

lemma run_note_effect: "run_state (note_effect e) s = ((), s\<lparr>effects := effects s @ [e]\<rparr>)"
  by (simp add: note_effect_def)

lemma run_withCircuit: "run_state (withCircuit f) s = (case f (circuit s) of (r, b) \<Rightarrow> (r, s\<lparr>circuit := b\<rparr>))"
  by (simp add: withCircuit_def)

lemma run_withMetric: "run_state (withMetric f) s = (case f (metric s) of (calls, m) \<Rightarrow>
     ((), s\<lparr>metric := m, effects := effects s @ map Gauge calls\<rparr>))"
  by (simp add: withMetric_def)

lemmas run_simps = run_api run_note_effect run_withCircuit run_withMetric run_state_bind run_state_return

section \<open>The effects of a program\<close>

definition emits :: "(effect \<Rightarrow> bool) \<Rightarrow> (('w, 'z) sys_scheme, 'a) state \<Rightarrow> bool" where
  "emits P m \<longleftrightarrow>
     (\<forall>s. \<exists>es. effects (snd (run_state m s)) = effects s @ es \<and> list_all P es)"

lemma emits_return [emits_intro]: "emits P (State_Monad.return x)"
  by (simp add: emits_def)

lemma emits_bind [emits_intro]:
  assumes "emits P m" "\<And>a. emits P (f a)"
  shows "emits P (State_Monad.bind m f)"
  unfolding emits_def
proof
  fix s
  obtain a t where m: "run_state m s = (a, t)" by force
  obtain es where es: "effects t = effects s @ es" "list_all P es"
    using assms(1) m unfolding emits_def by (metis snd_conv)
  obtain es' where "effects (snd (run_state (f a) t)) = effects t @ es'" "list_all P es'"
    using assms(2) unfolding emits_def by blast
  then show "\<exists>es. effects (snd (run_state (State_Monad.bind m f) s)) = effects s @ es \<and> list_all P es"
    using m es by (intro exI [of _ "es @ es'"]) simp
qed

lemma emits_api [emits_intro]: "(\<And>r. P (e r)) \<Longrightarrow> emits P (api e f)"
  by (simp add: emits_def api_def split: prod.split)

lemma emits_note_effect [emits_intro]: "P e \<Longrightarrow> emits P (note_effect e)"
  by (simp add: emits_def note_effect_def)

lemma emits_note_effects [emits_intro]: "list_all P es \<Longrightarrow> emits P (note_effects es)"
  by (simp add: emits_def note_effects_def)

lemma emits_withCircuit [emits_intro]: "emits P (withCircuit f)"
  by (simp add: emits_def withCircuit_def split: prod.split)

lemma emits_withMetric [emits_intro]: "(\<And>c. P (Gauge c)) \<Longrightarrow> emits P (withMetric f)"
  by (simp add: emits_def withMetric_def list_all_iff split: prod.split)

lemma emits_if [emits_intro]:
  "(b \<Longrightarrow> emits P m) \<Longrightarrow> (\<not> b \<Longrightarrow> emits P n) \<Longrightarrow> emits P (if b then m else n)"
  by simp

lemma emits_case_sum [emits_intro]:
  "(\<And>a. x = Inl a \<Longrightarrow> emits P (f a)) \<Longrightarrow> (\<And>b. x = Inr b \<Longrightarrow> emits P (g b)) \<Longrightarrow>
    emits P (case x of Inl a \<Rightarrow> f a | Inr b \<Rightarrow> g b)"
  by (simp split: sum.split)

lemma emits_case_option [emits_intro]:
  "(x = None \<Longrightarrow> emits P m) \<Longrightarrow> (\<And>a. x = Some a \<Longrightarrow> emits P (f a)) \<Longrightarrow>
    emits P (case x of None \<Rightarrow> m | Some a \<Rightarrow> f a)"
  by (simp split: option.split)

lemma emits_case_prod [emits_intro]:
  "(\<And>a b. x = (a, b) \<Longrightarrow> emits P (f a b)) \<Longrightarrow> emits P (case x of (a, b) \<Rightarrow> f a b)"
  by (simp split: prod.split)

lemma emits_case_list [emits_intro]:
  "(x = [] \<Longrightarrow> emits P m) \<Longrightarrow> (\<And>a as. x = a # as \<Longrightarrow> emits P (f a as)) \<Longrightarrow>
    emits P (case x of [] \<Rightarrow> m | a # as \<Rightarrow> f a as)"
  by (simp split: list.split)

lemma emits_let [emits_intro]: "(\<And>y. y = x \<Longrightarrow> emits P (f y)) \<Longrightarrow> emits P (let y = x in f y)"
  by simp

lemma emits_mono: "emits P m \<Longrightarrow> (\<And>e. P e \<Longrightarrow> Q e) \<Longrightarrow> emits Q m"
  by (fastforce simp: emits_def list_all_iff)

text \<open>Read off at a run from an empty history.\<close>

lemma emitsD: "emits P m \<Longrightarrow> effects s = [] \<Longrightarrow> e \<in> set (effects (snd (run_state m s))) \<Longrightarrow> P e"
  unfolding emits_def list_all_iff by (metis append_Nil)

end
