(* ===== verification/Reference.thy ===== *)
theory Reference
  imports Effects
begin

text \<open>
  Concrete instances of what the model takes as arguments, for the witnesses: the name checks,
  conditions and finalizers of Kubernetes' packages (\<open>refK8s\<close>) and an API server that holds its
  objects in lists and answers every request (\<open>memClient\<close>).  The lemmas show that they satisfy the
  documented behaviour the theorems assume.
\<close>

section \<open>Names, conditions, finalizers\<close>

text \<open>No dot next to a dot or a dash: with the checks on the ends, every label is well formed.\<close>

fun labelBreaksOk :: "string \<Rightarrow> bool" where
  "labelBreaksOk (c # d # cs) \<longleftrightarrow>
     \<not> (c = CHR ''.'' \<and> \<not> lowerAlnum d) \<and> \<not> (d = CHR ''.'' \<and> \<not> lowerAlnum c) \<and> labelBreaksOk (d # cs)"
| "labelBreaksOk _ \<longleftrightarrow> True"

definition refSubdomain :: "string \<Rightarrow> string list" where
  "refSubdomain s =
     (if s \<noteq> [] \<and> length s \<le> 253 \<and> lowerAlnum (hd s) \<and> lowerAlnum (last s) \<and>
         list_all (\<lambda>c. lowerAlnum c \<or> c = CHR ''-'' \<or> c = CHR ''.'') s \<and> labelBreaksOk s
      then [] else [''a lowercase RFC 1123 subdomain''])"

definition refLabel :: "string \<Rightarrow> string list" where
  "refLabel s =
     (if s \<noteq> [] \<and> length s \<le> 63 \<and> lowerAlnum (hd s) \<and> lowerAlnum (last s) \<and>
         list_all (\<lambda>c. lowerAlnum c \<or> c = CHR ''-'') s
      then [] else [''a lowercase RFC 1123 label''])"

fun refSetCondition :: "condition list \<Rightarrow> condition \<Rightarrow> condition list" where
  "refSetCondition [] c = [c]"
| "refSetCondition (d # ds) c = (if cd_Type d = cd_Type c then c # ds else d # refSetCondition ds c)"

definition refK8s :: k8s where
  "refK8s =
     \<lparr>isDNS1123Subdomain = refSubdomain, isDNS1123Label = refLabel, setStatusCondition = refSetCondition,
      containsFinalizer = (\<lambda>fs f. f \<in> set fs), addFinalizer = (\<lambda>fs f. if f \<in> set fs then fs else fs @ [f]),
      removeFinalizer = (\<lambda>fs f. filter (\<lambda>g. g \<noteq> f) fs)\<rparr>"

lemma refK8s_dns: "dns1123_documented refK8s"
  by (simp add: dns1123_documented_def refK8s_def refSubdomain_def)

lemma refSetCondition_same: "find (\<lambda>d. cd_Type d = cd_Type c) (refSetCondition cs c) = Some c"
  by (induction cs) auto

lemma refSetCondition_other:
  "t \<noteq> cd_Type c \<Longrightarrow>
    find (\<lambda>d. cd_Type d = t) (refSetCondition cs c) = find (\<lambda>d. cd_Type d = t) cs"
  by (induction cs) auto

lemma refK8s_conditions: "conditions_documented refK8s"
  by (simp add: conditions_documented_def refK8s_def refSetCondition_same refSetCondition_other)

lemma refSetCondition_settles: "refSetCondition (refSetCondition cs c) c = refSetCondition cs c"
  by (induction cs) auto

lemma refK8s_settle: "conditions_settle refK8s"
  by (simp add: conditions_settle_def refK8s_def refSetCondition_settles)

lemma refK8s_finalizers: "finalizers_documented refK8s"
  by (auto simp: finalizers_documented_def refK8s_def)

section \<open>A cluster in memory\<close>

record cluster =
  mc_Pools :: "pool list"
  mc_Profiles :: "profile list"
  mc_Policies :: "policy list"
  mc_Namespaces :: "namespace list"
  mc_ConfigMaps :: "configMap list"
  mc_Time :: int

definition emptyCluster :: cluster where
  "emptyCluster =
     \<lparr>mc_Pools = [], mc_Profiles = [], mc_Policies = [], mc_Namespaces = [], mc_ConfigMaps = [], mc_Time = 1\<rparr>"

definition metaKey :: "objectMeta \<Rightarrow> string \<times> string" where
  "metaKey m = (om_Namespace m, om_Name m)"

definition lookupBy :: "('a \<Rightarrow> 'k) \<Rightarrow> 'k \<Rightarrow> 'a list \<Rightarrow> apiError + 'a" where
  "lookupBy f k xs = (case find (\<lambda>x. f x = k) xs of None \<Rightarrow> Inl NotFound | Some x \<Rightarrow> Inr x)"

definition replaceBy :: "('a \<Rightarrow> 'k) \<Rightarrow> 'a \<Rightarrow> 'a list \<Rightarrow> 'a list" where
  "replaceBy f x xs = map (\<lambda>y. if f y = f x then x else y) xs"

definition cmKey :: "configMap \<Rightarrow> string \<times> string" where
  "cmKey cm = (cm_Namespace cm, cm_Name cm)"

definition memClient :: "cluster client" where
  "memClient =
     \<lparr>cl_GetPool = (\<lambda>ns n w. (lookupBy (metaKey \<circ> po_Meta) (ns, n) (mc_Pools w), w)),
      cl_ListPools = (\<lambda>ns w. (Inr (filter (\<lambda>p. om_Namespace (po_Meta p) = ns) (mc_Pools w)), w)),
      cl_PatchPool = (\<lambda>old new w. (Inr new, w\<lparr>mc_Pools := replaceBy (metaKey \<circ> po_Meta) new (mc_Pools w)\<rparr>)),
      cl_PatchPoolStatus = (\<lambda>old new w. (Inr new, w\<lparr>mc_Pools := replaceBy (metaKey \<circ> po_Meta) new (mc_Pools w)\<rparr>)),
      cl_GetProfile = (\<lambda>ns n w. (lookupBy (metaKey \<circ> pr_Meta) (ns, n) (mc_Profiles w), w)),
      cl_PatchProfileStatus = (\<lambda>old new w. (Inr new, w\<lparr>mc_Profiles := replaceBy (metaKey \<circ> pr_Meta) new (mc_Profiles w)\<rparr>)),
      cl_GetPolicy = (\<lambda>ns n w. (lookupBy (metaKey \<circ> pc_Meta) (ns, n) (mc_Policies w), w)),
      cl_ListPolicies = (\<lambda>ns w. (Inr (filter (\<lambda>p. ns = None \<or> ns = Some (om_Namespace (pc_Meta p))) (mc_Policies w)), w)),
      cl_PatchPolicy = (\<lambda>old new w. (Inr new, w\<lparr>mc_Policies := replaceBy (metaKey \<circ> pc_Meta) new (mc_Policies w)\<rparr>)),
      cl_PatchPolicyStatus = (\<lambda>old new w. (Inr new, w\<lparr>mc_Policies := replaceBy (metaKey \<circ> pc_Meta) new (mc_Policies w)\<rparr>)),
      cl_GetNamespace = (\<lambda>n w. (lookupBy om_Name n (mc_Namespaces w), w)),
      cl_ListNamespaces = (\<lambda>w. (Inr (mc_Namespaces w), w)),
      cl_PatchNamespace = (\<lambda>old new w. (Inr new, w\<lparr>mc_Namespaces := replaceBy om_Name new (mc_Namespaces w)\<rparr>)),
      cl_GetConfigMap = (\<lambda>ns n w. (lookupBy cmKey (ns, n) (mc_ConfigMaps w), w)),
      cl_CreateOrUpdate = (\<lambda>cm f w. (Inr (),
        case find (\<lambda>c. cmKey c = cmKey cm) (mc_ConfigMaps w) of
          None \<Rightarrow> w\<lparr>mc_ConfigMaps := mc_ConfigMaps w @ [f cm]\<rparr>
        | Some c \<Rightarrow> w\<lparr>mc_ConfigMaps := map (\<lambda>d. if cmKey d = cmKey cm then f d else d) (mc_ConfigMaps w)\<rparr>)),
      cl_Now = (\<lambda>w. (mc_Time w, w))\<rparr>"

section \<open>Sample objects\<close>

definition plainMeta :: "string \<Rightarrow> string \<Rightarrow> objectMeta" where
  "plainMeta ns n =
     \<lparr>om_Name = n, om_Namespace = ns, om_UID = n, om_ResourceVersion = ''7'', om_Generation = 1,
      om_CreationTimestamp = 5, om_DeletionTimestamp = None, om_Annotations = None, om_Finalizers = []\<rparr>"

definition noStatus :: status where
  "noStatus = \<lparr>st_Conditions = [], st_ObservedGeneration = 0\<rparr>"

definition dnsUpstream :: "string \<Rightarrow> upstream" where
  "dnsUpstream a =
     \<lparr>up_Address = a, up_Port = 0, up_Transport = '''', up_TLSServerName = '''', up_Weight = 0, up_Preference = 0\<rparr>"

definition samplePool :: "string \<Rightarrow> string \<Rightarrow> string list \<Rightarrow> pool" where
  "samplePool ns n as =
     \<lparr>po_Meta = plainMeta ns n,
      po_Spec = \<lparr>ps_Upstreams = map dnsUpstream as, ps_WorkerThreads = 2, ps_DNSSECMode = '''',
        ps_DomainFilter = \<lparr>df_Allow = [], df_Deny = [], df_Action = ''''\<rparr>\<rparr>,
      po_Status = noStatus\<rparr>"

end
