(* ===== verification/PoolValidation.thy ===== *)
theory PoolValidation
  imports ApiTypes
begin

text \<open>
  \<open>validateDNSUpstreamPool\<close> and its helpers
  (\<open>controllers/dnsupstreampool_controller.go\<close>), and what an accepted pool satisfies.  The
  abstract specification is \<open>poolSpecOk\<close>; \<open>validateDNSUpstreamPool_iff\<close> shows that the
  loop with its table of printed keys decides it.
\<close>

definition parseUpstreamTransport :: "string \<Rightarrow> string option" where
  "parseUpstreamTransport raw =
     (let trimmed = toLower (trimSpace raw) in
      if trimmed = '''' \<or> trimmed = UpstreamTransportDNS then Some UpstreamTransportDNS
      else if trimmed = UpstreamTransportDoT then Some UpstreamTransportDoT
      else if trimmed = UpstreamTransportDoH then Some UpstreamTransportDoH
      else None)"

definition defaultUpstreamPortForTransport :: "string \<Rightarrow> int" where
  "defaultUpstreamPortForTransport transport =
     (if transport = UpstreamTransportDoT then 853
      else if transport = UpstreamTransportDoH then 443
      else 53)"

definition parseDNSSECMode :: "string \<Rightarrow> string option" where
  "parseDNSSECMode raw =
     (let trimmed = toLower (trimSpace raw) in
      if trimmed = '''' \<or> trimmed = DNSSECModeOff then Some DNSSECModeOff
      else if trimmed = DNSSECModeProcess then Some DNSSECModeProcess
      else if trimmed = DNSSECModeValidate then Some DNSSECModeValidate
      else None)"

definition looksLikeInvalidIPv4Literal :: "string \<Rightarrow> bool" where
  "looksLikeInvalidIPv4Literal value \<longleftrightarrow>
     (if countByte value CHR ''.'' \<noteq> 3 then False
      else list_all (\<lambda>r. \<not> (r \<noteq> CHR ''.'' \<and> (r < CHR ''0'' \<or> r > CHR ''9''))) value)"

definition isValidUpstreamAddress :: "k8s \<Rightarrow> string \<Rightarrow> bool" where
  "isValidUpstreamAddress K address \<longleftrightarrow>
     (let trimmed = trimSpace address in
      if trimmed = '''' then False
      else if parseAddrOk trimmed then True
      else if looksLikeInvalidIPv4Literal trimmed then False
      else length (isDNS1123Subdomain K trimmed) = 0)"

text \<open>\<open>fmt.Sprintf("%s:%s:%d", transport, trimmedAddress, port)\<close>.\<close>

definition upstreamKey :: "string \<Rightarrow> string \<Rightarrow> int \<Rightarrow> string" where
  "upstreamKey transport address port = transport @ '':'' @ address @ '':'' @ showInt port"

text \<open>The body of the loop up to the table lookup: an error, or the upstream's key.\<close>

definition checkUpstream :: "k8s \<Rightarrow> int \<Rightarrow> upstream \<Rightarrow> goError + string" where
  "checkUpstream K i u =
     (let trimmedAddress = trimSpace (up_Address u) in
      if up_Address u \<noteq> trimmedAddress then
        Inl (Errorf ''spec.upstreams[%d].address must not include leading or trailing whitespace'' [AInt i])
      else if \<not> isValidUpstreamAddress K trimmedAddress then
        Inl (Errorf ''spec.upstreams[%d].address %q is not a valid IP or DNS name'' [AInt i, AStr (up_Address u)])
      else case parseUpstreamTransport (up_Transport u) of
        None \<Rightarrow> Inl (Errorf ''spec.upstreams[%d].transport must be one of dns, dot, or doh'' [AInt i])
      | Some transport \<Rightarrow>
         (let port = (if up_Port u = 0 then defaultUpstreamPortForTransport transport else up_Port u);
              tlsServerName = trimSpace (up_TLSServerName u);
              name = trimSuffix tlsServerName ''.'' in
          if port \<le> 0 \<or> port > 65535 then
            Inl (Errorf ''spec.upstreams[%d].port must be between 1 and 65535'' [AInt i])
          else if transport = UpstreamTransportDNS \<and> tlsServerName \<noteq> '''' then
            Inl (Errorf ''spec.upstreams[%d].tlsServerName is only valid for dot or doh transport'' [AInt i])
          else if tlsServerName \<noteq> '''' \<and>
               (name = '''' \<or> length (isDNS1123Subdomain K (toLower name)) > 0) then
            Inl (Errorf ''spec.upstreams[%d].tlsServerName %q is not a valid DNS hostname''
                   [AInt i, AStr (up_TLSServerName u)])
          else if up_Weight u < 0 \<or> up_Weight u > 100 then
            Inl (Errorf ''spec.upstreams[%d].weight must be between 1 and 100 when set'' [AInt i])
          else if up_Preference u < 0 \<or> up_Preference u > 1000 then
            Inl (Errorf ''spec.upstreams[%d].preference must be between 1 and 1000 when set'' [AInt i])
          else Inr (upstreamKey transport trimmedAddress port)))"

text \<open>The loop, with the keys of \<open>seenUpstreams\<close>; \<open>None\<close> is a nil error.\<close>

fun checkUpstreams :: "k8s \<Rightarrow> int \<Rightarrow> string list \<Rightarrow> upstream list \<Rightarrow> goError option" where
  "checkUpstreams K i seen [] = None"
| "checkUpstreams K i seen (u # us) =
     (case checkUpstream K i u of
        Inl e \<Rightarrow> Some e
      | Inr key \<Rightarrow>
          if key \<in> set seen then
            Some (Errorf ''spec.upstreams[%d] %q is duplicated'' [AInt i, AStr key])
          else checkUpstreams K (i + 1) (key # seen) us)"

definition validateDNSUpstreamPool :: "k8s \<Rightarrow> pool option \<Rightarrow> goError option" where
  "validateDNSUpstreamPool K p =
     (case p of
        None \<Rightarrow> Some (Errorf ''dns upstream pool is nil'' [])
      | Some pool \<Rightarrow>
          let spec = po_Spec pool in
          if length (ps_Upstreams spec) = 0 then
            Some (Errorf ''spec.upstreams must contain at least one upstream'' [])
          else case checkUpstreams K 0 [] (ps_Upstreams spec) of
            Some e \<Rightarrow> Some e
          | None \<Rightarrow>
              if ps_WorkerThreads spec < 0 \<or> ps_WorkerThreads spec > 256 then
                Some (Errorf ''spec.runtime.workerThreads must be between 1 and 256 when set'' [])
              else if parseDNSSECMode (ps_DNSSECMode spec) = None then
                Some (Errorf ''spec.dnssec.mode must be one of off, process, or validate'' [])
              else None)"

section \<open>The specification\<close>

text \<open>The identity of an upstream: transport, address and port with the default filled in.\<close>

definition upstreamIdentity :: "upstream \<Rightarrow> string \<times> string \<times> int" where
  "upstreamIdentity u =
     (let t = (case parseUpstreamTransport (up_Transport u) of None \<Rightarrow> '''' | Some t \<Rightarrow> t) in
      (t, up_Address u, if up_Port u = 0 then defaultUpstreamPortForTransport t else up_Port u))"

definition upstreamOk :: "k8s \<Rightarrow> upstream \<Rightarrow> bool" where
  "upstreamOk K u \<longleftrightarrow>
     trimSpace (up_Address u) = up_Address u \<and> isValidUpstreamAddress K (up_Address u) \<and>
     parseUpstreamTransport (up_Transport u) \<noteq> None \<and>
     0 \<le> up_Port u \<and> up_Port u \<le> 65535 \<and>
     (trimSpace (up_TLSServerName u) = '''' \<or>
       parseUpstreamTransport (up_Transport u) \<noteq> Some UpstreamTransportDNS \<and>
       trimSpace (up_TLSServerName u) \<noteq> ''.'' \<and>
       isDNS1123Subdomain K (toLower (trimSuffix (trimSpace (up_TLSServerName u)) ''.'')) = []) \<and>
     0 \<le> up_Weight u \<and> up_Weight u \<le> 100 \<and> 0 \<le> up_Preference u \<and> up_Preference u \<le> 1000"

definition poolSpecOk :: "k8s \<Rightarrow> poolSpec \<Rightarrow> bool" where
  "poolSpecOk K spec \<longleftrightarrow>
     ps_Upstreams spec \<noteq> [] \<and> list_all (upstreamOk K) (ps_Upstreams spec) \<and>
     distinct (map upstreamIdentity (ps_Upstreams spec)) \<and>
     0 \<le> ps_WorkerThreads spec \<and> ps_WorkerThreads spec \<le> 256 \<and>
     parseDNSSECMode (ps_DNSSECMode spec) \<noteq> None"

lemma parseUpstreamTransport_Some:
  "parseUpstreamTransport raw = Some t \<Longrightarrow>
    t = UpstreamTransportDNS \<or> t = UpstreamTransportDoT \<or> t = UpstreamTransportDoH"
  by (auto simp: parseUpstreamTransport_def Let_def split: if_splits)

lemma parseDNSSECMode_Some:
  "parseDNSSECMode raw = Some m \<Longrightarrow>
    m = DNSSECModeOff \<or> m = DNSSECModeProcess \<or> m = DNSSECModeValidate"
  by (auto simp: parseDNSSECMode_def Let_def split: if_splits)

lemma defaultUpstreamPort_range:
  "0 < defaultUpstreamPortForTransport t \<and> defaultUpstreamPortForTransport t \<le> 65535"
  by (simp add: defaultUpstreamPortForTransport_def)

lemma append_sep_inj:
  assumes "c \<notin> set xs" "c \<notin> set ys" "xs @ c # us = ys @ c # vs"
  shows "xs = ys \<and> us = vs"
  using assms
proof (induction xs arbitrary: ys)
  case Nil
  then show ?case by (cases ys) auto
next
  case (Cons x xs)
  then show ?case by (cases ys) auto
qed

text \<open>
  The printed key determines the three parts although an IPv6 address has colons of its own: no
  transport and no decimal number has one.
\<close>

lemma upstreamKey_inj:
  assumes "CHR '':'' \<notin> set t" "CHR '':'' \<notin> set t'"
  shows "upstreamKey t a p = upstreamKey t' a' p' \<longleftrightarrow> t = t' \<and> a = a' \<and> p = p'"
proof
  assume "upstreamKey t a p = upstreamKey t' a' p'"
  then have "t @ CHR '':'' # (a @ '':'' @ showInt p) = t' @ CHR '':'' # (a' @ '':'' @ showInt p')"
    by (simp add: upstreamKey_def)
  with assms have t: "t = t'" and rest: "a @ '':'' @ showInt p = a' @ '':'' @ showInt p'"
    using append_sep_inj [of "CHR '':''" t t'] by simp_all
  from rest have "rev (a @ '':'' @ showInt p) = rev (a' @ '':'' @ showInt p')" by simp
  then have "rev (showInt p) @ CHR '':'' # rev a = rev (showInt p') @ CHR '':'' # rev a'" by simp
  then have "rev (showInt p) = rev (showInt p') \<and> rev a = rev a'"
    by (intro append_sep_inj) (simp_all add: showInt_no_colon)
  then show "t = t' \<and> a = a' \<and> p = p'"
    using t showInt_inj by simp
qed simp

definition identityKey :: "string \<times> string \<times> int \<Rightarrow> string" where
  "identityKey = (\<lambda>(t, a, p). upstreamKey t a p)"

lemma trimSuffix_Nil_iff: "trimSuffix s ''.'' = '''' \<longleftrightarrow> s = '''' \<or> s = ''.''"
  by (auto simp: trimSuffix_def suffix_def)

text \<open>The chain of checks, read from the bottom: the key comes out where no check fails.\<close>

lemma if_Inl_Inr: "(if b then Inl e else r) = Inr k \<longleftrightarrow> \<not> b \<and> r = Inr k"
  by simp

lemma checkUpstream_iff:
  "checkUpstream K i u = Inr key \<longleftrightarrow> upstreamOk K u \<and> key = identityKey (upstreamIdentity u)"
proof (cases "trimSpace (up_Address u) = up_Address u \<and> parseUpstreamTransport (up_Transport u) \<noteq> None")
  case False
  then show ?thesis
    by (auto simp: checkUpstream_def upstreamOk_def Let_def if_Inl_Inr split: option.split)
next
  case True
  then obtain t where t: "parseUpstreamTransport (up_Transport u) = Some t"
    and addr: "trimSpace (up_Address u) = up_Address u"
    by auto
  have key: "identityKey (upstreamIdentity u) =
      upstreamKey t (up_Address u) (if up_Port u = 0 then defaultUpstreamPortForTransport t else up_Port u)"
    using t by (simp add: identityKey_def upstreamIdentity_def)
  have port: "(if up_Port u = 0 then defaultUpstreamPortForTransport t else up_Port u) \<le> 0 \<or>
      (if up_Port u = 0 then defaultUpstreamPortForTransport t else up_Port u) > 65535 \<longleftrightarrow>
      \<not> (0 \<le> up_Port u \<and> up_Port u \<le> 65535)"
    using defaultUpstreamPort_range [of t] by auto
  show ?thesis
    unfolding checkUpstream_def upstreamOk_def Let_def if_Inl_Inr t addr option.case port key
      trimSuffix_Nil_iff length_greater_0_conv
    by (safe; simp)
qed

lemma identityKey_inj:
  assumes "upstreamOk K u" "upstreamOk K v"
  shows "identityKey (upstreamIdentity u) = identityKey (upstreamIdentity v) \<longleftrightarrow>
    upstreamIdentity u = upstreamIdentity v"
proof -
  have split: "\<exists>t a p. upstreamIdentity w = (t, a, p) \<and> CHR '':'' \<notin> set t" if w: "upstreamOk K w" for w
  proof -
    obtain t where t: "parseUpstreamTransport (up_Transport w) = Some t"
      using w by (auto simp: upstreamOk_def)
    then have "CHR '':'' \<notin> set t"
      using parseUpstreamTransport_Some by fastforce
    then show ?thesis using t by (simp add: upstreamIdentity_def Let_def)
  qed
  show ?thesis
    using split [OF assms(1)] split [OF assms(2)] by (auto simp: identityKey_def upstreamKey_inj)
qed

lemma checkUpstreams_iff:
  assumes "list_all (upstreamOk K) vs"
  shows "checkUpstreams K i (map (identityKey \<circ> upstreamIdentity) vs) us = None \<longleftrightarrow>
    list_all (upstreamOk K) us \<and> distinct (map upstreamIdentity us) \<and>
    set (map upstreamIdentity us) \<inter> set (map upstreamIdentity vs) = {}"
  using assms
proof (induction us arbitrary: i vs)
  case Nil
  then show ?case by simp
next
  case (Cons u us)
  show ?case
  proof (cases "upstreamOk K u")
    case False
    then have "\<exists>e. checkUpstream K i u = Inl e"
      by (cases "checkUpstream K i u") (auto simp: checkUpstream_iff)
    then show ?thesis using False by auto
  next
    case True
    then have key: "checkUpstream K i u = Inr (identityKey (upstreamIdentity u))"
      by (simp add: checkUpstream_iff)
    have seen: "identityKey (upstreamIdentity u) \<in> set (map (identityKey \<circ> upstreamIdentity) vs) \<longleftrightarrow>
        upstreamIdentity u \<in> set (map upstreamIdentity vs)"
      using Cons.prems True identityKey_inj by (fastforce simp: list_all_iff image_iff)
    show ?thesis
      using Cons.IH [of "u # vs" "i + 1"] Cons.prems True key seen by auto
  qed
qed

lemma validateDNSUpstreamPool_iff:
  "validateDNSUpstreamPool K (Some p) = None \<longleftrightarrow> poolSpecOk K (po_Spec p)"
  using checkUpstreams_iff [of K "[]" 0 "ps_Upstreams (po_Spec p)"]
  by (auto simp: validateDNSUpstreamPool_def poolSpecOk_def Let_def split: option.split)

text \<open>The index an error names is the first upstream that is not accepted.\<close>

lemma checkUpstreams_append:
  "checkUpstreams K i seen us = None \<Longrightarrow>
    checkUpstreams K i seen (us @ vs) =
    checkUpstreams K (i + int (length us))
      (rev (map (identityKey \<circ> upstreamIdentity) us) @ seen) vs"
proof (induction us arbitrary: i seen)
  case (Cons u us)
  obtain key where key: "checkUpstream K i u = Inr key"
    using Cons.prems by (cases "checkUpstream K i u") auto
  then show ?case
    using Cons checkUpstream_iff [of K i u key] by (auto simp: add.assoc split: if_splits)
qed simp

section \<open>Addresses\<close>

lemma isValidUpstreamAddress_trim [simp]:
  "isValidUpstreamAddress K (trimSpace s) = isValidUpstreamAddress K s"
  by (simp add: isValidUpstreamAddress_def)

lemma isValidUpstreamAddress_nonempty: "isValidUpstreamAddress K s \<Longrightarrow> trimSpace s \<noteq> ''''"
  by (auto simp: isValidUpstreamAddress_def Let_def)

lemma upstreamOk_address: "upstreamOk K u \<Longrightarrow> trimSpace (up_Address u) \<noteq> ''''"
  unfolding upstreamOk_def using isValidUpstreamAddress_nonempty by blast

text \<open>Four numbers with dots are never taken for a DNS name.\<close>

lemma countByte_digits: "list_all isDigit s \<Longrightarrow> countByte s CHR ''.'' = 0"
  by (induction s) (auto simp: countByte_def isDigit_def less_eq_char_def)

lemma dottedQuad_literal: "looksLikeInvalidIPv4Literal (dottedQuad a b c d)"
proof -
  have dots: "countByte (xs @ ys) CHR ''.'' = countByte xs CHR ''.'' + countByte ys CHR ''.''"
      "countByte (CHR ''.'' # ys) CHR ''.'' = Suc (countByte ys CHR ''.'')" for xs ys
    by (simp_all add: countByte_def)
  have n: "countByte (showNat n) CHR ''.'' = 0" for n using showNat_digits countByte_digits by blast
  have digits: "x = CHR ''.'' \<or> \<not> x < CHR ''0'' \<and> \<not> CHR ''9'' < x" if "x \<in> set (showNat m)" for x m
    using that showNat_digits [of m] by (auto simp: list_all_iff isDigit_def less_eq_char_def less_char_def)
  have "\<forall>x \<in> set (dottedQuad a b c d). x = CHR ''.'' \<or> \<not> x < CHR ''0'' \<and> \<not> CHR ''9'' < x"
    using digits by (auto simp: dottedQuad_def)
  then show ?thesis
    by (auto simp: looksLikeInvalidIPv4Literal_def list_all_iff dottedQuad_def dots n)
qed

end
