(* ===== verification/Generator.thy ===== *)
theory Generator
  imports GoSort PoolValidation
begin

text \<open>
  \<open>pkg/engineconfig/defaultgen.go\<close>: \<open>DefaultConfigGenerator.Generate\<close> turns a pool and
  an optional cache profile into an engine configuration.  \<open>runtime.NumCPU()\<close> is the argument
  \<open>cpus\<close>.  The upstreams are sorted with \<open>sort.SliceStable\<close> under a comparator shown
  here to be a strict weak order on all upstreams, so \<open>insertionSort\<close> is the library's result
  at every length (theory GoSort).
\<close>

definition defaultUpstreamPortDNS :: int where [simp]: "defaultUpstreamPortDNS = 53"
definition defaultUpstreamPortDoT :: int where [simp]: "defaultUpstreamPortDoT = 853"
definition defaultUpstreamPortDoH :: int where [simp]: "defaultUpstreamPortDoH = 443"
definition defaultUpstreamWeight :: int where [simp]: "defaultUpstreamWeight = 1"
definition defaultUpstreamPreference :: int where [simp]: "defaultUpstreamPreference = 100"
definition defaultCacheMaxEntries :: int where [simp]: "defaultCacheMaxEntries = 100000"
definition defaultPositiveTTLMin :: int where [simp]: "defaultPositiveTTLMin = 60"
definition defaultPositiveTTLMax :: int where [simp]: "defaultPositiveTTLMax = 300"
definition defaultNegativeTTL :: int where [simp]: "defaultNegativeTTL = 30"
definition defaultPrefetchEnabled :: bool where [simp]: "defaultPrefetchEnabled = True"
definition defaultPrefetchThreshold :: int where [simp]: "defaultPrefetchThreshold = 10"
abbreviation defaultEngineListenAddress :: string where "defaultEngineListenAddress \<equiv> ''127.0.0.1''"
definition defaultEngineListeningPort :: int where [simp]: "defaultEngineListeningPort = 5354"
abbreviation defaultDNSSECMode :: string where "defaultDNSSECMode \<equiv> DNSSECModeOff"
definition defaultWorkerThreads :: int where [simp]: "defaultWorkerThreads = 2"
definition maxWorkerThreads :: int where [simp]: "maxWorkerThreads = 256"

definition gen_defaultUpstreamPortForTransport :: "string \<Rightarrow> int" where
  "gen_defaultUpstreamPortForTransport transport =
     (if transport = UpstreamTransportDoT then defaultUpstreamPortDoT
      else if transport = UpstreamTransportDoH then defaultUpstreamPortDoH
      else defaultUpstreamPortDNS)"

definition normalizeUpstreamTransport :: "string \<Rightarrow> string" where
  "normalizeUpstreamTransport transport =
     (let trimmed = toLower (trimSpace transport) in
      if trimmed = UpstreamTransportDoT then UpstreamTransportDoT
      else if trimmed = UpstreamTransportDoH then UpstreamTransportDoH
      else UpstreamTransportDNS)"

definition normalizeDNSSECMode :: "string \<Rightarrow> string" where
  "normalizeDNSSECMode mode =
     (let trimmed = toLower (trimSpace mode) in
      if trimmed = DNSSECModeProcess then DNSSECModeProcess
      else if trimmed = DNSSECModeValidate then DNSSECModeValidate
      else defaultDNSSECMode)"

definition normalizeUpstreamWeight :: "int \<Rightarrow> int" where
  "normalizeUpstreamWeight weight = (if weight \<le> 0 then defaultUpstreamWeight else weight)"

definition normalizeUpstreamPreference :: "int \<Rightarrow> int" where
  "normalizeUpstreamPreference preference = (if preference \<le> 0 then defaultUpstreamPreference else preference)"

definition resolveWorkerThreads :: "int \<Rightarrow> int \<Rightarrow> int" where
  "resolveWorkerThreads cpus value =
     (if value > maxWorkerThreads then maxWorkerThreads
      else if value > 0 then value
      else if cpus \<le> 0 then defaultWorkerThreads
      else if cpus > maxWorkerThreads then maxWorkerThreads
      else int32 cpus)"

definition normalizeDomainFilterAction :: "string \<Rightarrow> string" where
  "normalizeDomainFilterAction action =
     (let trimmed = toLower (trimSpace action) in
      if trimmed = DomainFilterActionNXDomain then DomainFilterActionNXDomain
      else DomainFilterActionRefused)"

definition defaultTLSServerName :: "string \<Rightarrow> string" where
  "defaultTLSServerName address =
     (let trimmed = trimSuffix (trimSpace address) ''.'' in
      if trimmed = '''' then ''''
      else if parseAddrOk trimmed then ''''
      else trimmed)"

text \<open>The comparator of \<open>sort.SliceStable\<close>.\<close>

definition upstreamLess :: "upstream \<Rightarrow> upstream \<Rightarrow> bool" where
  "upstreamLess a b =
     (let leftPreference = normalizeUpstreamPreference (up_Preference a);
          rightPreference = normalizeUpstreamPreference (up_Preference b) in
      if leftPreference \<noteq> rightPreference then leftPreference < rightPreference
      else normalizeUpstreamWeight (up_Weight a) > normalizeUpstreamWeight (up_Weight b))"

text \<open>The loop over the sorted upstreams: the entry for one, and the error at an empty address.\<close>

definition generateUpstream :: "upstream \<Rightarrow> upstreamConfig" where
  "generateUpstream u =
     (let address = trimSpace (up_Address u);
          transport = normalizeUpstreamTransport (up_Transport u);
          port = (if up_Port u = 0 then gen_defaultUpstreamPortForTransport transport else up_Port u);
          tls0 = trimSpace (up_TLSServerName u);
          tls1 = (if transport \<noteq> UpstreamTransportDNS \<and> tls0 = '''' then defaultTLSServerName address else tls0);
          tls2 = (if transport = UpstreamTransportDNS then '''' else tls1)
      in \<lparr>uc_Address = address, uc_Port = port, uc_Transport = transport, uc_TLSServerName = tls2,
          uc_Weight = normalizeUpstreamWeight (up_Weight u),
          uc_Preference = normalizeUpstreamPreference (up_Preference u)\<rparr>)"

fun generateUpstreams :: "int \<Rightarrow> upstream list \<Rightarrow> goError + upstreamConfig list" where
  "generateUpstreams i [] = Inr []"
| "generateUpstreams i (u # us) =
     (if trimSpace (up_Address u) = '''' then Inl (Errorf ''upstream at index %d has empty address'' [AInt i])
      else case generateUpstreams (i + 1) us of
        Inl e \<Rightarrow> Inl e
      | Inr cs \<Rightarrow> Inr (generateUpstream u # cs))"

definition defaultCache :: cacheConfig where
  "defaultCache =
     \<lparr>cc_MaxEntries = defaultCacheMaxEntries, cc_PositiveTtlMin = defaultPositiveTTLMin,
      cc_PositiveTtlMax = defaultPositiveTTLMax, cc_NegativeTtl = defaultNegativeTTL,
      cc_PrefetchEnabled = defaultPrefetchEnabled, cc_PrefetchThreshold = defaultPrefetchThreshold\<rparr>"

text \<open>The zero value of \<open>engine.DomainFilterConfig\<close>, left where the pool filters nothing.\<close>

definition generateDomainFilter :: "domainFilter \<Rightarrow> domainFilter" where
  "generateDomainFilter df =
     (if length (df_Allow df) > 0 \<or> length (df_Deny df) > 0
      then \<lparr>df_Allow = df_Allow df, df_Deny = df_Deny df,
            df_Action = normalizeDomainFilterAction (df_Action df)\<rparr>
      else \<lparr>df_Allow = [], df_Deny = [], df_Action = ''''\<rparr>)"

text \<open>The profile's settings over the defaults.\<close>

definition applyProfile :: "profileSpec \<Rightarrow> cacheConfig \<Rightarrow> cacheConfig" where
  "applyProfile s c =
     (let c1 = (if pf_MaxEntries s > 0 then c\<lparr>cc_MaxEntries := pf_MaxEntries s\<rparr> else c);
          c2 = (if pf_PositiveTtlMinSeconds s > 0 then c1\<lparr>cc_PositiveTtlMin := pf_PositiveTtlMinSeconds s\<rparr> else c1);
          c3 = (if pf_PositiveTtlMaxSeconds s > 0 then c2\<lparr>cc_PositiveTtlMax := pf_PositiveTtlMaxSeconds s\<rparr> else c2);
          c4 = (if pf_NegativeTtlSeconds s > 0 then c3\<lparr>cc_NegativeTtl := pf_NegativeTtlSeconds s\<rparr> else c3);
          c5 = c4\<lparr>cc_PrefetchEnabled := pf_PrefetchEnabled s\<rparr>
      in if pf_PrefetchThreshold s > 0 then c5\<lparr>cc_PrefetchThreshold := pf_PrefetchThreshold s\<rparr> else c5)"

definition Generate :: "int \<Rightarrow> pool option \<Rightarrow> profile option \<Rightarrow> goError + engineConfig" where
  "Generate cpus p prof =
     (case p of
        None \<Rightarrow> Inl (Errorf ''dns upstream pool is required'' [])
      | Some pool \<Rightarrow>
          let spec = po_Spec pool in
          if length (ps_Upstreams spec) = 0 then
            Inl (Errorf ''dns upstream pool must contain at least one upstream'' [])
          else case generateUpstreams 0 (insertionSort upstreamLess (ps_Upstreams spec)) of
            Inl e \<Rightarrow> Inl e
          | Inr ups \<Rightarrow>
              let config =
                \<lparr>ec_Upstreams = ups, ec_Cache = defaultCache, ec_ListenAddr = defaultEngineListenAddress,
                 ec_ListenPort = defaultEngineListeningPort,
                 ec_WorkerThreads = resolveWorkerThreads cpus (ps_WorkerThreads spec),
                 ec_DNSSECMode = normalizeDNSSECMode (ps_DNSSECMode spec),
                 ec_DomainFilter = generateDomainFilter (ps_DomainFilter spec)\<rparr>
              in case prof of
                   None \<Rightarrow> Inr config
                 | Some pr \<Rightarrow> Inr (config\<lparr>ec_Cache := applyProfile (pr_Spec pr) (ec_Cache config)\<rparr>))"

section \<open>The comparator and the sort\<close>

interpretation upstream_order: strict_weak upstreamLess UNIV
  by unfold_locales (auto simp: upstreamLess_def Let_def split: if_splits)

lemma generateUpstreams_iff:
  "generateUpstreams i us = Inr cs \<longleftrightarrow>
    (\<forall>u \<in> set us. trimSpace (up_Address u) \<noteq> '''') \<and> cs = map generateUpstream us"
proof (induction us arbitrary: i cs)
  case (Cons u us)
  have ih: "generateUpstreams (i + 1) us = Inr (map generateUpstream us) \<longleftrightarrow>
      (\<forall>u \<in> set us. trimSpace (up_Address u) \<noteq> '''')"
    by (simp add: Cons.IH)
  show ?case
  proof (cases "generateUpstreams (i + 1) us")
    case (Inl e)
    then show ?thesis using ih by auto
  next
    case (Inr ds)
    then have "ds = map generateUpstream us" by (simp add: Cons.IH)
    then show ?thesis using ih Inr by auto
  qed
qed auto

lemma generateUpstreams_error:
  "generateUpstreams i us = Inl e \<Longrightarrow> \<exists>u \<in> set us. trimSpace (up_Address u) = ''''"
  by (induction us arbitrary: i) (auto split: sum.splits if_splits)

text \<open>What \<open>Generate\<close> returns, in one equation.\<close>

lemma Generate_Inr_iff:
  "Generate cpus (Some p) prof = Inr cfg \<longleftrightarrow>
     ps_Upstreams (po_Spec p) \<noteq> [] \<and>
     (\<forall>u \<in> set (ps_Upstreams (po_Spec p)). trimSpace (up_Address u) \<noteq> '''') \<and>
     cfg = \<lparr>ec_Upstreams = map generateUpstream (insertionSort upstreamLess (ps_Upstreams (po_Spec p))),
            ec_Cache = (case prof of None \<Rightarrow> defaultCache | Some pr \<Rightarrow> applyProfile (pr_Spec pr) defaultCache),
            ec_ListenAddr = ''127.0.0.1'', ec_ListenPort = 5354,
            ec_WorkerThreads = resolveWorkerThreads cpus (ps_WorkerThreads (po_Spec p)),
            ec_DNSSECMode = normalizeDNSSECMode (ps_DNSSECMode (po_Spec p)),
            ec_DomainFilter = generateDomainFilter (ps_DomainFilter (po_Spec p))\<rparr>"
proof (cases "generateUpstreams 0 (insertionSort upstreamLess (ps_Upstreams (po_Spec p)))")
  case (Inl e)
  then show ?thesis
    using generateUpstreams_error [OF Inl] by (auto simp: Generate_def Let_def)
next
  case (Inr cs)
  have "cs = map generateUpstream (insertionSort upstreamLess (ps_Upstreams (po_Spec p))) \<and>
      (\<forall>u \<in> set (ps_Upstreams (po_Spec p)). trimSpace (up_Address u) \<noteq> '''')"
    using Inr by (simp add: generateUpstreams_iff)
  then show ?thesis
    using Inr by (cases prof) (auto simp: Generate_def Let_def)
qed

text \<open>A valid pool is never refused.\<close>

lemma valid_generates:
  assumes "poolSpecOk K (po_Spec p)"
  shows "\<exists>cfg. Generate cpus (Some p) prof = Inr cfg"
  using assms upstreamOk_address [of K] unfolding Generate_Inr_iff poolSpecOk_def list_all_iff by blast

section \<open>What the generated values satisfy\<close>

lemma normalizeUpstreamTransport_cases:
  "normalizeUpstreamTransport t = UpstreamTransportDNS \<or>
   normalizeUpstreamTransport t = UpstreamTransportDoT \<or>
   normalizeUpstreamTransport t = UpstreamTransportDoH"
  by (simp add: normalizeUpstreamTransport_def Let_def)

lemma normalizeUpstreamTransport_parse:
  "parseUpstreamTransport t = Some t' \<Longrightarrow> normalizeUpstreamTransport t = t'"
  by (auto simp: parseUpstreamTransport_def normalizeUpstreamTransport_def Let_def split: if_splits)

lemma normalizeDNSSECMode_parse:
  "parseDNSSECMode t = Some t' \<Longrightarrow> normalizeDNSSECMode t = t'"
  by (auto simp: parseDNSSECMode_def normalizeDNSSECMode_def Let_def split: if_splits)

lemma gen_defaultPort_eq:
  "gen_defaultUpstreamPortForTransport = defaultUpstreamPortForTransport"
  by (simp add: fun_eq_iff gen_defaultUpstreamPortForTransport_def defaultUpstreamPortForTransport_def)

lemma resolveWorkerThreads_range:
  "1 \<le> resolveWorkerThreads cpus v \<and> resolveWorkerThreads cpus v \<le> 256"
proof -
  have "int32 cpus = cpus" if "0 < cpus" "cpus \<le> 256"
    using that by (intro int32_id) (simp add: is_int32_def)
  then show ?thesis by (simp add: resolveWorkerThreads_def)
qed


end
