(* ===== verification/Renderers.thy ===== *)
theory Renderers
  imports Generator
begin

text \<open>
  The three renderers, \<open>pkg/engineconfig/{unbound,coredns,powerdns}/renderer.go\<close>.  Each
  package has its own copy of the normalising functions; each copy is modelled, with the package's
  name before the function's, and \<open>renderer_copies\<close> shows that the copies are equal to the
  generator's functions.

  The text templates, \<open>engine.ValidateTemplateConfig\<close> and \<open>engine.NewTemplateData\<close> belong to
  another module: they are the fields of \<open>templates\<close>, an argument of \<open>Render\<close>.  The locale
  \<open>config_renderer\<close> states the contract of a renderer and is interpreted on all three.
\<close>

record templates =
  validateTemplateConfig :: "engineConfig \<Rightarrow> string option"
  parseTemplate :: "string \<Rightarrow> string option"
  executeTemplate :: "string \<Rightarrow> engineConfig \<Rightarrow> string + string"


section \<open>Unbound\<close>

definition unbound_defaultPortForTransport :: "string \<Rightarrow> int" where
  "unbound_defaultPortForTransport transport =
     (if transport = UpstreamTransportDoT then 853
      else if transport = UpstreamTransportDoH then 443
      else 53)"

definition unbound_normalizeUpstreamTransport :: "string \<Rightarrow> string" where
  "unbound_normalizeUpstreamTransport transport =
     (let trimmed = toLower (trimSpace transport) in
      if trimmed = UpstreamTransportDoT then UpstreamTransportDoT
      else if trimmed = UpstreamTransportDoH then UpstreamTransportDoH
      else UpstreamTransportDNS)"

definition unbound_normalizeDNSSECMode :: "string \<Rightarrow> string" where
  "unbound_normalizeDNSSECMode mode =
     (let trimmed = toLower (trimSpace mode) in
      if trimmed = DNSSECModeProcess then DNSSECModeProcess
      else if trimmed = DNSSECModeValidate then DNSSECModeValidate
      else DNSSECModeOff)"

definition unbound_normalizeWorkerThreads :: "int \<Rightarrow> int \<Rightarrow> int" where
  "unbound_normalizeWorkerThreads cpus value =
     (if value > 256 then 256
      else if value > 0 then value
      else if cpus \<le> 0 then 2
      else if cpus > 256 then 256
      else int32 cpus)"

definition unbound_defaultTLSServerName :: "string \<Rightarrow> string" where
  "unbound_defaultTLSServerName address =
     (let trimmed = trimSuffix (trimSpace address) ''.'' in
      if trimmed = '''' then ''''
      else if parseAddrOk trimmed then ''''
      else trimmed)"

text \<open>The body of the loop of \<open>normalizeConfig\<close>, assignment by assignment.\<close>

definition unbound_normalizeUpstream :: "upstreamConfig \<Rightarrow> upstreamConfig" where
  "unbound_normalizeUpstream u0 =
     (let u1 = u0\<lparr>uc_Transport := unbound_normalizeUpstreamTransport (uc_Transport u0)\<rparr>;
          u2 = (if uc_Port u1 = 0 then u1\<lparr>uc_Port := unbound_defaultPortForTransport (uc_Transport u1)\<rparr> else u1);
          u3 = u2\<lparr>uc_TLSServerName := trimSpace (uc_TLSServerName u2)\<rparr>;
          u4 = (if uc_Transport u3 \<noteq> UpstreamTransportDNS \<and> uc_TLSServerName u3 = ''''
                then u3\<lparr>uc_TLSServerName := unbound_defaultTLSServerName (uc_Address u3)\<rparr> else u3);
          u5 = (if uc_Transport u4 = UpstreamTransportDNS then u4\<lparr>uc_TLSServerName := ''''\<rparr> else u4);
          u6 = (if uc_Weight u5 \<le> 0 then u5\<lparr>uc_Weight := 1\<rparr> else u5)
      in if uc_Preference u6 \<le> 0 then u6\<lparr>uc_Preference := 100\<rparr> else u6)"

definition unbound_normalizeConfig :: "int \<Rightarrow> engineConfig \<Rightarrow> engineConfig" where
  "unbound_normalizeConfig cpus config =
     config\<lparr>ec_WorkerThreads := unbound_normalizeWorkerThreads cpus (ec_WorkerThreads config),
            ec_DNSSECMode := unbound_normalizeDNSSECMode (ec_DNSSECMode config),
            ec_Upstreams := map unbound_normalizeUpstream (ec_Upstreams config)\<rparr>"

fun unbound_scan :: "int \<Rightarrow> bool \<Rightarrow> bool \<Rightarrow> upstreamConfig list \<Rightarrow> goError + bool \<times> bool" where
  "unbound_scan i hasPlainDNS hasDoT [] = Inr (hasPlainDNS, hasDoT)"
| "unbound_scan i hasPlainDNS hasDoT (u # us) =
     (if uc_Transport u = UpstreamTransportDoH then
        Inl (Errorf ''upstreams[%d].transport doh is not supported by unbound renderer'' [AInt i])
      else if uc_Transport u = UpstreamTransportDoT then unbound_scan (i + 1) hasPlainDNS True us
      else unbound_scan (i + 1) True hasDoT us)"

definition validateUnboundCompatibility :: "engineConfig \<Rightarrow> goError option" where
  "validateUnboundCompatibility config =
     (case unbound_scan 0 False False (ec_Upstreams config) of
        Inl e \<Rightarrow> Some e
      | Inr (hasPlainDNS, hasDoT) \<Rightarrow>
          if hasPlainDNS \<and> hasDoT then
            Some (Errorf ''mixed dns and dot upstream transports are not supported by unbound renderer'' [])
          else None)"

definition unbound_EngineType :: string where
  "unbound_EngineType = ''unbound''"

definition unbound_ConfigFileName :: string where
  "unbound_ConfigFileName = ''unbound.conf''"

definition unbound_Render :: "templates \<Rightarrow> int \<Rightarrow> engineConfig option \<Rightarrow> goError + string" where
  "unbound_Render T cpus c =
     (case c of
        None \<Rightarrow> Inl (Errorf ''engine config is required'' [])
      | Some config \<Rightarrow>
          let normalized = unbound_normalizeConfig cpus config in
          case validateUnboundCompatibility normalized of
            Some e \<Rightarrow> Inl (Wrap ''validate unbound transport compatibility: %w'' [] e)
          | None \<Rightarrow>
          case validateTemplateConfig T normalized of
            Some e \<Rightarrow> Inl (Wrap ''validate unbound template input: %w'' [] (Foreign e))
          | None \<Rightarrow>
          case parseTemplate T ''unbound.conf'' of
            Some e \<Rightarrow> Inl (Wrap ''parse unbound template: %w'' [] (Foreign e))
          | None \<Rightarrow>
          case executeTemplate T ''unbound.conf'' normalized of
            Inl e \<Rightarrow> Inl (Wrap ''render unbound template: %w'' [] (Foreign e))
          | Inr out \<Rightarrow> Inr out)"

section \<open>CoreDNS\<close>

definition coredns_defaultPortForTransport :: "string \<Rightarrow> int" where
  "coredns_defaultPortForTransport transport =
     (if transport = UpstreamTransportDoT then 853
      else if transport = UpstreamTransportDoH then 443
      else 53)"

definition coredns_normalizeUpstreamTransport :: "string \<Rightarrow> string" where
  "coredns_normalizeUpstreamTransport transport =
     (let trimmed = toLower (trimSpace transport) in
      if trimmed = UpstreamTransportDoT then UpstreamTransportDoT
      else if trimmed = UpstreamTransportDoH then UpstreamTransportDoH
      else UpstreamTransportDNS)"

definition coredns_normalizeDNSSECMode :: "string \<Rightarrow> string" where
  "coredns_normalizeDNSSECMode mode =
     (let trimmed = toLower (trimSpace mode) in
      if trimmed = DNSSECModeProcess then DNSSECModeProcess
      else if trimmed = DNSSECModeValidate then DNSSECModeValidate
      else DNSSECModeOff)"

definition coredns_normalizeWorkerThreads :: "int \<Rightarrow> int \<Rightarrow> int" where
  "coredns_normalizeWorkerThreads cpus value =
     (if value > 256 then 256
      else if value > 0 then value
      else if cpus \<le> 0 then 2
      else if cpus > 256 then 256
      else int32 cpus)"

definition coredns_defaultTLSServerName :: "string \<Rightarrow> string" where
  "coredns_defaultTLSServerName address =
     (let trimmed = trimSuffix (trimSpace address) ''.'' in
      if trimmed = '''' then ''''
      else if parseAddrOk trimmed then ''''
      else trimmed)"

text \<open>The body of the loop of \<open>normalizeConfig\<close>, assignment by assignment.\<close>

definition coredns_normalizeUpstream :: "upstreamConfig \<Rightarrow> upstreamConfig" where
  "coredns_normalizeUpstream u0 =
     (let u1 = u0\<lparr>uc_Transport := coredns_normalizeUpstreamTransport (uc_Transport u0)\<rparr>;
          u2 = (if uc_Port u1 = 0 then u1\<lparr>uc_Port := coredns_defaultPortForTransport (uc_Transport u1)\<rparr> else u1);
          u3 = u2\<lparr>uc_TLSServerName := trimSpace (uc_TLSServerName u2)\<rparr>;
          u4 = (if uc_Transport u3 \<noteq> UpstreamTransportDNS \<and> uc_TLSServerName u3 = ''''
                then u3\<lparr>uc_TLSServerName := coredns_defaultTLSServerName (uc_Address u3)\<rparr> else u3);
          u5 = (if uc_Transport u4 = UpstreamTransportDNS then u4\<lparr>uc_TLSServerName := ''''\<rparr> else u4);
          u6 = (if uc_Weight u5 \<le> 0 then u5\<lparr>uc_Weight := 1\<rparr> else u5)
      in if uc_Preference u6 \<le> 0 then u6\<lparr>uc_Preference := 100\<rparr> else u6)"

definition coredns_normalizeConfig :: "int \<Rightarrow> engineConfig \<Rightarrow> engineConfig" where
  "coredns_normalizeConfig cpus config =
     config\<lparr>ec_WorkerThreads := coredns_normalizeWorkerThreads cpus (ec_WorkerThreads config),
            ec_DNSSECMode := coredns_normalizeDNSSECMode (ec_DNSSECMode config),
            ec_Upstreams := map coredns_normalizeUpstream (ec_Upstreams config)\<rparr>"

text \<open>The loop of \<open>validateCoreDNSCompatibility\<close>; the keys of \<open>seenTLSServerNames\<close> as a list.\<close>

fun coredns_scan :: "int \<Rightarrow> string list \<Rightarrow> upstreamConfig list \<Rightarrow> goError + string list" where
  "coredns_scan i seen [] = Inr seen"
| "coredns_scan i seen (u # us) =
     (if \<not> (uc_Transport u = UpstreamTransportDNS \<or> uc_Transport u = UpstreamTransportDoT \<or>
             uc_Transport u = UpstreamTransportDoH) then
        Inl (Errorf ''upstreams[%d].transport %q is not supported by coredns renderer''
               [AInt i, AStr (uc_Transport u)])
      else if uc_Transport u = UpstreamTransportDNS then coredns_scan (i + 1) seen us
      else if uc_TLSServerName u = '''' then coredns_scan (i + 1) seen us
      else coredns_scan (i + 1) (List.insert (uc_TLSServerName u) seen) us)"

definition validateCoreDNSCompatibility :: "engineConfig \<Rightarrow> goError option" where
  "validateCoreDNSCompatibility config =
     (if ec_DNSSECMode config \<noteq> DNSSECModeOff then
        Some (Errorf ''dnssec mode %q is not supported by coredns renderer'' [AStr (ec_DNSSECMode config)])
      else case coredns_scan 0 [] (ec_Upstreams config) of
        Inl e \<Rightarrow> Some e
      | Inr seen \<Rightarrow>
          if length seen > 1 then
            Some (Errorf ''coredns forward supports only one tlsServerName across encrypted upstreams'' [])
          else None)"

definition coredns_EngineType :: string where
  "coredns_EngineType = ''coredns''"

definition coredns_ConfigFileName :: string where
  "coredns_ConfigFileName = ''Corefile''"

definition coredns_Render :: "templates \<Rightarrow> int \<Rightarrow> engineConfig option \<Rightarrow> goError + string" where
  "coredns_Render T cpus c =
     (case c of
        None \<Rightarrow> Inl (Errorf ''engine config is required'' [])
      | Some config \<Rightarrow>
          let normalized = coredns_normalizeConfig cpus config in
          case validateCoreDNSCompatibility normalized of
            Some e \<Rightarrow> Inl (Wrap ''validate coredns compatibility: %w'' [] e)
          | None \<Rightarrow>
          case validateTemplateConfig T normalized of
            Some e \<Rightarrow> Inl (Wrap ''validate coredns template input: %w'' [] (Foreign e))
          | None \<Rightarrow>
          case parseTemplate T ''Corefile'' of
            Some e \<Rightarrow> Inl (Wrap ''parse coredns template: %w'' [] (Foreign e))
          | None \<Rightarrow>
          case executeTemplate T ''Corefile'' normalized of
            Inl e \<Rightarrow> Inl (Wrap ''render coredns template: %w'' [] (Foreign e))
          | Inr out \<Rightarrow> Inr out)"

section \<open>PowerDNS\<close>

definition powerdns_defaultPortForTransport :: "string \<Rightarrow> int" where
  "powerdns_defaultPortForTransport transport =
     (if transport = UpstreamTransportDoT then 853
      else if transport = UpstreamTransportDoH then 443
      else 53)"

definition powerdns_normalizeUpstreamTransport :: "string \<Rightarrow> string" where
  "powerdns_normalizeUpstreamTransport transport =
     (let trimmed = toLower (trimSpace transport) in
      if trimmed = UpstreamTransportDoT then UpstreamTransportDoT
      else if trimmed = UpstreamTransportDoH then UpstreamTransportDoH
      else UpstreamTransportDNS)"

definition powerdns_normalizeDNSSECMode :: "string \<Rightarrow> string" where
  "powerdns_normalizeDNSSECMode mode =
     (let trimmed = toLower (trimSpace mode) in
      if trimmed = DNSSECModeProcess then DNSSECModeProcess
      else if trimmed = DNSSECModeValidate then DNSSECModeValidate
      else DNSSECModeOff)"

definition powerdns_normalizeWorkerThreads :: "int \<Rightarrow> int \<Rightarrow> int" where
  "powerdns_normalizeWorkerThreads cpus value =
     (if value > 256 then 256
      else if value > 0 then value
      else if cpus \<le> 0 then 2
      else if cpus > 256 then 256
      else int32 cpus)"

text \<open>The body of the loop of \<open>normalizeConfig\<close>, assignment by assignment.\<close>

definition powerdns_normalizeUpstream :: "upstreamConfig \<Rightarrow> upstreamConfig" where
  "powerdns_normalizeUpstream u0 =
     (let u1 = u0\<lparr>uc_Transport := powerdns_normalizeUpstreamTransport (uc_Transport u0)\<rparr>;
          u2 = (if uc_Port u1 = 0 then u1\<lparr>uc_Port := powerdns_defaultPortForTransport (uc_Transport u1)\<rparr> else u1);
          u3 = u2\<lparr>uc_TLSServerName := trimSpace (uc_TLSServerName u2)\<rparr>;
          u4 = u3;
          u5 = (if uc_Transport u4 = UpstreamTransportDNS then u4\<lparr>uc_TLSServerName := ''''\<rparr> else u4);
          u6 = (if uc_Weight u5 \<le> 0 then u5\<lparr>uc_Weight := 1\<rparr> else u5)
      in if uc_Preference u6 \<le> 0 then u6\<lparr>uc_Preference := 100\<rparr> else u6)"

definition powerdns_normalizeConfig :: "int \<Rightarrow> engineConfig \<Rightarrow> engineConfig" where
  "powerdns_normalizeConfig cpus config =
     config\<lparr>ec_WorkerThreads := powerdns_normalizeWorkerThreads cpus (ec_WorkerThreads config),
            ec_DNSSECMode := powerdns_normalizeDNSSECMode (ec_DNSSECMode config),
            ec_Upstreams := map powerdns_normalizeUpstream (ec_Upstreams config)\<rparr>"

fun powerdns_scan :: "int \<Rightarrow> upstreamConfig list \<Rightarrow> goError option" where
  "powerdns_scan i [] = None"
| "powerdns_scan i (u # us) =
     (if uc_Transport u \<noteq> UpstreamTransportDNS then
        Some (Errorf ''upstreams[%d].transport %q is not supported by powerdns renderer''
                [AInt i, AStr (uc_Transport u)])
      else powerdns_scan (i + 1) us)"

definition validatePowerDNSCompatibility :: "engineConfig \<Rightarrow> goError option" where
  "validatePowerDNSCompatibility config = powerdns_scan 0 (ec_Upstreams config)"

definition powerdns_EngineType :: string where
  "powerdns_EngineType = ''powerdns''"

definition powerdns_ConfigFileName :: string where
  "powerdns_ConfigFileName = ''recursor.conf''"

definition powerdns_Render :: "templates \<Rightarrow> int \<Rightarrow> engineConfig option \<Rightarrow> goError + string" where
  "powerdns_Render T cpus c =
     (case c of
        None \<Rightarrow> Inl (Errorf ''engine config is required'' [])
      | Some config \<Rightarrow>
          let normalized = powerdns_normalizeConfig cpus config in
          case validatePowerDNSCompatibility normalized of
            Some e \<Rightarrow> Inl (Wrap ''validate powerdns transport compatibility: %w'' [] e)
          | None \<Rightarrow>
          case validateTemplateConfig T normalized of
            Some e \<Rightarrow> Inl (Wrap ''validate powerdns template input: %w'' [] (Foreign e))
          | None \<Rightarrow>
          case parseTemplate T ''recursor.conf'' of
            Some e \<Rightarrow> Inl (Wrap ''parse powerdns template: %w'' [] (Foreign e))
          | None \<Rightarrow>
          case executeTemplate T ''recursor.conf'' normalized of
            Inl e \<Rightarrow> Inl (Wrap ''render powerdns template: %w'' [] (Foreign e))
          | Inr out \<Rightarrow> Inr out)"

section \<open>The copies agree\<close>

lemma renderer_copies:
  "unbound_normalizeUpstreamTransport = normalizeUpstreamTransport"
  "coredns_normalizeUpstreamTransport = normalizeUpstreamTransport"
  "powerdns_normalizeUpstreamTransport = normalizeUpstreamTransport"
  "unbound_normalizeDNSSECMode = normalizeDNSSECMode"
  "coredns_normalizeDNSSECMode = normalizeDNSSECMode"
  "powerdns_normalizeDNSSECMode = normalizeDNSSECMode"
  "unbound_defaultPortForTransport = defaultUpstreamPortForTransport"
  "coredns_defaultPortForTransport = defaultUpstreamPortForTransport"
  "powerdns_defaultPortForTransport = defaultUpstreamPortForTransport"
  "unbound_normalizeWorkerThreads = resolveWorkerThreads"
  "coredns_normalizeWorkerThreads = resolveWorkerThreads"
  "powerdns_normalizeWorkerThreads = resolveWorkerThreads"
  "unbound_defaultTLSServerName = defaultTLSServerName"
  "coredns_defaultTLSServerName = defaultTLSServerName"
  by (simp_all add: fun_eq_iff
      unbound_normalizeUpstreamTransport_def coredns_normalizeUpstreamTransport_def
      powerdns_normalizeUpstreamTransport_def normalizeUpstreamTransport_def
      unbound_normalizeDNSSECMode_def coredns_normalizeDNSSECMode_def
      powerdns_normalizeDNSSECMode_def normalizeDNSSECMode_def
      unbound_defaultPortForTransport_def coredns_defaultPortForTransport_def
      powerdns_defaultPortForTransport_def defaultUpstreamPortForTransport_def
      unbound_normalizeWorkerThreads_def coredns_normalizeWorkerThreads_def
      powerdns_normalizeWorkerThreads_def resolveWorkerThreads_def
      unbound_defaultTLSServerName_def coredns_defaultTLSServerName_def defaultTLSServerName_def)

lemma coredns_normalizeUpstream_eq: "coredns_normalizeUpstream = unbound_normalizeUpstream"
  by (rule ext) (simp only: coredns_normalizeUpstream_def unbound_normalizeUpstream_def renderer_copies)

lemma coredns_normalizeConfig_eq: "coredns_normalizeConfig = unbound_normalizeConfig"
  by (intro ext) (simp only: coredns_normalizeConfig_def unbound_normalizeConfig_def
      renderer_copies coredns_normalizeUpstream_eq)

section \<open>Normal upstreams\<close>

lemma normalizeUpstreamTransport_const [simp]:
  "normalizeUpstreamTransport ''dns'' = ''dns''"
  "normalizeUpstreamTransport ''dot'' = ''dot''"
  "normalizeUpstreamTransport ''doh'' = ''doh''"
  by code_simp+

lemma normalizeDNSSECMode_const [simp]:
  "normalizeDNSSECMode ''off'' = ''off''"
  "normalizeDNSSECMode ''process'' = ''process''"
  "normalizeDNSSECMode ''validate'' = ''validate''"
  by code_simp+

lemma normalizeUpstreamTransport_idem [simp]:
  "normalizeUpstreamTransport (normalizeUpstreamTransport t) = normalizeUpstreamTransport t"
  using normalizeUpstreamTransport_cases [of t] by auto

lemma normalizeDNSSECMode_idem [simp]:
  "normalizeDNSSECMode (normalizeDNSSECMode t) = normalizeDNSSECMode t"
proof -
  have "normalizeDNSSECMode t \<in> {''off'', ''process'', ''validate''}"
    by (simp add: normalizeDNSSECMode_def Let_def)
  then show ?thesis by auto
qed

lemma resolveWorkerThreads_idem [simp]:
  "resolveWorkerThreads cpus (resolveWorkerThreads cpus v) = resolveWorkerThreads cpus v"
proof -
  have "1 \<le> resolveWorkerThreads cpus v" "resolveWorkerThreads cpus v \<le> 256"
    using resolveWorkerThreads_range by blast+
  then show ?thesis by (subst resolveWorkerThreads_def) simp
qed

text \<open>An upstream entry that the renderers with a default TLS name leave alone.\<close>

definition upstreamNormal :: "upstreamConfig \<Rightarrow> bool" where
  "upstreamNormal u \<longleftrightarrow>
     uc_Transport u \<in> {UpstreamTransportDNS, UpstreamTransportDoT, UpstreamTransportDoH} \<and>
     uc_Port u \<noteq> 0 \<and> trimSpace (uc_TLSServerName u) = uc_TLSServerName u \<and>
     (if uc_Transport u = UpstreamTransportDNS then uc_TLSServerName u = ''''
      else uc_TLSServerName u = '''' \<longrightarrow> defaultTLSServerName (uc_Address u) = '''') \<and>
     0 < uc_Weight u \<and> 0 < uc_Preference u"

lemma unbound_normalizeUpstream_fields:
  "uc_Address (unbound_normalizeUpstream u) = uc_Address u"
  "uc_Transport (unbound_normalizeUpstream u) = normalizeUpstreamTransport (uc_Transport u)"
  "uc_Port (unbound_normalizeUpstream u) =
     (if uc_Port u = 0 then defaultUpstreamPortForTransport (normalizeUpstreamTransport (uc_Transport u))
      else uc_Port u)"
  "uc_TLSServerName (unbound_normalizeUpstream u) =
     (if normalizeUpstreamTransport (uc_Transport u) = UpstreamTransportDNS then ''''
      else if trimSpace (uc_TLSServerName u) = '''' then defaultTLSServerName (uc_Address u)
      else trimSpace (uc_TLSServerName u))"
  "uc_Weight (unbound_normalizeUpstream u) = (if uc_Weight u \<le> 0 then 1 else uc_Weight u)"
  "uc_Preference (unbound_normalizeUpstream u) = (if uc_Preference u \<le> 0 then 100 else uc_Preference u)"
  by (simp_all add: unbound_normalizeUpstream_def Let_def renderer_copies)

lemma powerdns_normalizeUpstream_fields:
  "uc_Address (powerdns_normalizeUpstream u) = uc_Address u"
  "uc_Transport (powerdns_normalizeUpstream u) = normalizeUpstreamTransport (uc_Transport u)"
  "uc_Port (powerdns_normalizeUpstream u) =
     (if uc_Port u = 0 then defaultUpstreamPortForTransport (normalizeUpstreamTransport (uc_Transport u))
      else uc_Port u)"
  "uc_TLSServerName (powerdns_normalizeUpstream u) =
     (if normalizeUpstreamTransport (uc_Transport u) = UpstreamTransportDNS then ''''
      else trimSpace (uc_TLSServerName u))"
  "uc_Weight (powerdns_normalizeUpstream u) = (if uc_Weight u \<le> 0 then 1 else uc_Weight u)"
  "uc_Preference (powerdns_normalizeUpstream u) = (if uc_Preference u \<le> 0 then 100 else uc_Preference u)"
  by (simp_all add: powerdns_normalizeUpstream_def Let_def renderer_copies)

lemma upstreamConfig_eqI:
  "uc_Address a = uc_Address b \<Longrightarrow> uc_Port a = uc_Port b \<Longrightarrow> uc_Transport a = uc_Transport b \<Longrightarrow>
   uc_TLSServerName a = uc_TLSServerName b \<Longrightarrow> uc_Weight a = uc_Weight b \<Longrightarrow>
   uc_Preference a = uc_Preference b \<Longrightarrow> (a :: upstreamConfig) = b"
  by simp

lemma unbound_normalizeUpstream_id: "upstreamNormal u \<Longrightarrow> unbound_normalizeUpstream u = u"
  by (rule upstreamConfig_eqI)
    (auto simp: upstreamNormal_def unbound_normalizeUpstream_fields split: if_splits)

lemma powerdns_normalizeUpstream_id: "upstreamNormal u \<Longrightarrow> powerdns_normalizeUpstream u = u"
  by (rule upstreamConfig_eqI)
    (auto simp: upstreamNormal_def powerdns_normalizeUpstream_fields split: if_splits)

text \<open>
  Normalising makes entries normal.  The default TLS name may end in a space when the address
  does before a final dot; \<open>tlsStable\<close> excludes this, and every address the controllers accept
  satisfies it (\<open>valid_tlsStable\<close> below).
\<close>

definition tlsStable :: "upstreamConfig \<Rightarrow> bool" where
  "tlsStable u \<longleftrightarrow> trimSpace (defaultTLSServerName (uc_Address u)) = defaultTLSServerName (uc_Address u)"

lemma defaultPort_nonzero: "defaultUpstreamPortForTransport t \<noteq> 0"
  using defaultUpstreamPort_range [of t] by auto

lemma unbound_normalizeUpstream_normal:
  assumes "tlsStable u"
  shows "upstreamNormal (unbound_normalizeUpstream u)"
  using assms normalizeUpstreamTransport_cases [of "uc_Transport u"]
  unfolding upstreamNormal_def unbound_normalizeUpstream_fields tlsStable_def
  by (auto simp: defaultPort_nonzero)

definition configNormal :: "engineConfig \<Rightarrow> bool" where
  "configNormal c \<longleftrightarrow>
     list_all upstreamNormal (ec_Upstreams c) \<and> 1 \<le> ec_WorkerThreads c \<and> ec_WorkerThreads c \<le> 256 \<and>
     ec_DNSSECMode c \<in> {DNSSECModeOff, DNSSECModeProcess, DNSSECModeValidate}"

lemma normalizeDNSSECMode_range:
  "normalizeDNSSECMode m \<in> {DNSSECModeOff, DNSSECModeProcess, DNSSECModeValidate}"
  by (simp add: normalizeDNSSECMode_def Let_def)

lemma resolveWorkerThreads_id: "1 \<le> v \<Longrightarrow> v \<le> 256 \<Longrightarrow> resolveWorkerThreads cpus v = v"
  by (simp add: resolveWorkerThreads_def)

lemma unbound_normalizeConfig_id: "configNormal c \<Longrightarrow> unbound_normalizeConfig cpus c = c"
  by (auto simp: configNormal_def unbound_normalizeConfig_def renderer_copies resolveWorkerThreads_id
      list_all_iff unbound_normalizeUpstream_id map_idI)

lemma powerdns_normalizeConfig_id: "configNormal c \<Longrightarrow> powerdns_normalizeConfig cpus c = c"
  by (auto simp: configNormal_def powerdns_normalizeConfig_def renderer_copies resolveWorkerThreads_id
      list_all_iff powerdns_normalizeUpstream_id map_idI)

lemma unbound_normalizeConfig_normal:
  "list_all tlsStable (ec_Upstreams c) \<Longrightarrow> configNormal (unbound_normalizeConfig cpus c)"
  using resolveWorkerThreads_range normalizeDNSSECMode_range
  by (auto simp: configNormal_def unbound_normalizeConfig_def renderer_copies list_all_iff
      unbound_normalizeUpstream_normal)

section \<open>The compatibility checks\<close>

lemma unbound_scan_iff:
  "unbound_scan i p d us = Inr (p', d') \<longleftrightarrow>
    (\<forall>u \<in> set us. uc_Transport u \<noteq> UpstreamTransportDoH) \<and>
    (p' \<longleftrightarrow> p \<or> (\<exists>u \<in> set us. uc_Transport u \<noteq> UpstreamTransportDoT)) \<and>
    (d' \<longleftrightarrow> d \<or> (\<exists>u \<in> set us. uc_Transport u = UpstreamTransportDoT))"
  by (induction us arbitrary: i p d) auto

lemma unbound_scan_error:
  "unbound_scan i p d us = Inl e \<Longrightarrow> \<exists>u \<in> set us. uc_Transport u = UpstreamTransportDoH"
  by (induction us arbitrary: i p d) (auto split: if_splits)

lemma validateUnbound_iff:
  "validateUnboundCompatibility c = None \<longleftrightarrow>
    (\<forall>u \<in> set (ec_Upstreams c). uc_Transport u \<noteq> UpstreamTransportDoH) \<and>
    \<not> ((\<exists>u \<in> set (ec_Upstreams c). uc_Transport u \<noteq> UpstreamTransportDoT) \<and>
       (\<exists>u \<in> set (ec_Upstreams c). uc_Transport u = UpstreamTransportDoT))"
proof (cases "unbound_scan 0 False False (ec_Upstreams c)")
  case (Inl e)
  then show ?thesis using unbound_scan_error [OF Inl] by (auto simp: validateUnboundCompatibility_def)
next
  case (Inr pd)
  then obtain p d where "unbound_scan 0 False False (ec_Upstreams c) = Inr (p, d)" by (cases pd) auto
  then show ?thesis
    using unbound_scan_iff [of 0 False False "ec_Upstreams c" p d]
    by (simp add: validateUnboundCompatibility_def)
qed

lemma validatePowerDNS_iff:
  "validatePowerDNSCompatibility c = None \<longleftrightarrow>
    (\<forall>u \<in> set (ec_Upstreams c). uc_Transport u = UpstreamTransportDNS)"
proof -
  have "powerdns_scan i us = None \<longleftrightarrow> (\<forall>u \<in> set us. uc_Transport u = UpstreamTransportDNS)" for i us
    by (induction us arbitrary: i) auto
  then show ?thesis by (simp add: validatePowerDNSCompatibility_def)
qed

text \<open>The TLS names CoreDNS would have to use.\<close>

definition tlsNames :: "engineConfig \<Rightarrow> string set" where
  "tlsNames c = uc_TLSServerName ` {u \<in> set (ec_Upstreams c).
     uc_Transport u \<noteq> UpstreamTransportDNS \<and> uc_TLSServerName u \<noteq> ''''}"

definition knownTransport :: "upstreamConfig \<Rightarrow> bool" where
  "knownTransport u \<longleftrightarrow>
     uc_Transport u \<in> {UpstreamTransportDNS, UpstreamTransportDoT, UpstreamTransportDoH}"

lemma coredns_scan_known:
  "list_all knownTransport us \<Longrightarrow> distinct seen \<Longrightarrow>
    \<exists>out. coredns_scan i seen us = Inr out \<and> distinct out \<and>
      set out = set seen \<union> uc_TLSServerName ` {u \<in> set us.
        uc_Transport u \<noteq> UpstreamTransportDNS \<and> uc_TLSServerName u \<noteq> ''''}"
proof (induction us arbitrary: i seen)
  case Nil
  then show ?case by simp
next
  case (Cons u us)
  have known: "knownTransport u" "list_all knownTransport us" using Cons.prems by auto
  show ?case
  proof (cases "uc_Transport u = UpstreamTransportDNS \<or> uc_TLSServerName u = ''''")
    case True
    then have "coredns_scan i seen (u # us) = coredns_scan (i + 1) seen us"
      using known(1) by (auto simp: knownTransport_def)
    moreover have "{v \<in> set (u # us). uc_Transport v \<noteq> UpstreamTransportDNS \<and> uc_TLSServerName v \<noteq> ''''} =
        {v \<in> set us. uc_Transport v \<noteq> UpstreamTransportDNS \<and> uc_TLSServerName v \<noteq> ''''}"
      using True by auto
    ultimately show ?thesis
      using Cons.IH [OF known(2) Cons.prems(2), of "i + 1"] by simp
  next
    case False
    then have "coredns_scan i seen (u # us) = coredns_scan (i + 1) (List.insert (uc_TLSServerName u) seen) us"
      using known(1) by (auto simp: knownTransport_def)
    moreover have "{v \<in> set (u # us). uc_Transport v \<noteq> UpstreamTransportDNS \<and> uc_TLSServerName v \<noteq> ''''} =
        insert u {v \<in> set us. uc_Transport v \<noteq> UpstreamTransportDNS \<and> uc_TLSServerName v \<noteq> ''''}"
      using False by auto
    ultimately show ?thesis
      using Cons.IH [OF known(2), of "List.insert (uc_TLSServerName u) seen" "i + 1"] Cons.prems(2)
      by simp
  qed
qed

lemma distinct_length_le_1: "distinct xs \<Longrightarrow> \<not> length xs > 1 \<longleftrightarrow> (\<exists>x. set xs \<subseteq> {x})"
  by (cases xs; cases "tl xs") auto

lemma validateCoreDNS_iff:
  assumes "list_all knownTransport (ec_Upstreams c)"
  shows "validateCoreDNSCompatibility c = None \<longleftrightarrow>
    ec_DNSSECMode c = DNSSECModeOff \<and> (\<exists>n. tlsNames c \<subseteq> {n})"
proof -
  obtain out where out: "coredns_scan 0 [] (ec_Upstreams c) = Inr out" "distinct out" "set out = tlsNames c"
    using coredns_scan_known [OF assms, of "[]" 0] by (auto simp: tlsNames_def)
  then show ?thesis
    using distinct_length_le_1 [OF out(2)] by (auto simp: validateCoreDNSCompatibility_def)
qed

lemma normalized_known:
  "list_all knownTransport (ec_Upstreams (unbound_normalizeConfig cpus c))"
  "list_all knownTransport (ec_Upstreams (powerdns_normalizeConfig cpus c))"
  using normalizeUpstreamTransport_cases
  by (auto simp: list_all_iff knownTransport_def unbound_normalizeConfig_def powerdns_normalizeConfig_def
      unbound_normalizeUpstream_fields powerdns_normalizeUpstream_fields)

end
