(* ===== verification/RendererContract.thy ===== *)
theory RendererContract
  imports Renderers
begin

text \<open>
  The contract of a \<open>ConfigRenderer\<close> as a locale, interpreted on the three renderers, and the
  link to the generator: what it produces from a validated pool is already in the renderers' normal
  form, so the configuration the reconciler stores is the one it rendered.
\<close>

section \<open>Generated configurations are normal\<close>

lemma percent_not_space: "CHR ''%'' \<notin> spaceBytes"
  by (simp add: spaceBytes_def spaces_def)

lemma defaultTLSServerName_stable:
  assumes K: "dns1123_documented K" and addr: "isValidUpstreamAddress K a" "trimSpace a = a"
  shows "trimSpace (defaultTLSServerName a) = defaultTLSServerName a"
proof (cases "parseAddrOk a")
  case False
  then have "isDNS1123Subdomain K a = []"
    using addr by (auto simp: isValidUpstreamAddress_def Let_def split: if_splits)
  then show ?thesis
    using dns1123_last [OF K] addr(2) by (simp add: defaultTLSServerName_def Let_def)
next
  case True
  show ?thesis
  proof (cases "suffix ''.'' a")
    case False
    then show ?thesis
      using True addr(2) by (simp add: defaultTLSServerName_def trimSuffix_def Let_def)
  next
    case suf: True
    then obtain x where x: "a = x @ ''.''" by (auto simp: suffix_def)
    have tls: "defaultTLSServerName a = (if x = '''' \<or> parseAddrOk x then '''' else x)"
      using addr(2) x suf by (simp add: defaultTLSServerName_def trimSuffix_def Let_def)
    show ?thesis
    proof (cases "x = '''' \<or> parseAddrOk x")
      case True
      then show ?thesis using tls by simp
    next
      case False
      then have last: "x \<noteq> ''''" "last x = CHR ''%''"
        using parseAddrOk_dot True x by auto
      have "clean spaces a" using addr(2) by (simp add: trimSpace_eq_iff)
      then have "clean spaces x" using x by (auto intro: clean_prefix)
      moreover have "clean (map rev spaces) (rev x)"
        using spaces_ends last percent_not_space
        by (auto simp: list_all_iff intro!: clean_hd simp: hd_rev)
      ultimately have "trimSpace x = x" by (simp add: trimSpace_eq_iff)
      then show ?thesis using tls False by simp
    qed
  qed
qed

lemma valid_tlsStable:
  assumes "dns1123_documented K" "upstreamOk K u"
  shows "tlsStable (generateUpstream u)"
  using assms defaultTLSServerName_stable [of K "up_Address u"]
  by (simp add: tlsStable_def generateUpstream_def upstreamOk_def Let_def)

lemma generateUpstream_normal:
  assumes "dns1123_documented K" "upstreamOk K u"
  shows "upstreamNormal (generateUpstream u)"
proof -
  have stable: "trimSpace (defaultTLSServerName (up_Address u)) = defaultTLSServerName (up_Address u)"
    using assms defaultTLSServerName_stable by (simp add: upstreamOk_def)
  have addr: "trimSpace (up_Address u) = up_Address u" using assms by (simp add: upstreamOk_def)
  show ?thesis
    using stable normalizeUpstreamTransport_cases [of "up_Transport u"]
    unfolding upstreamNormal_def generateUpstream_def Let_def addr
    by (auto simp: gen_defaultPort_eq defaultPort_nonzero normalizeUpstreamWeight_def
        normalizeUpstreamPreference_def)
qed

lemma Generate_normal:
  assumes K: "dns1123_documented K" and ok: "poolSpecOk K (po_Spec p)"
    and gen: "Generate cpus (Some p) prof = Inr cfg"
  shows "configNormal cfg"
proof -
  have "\<forall>u \<in> set (ps_Upstreams (po_Spec p)). upstreamNormal (generateUpstream u)"
    using ok generateUpstream_normal [OF K] by (auto simp: poolSpecOk_def list_all_iff)
  then show ?thesis
    using gen resolveWorkerThreads_range normalizeDNSSECMode_range
    by (auto simp: Generate_Inr_iff configNormal_def list_all_iff)
qed

lemma configNormal_known: "configNormal c \<Longrightarrow> list_all knownTransport (ec_Upstreams c)"
  by (auto simp: configNormal_def upstreamNormal_def knownTransport_def list_all_iff)

text \<open>Plain DNS without DNSSEC is what all three engines can serve.\<close>

definition plainConfig :: "engineConfig \<Rightarrow> bool" where
  "plainConfig c \<longleftrightarrow>
     (\<forall>u \<in> set (ec_Upstreams c). uc_Transport u = UpstreamTransportDNS) \<and> ec_DNSSECMode c = DNSSECModeOff"

lemma plain_compat:
  assumes "plainConfig c" "configNormal c"
  shows "validateUnboundCompatibility c = None" "validateCoreDNSCompatibility c = None"
    "validatePowerDNSCompatibility c = None"
proof -
  have "tlsNames c = {}" using assms(1) by (auto simp: tlsNames_def plainConfig_def)
  then show "validateCoreDNSCompatibility c = None"
    using assms by (simp add: validateCoreDNS_iff configNormal_known plainConfig_def)
qed (use assms in \<open>auto simp: validateUnbound_iff validatePowerDNS_iff plainConfig_def\<close>)

section \<open>The contract\<close>

locale config_renderer =
  fixes normalize :: "int \<Rightarrow> engineConfig \<Rightarrow> engineConfig"
    and compat :: "engineConfig \<Rightarrow> goError option"
    and fileName :: string
    and render :: "templates \<Rightarrow> int \<Rightarrow> engineConfig option \<Rightarrow> goError + string"
  assumes render_nil: "\<exists>e. render T cpus None = Inl e"
    and render_Inr: "render T cpus (Some c) = Inr out \<longleftrightarrow>
      compat (normalize cpus c) = None \<and> validateTemplateConfig T (normalize cpus c) = None \<and>
      parseTemplate T fileName = None \<and> executeTemplate T fileName (normalize cpus c) = Inr out"
    and normalize_normal: "configNormal c \<Longrightarrow> normalize cpus c = c"
    and normalize_known: "list_all knownTransport (ec_Upstreams (normalize cpus c))"
begin

text \<open>A normal configuration is rendered as it is, on every machine.\<close>

lemma render_normal:
  "configNormal c \<Longrightarrow> render T cpus (Some c) = Inr out \<longleftrightarrow>
     compat c = None \<and> validateTemplateConfig T c = None \<and> parseTemplate T fileName = None \<and>
     executeTemplate T fileName c = Inr out"
  by (simp add: render_Inr normalize_normal)

lemma render_any_machine:
  "configNormal c \<Longrightarrow> render T cpus (Some c) = Inr out \<Longrightarrow> render T cpus' (Some c) = Inr out"
  by (simp add: render_normal)

lemma render_compat: "render T cpus (Some c) = Inr out \<Longrightarrow> compat (normalize cpus c) = None"
  by (simp add: render_Inr)

end

text \<open>A renderer whose normalisation also fills in the TLS name always ends in normal form.\<close>

locale tls_renderer = config_renderer +
  assumes normalize_makes_normal:
    "list_all tlsStable (ec_Upstreams c) \<Longrightarrow> configNormal (normalize cpus c)"
begin

lemma normalize_idem:
  "list_all tlsStable (ec_Upstreams c) \<Longrightarrow> normalize cpus' (normalize cpus c) = normalize cpus c"
  by (simp add: normalize_makes_normal normalize_normal)

lemma render_normalize:
  "list_all tlsStable (ec_Upstreams c) \<Longrightarrow>
    render T cpus (Some (normalize cpus c)) = Inr out \<longleftrightarrow> render T cpus (Some c) = Inr out"
  by (simp add: render_Inr normalize_idem)

end

interpretation unbound: tls_renderer unbound_normalizeConfig validateUnboundCompatibility
    "''unbound.conf''" unbound_Render
  by unfold_locales
    (auto simp: unbound_Render_def Let_def unbound_normalizeConfig_id normalized_known
      unbound_normalizeConfig_normal split: option.splits sum.splits)

interpretation coredns: tls_renderer coredns_normalizeConfig validateCoreDNSCompatibility
    "''Corefile''" coredns_Render
  by unfold_locales
    (auto simp: coredns_Render_def Let_def coredns_normalizeConfig_eq unbound_normalizeConfig_id
      normalized_known unbound_normalizeConfig_normal split: option.splits sum.splits)

interpretation powerdns: config_renderer powerdns_normalizeConfig validatePowerDNSCompatibility
    "''recursor.conf''" powerdns_Render
  by unfold_locales
    (auto simp: powerdns_Render_def Let_def powerdns_normalizeConfig_id normalized_known
      split: option.splits sum.splits)

end
