(* ===== verification/PoolReconciler.thy ===== *)
theory PoolReconciler
  imports Effects PoolValidation Generator
begin

text \<open>
  \<open>DNSUpstreamPoolReconciler\<close> (\<open>controllers/dnsupstreampool_controller.go\<close>): the whole of
  \<open>Reconcile\<close> and of \<open>reconcileAfterPoolDeletion\<close>, with their helpers.

  A result is a pair: the nanoseconds of \<open>RequeueAfter\<close> (0 for none) and the error, if any.
  The environment variables and the configured generator, renderer and recorder are the fields of
  \<open>poolReconciler\<close>; \<open>json.MarshalIndent\<close> of the configuration depends on tags of another
  module's types and is a field too.  Log lines are left out.
\<close>

record poolReconciler =
  rc_ConfigGen :: "(pool option \<Rightarrow> profile option \<Rightarrow> goError + engineConfig) option"
  rc_ConfigRenderer :: "(engineConfig option \<Rightarrow> goError + string) option"
  rc_Recorder :: bool
  rc_PodNamespace :: string
  rc_ConfigMapName :: string
  rc_MarshalIndent :: "engineConfig \<Rightarrow> string + string"

type_synonym reconcileResult = "int \<times> goError option"

abbreviation supersededPoolReason :: string where "supersededPoolReason \<equiv> ''Superseded''"
abbreviation upstreamPoolReadyCondition :: string where "upstreamPoolReadyCondition \<equiv> ''Ready''"
abbreviation agentConfigMapName :: string where "agentConfigMapName \<equiv> ''astradns-agent-config''"
abbreviation agentConfigKey :: string where "agentConfigKey \<equiv> ''config.json''"
abbreviation defaultCacheProfileName :: string where "defaultCacheProfileName \<equiv> ''default''"
definition configMapObjectSizeLimitBytes :: nat where [simp]: "configMapObjectSizeLimitBytes = 1048576"
definition configMapSafetyOverheadBytes :: nat where [simp]: "configMapSafetyOverheadBytes = 4096"
definition maxAgentConfigJSONBytes :: nat where [simp]: "maxAgentConfigJSONBytes = configMapObjectSizeLimitBytes - configMapSafetyOverheadBytes"

definition errConfigMapCircuitOpen :: goError where
  "errConfigMapCircuitOpen = Sentinel ''configmap update circuit breaker is open''"

section \<open>Helpers\<close>

definition operatorNamespace :: "poolReconciler \<Rightarrow> string \<Rightarrow> string" where
  "operatorNamespace R fallback =
     (let namespace = trimSpace (rc_PodNamespace R) in if namespace \<noteq> '''' then namespace else fallback)"

definition resolvedAgentConfigMapName :: "poolReconciler \<Rightarrow> string" where
  "resolvedAgentConfigMapName R =
     (let name = trimSpace (rc_ConfigMapName R) in if name \<noteq> '''' then name else agentConfigMapName)"

definition validateConfigMapPayloadSize :: "string \<Rightarrow> goError option" where
  "validateConfigMapPayloadSize renderedConfig =
     (let payloadSize = length renderedConfig + length agentConfigKey in
      if payloadSize > maxAgentConfigJSONBytes then
        Some (Errorf ''rendered config payload is %d bytes, exceeds safe ConfigMap limit of %d bytes''
                [AInt (int payloadSize), AInt (int maxAgentConfigJSONBytes)])
      else None)"

definition recordPoolEvent ::
    "poolReconciler \<Rightarrow> pool \<Rightarrow> eventType \<Rightarrow> string \<Rightarrow> message \<Rightarrow> ('w poolSys, unit) state" where
  "recordPoolEvent R p typ reason msg =
     (if \<not> rc_Recorder R then State_Monad.return ()
      else note_effect (RecordEvent (om_Namespace (po_Meta p)) (poolName p) typ reason msg))"

definition withReadyCondition :: "k8s \<Rightarrow> pool \<Rightarrow> conditionStatus \<Rightarrow> string \<Rightarrow> message \<Rightarrow> pool" where
  "withReadyCondition K p status reason msg =
     p\<lparr>po_Status :=
       \<lparr>st_Conditions = setStatusCondition K (st_Conditions (po_Status p))
          \<lparr>cd_Type = upstreamPoolReadyCondition, cd_Status = status, cd_ObservedGeneration = om_Generation (po_Meta p),
           cd_Reason = reason, cd_Message = msg\<rparr>,
        st_ObservedGeneration = om_Generation (po_Meta p)\<rparr>\<rparr>"

definition setReadyCondition ::
    "k8s \<Rightarrow> 'w client \<Rightarrow> pool \<Rightarrow> conditionStatus \<Rightarrow> string \<Rightarrow> message \<Rightarrow> ('w poolSys, goError option) state" where
  "setReadyCondition K C p status reason msg = do {
     let p' = withReadyCondition K p status reason msg;
     r \<leftarrow> api (PatchPoolStatus p p') (cl_PatchPoolStatus C p p');
     State_Monad.return (case r of
       Inl e \<Rightarrow> Some (Wrap ''update DNSUpstreamPool status: %w'' [] (ApiErr e))
     | Inr _ \<Rightarrow> None)
   }"

text \<open>The stamp: the pool with the annotation, or the failed patch.\<close>

definition stampInitialRV :: "pool \<Rightarrow> pool" where
  "stampInitialRV p =
     p\<lparr>po_Meta := (po_Meta p)\<lparr>om_Annotations :=
        gm_set initialRVAnnotation (om_ResourceVersion (po_Meta p)) (om_Annotations (po_Meta p))\<rparr>\<rparr>"

definition ensureInitialRVAnnotation :: "'w client \<Rightarrow> pool \<Rightarrow> ('w poolSys, goError + pool) state" where
  "ensureInitialRVAnnotation C p =
     (if gm_get (om_Annotations (po_Meta p)) initialRVAnnotation \<noteq> None then State_Monad.return (Inr p)
      else do {
        let p' = stampInitialRV p;
        r \<leftarrow> api (PatchPool p p') (cl_PatchPool C p p');
        State_Monad.return (case r of
          Inl e \<Rightarrow> Inl (Wrap ''patch initial-resource-version annotation: %w'' [] (ApiErr e))
        | Inr q \<Rightarrow> Inr q)
      })"

definition mutateConfigMap :: "configMapMutation \<Rightarrow> configMap \<Rightarrow> configMap" where
  "mutateConfigMap m cm =
     (case m of
        SetDataKey k v \<Rightarrow> cm\<lparr>cm_Data := gm_set k v (cm_Data cm)\<rparr>
      | DeleteDataKey k \<Rightarrow>
          if cm_Data cm = None then cm\<lparr>cm_Data := Some []\<rparr>
          else cm\<lparr>cm_Data := gm_delete k (cm_Data cm)\<rparr>)"

definition upsertConfigMap ::
    "poolReconciler \<Rightarrow> 'w client \<Rightarrow> string \<Rightarrow> string \<Rightarrow> ('w poolSys, goError option) state" where
  "upsertConfigMap R C namespace renderedConfig = do {
     let name = resolvedAgentConfigMapName R;
     let cm = \<lparr>cm_Name = name, cm_Namespace = namespace, cm_Data = None\<rparr>;
     let m = SetDataKey agentConfigKey renderedConfig;
     r \<leftarrow> api (CreateOrUpdateConfigMap cm m) (cl_CreateOrUpdate C cm (mutateConfigMap m));
     State_Monad.return (case r of
       Inl e \<Rightarrow> Some (Wrap ''create or update ConfigMap %s/%s: %w'' [AStr namespace, AStr name] (ApiErr e))
     | Inr _ \<Rightarrow> None)
   }"

definition upsertConfigMapWithCircuitBreaker ::
    "poolReconciler \<Rightarrow> 'w client \<Rightarrow> string \<Rightarrow> string \<Rightarrow> ('w poolSys, goError option) state" where
  "upsertConfigMapWithCircuitBreaker R C namespace renderedConfig = do {
     now \<leftarrow> api ReadClock (cl_Now C);
     open \<leftarrow> withCircuit (isConfigMapCircuitOpen namespace now);
     case open of
       Some openUntil \<Rightarrow> State_Monad.return (Some (Wrap ''%w: namespace %q until %s''
         [AStr namespace, AInt openUntil] errConfigMapCircuitOpen))
     | None \<Rightarrow> do {
         r \<leftarrow> upsertConfigMap R C namespace renderedConfig;
         case r of
           Some e \<Rightarrow> do {
             t1 \<leftarrow> api ReadClock (cl_Now C);
             t2 \<leftarrow> api ReadClock (cl_Now C);
             _ \<leftarrow> withCircuit (\<lambda>b. ((), recordConfigMapUpdateFailure namespace t1 t2 b));
             State_Monad.return (Some e)
           }
         | None \<Rightarrow> do {
             _ \<leftarrow> withCircuit (\<lambda>b. ((), resetConfigMapUpdateFailures namespace b));
             State_Monad.return None
           }
       }
   }"

definition removeConfigKey :: "poolReconciler \<Rightarrow> 'w client \<Rightarrow> string \<Rightarrow> ('w poolSys, goError option) state" where
  "removeConfigKey R C namespace = do {
     let name = resolvedAgentConfigMapName R;
     g \<leftarrow> api (GetConfigMap namespace name) (cl_GetConfigMap C namespace name);
     case g of
       Inl e \<Rightarrow> State_Monad.return (if isNotFound e then None
         else Some (Wrap ''get ConfigMap %s/%s: %w'' [AStr namespace, AStr name] (ApiErr e)))
     | Inr cm \<Rightarrow> do {
         let m = DeleteDataKey agentConfigKey;
         r \<leftarrow> api (CreateOrUpdateConfigMap cm m) (cl_CreateOrUpdate C cm (mutateConfigMap m));
         State_Monad.return (case r of
           Inl e \<Rightarrow> Some (Wrap ''remove config key from ConfigMap %s/%s: %w''
             [AStr namespace, AStr name] (ApiErr e))
         | Inr _ \<Rightarrow> None)
       }
   }"

definition getDefaultCacheProfile ::
    "'w client \<Rightarrow> string \<Rightarrow> ('w poolSys, apiError + profile option) state" where
  "getDefaultCacheProfile C namespace = do {
     g \<leftarrow> api (GetProfile namespace defaultCacheProfileName) (cl_GetProfile C namespace defaultCacheProfileName);
     State_Monad.return (case g of
       Inl e \<Rightarrow> if isNotFound e then Inr None else Inl e
     | Inr pr \<Rightarrow> Inr (Some pr))
   }"

definition selectActivePoolName ::
    "'w client \<Rightarrow> string \<Rightarrow> ('w poolSys, goError + string \<times> int \<times> string) state" where
  "selectActivePoolName C namespace = do {
     l \<leftarrow> api (ListPools namespace) (cl_ListPools C namespace);
     State_Monad.return (case l of
       Inl e \<Rightarrow> Inl (Wrap ''list DNSUpstreamPools in namespace %q: %w'' [AStr namespace] (ApiErr e))
     | Inr items \<Rightarrow> Inr (selectFromPools items))
   }"

section \<open>Reconcile\<close>

text \<open>
  The block that ends every failed branch: an event, the condition \<open>Ready=False\<close>, and
  \<open>res\<close>, unless the status update fails too.
\<close>

definition failPool ::
    "poolReconciler \<Rightarrow> k8s \<Rightarrow> 'w client \<Rightarrow> pool \<Rightarrow> string \<Rightarrow> message \<Rightarrow> reconcileResult \<Rightarrow>
     ('w poolSys, reconcileResult) state" where
  "failPool R K C p reason msg res = do {
     _ \<leftarrow> recordPoolEvent R p EventTypeWarning reason msg;
     statusErr \<leftarrow> setReadyCondition K C p ConditionFalse reason msg;
     State_Monad.return (case statusErr of Some e \<Rightarrow> (fst res, Some e) | None \<Rightarrow> res)
   }"

text \<open>The end of \<open>Reconcile\<close>: store the configuration and report.\<close>

definition storeConfig ::
    "poolReconciler \<Rightarrow> k8s \<Rightarrow> 'w client \<Rightarrow> pool \<Rightarrow> string \<Rightarrow> ('w poolSys, reconcileResult) state" where
  "storeConfig R K C p configJSON = do {
     let namespace = operatorNamespace R (om_Namespace (po_Meta p));
     r \<leftarrow> upsertConfigMapWithCircuitBreaker R C namespace configJSON;
     case r of
       Some e0 \<Rightarrow>
         let e = Wrap ''upsert configmap: %w'' [] e0 in
         if errorsIs e errConfigMapCircuitOpen then
           failPool R K C p ''ConfigMapCircuitOpen'' (MErr e) (configMapCircuitOpenInterval, None)
         else failPool R K C p ''ConfigMapUpdateFailed'' (MErr e) (0, Some e)
     | None \<Rightarrow> do {
         _ \<leftarrow> recordPoolEvent R p EventTypeNormal ''ConfigRendered'' (MText ''Rendered engine configuration'' []);
         statusErr \<leftarrow> setReadyCondition K C p ConditionTrue ''Ready''
           (MText ''Configuration rendered successfully'' []);
         State_Monad.return (0, statusErr)
       }
   }"

text \<open>
  The middle of \<open>Reconcile\<close>: generation, trial rendering, marshalling and size
  (\<open>renderAndStore\<close>), after the lookup of the profile (\<open>buildConfig\<close>).
\<close>

definition renderAndStore ::
    "poolReconciler \<Rightarrow> (pool option \<Rightarrow> profile option \<Rightarrow> goError + engineConfig) \<Rightarrow>
     (engineConfig option \<Rightarrow> goError + string) \<Rightarrow> k8s \<Rightarrow> 'w client \<Rightarrow> pool \<Rightarrow> profile option \<Rightarrow>
     ('w poolSys, reconcileResult) state" where
  "renderAndStore R gen render K C p prof =
     (case gen (Some p) prof of
       Inl e0 \<Rightarrow>
         failPool R K C p ''ConfigGenerationFailed'' (MErr (Wrap ''generate engine config: %w'' [] e0)) (0, None)
     | Inr config \<Rightarrow>
     case render (Some config) of
       Inl e0 \<Rightarrow>
         failPool R K C p ''ValidationFailed'' (MErr (Wrap ''validate engine config: %w'' [] e0)) (0, None)
     | Inr _ \<Rightarrow>
     case rc_MarshalIndent R config of
       Inl e0 \<Rightarrow>
         failPool R K C p ''MarshalFailed'' (MErr (Wrap ''marshal engine config: %w'' [] (Foreign e0))) (0, None)
     | Inr configJSON \<Rightarrow>
     case validateConfigMapPayloadSize configJSON of
       Some e \<Rightarrow> failPool R K C p ''ConfigTooLarge'' (MErr e) (0, None)
     | None \<Rightarrow> storeConfig R K C p configJSON)"

definition buildConfig ::
    "poolReconciler \<Rightarrow> (pool option \<Rightarrow> profile option \<Rightarrow> goError + engineConfig) \<Rightarrow>
     (engineConfig option \<Rightarrow> goError + string) \<Rightarrow> k8s \<Rightarrow> 'w client \<Rightarrow> pool \<Rightarrow>
     ('w poolSys, reconcileResult) state" where
  "buildConfig R gen render K C p = do {
     g \<leftarrow> getDefaultCacheProfile C (om_Namespace (po_Meta p));
     case g of
       Inl e0 \<Rightarrow>
         let e = Wrap ''get default DNSCacheProfile: %w'' [] (ApiErr e0) in
         failPool R K C p ''ProfileLookupFailed'' (MErr e) (0, Some e)
     | Inr prof \<Rightarrow> renderAndStore R gen render K C p prof
   }"

text \<open>
  \<open>reconcileAfterPoolDeletion\<close> for the pool it selects, once the metric is recorded; from the
  profile on it is \<open>rebuildWithProfile\<close>.
\<close>

definition rebuildWithProfile ::
    "poolReconciler \<Rightarrow> (pool option \<Rightarrow> profile option \<Rightarrow> goError + engineConfig) \<Rightarrow>
     (engineConfig option \<Rightarrow> goError + string) \<Rightarrow> k8s \<Rightarrow> 'w client \<Rightarrow> string \<Rightarrow> pool \<Rightarrow> profile option \<Rightarrow>
     ('w poolSys, goError option) state" where
  "rebuildWithProfile R gen render K C poolNamespace p prof =
     (case gen (Some p) prof of
       Inl e \<Rightarrow> State_Monad.return (Some (Wrap ''generate engine config from remaining pool: %w'' [] e))
     | Inr config \<Rightarrow>
     case render (Some config) of
       Inl e \<Rightarrow> State_Monad.return (Some (Wrap ''validate config from remaining pool: %w'' [] e))
     | Inr _ \<Rightarrow>
     case rc_MarshalIndent R config of
       Inl e \<Rightarrow> State_Monad.return (Some (Wrap ''marshal config from remaining pool: %w'' [] (Foreign e)))
     | Inr configJSON \<Rightarrow>
     case validateConfigMapPayloadSize configJSON of
       Some e \<Rightarrow> do {
         _ \<leftarrow> recordPoolEvent R p EventTypeWarning ''ConfigTooLarge'' (MErr e);
         statusErr \<leftarrow> setReadyCondition K C p ConditionFalse ''ConfigTooLarge'' (MErr e);
         State_Monad.return (map_option (Wrap ''update oversized pool status: %w'' []) statusErr)
       }
     | None \<Rightarrow> do {
         r \<leftarrow> upsertConfigMapWithCircuitBreaker R C (operatorNamespace R poolNamespace) configJSON;
         case r of
           Some e \<Rightarrow>
             if errorsIs e errConfigMapCircuitOpen then do {
               _ \<leftarrow> recordPoolEvent R p EventTypeWarning ''ConfigMapCircuitOpen'' (MErr e);
               statusErr \<leftarrow> setReadyCondition K C p ConditionFalse ''ConfigMapCircuitOpen'' (MErr e);
               State_Monad.return (map_option (Wrap ''update circuit-open pool status: %w'' []) statusErr)
             }
             else State_Monad.return (Some e)
         | None \<Rightarrow> do {
             statusErr \<leftarrow> setReadyCondition K C p ConditionTrue ''Ready''
               (MText ''Configuration rendered successfully'' []);
             State_Monad.return (map_option (Wrap ''update remaining pool status: %w'' []) statusErr)
           }
       })"

definition rebuildForPool ::
    "poolReconciler \<Rightarrow> (pool option \<Rightarrow> profile option \<Rightarrow> goError + engineConfig) \<Rightarrow>
     (engineConfig option \<Rightarrow> goError + string) \<Rightarrow> k8s \<Rightarrow> 'w client \<Rightarrow> string \<Rightarrow> pool \<Rightarrow>
     ('w poolSys, goError option) state" where
  "rebuildForPool R gen render K C poolNamespace p = do {
     g \<leftarrow> getDefaultCacheProfile C poolNamespace;
     case g of
       Inl e \<Rightarrow> State_Monad.return (Some (Wrap ''get default DNSCacheProfile: %w'' [] (ApiErr e)))
     | Inr prof \<Rightarrow> rebuildWithProfile R gen render K C poolNamespace p prof
   }"

definition reconcileAfterPoolDeletion ::
    "poolReconciler \<Rightarrow> (pool option \<Rightarrow> profile option \<Rightarrow> goError + engineConfig) \<Rightarrow>
     (engineConfig option \<Rightarrow> goError + string) \<Rightarrow> k8s \<Rightarrow> 'w client \<Rightarrow> string \<Rightarrow>
     ('w poolSys, goError option) state" where
  "reconcileAfterPoolDeletion R gen render K C poolNamespace = do {
     l \<leftarrow> api (ListPools poolNamespace) (cl_ListPools C poolNamespace);
     case l of
       Inl e \<Rightarrow> State_Monad.return (Some (Wrap ''list remaining DNSUpstreamPools: %w'' [] (ApiErr e)))
     | Inr items \<Rightarrow>
     case sortPoolsForSelection items of
       [] \<Rightarrow> do {
         _ \<leftarrow> withMetric (clearActivePoolSelectionMetric poolNamespace);
         removeConfigKey R C (operatorNamespace R poolNamespace)
       }
     | p # ps \<Rightarrow> do {
         _ \<leftarrow> withMetric (recordActivePoolSelectionMetric poolNamespace (poolName p)
           (if length (p # ps) > 1 then poolSelectionReasonOldest else poolSelectionReasonSingle));
         rebuildForPool R gen render K C poolNamespace p
       }
   }"

text \<open>\<open>Reconcile\<close> from the validated pool on: the selection, then the configuration.\<close>

definition reconcileValidPool ::
    "poolReconciler \<Rightarrow> (pool option \<Rightarrow> profile option \<Rightarrow> goError + engineConfig) \<Rightarrow>
     (engineConfig option \<Rightarrow> goError + string) \<Rightarrow> k8s \<Rightarrow> 'w client \<Rightarrow> pool \<Rightarrow>
     ('w poolSys, reconcileResult) state" where
  "reconcileValidPool R gen render K C p = do {
     sel \<leftarrow> selectActivePoolName C (om_Namespace (po_Meta p));
     case sel of
       Inl e \<Rightarrow> State_Monad.return (0, Some e)
     | Inr (activePoolName, poolCount, selectionReason) \<Rightarrow> do {
         _ \<leftarrow> withMetric (recordActivePoolSelectionMetric (om_Namespace (po_Meta p)) activePoolName selectionReason);
         if poolCount > 1 \<and> poolName p \<noteq> activePoolName then
           failPool R K C p supersededPoolReason
             (MText ''pool %q is active in this namespace'' [AStr activePoolName]) (0, None)
         else buildConfig R gen render K C p
       }
   }"

definition reconcilePool ::
    "poolReconciler \<Rightarrow> k8s \<Rightarrow> 'w client \<Rightarrow> string \<Rightarrow> string \<Rightarrow> ('w poolSys, reconcileResult) state" where
  "reconcilePool R K C namespace name =
     (case (rc_ConfigGen R, rc_ConfigRenderer R) of
        (Some gen, Some render) \<Rightarrow> do {
          g \<leftarrow> api (GetPool namespace name) (cl_GetPool C namespace name);
          case g of
            Inl e \<Rightarrow>
              if isNotFound e then do {
                r \<leftarrow> reconcileAfterPoolDeletion R gen render K C namespace;
                State_Monad.return (0, map_option (Wrap ''regenerate config after delete: %w'' []) r)
              }
              else State_Monad.return
                (0, Some (Wrap ''get DNSUpstreamPool %s: %w'' [AStr (namespace @ ''/'' @ name)] (ApiErr e)))
          | Inr p0 \<Rightarrow> do {
              a \<leftarrow> ensureInitialRVAnnotation C p0;
              case a of
                Inl e \<Rightarrow> State_Monad.return (0, Some (Wrap ''stamp initial resource version: %w'' [] e))
              | Inr p \<Rightarrow>
              case validateDNSUpstreamPool K (Some p) of
                Some e \<Rightarrow> failPool R K C p ''InvalidSpec'' (MErr e) (0, None)
              | None \<Rightarrow> reconcileValidPool R gen render K C p
            }
        }
      | _ \<Rightarrow> State_Monad.return
          (0, Some (Errorf ''config generator and renderer must be configured'' [])))"

section \<open>The watch\<close>

definition mapCacheProfileToPools ::
    "'w client \<Rightarrow> objectMeta \<Rightarrow> ('w poolSys, (string \<times> string) list) state" where
  "mapCacheProfileToPools C obj = do {
     l \<leftarrow> api (ListPools (om_Namespace obj)) (cl_ListPools C (om_Namespace obj));
     State_Monad.return (case l of
       Inl e \<Rightarrow> []
     | Inr items \<Rightarrow> map (\<lambda>p. (om_Namespace (po_Meta p), poolName p)) items)
   }"

end
