(* ===== verification/Demo.thy ===== *)
theory Demo
  imports Reference RendererContract PoolReconciler
begin

text \<open>
  Sample runs for the witnesses: a reconciler with the model's own generator and Unbound renderer,
  plain templates and a configuration printed as its number of upstreams, on clusters in memory.
\<close>

definition plainTemplates :: templates where
  "plainTemplates = \<lparr>validateTemplateConfig = (\<lambda>c. None), parseTemplate = (\<lambda>f. None),
     executeTemplate = (\<lambda>f c. Inr f)\<rparr>"

definition demoReconciler :: "string \<Rightarrow> poolReconciler" where
  "demoReconciler podNamespace =
     \<lparr>rc_ConfigGen = Some (Generate 4), rc_ConfigRenderer = Some (unbound_Render plainTemplates 4),
      rc_Recorder = False, rc_PodNamespace = podNamespace, rc_ConfigMapName = '''',
      rc_MarshalIndent = (\<lambda>c. Inr (showNat (length (ec_Upstreams c))))\<rparr>"

definition demoState :: "cluster \<Rightarrow> cluster poolSys" where
  "demoState w = \<lparr>world = w, effects = [], circuit = newBreaker, metric = None\<rparr>"

definition demoCluster :: "pool list \<Rightarrow> cluster" where
  "demoCluster ps = emptyCluster\<lparr>mc_Pools := ps\<rparr>"

definition addressOk :: "string \<Rightarrow> bool" where
  "addressOk a \<longleftrightarrow> parseAddrOk a \<and> lowerAlnum (hd a) \<and> lowerAlnum (last a)"

lemma addressOk_ex [simp]: "addressOk ''1.1.1.1''" "addressOk ''9.9.9.9''"
  by (simp_all add: addressOk_def parseAddrOk_def parseIPv4Ok_def digitVal_def lit_simps)

lemma addressOk_trim: "addressOk a \<Longrightarrow> trimSpace a = a"
  by (cases "a = []") (auto simp: addressOk_def intro: trimSpace_alnum)

lemma addressOk_upstream: "addressOk a \<Longrightarrow> upstreamOk K (dnsUpstream a)"
  using addressOk_trim [of a] parseAddrOk_Nil
  by (auto simp: upstreamOk_def dnsUpstream_def isValidUpstreamAddress_def parseUpstreamTransport_def addressOk_def Let_def)

lemma samplePool_ok:
  assumes "as \<noteq> []" "distinct as" "list_all addressOk as"
  shows "poolSpecOk K (po_Spec (samplePool ns n as))"
proof -
  have "distinct (map upstreamIdentity (map dnsUpstream as))"
    using assms(2) by (auto simp: distinct_map inj_on_def upstreamIdentity_def dnsUpstream_def Let_def)
  then show ?thesis
    using assms by (auto simp: poolSpecOk_def samplePool_def list_all_iff addressOk_upstream parseDNSSECMode_def)
qed


lemma sample_config:
  assumes "as \<noteq> []" "distinct as" "list_all addressOk as" "po_Spec p = po_Spec (samplePool ns n as)"
  shows "\<exists>c. Generate cpus (Some p) prof = Inr c \<and> configNormal c \<and> plainConfig c \<and>
    length (ec_Upstreams c) = length as"
proof -
  have ok: "poolSpecOk refK8s (po_Spec p)" using samplePool_ok [OF assms(1-3)] assms(4) by simp
  then obtain c where c: "Generate cpus (Some p) prof = Inr c"
    using valid_generates ok by blast
  have "configNormal c" by (rule Generate_normal [OF refK8s_dns ok c])
  moreover have "plainConfig c \<and> length (ec_Upstreams c) = length as"
    using c assms(4)
    by (auto simp: Generate_Inr_iff plainConfig_def samplePool_def generateUpstream_def dnsUpstream_def
        normalizeUpstreamTransport_def normalizeDNSSECMode_def Let_def)
  ultimately show ?thesis using c by blast
qed

lemma demo_builds:
  assumes "as \<noteq> []" "distinct as" "list_all addressOk as" "po_Spec p = po_Spec (samplePool ns n as)"
  shows "\<exists>c. Generate 4 (Some p) prof = Inr c \<and> unbound_Render plainTemplates 4 (Some c) = Inr ''unbound.conf'' \<and>
    length (ec_Upstreams c) = length as"
  using sample_config [OF assms, of 4 prof] plain_compat
  by (auto simp: unbound.render_normal plainTemplates_def)

definition demoPool :: pool where
  "demoPool = samplePool ''a'' ''p'' [''1.1.1.1'', ''9.9.9.9'']"

lemma demo_valid: "po_Spec p = po_Spec demoPool \<Longrightarrow> validateDNSUpstreamPool K (Some p) = None"
  by (simp add: validateDNSUpstreamPool_iff demoPool_def samplePool_ok)

lemma demo_meta: "po_Meta demoPool = plainMeta ''a'' ''p''"
  by (simp add: demoPool_def samplePool_def)

end
