(* ===== verification/CacheProfile.thy ===== *)
theory CacheProfile
  imports Effects Generator
begin

text \<open>
  \<open>DNSCacheProfileReconciler\<close> (\<open>controllers/dnscacheprofile_controller.go\<close>): validation of
  cache profiles and the condition \<open>Active\<close>; and how validation relates to the generator, which
  does not call it.
\<close>

abbreviation cacheProfileActiveCondition :: string where "cacheProfileActiveCondition \<equiv> ''Active''"
definition defaultProfilePositiveTTLMin :: int where [simp]: "defaultProfilePositiveTTLMin = 60"
definition defaultProfilePositiveTTLMax :: int where [simp]: "defaultProfilePositiveTTLMax = 300"

definition validateDNSCacheProfile :: "profile option \<Rightarrow> goError option" where
  "validateDNSCacheProfile pr =
     (case pr of
        None \<Rightarrow> Some (Errorf ''dns cache profile is nil'' [])
      | Some profile \<Rightarrow>
          let s = pr_Spec profile in
          if pf_MaxEntries s < 0 then Some (Errorf ''spec.maxEntries must be >= 0'' [])
          else if pf_PositiveTtlMinSeconds s < 0 then
            Some (Errorf ''spec.positiveTtl.minSeconds must be >= 0'' [])
          else if pf_PositiveTtlMaxSeconds s < 0 then
            Some (Errorf ''spec.positiveTtl.maxSeconds must be >= 0'' [])
          else if pf_NegativeTtlSeconds s < 0 then
            Some (Errorf ''spec.negativeTtl.seconds must be >= 0'' [])
          else if pf_PrefetchThreshold s < 0 then
            Some (Errorf ''spec.prefetch.threshold must be >= 0'' [])
          else
            let minTTL = (if pf_PositiveTtlMinSeconds s = 0 then defaultProfilePositiveTTLMin else pf_PositiveTtlMinSeconds s);
                maxTTL = (if pf_PositiveTtlMaxSeconds s = 0 then defaultProfilePositiveTTLMax else pf_PositiveTtlMaxSeconds s)
            in if minTTL > maxTTL then
                 Some (Errorf ''spec.positiveTtl.minSeconds (%d) must be <= spec.positiveTtl.maxSeconds (%d)''
                         [AInt minTTL, AInt maxTTL])
               else None)"

definition recordProfileEvent ::
    "bool \<Rightarrow> profile \<Rightarrow> eventType \<Rightarrow> string \<Rightarrow> message \<Rightarrow> ('w sys, unit) state" where
  "recordProfileEvent recorder pr typ reason msg =
     (if \<not> recorder then State_Monad.return ()
      else note_effect (RecordEvent (om_Namespace (pr_Meta pr)) (om_Name (pr_Meta pr)) typ reason msg))"

definition withActiveCondition :: "k8s \<Rightarrow> profile \<Rightarrow> conditionStatus \<Rightarrow> string \<Rightarrow> message \<Rightarrow> profile" where
  "withActiveCondition K pr status reason msg =
     pr\<lparr>pr_Status :=
       \<lparr>st_Conditions = setStatusCondition K (st_Conditions (pr_Status pr))
          \<lparr>cd_Type = cacheProfileActiveCondition, cd_Status = status, cd_ObservedGeneration = om_Generation (pr_Meta pr),
           cd_Reason = reason, cd_Message = msg\<rparr>,
        st_ObservedGeneration = om_Generation (pr_Meta pr)\<rparr>\<rparr>"

definition setActiveCondition ::
    "k8s \<Rightarrow> 'w client \<Rightarrow> profile \<Rightarrow> conditionStatus \<Rightarrow> string \<Rightarrow> message \<Rightarrow> ('w sys, goError option) state" where
  "setActiveCondition K C pr status reason msg = do {
     let pr' = withActiveCondition K pr status reason msg;
     r \<leftarrow> api (PatchProfileStatus pr pr') (cl_PatchProfileStatus C pr pr');
     State_Monad.return (case r of
       Inl e \<Rightarrow> Some (Wrap ''update DNSCacheProfile status: %w'' [] (ApiErr e))
     | Inr _ \<Rightarrow> None)
   }"

definition reconcileProfile ::
    "bool \<Rightarrow> k8s \<Rightarrow> 'w client \<Rightarrow> string \<Rightarrow> string \<Rightarrow> ('w sys, goError option) state" where
  "reconcileProfile recorder K C namespace name = do {
     g \<leftarrow> api (GetProfile namespace name) (cl_GetProfile C namespace name);
     case g of
       Inl e \<Rightarrow> State_Monad.return (if isNotFound e then None
         else Some (Wrap ''get DNSCacheProfile %s: %w'' [AStr (namespace @ ''/'' @ name)] (ApiErr e)))
     | Inr pr \<Rightarrow>
     case validateDNSCacheProfile (Some pr) of
       Some e \<Rightarrow> do {
         _ \<leftarrow> recordProfileEvent recorder pr EventTypeWarning ''InvalidSpec'' (MErr e);
         setActiveCondition K C pr ConditionFalse ''InvalidSpec'' (MErr e)
       }
     | None \<Rightarrow> do {
         _ \<leftarrow> recordProfileEvent recorder pr EventTypeNormal ''Validated'' (MText ''Validated DNSCacheProfile'' []);
         setActiveCondition K C pr ConditionTrue ''Active'' (MText ''DNSCacheProfile is active'' [])
       }
   }"

section \<open>Profiles and generated caches\<close>

definition nonNegativeProfile :: "profileSpec \<Rightarrow> bool" where
  "nonNegativeProfile s \<longleftrightarrow>
     0 \<le> pf_MaxEntries s \<and> 0 \<le> pf_PositiveTtlMinSeconds s \<and> 0 \<le> pf_PositiveTtlMaxSeconds s \<and>
     0 \<le> pf_NegativeTtlSeconds s \<and> 0 \<le> pf_PrefetchThreshold s"

lemma applyProfile_fields:
  "cc_MaxEntries (applyProfile s c) = (if pf_MaxEntries s > 0 then pf_MaxEntries s else cc_MaxEntries c)"
  "cc_PositiveTtlMin (applyProfile s c) =
     (if pf_PositiveTtlMinSeconds s > 0 then pf_PositiveTtlMinSeconds s else cc_PositiveTtlMin c)"
  "cc_PositiveTtlMax (applyProfile s c) =
     (if pf_PositiveTtlMaxSeconds s > 0 then pf_PositiveTtlMaxSeconds s else cc_PositiveTtlMax c)"
  "cc_NegativeTtl (applyProfile s c) =
     (if pf_NegativeTtlSeconds s > 0 then pf_NegativeTtlSeconds s else cc_NegativeTtl c)"
  "cc_PrefetchEnabled (applyProfile s c) = pf_PrefetchEnabled s"
  "cc_PrefetchThreshold (applyProfile s c) =
     (if pf_PrefetchThreshold s > 0 then pf_PrefetchThreshold s else cc_PrefetchThreshold c)"
  by (simp_all add: applyProfile_def Let_def)

lemma validateDNSCacheProfile_iff:
  "validateDNSCacheProfile (Some pr) = None \<longleftrightarrow>
     nonNegativeProfile (pr_Spec pr) \<and>
     cc_PositiveTtlMin (applyProfile (pr_Spec pr) defaultCache) \<le>
     cc_PositiveTtlMax (applyProfile (pr_Spec pr) defaultCache)"
  by (auto simp: validateDNSCacheProfile_def nonNegativeProfile_def applyProfile_fields
      defaultCache_def Let_def)

end
