(* ===== verification/ConfigCorrect.thy ===== *)
theory ConfigCorrect
  imports Demo CacheProfile
begin

text \<open>
  The configuration: which pools validation accepts, what the generator makes of them, and which of
  the three engines can serve the result.
\<close>

section \<open>Validation\<close>

text \<open>C13: \<open>validateDNSUpstreamPool\<close> accepts a pool exactly when its specification is met: there is an
  upstream; every upstream has a clean address that is an IP address or a DNS name, a known
  transport, a port, weight and preference in range and a TLS name only where it belongs; no two
  upstreams have the same transport, address and effective port; threads and DNSSEC mode are in
  range.  The loop's table of printed keys decides the identity although IPv6 addresses contain the
  separator.\<close>

theorem validation_decides_spec:
  "validateDNSUpstreamPool K (Some p) = None \<longleftrightarrow> poolSpecOk K (po_Spec p)"
  by (rule validateDNSUpstreamPool_iff)

text \<open>The error reported is that of the first offending upstream, with its index: its own error,
  or that it duplicates an earlier one.\<close>

lemma validation_reports_first:
  assumes "ps_Upstreams (po_Spec p) = us @ u # vs"
    and "list_all (upstreamOk K) us" "distinct (map upstreamIdentity us)"
  shows "(\<forall>e. checkUpstream K (int (length us)) u = Inl e \<longrightarrow> validateDNSUpstreamPool K (Some p) = Some e) \<and>
    (upstreamOk K u \<and> upstreamIdentity u \<in> upstreamIdentity ` set us \<longrightarrow>
      validateDNSUpstreamPool K (Some p) = Some (Errorf ''spec.upstreams[%d] %q is duplicated''
        [AInt (int (length us)), AStr (identityKey (upstreamIdentity u))]))"
proof -
  have "checkUpstreams K 0 [] us = None"
    using checkUpstreams_iff [of K "[]" 0 us] assms(2,3) by simp
  then have split: "checkUpstreams K 0 [] (us @ u # vs) =
      checkUpstreams K (int (length us)) (rev (map (identityKey \<circ> upstreamIdentity) us) @ []) (u # vs)"
    using checkUpstreams_append by fastforce
  have "validateDNSUpstreamPool K (Some p) = Some e" if "checkUpstream K (int (length us)) u = Inl e" for e
    using that by (simp add: validateDNSUpstreamPool_def assms(1) split)
  moreover have "validateDNSUpstreamPool K (Some p) = Some (Errorf ''spec.upstreams[%d] %q is duplicated''
        [AInt (int (length us)), AStr (identityKey (upstreamIdentity u))])"
    if u: "upstreamOk K u" "upstreamIdentity u \<in> upstreamIdentity ` set us"
  proof -
    have key: "checkUpstream K (int (length us)) u = Inr (identityKey (upstreamIdentity u))"
      using u(1) by (simp add: checkUpstream_iff)
    have "identityKey (upstreamIdentity u) \<in> set (map (identityKey \<circ> upstreamIdentity) us)"
      using u(2) by force
    then show ?thesis using key by (simp add: validateDNSUpstreamPool_def assms(1) split)
  qed
  ultimately show ?thesis by blast
qed

definition twiceUpstreams :: "upstream list" where
  "twiceUpstreams = [dnsUpstream ''1.1.1.1'', (dnsUpstream ''1.1.1.1'')\<lparr>up_Port := 53\<rparr>]"

definition twicePool :: pool where
  "twicePool = demoPool\<lparr>po_Spec := (po_Spec demoPool)\<lparr>ps_Upstreams := twiceUpstreams\<rparr>\<rparr>"

lemma validation_reports_first_ex:
  "validateDNSUpstreamPool refK8s (Some twicePool) = Some (Errorf ''spec.upstreams[%d] %q is duplicated''
     [AInt 1, AStr ''dns:1.1.1.1:53''])"
proof -
  have ups: "ps_Upstreams (po_Spec twicePool) = [dnsUpstream ''1.1.1.1''] @ (dnsUpstream ''1.1.1.1'')\<lparr>up_Port := 53\<rparr> # []"
    by (simp add: twicePool_def twiceUpstreams_def)
  have one: "upstreamOk refK8s (dnsUpstream ''1.1.1.1'')" by (simp add: addressOk_upstream)
  then have all: "list_all (upstreamOk refK8s) [dnsUpstream ''1.1.1.1'']" by simp
  have two: "upstreamOk refK8s ((dnsUpstream ''1.1.1.1'')\<lparr>up_Port := 53\<rparr>)"
    using one by (simp add: upstreamOk_def dnsUpstream_def)
  have id: "upstreamIdentity (dnsUpstream ''1.1.1.1'') = (''dns'', ''1.1.1.1'', 53)"
      "upstreamIdentity ((dnsUpstream ''1.1.1.1'')\<lparr>up_Port := 53\<rparr>) = (''dns'', ''1.1.1.1'', 53)"
    by (simp_all add: upstreamIdentity_def dnsUpstream_def parseUpstreamTransport_def defaultUpstreamPortForTransport_def)
  have "showInt 53 = ''53''" by code_simp
  then have key: "identityKey (''dns'', ''1.1.1.1'', 53) = ''dns:1.1.1.1:53''"
    by (simp add: identityKey_def upstreamKey_def)
  show ?thesis
    using validation_reports_first [OF ups all] two id key by simp
qed

section \<open>Generation\<close>

text \<open>The identity of a generated upstream.\<close>

definition configIdentity :: "upstreamConfig \<Rightarrow> string \<times> string \<times> int" where
  "configIdentity u = (uc_Transport u, uc_Address u, uc_Port u)"

definition upstreamConfigOk :: "upstreamConfig \<Rightarrow> bool" where
  "upstreamConfigOk u \<longleftrightarrow>
     uc_Address u \<noteq> '''' \<and> knownTransport u \<and> 1 \<le> uc_Port u \<and> uc_Port u \<le> 65535 \<and>
     1 \<le> uc_Weight u \<and> uc_Weight u \<le> 100 \<and> 1 \<le> uc_Preference u \<and> uc_Preference u \<le> 1000 \<and>
     (uc_Transport u = UpstreamTransportDNS \<longrightarrow> uc_TLSServerName u = '''')"

lemma generateUpstream_identity:
  assumes "upstreamOk K u"
  shows "configIdentity (generateUpstream u) = upstreamIdentity u"
proof -
  obtain t where t: "parseUpstreamTransport (up_Transport u) = Some t"
    using assms by (auto simp: upstreamOk_def)
  then show ?thesis
    using assms normalizeUpstreamTransport_parse [OF t]
    by (simp add: configIdentity_def generateUpstream_def upstreamIdentity_def upstreamOk_def gen_defaultPort_eq Let_def)
qed

lemma generateUpstream_ok:
  assumes "upstreamOk K u"
  shows "upstreamConfigOk (generateUpstream u)"
proof -
  have addr: "trimSpace (up_Address u) \<noteq> ''''" using upstreamOk_address [OF assms] .
  have ranges: "0 \<le> up_Port u" "up_Port u \<le> 65535" "0 \<le> up_Weight u" "up_Weight u \<le> 100"
      "0 \<le> up_Preference u" "up_Preference u \<le> 1000"
    using assms unfolding upstreamOk_def by blast+
  show ?thesis
    using addr ranges normalizeUpstreamTransport_cases [of "up_Transport u"]
      defaultUpstreamPort_range [of "normalizeUpstreamTransport (up_Transport u)"]
    unfolding upstreamConfigOk_def generateUpstream_def knownTransport_def Let_def
    by (auto simp: gen_defaultPort_eq normalizeUpstreamWeight_def normalizeUpstreamPreference_def)
qed

text \<open>C16: for every accepted pool, with any profile and on any machine, the generator succeeds, and
  its configuration is well formed: one entry per upstream, every port, weight and preference in
  range, no TLS name on plain DNS, no two entries with the same transport, address and port, between
  1 and 256 threads, and one of the three DNSSEC modes.\<close>

theorem generate_accepted:
  assumes "validateDNSUpstreamPool K (Some p) = None"
  shows "\<exists>cfg. Generate cpus (Some p) prof = Inr cfg \<and>
    length (ec_Upstreams cfg) = length (ps_Upstreams (po_Spec p)) \<and>
    list_all upstreamConfigOk (ec_Upstreams cfg) \<and> distinct (map configIdentity (ec_Upstreams cfg)) \<and>
    1 \<le> ec_WorkerThreads cfg \<and> ec_WorkerThreads cfg \<le> 256 \<and>
    ec_DNSSECMode cfg \<in> {DNSSECModeOff, DNSSECModeProcess, DNSSECModeValidate}"
proof -
  have ok: "poolSpecOk K (po_Spec p)" using assms by (simp add: validateDNSUpstreamPool_iff)
  then have all: "\<forall>u \<in> set (ps_Upstreams (po_Spec p)). upstreamOk K u"
    and dist: "distinct (map upstreamIdentity (ps_Upstreams (po_Spec p)))"
    by (simp_all add: poolSpecOk_def list_all_iff)
  obtain cfg where cfg: "Generate cpus (Some p) prof = Inr cfg" using valid_generates [OF ok] by blast
  define us where "us = insertionSort upstreamLess (ps_Upstreams (po_Spec p))"
  have us: "set us = set (ps_Upstreams (po_Spec p))" "mset us = mset (ps_Upstreams (po_Spec p))"
    by (simp_all add: us_def)
  have ups: "ec_Upstreams cfg = map generateUpstream us"
    using cfg by (simp add: Generate_Inr_iff us_def)
  have "map configIdentity (ec_Upstreams cfg) = map upstreamIdentity us"
    using all us(1) by (simp add: ups) (blast intro: generateUpstream_identity)
  moreover have "distinct (map upstreamIdentity us)"
    using dist us(2) by (metis mset_map mset_eq_imp_distinct_iff)
  ultimately have "distinct (map configIdentity (ec_Upstreams cfg))" by metis
  moreover have "list_all upstreamConfigOk (ec_Upstreams cfg)"
    using all us(1) generateUpstream_ok by (auto simp: ups list_all_iff)
  moreover have "length (ec_Upstreams cfg) = length (ps_Upstreams (po_Spec p))" by (simp add: ups us_def)
  ultimately show ?thesis
    using cfg resolveWorkerThreads_range normalizeDNSSECMode_range by (auto simp: Generate_Inr_iff)
qed

theorem generate_accepted_witness:
  "\<exists>cfg. Generate 4 (Some demoPool) None = Inr cfg \<and> length (ec_Upstreams cfg) = 2"
  using generate_accepted [of refK8s demoPool 4 None] demo_valid [of demoPool]
  by (auto simp: demoPool_def samplePool_def)

text \<open>C22: the generated upstreams are the pool's, each mapped to its entry, ordered by preference
  first and by descending weight second; upstreams of equal preference and weight keep the order the
  pool lists them in.\<close>

theorem generate_order:
  assumes "Generate cpus (Some p) prof = Inr cfg"
  shows "mset (ec_Upstreams cfg) = image_mset generateUpstream (mset (ps_Upstreams (po_Spec p))) \<and>
    sorted_wrt (\<lambda>a b. uc_Preference a < uc_Preference b \<or>
      uc_Preference a = uc_Preference b \<and> uc_Weight b \<le> uc_Weight a) (ec_Upstreams cfg) \<and>
    (\<forall>k w. filter (\<lambda>c. uc_Preference c = k \<and> uc_Weight c = w) (ec_Upstreams cfg) =
      map generateUpstream (filter (\<lambda>u. normalizeUpstreamPreference (up_Preference u) = k \<and>
        normalizeUpstreamWeight (up_Weight u) = w) (ps_Upstreams (po_Spec p))))"
proof -
  define us where "us = insertionSort upstreamLess (ps_Upstreams (po_Spec p))"
  have ups: "ec_Upstreams cfg = map generateUpstream us"
    using assms by (simp add: Generate_Inr_iff us_def)
  have fields: "uc_Preference (generateUpstream u) = normalizeUpstreamPreference (up_Preference u)"
      "uc_Weight (generateUpstream u) = normalizeUpstreamWeight (up_Weight u)" for u
    by (simp_all add: generateUpstream_def Let_def)
  have "sorted_wrt (\<lambda>a b. \<not> upstreamLess b a) us"
    unfolding us_def by (rule upstream_order.insertionSort_sorted) simp
  then have sorted: "sorted_wrt (\<lambda>a b. uc_Preference a < uc_Preference b \<or>
      uc_Preference a = uc_Preference b \<and> uc_Weight b \<le> uc_Weight a) (ec_Upstreams cfg)"
    unfolding ups sorted_wrt_map
    by (rule sorted_wrt_mono_rel [rotated]) (auto simp: upstreamLess_def fields Let_def split: if_splits)
  have same: "(\<lambda>u. normalizeUpstreamPreference (up_Preference u) = k \<and> normalizeUpstreamWeight (up_Weight u) = w) =
      (\<lambda>b. \<not> upstreamLess a b \<and> \<not> upstreamLess b a)"
    if "normalizeUpstreamPreference (up_Preference a) = k" "normalizeUpstreamWeight (up_Weight a) = w" for a :: upstream and k w
    using that by (auto simp: fun_eq_iff upstreamLess_def Let_def)
  have stable: "filter (\<lambda>u. normalizeUpstreamPreference (up_Preference u) = k \<and> normalizeUpstreamWeight (up_Weight u) = w) us =
      filter (\<lambda>u. normalizeUpstreamPreference (up_Preference u) = k \<and> normalizeUpstreamWeight (up_Weight u) = w)
        (ps_Upstreams (po_Spec p))" for k w
  proof (cases "\<exists>a :: upstream. normalizeUpstreamPreference (up_Preference a) = k \<and> normalizeUpstreamWeight (up_Weight a) = w")
    case True
    then obtain a :: upstream where a: "normalizeUpstreamPreference (up_Preference a) = k" "normalizeUpstreamWeight (up_Weight a) = w"
      by blast
    show ?thesis
      unfolding us_def same [OF a] by (rule upstream_order.insertionSort_stable) simp_all
  next
    case False
    then show ?thesis by simp
  qed
  show ?thesis
    using sorted stable by (simp add: ups fields filter_map o_def) (simp add: us_def)
qed

theorem generate_order_witness:
  "\<exists>cfg. Generate 4 (Some demoPool) None = Inr cfg \<and>
    mset (ec_Upstreams cfg) = {#generateUpstream (dnsUpstream ''1.1.1.1''), generateUpstream (dnsUpstream ''9.9.9.9'')#}"
proof -
  obtain cfg where cfg: "Generate 4 (Some demoPool) None = Inr cfg"
    using demo_builds [of "[''1.1.1.1'', ''9.9.9.9'']" demoPool "''a''" "''p''" None] by (auto simp: demoPool_def)
  then show ?thesis
    using generate_order [OF cfg] by (auto simp: demoPool_def samplePool_def)
qed

section \<open>What is stored is what was rendered\<close>

text \<open>C17: the reconciler renders a configuration to check it and stores the configuration itself.
  For an accepted pool this checks what is stored: its configuration is a fixed point of the
  normalisation of all three renderers, on any machine, so a successful rendering is the engine's
  template applied to exactly the stored configuration, and does not depend on where it is rendered.\<close>

theorem rendering_checks_stored_config:
  assumes "dns1123_documented K" "validateDNSUpstreamPool K (Some p) = None"
    and "Generate cpus (Some p) prof = Inr cfg"
  shows "unbound_normalizeConfig cpus' cfg = cfg \<and> coredns_normalizeConfig cpus' cfg = cfg \<and>
    powerdns_normalizeConfig cpus' cfg = cfg \<and>
    (unbound_Render T cpus' (Some cfg) = Inr out \<longrightarrow>
       executeTemplate T ''unbound.conf'' cfg = Inr out \<and> unbound_Render T cpus'' (Some cfg) = Inr out) \<and>
    (coredns_Render T cpus' (Some cfg) = Inr out \<longrightarrow>
       executeTemplate T ''Corefile'' cfg = Inr out \<and> coredns_Render T cpus'' (Some cfg) = Inr out) \<and>
    (powerdns_Render T cpus' (Some cfg) = Inr out \<longrightarrow>
       executeTemplate T ''recursor.conf'' cfg = Inr out \<and> powerdns_Render T cpus'' (Some cfg) = Inr out)"
proof -
  have "configNormal cfg"
    using Generate_normal [OF assms(1) _ assms(3)] assms(2) by (simp add: validateDNSUpstreamPool_iff)
  then show ?thesis
    by (simp add: unbound.normalize_normal coredns.normalize_normal powerdns.normalize_normal
        unbound.render_normal coredns.render_normal powerdns.render_normal)
qed

theorem rendering_checks_stored_config_witness:
  "\<exists>cfg. Generate 4 (Some demoPool) None = Inr cfg \<and> powerdns_normalizeConfig 64 cfg = cfg"
proof -
  obtain cfg where cfg: "Generate 4 (Some demoPool) None = Inr cfg"
    using demo_builds [of "[''1.1.1.1'', ''9.9.9.9'']" demoPool "''a''" "''p''" None] by (auto simp: demoPool_def)
  have ok: "validateDNSUpstreamPool refK8s (Some demoPool) = None" by (rule demo_valid) simp
  show ?thesis
    using rendering_checks_stored_config [OF refK8s_dns ok cfg, of 64] cfg by blast
qed

section \<open>Which engine serves which pool\<close>

definition transportOf :: "upstream \<Rightarrow> string" where
  "transportOf u = normalizeUpstreamTransport (up_Transport u)"

text \<open>The TLS name an upstream is generated with.\<close>

definition tlsNameOf :: "upstream \<Rightarrow> string" where
  "tlsNameOf u = uc_TLSServerName (generateUpstream u)"

lemma Generate_transports:
  assumes "Generate cpus (Some p) prof = Inr cfg"
  shows "uc_Transport ` set (ec_Upstreams cfg) = transportOf ` set (ps_Upstreams (po_Spec p))"
    and "tlsNames cfg = tlsNameOf ` {u \<in> set (ps_Upstreams (po_Spec p)).
      transportOf u \<noteq> UpstreamTransportDNS \<and> tlsNameOf u \<noteq> ''''}"
    and "list_all knownTransport (ec_Upstreams cfg)"
    and "ec_DNSSECMode cfg = normalizeDNSSECMode (ps_DNSSECMode (po_Spec p))"
proof -
  have t: "uc_Transport (generateUpstream u) = transportOf u" for u
    by (simp add: generateUpstream_def transportOf_def Let_def)
  have ups: "set (ec_Upstreams cfg) = generateUpstream ` set (ps_Upstreams (po_Spec p))"
    using assms by (simp add: Generate_Inr_iff)
  show "uc_Transport ` set (ec_Upstreams cfg) = transportOf ` set (ps_Upstreams (po_Spec p))"
    by (simp add: ups image_image t)
  show "tlsNames cfg = tlsNameOf ` {u \<in> set (ps_Upstreams (po_Spec p)).
      transportOf u \<noteq> UpstreamTransportDNS \<and> tlsNameOf u \<noteq> ''''}"
    unfolding tlsNames_def ups tlsNameOf_def t [symmetric] by blast
  show "list_all knownTransport (ec_Upstreams cfg)"
    using normalizeUpstreamTransport_cases by (auto simp: list_all_iff ups knownTransport_def t transportOf_def)
  show "ec_DNSSECMode cfg = normalizeDNSSECMode (ps_DNSSECMode (po_Spec p))"
    using assms by (simp add: Generate_Inr_iff)
qed

text \<open>C27: which engines support a generated configuration can be read off the pool.  Unbound: no DoH,
  and either every upstream or none uses DoT.  PowerDNS: only plain DNS.  CoreDNS: DNSSEC off, and at
  most one TLS name among the encrypted upstreams.\<close>

theorem engine_support:
  assumes "Generate cpus (Some p) prof = Inr cfg"
  shows "(validateUnboundCompatibility cfg = None \<longleftrightarrow>
      UpstreamTransportDoH \<notin> transportOf ` set (ps_Upstreams (po_Spec p)) \<and>
      (transportOf ` set (ps_Upstreams (po_Spec p)) \<subseteq> {UpstreamTransportDoT} \<or>
       UpstreamTransportDoT \<notin> transportOf ` set (ps_Upstreams (po_Spec p)))) \<and>
    (validatePowerDNSCompatibility cfg = None \<longleftrightarrow>
      transportOf ` set (ps_Upstreams (po_Spec p)) \<subseteq> {UpstreamTransportDNS}) \<and>
    (validateCoreDNSCompatibility cfg = None \<longleftrightarrow>
      normalizeDNSSECMode (ps_DNSSECMode (po_Spec p)) = DNSSECModeOff \<and>
      (\<exists>n. tlsNameOf ` {u \<in> set (ps_Upstreams (po_Spec p)).
        transportOf u \<noteq> UpstreamTransportDNS \<and> tlsNameOf u \<noteq> ''''} \<subseteq> {n}))"
proof -
  note g = Generate_transports [OF assms]
  have unbound_image: "(\<forall>u \<in> S. f u \<noteq> h) \<and> \<not> ((\<exists>u \<in> S. f u \<noteq> t) \<and> (\<exists>u \<in> S. f u = t)) \<longleftrightarrow>
      h \<notin> f ` S \<and> (f ` S \<subseteq> {t} \<or> t \<notin> f ` S)"
    and plain_image: "(\<forall>u \<in> S. f u = h) \<longleftrightarrow> f ` S \<subseteq> {h}" for S and f :: "upstreamConfig \<Rightarrow> string" and h t
    by auto
  have "validateUnboundCompatibility cfg = None \<longleftrightarrow>
      UpstreamTransportDoH \<notin> uc_Transport ` set (ec_Upstreams cfg) \<and>
      (uc_Transport ` set (ec_Upstreams cfg) \<subseteq> {UpstreamTransportDoT} \<or>
       UpstreamTransportDoT \<notin> uc_Transport ` set (ec_Upstreams cfg))"
    unfolding validateUnbound_iff by (rule unbound_image)
  moreover have "validatePowerDNSCompatibility cfg = None \<longleftrightarrow>
      uc_Transport ` set (ec_Upstreams cfg) \<subseteq> {UpstreamTransportDNS}"
    unfolding validatePowerDNS_iff by (rule plain_image)
  ultimately show ?thesis
    unfolding validateCoreDNS_iff [OF g(3)] g(1) g(2) g(4) by (intro conjI) simp_all
qed

theorem engine_support_witness:
  "\<exists>cfg. Generate 4 (Some demoPool) None = Inr cfg \<and> validatePowerDNSCompatibility cfg = None"
proof -
  obtain cfg where cfg: "Generate 4 (Some demoPool) None = Inr cfg"
    using demo_builds [of "[''1.1.1.1'', ''9.9.9.9'']" demoPool "''a''" "''p''" None] by (auto simp: demoPool_def)
  have "transportOf ` set (ps_Upstreams (po_Spec demoPool)) \<subseteq> {UpstreamTransportDNS}"
    by (auto simp: demoPool_def samplePool_def transportOf_def dnsUpstream_def normalizeUpstreamTransport_def)
  then have "validatePowerDNSCompatibility cfg = None"
    by (rule iffD2 [OF engine_support [OF cfg, THEN conjunct2, THEN conjunct1]])
  then show ?thesis using cfg by blast
qed

text \<open>An accepted pool of plain DNS upstreams with DNSSEC off is served by all three engines.\<close>

lemma plain_pool_portable:
  assumes "dns1123_documented K" "validateDNSUpstreamPool K (Some p) = None"
    and "\<forall>u \<in> set (ps_Upstreams (po_Spec p)). parseUpstreamTransport (up_Transport u) = Some UpstreamTransportDNS"
    and "parseDNSSECMode (ps_DNSSECMode (po_Spec p)) = Some DNSSECModeOff"
    and "\<And>c f. validateTemplateConfig T c = None \<and> parseTemplate T f = None \<and> executeTemplate T f c = Inr f"
  shows "\<exists>cfg. Generate cpus (Some p) prof = Inr cfg \<and> unbound_Render T cpus (Some cfg) = Inr ''unbound.conf'' \<and>
    coredns_Render T cpus (Some cfg) = Inr ''Corefile'' \<and> powerdns_Render T cpus (Some cfg) = Inr ''recursor.conf''"
proof -
  have ok: "poolSpecOk K (po_Spec p)" using assms(2) by (simp add: validateDNSUpstreamPool_iff)
  obtain cfg where cfg: "Generate cpus (Some p) prof = Inr cfg" using valid_generates [OF ok] by blast
  have normal: "configNormal cfg" by (rule Generate_normal [OF assms(1) ok cfg])
  have "transportOf u = UpstreamTransportDNS" if "u \<in> set (ps_Upstreams (po_Spec p))" for u
    using assms(3) that normalizeUpstreamTransport_parse unfolding transportOf_def by blast
  then have "uc_Transport ` set (ec_Upstreams cfg) \<subseteq> {UpstreamTransportDNS}"
    unfolding Generate_transports(1) [OF cfg] by blast
  then have "plainConfig cfg"
    using Generate_transports(4) [OF cfg] normalizeDNSSECMode_parse [OF assms(4)] by (auto simp: plainConfig_def)
  then show ?thesis
    using cfg normal plain_compat assms(5)
    by (simp add: unbound.render_normal coredns.render_normal powerdns.render_normal)
qed

text \<open>CoreDNS's check of unknown transports cannot fail after the renderer's own normalisation,
  whatever the configuration.\<close>

lemma coredns_transport_error_unreachable:
  "\<exists>names. coredns_scan 0 [] (ec_Upstreams (coredns_normalizeConfig cpus c)) = Inr names \<and>
    set names = tlsNames (coredns_normalizeConfig cpus c)"
  using coredns_scan_known [of "ec_Upstreams (coredns_normalizeConfig cpus c)" "[]" 0]
    normalized_known(1) [of cpus c]
  by (auto simp: coredns_normalizeConfig_eq tlsNames_def)

section \<open>Cache profiles\<close>

text \<open>For a profile without negative numbers, validation accepts it exactly when the cache the
  generator makes of it has a minimal TTL not above the maximal one; the generator itself accepts
  either.\<close>

lemma profile_validation_meaning:
  assumes "Generate cpus (Some p) (Some pr) = Inr cfg" "nonNegativeProfile (pr_Spec pr)"
  shows "validateDNSCacheProfile (Some pr) = None \<longleftrightarrow>
    cc_PositiveTtlMin (ec_Cache cfg) \<le> cc_PositiveTtlMax (ec_Cache cfg)"
  using assms by (simp add: Generate_Inr_iff validateDNSCacheProfile_iff)

definition longTtl :: profile where
  "longTtl = \<lparr>pr_Meta = plainMeta ''a'' ''default'',
     pr_Spec = \<lparr>pf_MaxEntries = 0, pf_PositiveTtlMinSeconds = 600, pf_PositiveTtlMaxSeconds = 0,
       pf_NegativeTtlSeconds = 0, pf_PrefetchEnabled = False, pf_PrefetchThreshold = 0\<rparr>,
     pr_Status = noStatus\<rparr>"

section \<open>Addresses\<close>

text \<open>Four decimal numbers with dots between them are an address exactly when none is above 255;
  otherwise they are refused, although they would pass as a DNS name.\<close>

lemma dotted_quad_address:
  "isValidUpstreamAddress K (dottedQuad a b c d) \<longleftrightarrow> a \<le> 255 \<and> b \<le> 255 \<and> c \<le> 255 \<and> d \<le> 255"
proof -
  have ends: "lowerAlnum (hd (dottedQuad a b c d))" "lowerAlnum (last (dottedQuad a b c d))" "dottedQuad a b c d \<noteq> []"
    using showNat_digits [of a] showNat_digits [of d]
    by (auto simp: dottedQuad_def lowerAlnum_def list_all_iff)
  then have "trimSpace (dottedQuad a b c d) = dottedQuad a b c d" by (intro trimSpace_alnum)
  then show ?thesis
    using parseAddrOk_dottedQuad_iff [of a b c d] dottedQuad_literal [of a b c d] ends
    by (simp add: isValidUpstreamAddress_def) blast
qed

text \<open>The zone of an IPv6 address is not validated: any bytes after the percent sign are accepted,
  as long as there is one and the address does not end in white space.\<close>

lemma zone_accepts_anything:
  assumes "z \<noteq> []" "trimSpace (''fe80::1%'' @ z) = ''fe80::1%'' @ z"
  shows "isValidUpstreamAddress K (''fe80::1%'' @ z)"
proof -
  have "parseIPv6Ok (''fe80::1'' @ CHR ''%'' # z) \<longleftrightarrow> parseIPv6Ok ''fe80::1''"
    using assms(1) by (intro parseIPv6Ok_zone) simp_all
  moreover have "parseIPv6Ok ''fe80::1''" by code_simp
  ultimately have "parseAddrOk (''fe80::1%'' @ z)" by (simp add: parseAddrOk_def)
  then show ?thesis using assms(2) by (simp add: isValidUpstreamAddress_def)
qed

end
