(* ===== verification/Webhook.thy ===== *)
theory Webhook
  imports Effects
begin

text \<open>
  \<open>DNSUpstreamPoolUniquenessWebhook.Handle\<close> (\<open>controllers/dnsupstreampool_webhook.go\<close>) and
  \<open>isPoolUniquenessWebhookEnabled\<close> (\<open>cmd/main.go\<close>).  \<open>json.Unmarshal\<close> of a pool is the
  argument \<open>decode\<close>.
\<close>

datatype operation = Create | Update | Delete | Connect

record admissionRequest =
  ar_Operation :: operation
  ar_Namespace :: string
  ar_ObjectRaw :: string

datatype admissionResponse =
    Allowed string
  | Denied message
  | Errored int goError

fun insertString :: "string \<Rightarrow> string list \<Rightarrow> string list" where
  "insertString x [] = [x]"
| "insertString x (y # ys) = (if x \<le> y then x # y # ys else y # insertString x ys)"

text \<open>\<open>sort.Strings\<close>: strings that are not ordered are equal, so the result is unique.\<close>

definition sortStrings :: "string list \<Rightarrow> string list" where
  "sortStrings xs = foldr insertString xs []"

text \<open>\<open>client = None\<close> is a webhook whose client is nil.\<close>

definition Handle ::
    "'w client option \<Rightarrow> (string \<Rightarrow> string + pool) \<Rightarrow> admissionRequest \<Rightarrow> ('w sys, admissionResponse) state" where
  "Handle client decode req =
     (if ar_Operation req \<noteq> Create then
        State_Monad.return (Allowed ''operation does not create a new DNSUpstreamPool'')
      else case client of
        None \<Rightarrow> State_Monad.return (Errored 500 (Errorf ''webhook client is not configured'' []))
      | Some C \<Rightarrow>
      case decode (ar_ObjectRaw req) of
        Inl e \<Rightarrow> State_Monad.return (Errored 400 (Wrap ''decode DNSUpstreamPool: %w'' [] (Foreign e)))
      | Inr p \<Rightarrow>
          let ns0 = trimSpace (om_Namespace (po_Meta p));
              namespace = (if ns0 = '''' then trimSpace (ar_Namespace req) else ns0) in
          if namespace = '''' then
            State_Monad.return (Errored 400 (Errorf ''DNSUpstreamPool namespace is required'' []))
          else do {
            l \<leftarrow> api (ListPools namespace) (cl_ListPools C namespace);
            State_Monad.return (case l of
              Inl e \<Rightarrow> Errored 500 (Wrap ''list DNSUpstreamPools in namespace %q: %w'' [AStr namespace] (ApiErr e))
            | Inr items \<Rightarrow>
                if length items = 0 then Allowed ''first DNSUpstreamPool in namespace''
                else Denied (MText ''only one DNSUpstreamPool is allowed per namespace; existing pools: %s''
                  [AStr (joinWith '', '' (sortStrings (map poolName items)))]))
          })"

definition isPoolUniquenessWebhookEnabled :: "string \<Rightarrow> bool" where
  "isPoolUniquenessWebhookEnabled env =
     (let value = trimSpace env in
      if value = '''' then False
      else case parseBool value of None \<Rightarrow> False | Some b \<Rightarrow> b)"

text \<open>\<open>ASTRADNS_ENGINE_TYPE\<close>, and the renderers whose packages \<open>cmd/main.go\<close> imports.\<close>

definition engineTypeOf :: "string \<Rightarrow> string" where
  "engineTypeOf env = (if env = '''' then ''unbound'' else env)"

lemma mset_insertString [simp]: "mset (insertString x xs) = add_mset x (mset xs)"
  by (induction xs) auto

lemma mset_sortStrings [simp]: "mset (sortStrings xs) = mset xs"
  by (induction xs) (simp_all add: sortStrings_def)

lemma sorted_insertString: "sorted xs \<Longrightarrow> sorted (insertString x xs)"
proof (induction xs)
  case (Cons y ys)
  have "set (insertString x ys) = insert x (set ys)"
    by (metis mset_insertString set_mset_add_mset_insert set_mset_mset)
  then show ?case using Cons by auto
qed simp

lemma sorted_sortStrings: "sorted (sortStrings xs)"
  by (induction xs) (simp_all add: sortStrings_def sorted_insertString)

lemma sortStrings_permutation: "mset xs = mset ys \<Longrightarrow> sortStrings xs = sortStrings ys"
  by (metis mset_sortStrings properties_for_sort sorted_sortStrings)

end
