(* ===== verification/SelectionCorrect.thy ===== *)
theory SelectionCorrect
  imports Demo Webhook
begin

text \<open>
  Which pool is active: the selection depends only on the set of pools once all are stamped, and is
  the oldest; with stamped and unstamped pools together it depends on the order of the listing.  The
  uniqueness webhook, and what it guarantees when requests are admitted one at a time.
\<close>

section \<open>Selection\<close>

text \<open>C21: the pool selected does not depend on the order in which the API server lists the pools, when
  all carry the stamp, or none does.  Every reconcile of the namespace then selects the same pool.\<close>

theorem selection_order_independent:
  assumes "mset items' = mset items" "distinct (map poolName items)"
    and "set items \<subseteq> stampedPools \<or> set items \<subseteq> unstampedPools"
  shows "selectFromPools items' = selectFromPools items"
  by (simp add: selectFromPools_def sortPools_permutation [OF assms])

text \<open>Pools created in the same second, with the stamp where it is given.\<close>

definition pooled :: "string \<Rightarrow> string option \<Rightarrow> pool" where
  "pooled n rv = demoPool\<lparr>po_Meta := (plainMeta ''a'' n)\<lparr>om_Annotations :=
     (case rv of None \<Rightarrow> None | Some v \<Rightarrow> Some [(initialRVAnnotation, v)])\<rparr>\<rparr>"

lemma pooled_simps [simp]: "poolName (pooled n rv) = n" "poolCreated (pooled n rv) = 5"
    "initialRV (pooled n None) = 0"
  by (simp_all add: pooled_def plainMeta_def initialRV_def)

lemma initialRV_pooled: "initialRV (pooled n (Some v)) = (case parseInt64 v of None \<Rightarrow> 0 | Some i \<Rightarrow> i)"
  by (simp add: initialRV_def pooled_def plainMeta_def gm_index_def gm_get_def)

lemma parse_digits [simp]: "parseInt64 ''5'' = Some 5" "parseInt64 ''7'' = Some 7"
  by code_simp+

theorem selection_order_independent_witness:
  "selectFromPools [pooled ''x'' (Some ''7''), pooled ''y'' (Some ''5'')] =
   selectFromPools [pooled ''y'' (Some ''5''), pooled ''x'' (Some ''7'')]"
proof (rule selection_order_independent)
  show "set [pooled ''y'' (Some ''5''), pooled ''x'' (Some ''7'')] \<subseteq> stampedPools \<or>
      set [pooled ''y'' (Some ''5''), pooled ''x'' (Some ''7'')] \<subseteq> unstampedPools"
    by (simp add: stampedPools_def initialRV_pooled)
qed simp_all

text \<open>Among stamped pools the selected one is the oldest: none was created before it, and none
  created at the same time has a smaller stamp.\<close>

lemma selected_is_oldest:
  assumes "items \<noteq> []" "set items \<subseteq> stampedPools"
  shows "\<exists>p \<in> set items. fst (selectFromPools items) = poolName p \<and>
    (\<forall>q \<in> set items. poolCreated p < poolCreated q \<or>
       poolCreated p = poolCreated q \<and> initialRV p \<le> initialRV q)"
proof -
  define p where "p = hd (sortPoolsForSelection items)"
  have p: "p \<in> set items"
    using assms(1) unfolding p_def by (metis hd_in_set set_sortPools sortPools_Nil_iff)
  have "\<not> poolLess q p" if "q \<in> set items" for q
    unfolding p_def sortPoolsForSelection_def
    by (rule stamped.insertionSort_hd_least) (use assms(2) that in auto)
  then have "poolCreated p < poolCreated q \<or> poolCreated p = poolCreated q \<and> initialRV p \<le> initialRV q"
    if "q \<in> set items" for q
    using that p assms(2) poolLess_stamped [of q p] by force
  then show ?thesis using p selectFromPools_head [OF assms(1)] p_def by blast
qed

lemma selected_is_oldest_ex:
  "fst (selectFromPools [pooled ''x'' (Some ''7''), pooled ''y'' (Some ''5'')]) = ''y''"
proof -
  have "set [pooled ''x'' (Some ''7''), pooled ''y'' (Some ''5'')] \<subseteq> stampedPools"
    by (simp add: stampedPools_def initialRV_pooled)
  then show ?thesis
    using selected_is_oldest [of "[pooled ''x'' (Some ''7''), pooled ''y'' (Some ''5'')]"]
    by (auto simp: initialRV_pooled)
qed

text \<open>
  Three pools created in the same second: two stamped, and by name the pool without a stamp stands
  between them, the wrong way round.
\<close>

definition mixedStamps :: "pool set \<Rightarrow> bool" where
  "mixedStamps S \<longleftrightarrow>
     (\<exists>a \<in> S. \<exists>b \<in> S. \<exists>c \<in> S. poolCreated a = poolCreated c \<and> poolCreated b = poolCreated c \<and>
        0 < initialRV a \<and> initialRV a < initialRV b \<and> initialRV c \<le> 0 \<and>
        poolName b < poolName c \<and> poolName c < poolName a)"

definition poolCycle :: "pool set \<Rightarrow> bool" where
  "poolCycle S \<longleftrightarrow> (\<exists>a \<in> S. \<exists>b \<in> S. \<exists>c \<in> S. poolLess a b \<and> poolLess b c \<and> poolLess c a)"

lemma poolLess_created:
  "poolCreated a \<noteq> 0 \<Longrightarrow> poolCreated b \<noteq> 0 \<Longrightarrow>
    poolLess a b \<longleftrightarrow> poolCreated a < poolCreated b \<or> poolCreated a = poolCreated b \<and>
      (if initialRV a > 0 \<and> initialRV b > 0 \<and> initialRV a \<noteq> initialRV b then initialRV a < initialRV b else poolName a < poolName b)"
  by (auto simp: poolLess_def Let_def)

lemma cycle_iff_mixed:
  assumes "\<forall>p \<in> S. poolCreated p \<noteq> 0"
  shows "poolCycle S \<longleftrightarrow> mixedStamps S"
proof
  assume "mixedStamps S"
  then obtain a b c where abc: "a \<in> S" "b \<in> S" "c \<in> S" "poolCreated a = poolCreated c" "poolCreated b = poolCreated c"
    "0 < initialRV a" "initialRV a < initialRV b" "initialRV c \<le> 0" "poolName b < poolName c" "poolName c < poolName a"
    unfolding mixedStamps_def by blast
  then have "poolLess a b" "poolLess b c" "poolLess c a" using assms by (simp_all add: poolLess_created)
  then show "poolCycle S" using abc(1-3) unfolding poolCycle_def by blast
next
  assume "poolCycle S"
  then obtain a b c where abc: "a \<in> S" "b \<in> S" "c \<in> S" and less: "poolLess a b" "poolLess b c" "poolLess c a"
    unfolding poolCycle_def by blast
  have n: "poolCreated a \<noteq> 0" "poolCreated b \<noteq> 0" "poolCreated c \<noteq> 0" using assms abc by blast+
  note less' = less [unfolded poolLess_created [OF n(1,2)] poolLess_created [OF n(2,3)] poolLess_created [OF n(3,1)]]
  have same: "poolCreated a = poolCreated c" "poolCreated b = poolCreated c" using less' by linarith+
  let ?P = "\<lambda>a b c. 0 < initialRV a \<and> initialRV a < initialRV b \<and> initialRV c \<le> 0 \<and> poolName b < poolName c \<and> poolName c < poolName a"
  have "?P a b c \<or> ?P b c a \<or> ?P c a b"
    using less' unfolding same by (auto split: if_splits)
  then show "mixedStamps S"
    unfolding mixedStamps_def using abc same by metis
qed

lemma total_selection:
  assumes "\<forall>p \<in> S. poolCreated p \<noteq> 0" "inj_on poolName S" "\<not> poolCycle S"
  shows "strict_weak poolLess S" "\<lbrakk>a \<in> S; b \<in> S; \<not> poolLess a b; \<not> poolLess b a\<rbrakk> \<Longrightarrow> a = b"
proof -
  have asym: "\<not> poolLess b a" if "a \<in> S" "b \<in> S" "poolLess a b" for a b
    using that assms(1) by (auto simp: poolLess_created split: if_splits)
  have total: "a = b \<or> poolLess a b \<or> poolLess b a" if "a \<in> S" "b \<in> S" for a b
  proof (cases "poolName a = poolName b")
    case True
    then show ?thesis using that assms(2) by (simp add: inj_on_def)
  next
    case False
    then have "poolName a < poolName b \<or> poolName b < poolName a" by (simp add: neq_iff)
    then show ?thesis using that assms(1) by (auto simp: poolLess_created)
  qed
  then show "\<lbrakk>a \<in> S; b \<in> S; \<not> poolLess a b; \<not> poolLess b a\<rbrakk> \<Longrightarrow> a = b" by blast
  show "strict_weak poolLess S"
  proof
    fix x y z assume "x \<in> S" "y \<in> S" "z \<in> S" "\<not> poolLess x y" "\<not> poolLess y z"
    then show "\<not> poolLess x z" using asym total assms(3) unfolding poolCycle_def by metis
  qed (rule asym)
qed

lemma sort_three: "sortPoolsForSelection [a, b, c] =
    (if poolLess b a then (if poolLess c a then (if poolLess c b then [c, b, a] else [b, c, a]) else [b, a, c])
     else (if poolLess c b then (if poolLess c a then [c, a, b] else [a, c, b]) else [a, b, c]))"
  by (simp add: sortPoolsForSelection_def insertionSort_def)

text \<open>C35: when the selection depends on the listing.  Take pools with a creation time and names of their
  own.  The comparator has a cycle on them exactly if, among pools created in the same second, the name of one
  without a stamp lies between the names of two stamped ones of which the one with the smaller stamp comes
  last by name.  And the pool selected is the same for every listing of every part of them, in whatever order,
  exactly if there are no such three.\<close>

theorem mixed_stamps_cycle:
  assumes "\<forall>p \<in> S. poolCreated p \<noteq> 0" "inj_on poolName S"
  shows "(poolCycle S \<longleftrightarrow> mixedStamps S) \<and>
    ((\<forall>xs ys. set xs \<subseteq> S \<longrightarrow> mset ys = mset xs \<longrightarrow> selectFromPools ys = selectFromPools xs) \<longleftrightarrow> \<not> mixedStamps S)"
proof (intro conjI iffI)
  show cycle: "poolCycle S \<Longrightarrow> mixedStamps S" "mixedStamps S \<Longrightarrow> poolCycle S" using cycle_iff_mixed [OF assms(1)] by blast+
  assume "\<not> mixedStamps S"
  then have "\<not> poolCycle S" using cycle(1) by blast
  note order = total_selection [OF assms this]
  show "\<forall>xs ys. set xs \<subseteq> S \<longrightarrow> mset ys = mset xs \<longrightarrow> selectFromPools ys = selectFromPools xs"
  proof (intro allI impI)
    fix xs ys assume that: "set xs \<subseteq> S" "mset ys = mset xs" 
    have sub: "set ys \<subseteq> S" using that by (metis set_mset_mset)
    note sorted = strict_weak.insertionSort_sorted [OF order(1)]
    have "mset (insertionSort poolLess ys) = mset (insertionSort poolLess xs)" using that(2) by simp
    moreover have "a = b" if "a \<in> set (insertionSort poolLess ys)" "b \<in> set (insertionSort poolLess ys)"
        "\<not> poolLess a b" "\<not> poolLess b a" for a b
      using order(2) that sub by (simp add: subset_iff)
    ultimately have "sortPoolsForSelection ys = sortPoolsForSelection xs"
      unfolding sortPoolsForSelection_def
      by (rule strict_weak.sorted_unique [OF order(1) sorted [OF sub] sorted [OF that(1)]])
    then show "selectFromPools ys = selectFromPools xs" by (simp only: selectFromPools_def)
  qed
next
  assume free: "\<forall>xs ys. set xs \<subseteq> S \<longrightarrow> mset ys = mset xs \<longrightarrow> selectFromPools ys = selectFromPools xs"
  show "\<not> mixedStamps S"
  proof
    assume "mixedStamps S"
    then obtain a b c where abc: "a \<in> S" "b \<in> S" "c \<in> S" "poolLess a b" "poolLess b c" "poolLess c a"
      using cycle_iff_mixed [OF assms(1)] unfolding poolCycle_def by blast
    have asym: "\<not> poolLess q p" if "p \<in> S" "q \<in> S" "poolLess p q" for p q
      using that assms(1) by (auto simp: poolLess_created split: if_splits)
    have "\<not> poolLess b a" "\<not> poolLess c b" "\<not> poolLess a c" using asym abc by blast+
    then have "fst (selectFromPools [a, b, c]) = poolName a" "fst (selectFromPools [b, c, a]) = poolName b"
      using abc by (simp_all add: selectFromPools_def sort_three)
    moreover have "selectFromPools [b, c, a] = selectFromPools [a, b, c]" using free abc(1-3) by simp
    ultimately have "a = b" using assms(2) abc(1,2) by (simp add: inj_on_def)
    then show False using \<open>\<not> poolLess b a\<close> abc(4) by simp
  qed
qed

theorem mixed_stamps_cycle_witness:
  "let S = {pooled ''a'' (Some ''7''), pooled ''b'' None, pooled ''c'' (Some ''5'')} in
   poolCycle S \<and> (\<exists>xs ys. set xs \<subseteq> S \<and> mset ys = mset xs \<and> selectFromPools ys \<noteq> selectFromPools xs)"
proof -
  let ?S = "{pooled ''a'' (Some ''7''), pooled ''b'' None, pooled ''c'' (Some ''5'')}"
  have "mixedStamps ?S"
    unfolding mixedStamps_def
    by (intro bexI [of _ "pooled ''c'' (Some ''5'')"] bexI [of _ "pooled ''a'' (Some ''7'')"] bexI [of _ "pooled ''b'' None"])
      (simp_all add: initialRV_pooled less_char_def)
  moreover have "\<forall>p \<in> ?S. poolCreated p \<noteq> 0" "inj_on poolName ?S" by (simp_all add: inj_on_def)
  ultimately show ?thesis using mixed_stamps_cycle [of ?S] unfolding Let_def by blast
qed

section \<open>The webhook\<close>

text \<open>The answer of the webhook, message included, does not depend on the order in which the pools
  are listed.\<close>

lemma webhook_order_independent:
  assumes "mset items' = mset items"
    and "\<And>ns w. cl_ListPools C ns w = (Inr items, w)" "\<And>ns w. cl_ListPools C' ns w = (Inr items', w)"
  shows "fst (run_state (Handle (Some C') decode req) s) = fst (run_state (Handle (Some C) decode req) s)"
proof -
  have "sortStrings (map poolName items') = sortStrings (map poolName items)"
    by (rule sortStrings_permutation) (simp add: assms(1))
  moreover have "length items' = length items" using assms(1) by (metis size_mset)
  ultimately show ?thesis
    by (simp add: Handle_def run_simps assms(2,3) Let_def split: sum.split)
qed

definition listingClient :: "pool list \<Rightarrow> cluster client" where
  "listingClient ps = memClient\<lparr>cl_ListPools := (\<lambda>ns w. (Inr ps, w))\<rparr>"

definition createRequest :: admissionRequest where
  "createRequest = \<lparr>ar_Operation = Create, ar_Namespace = ''a'', ar_ObjectRaw = ''{}''\<rparr>"

text \<open>
  Creation requests admitted one at a time: a pool is stored when the webhook allows it, before the
  next request is looked at.  \<open>view\<close> lists the pools of the world.
\<close>

definition listsPools :: "'w client \<Rightarrow> ('w \<Rightarrow> pool list) \<Rightarrow> bool" where
  "listsPools C view \<longleftrightarrow>
     (\<forall>ns w. cl_ListPools C ns w = (Inr (filter (\<lambda>p. om_Namespace (po_Meta p) = ns) (view w)), w))"

definition createOf :: "pool \<Rightarrow> admissionRequest" where
  "createOf p = \<lparr>ar_Operation = Create, ar_Namespace = om_Namespace (po_Meta p), ar_ObjectRaw = []\<rparr>"

definition allowed :: "admissionResponse \<Rightarrow> bool" where
  "allowed r \<longleftrightarrow> (\<exists>why. r = Allowed why)"

fun admitAll :: "'w client \<Rightarrow> (pool \<Rightarrow> 'w \<Rightarrow> 'w) \<Rightarrow> pool list \<Rightarrow> 'w sys \<Rightarrow> 'w sys" where
  "admitAll C store [] s = s"
| "admitAll C store (p # ps) s =
     (case run_state (Handle (Some C) (\<lambda>_. Inr p) (createOf p)) s of
        (r, s') \<Rightarrow> admitAll C store ps (if allowed r then s'\<lparr>world := store p (world s')\<rparr> else s'))"

lemma Handle_create:
  assumes "listsPools C view" "trimSpace (om_Namespace (po_Meta p)) = om_Namespace (po_Meta p)"
    "om_Namespace (po_Meta p) \<noteq> ''''"
  shows "\<exists>r e. run_state (Handle (Some C) (\<lambda>_. Inr p) (createOf p)) s = (r, s\<lparr>effects := effects s @ [e]\<rparr>) \<and>
    (allowed r \<longleftrightarrow> (\<forall>q \<in> set (view (world s)). om_Namespace (po_Meta q) \<noteq> om_Namespace (po_Meta p)))"
  using assms unfolding listsPools_def
  by (auto simp: Handle_def createOf_def run_simps Let_def allowed_def filter_empty_conv)

text \<open>C28: when requests are admitted one at a time, the webhook keeps at most one pool in every
  namespace.\<close>

theorem webhook_keeps_unique:
  assumes "listsPools C view" "\<And>p w. view (store p w) = p # view w"
    and "\<forall>p \<in> set ps. trimSpace (om_Namespace (po_Meta p)) = om_Namespace (po_Meta p) \<and> om_Namespace (po_Meta p) \<noteq> ''''"
    and "distinct (map (\<lambda>q. om_Namespace (po_Meta q)) (view (world s)))"
  shows "distinct (map (\<lambda>q. om_Namespace (po_Meta q)) (view (world (admitAll C store ps s))))"
  using assms(3,4)
proof (induction ps arbitrary: s)
  case Nil
  then show ?case by simp
next
  case (Cons p ps)
  obtain r e where r: "run_state (Handle (Some C) (\<lambda>_. Inr p) (createOf p)) s = (r, s\<lparr>effects := effects s @ [e]\<rparr>)"
    and allow: "allowed r \<longleftrightarrow> (\<forall>q \<in> set (view (world s)). om_Namespace (po_Meta q) \<noteq> om_Namespace (po_Meta p))"
    using Handle_create [OF assms(1), of p s] Cons.prems(1) by auto
  define s' where "s' = (if allowed r then s\<lparr>effects := effects s @ [e], world := store p (world s)\<rparr>
    else s\<lparr>effects := effects s @ [e]\<rparr>)"
  have "om_Namespace (po_Meta p) \<notin> set (map (\<lambda>q. om_Namespace (po_Meta q)) (view (world s)))" if "allowed r"
    using that allow by force
  then have "distinct (map (\<lambda>q. om_Namespace (po_Meta q)) (view (world s')))"
    using Cons.prems(2) by (simp add: s'_def assms(2))
  then show ?case
    using Cons.IH [of s'] Cons.prems(1) r by (simp add: s'_def split: if_splits)
qed

theorem webhook_keeps_unique_witness:
  "distinct (map (\<lambda>q. om_Namespace (po_Meta q)) (mc_Pools (world (admitAll memClient
     (\<lambda>p w. w\<lparr>mc_Pools := p # mc_Pools w\<rparr>) [pooled ''x'' None, pooled ''y'' None] \<lparr>world = emptyCluster, effects = []\<rparr>))))"
proof (rule webhook_keeps_unique)
  show "listsPools memClient mc_Pools" by (simp add: listsPools_def memClient_def)
  have "trimSpace ''a'' = ''a''" by (rule trimSpace_alnum) (simp_all add: lit_simps)
  then show "\<forall>p \<in> set [pooled ''x'' None, pooled ''y'' None].
      trimSpace (om_Namespace (po_Meta p)) = om_Namespace (po_Meta p) \<and> om_Namespace (po_Meta p) \<noteq> ''''"
    by (simp add: pooled_def plainMeta_def)
qed (simp_all add: emptyCluster_def)

end
