(* ===== verification/Traces.thy ===== *)
theory Traces
  imports Effects
begin

text \<open>
  Reasoning about the calls of a program in their order.  \<open>performed m s\<close> are the effects of a run
  of \<open>m\<close> from \<open>s\<close>; \<open>traced h P m\<close> says that each of them satisfies \<open>P\<close> of the effects before it,
  \<open>h\<close> being what happened before \<open>m\<close>.  Its rules follow the structure of a program: after a call
  the history holds the call with the answer it got, so facts about answers are facts about the
  history.  \<open>P\<close> is monotone in the history in all uses (\<open>mono_trace\<close>): more history, more known.
\<close>

definition performed :: "(('w, 'z) sys_scheme, 'a) state \<Rightarrow> ('w, 'z) sys_scheme \<Rightarrow> effect list" where
  "performed m s = drop (length (effects s)) (effects (snd (run_state m s)))"

text \<open>Each effect of \<open>es\<close> satisfies \<open>P\<close> of those before it.\<close>

fun steps_ok :: "(effect list \<Rightarrow> effect \<Rightarrow> bool) \<Rightarrow> effect list \<Rightarrow> effect list \<Rightarrow> bool" where
  "steps_ok P h [] \<longleftrightarrow> True"
| "steps_ok P h (e # es) \<longleftrightarrow> P h e \<and> steps_ok P (h @ [e]) es"

definition traced ::
    "effect list \<Rightarrow> (effect list \<Rightarrow> effect \<Rightarrow> bool) \<Rightarrow> (('w, 'z) sys_scheme, 'a) state \<Rightarrow> bool" where
  "traced h P m \<longleftrightarrow>
     (\<forall>s. \<exists>es. effects (snd (run_state m s)) = effects s @ es \<and> steps_ok P h es)"

definition mono_trace :: "(effect list \<Rightarrow> effect \<Rightarrow> bool) \<Rightarrow> bool" where
  "mono_trace P \<longleftrightarrow> (\<forall>h h' e. P h e \<longrightarrow> set h \<subseteq> set h' \<longrightarrow> P h' e)"

lemma steps_ok_append: "steps_ok P h (es @ es') \<longleftrightarrow> steps_ok P h es \<and> steps_ok P (h @ es) es'"
  by (induction es arbitrary: h) auto

lemma steps_ok_split: "steps_ok P h (es1 @ e # es2) \<Longrightarrow> P (h @ es1) e"
  by (simp add: steps_ok_append)

lemma steps_ok_mono:
  "mono_trace P \<Longrightarrow> steps_ok P h es \<Longrightarrow> set h \<subseteq> set h' \<Longrightarrow> steps_ok P h' es"
proof (induction es arbitrary: h h')
  case (Cons e es)
  have "P h' e" using Cons.prems unfolding mono_trace_def by (metis steps_ok.simps(2))
  moreover have "steps_ok P (h' @ [e]) es"
    by (rule Cons.IH [of "h @ [e]"]) (use Cons.prems in auto)
  ultimately show ?case by simp
qed simp

named_theorems traced_intro "rules that follow a program and its history"

lemma traced_return [traced_intro]: "traced h P (State_Monad.return x)"
  by (simp add: traced_def)

lemma traced_note_effect [traced_intro]: "P h e \<Longrightarrow> traced h P (note_effect e)"
  by (simp add: traced_def note_effect_def)

lemma traced_api [traced_intro]: "(\<And>r. P h (e r)) \<Longrightarrow> traced h P (api e f)"
  by (simp add: traced_def api_def split: prod.split)

lemma traced_withCircuit [traced_intro]: "traced h P (withCircuit f)"
  by (simp add: traced_def withCircuit_def split: prod.split)

lemma steps_ok_all: "(\<And>h e. e \<in> set es \<Longrightarrow> P h e) \<Longrightarrow> steps_ok P h es"
  by (induction es arbitrary: h) auto

lemma traced_withMetric [traced_intro]: "(\<And>h c. P h (Gauge c)) \<Longrightarrow> traced h P (withMetric f)"
  by (auto simp: traced_def withMetric_def intro!: steps_ok_all split: prod.split)

text \<open>The program after a call knows the answer.\<close>

lemma traced_bind_api [traced_intro]:
  fixes f :: "'a \<Rightarrow> (('w, 'z) sys_scheme, 'b) state"
  assumes "\<And>r. P h (e r)" "\<And>r. traced (h @ [e r]) P (f r)"
  shows "traced h P (State_Monad.bind (api e g) f)"
  unfolding traced_def
proof
  fix s :: "('w, 'z) sys_scheme"
  obtain r w where r: "g (world s) = (r, w)" by force
  obtain es where "effects (snd (run_state (f r) (s\<lparr>world := w, effects := effects s @ [e r]\<rparr>))) =
      (effects s @ [e r]) @ es" "steps_ok P (h @ [e r]) es"
    using assms(2) [of r] unfolding traced_def
    by (auto dest: spec [of _ "s\<lparr>world := w, effects := effects s @ [e r]\<rparr>"])
  then show "\<exists>es. effects (snd (run_state (State_Monad.bind (api e g) f) s)) = effects s @ es \<and> steps_ok P h es"
    using r assms(1) by (intro exI [of _ "e r # es"]) (simp add: api_def)
qed

text \<open>After any other program, what was known stays known.\<close>

lemma traced_bind:
  assumes "mono_trace P" "traced h P m" "\<And>a. traced h P (f a)"
  shows "traced h P (State_Monad.bind m f)"
  unfolding traced_def
proof
  fix s
  obtain a t where m: "run_state m s = (a, t)" by force
  obtain es where es: "effects t = effects s @ es" "steps_ok P h es"
    using assms(2) m unfolding traced_def by (metis snd_conv)
  obtain es' where es': "effects (snd (run_state (f a) t)) = effects t @ es'" "steps_ok P h es'"
    using assms(3) unfolding traced_def by blast
  have "steps_ok P (h @ es) es'"
    by (rule steps_ok_mono [OF assms(1) es'(2)]) simp
  then show "\<exists>es. effects (snd (run_state (State_Monad.bind m f) s)) = effects s @ es \<and> steps_ok P h es"
    using m es es' by (intro exI [of _ "es @ es'"]) (simp add: steps_ok_append)
qed

lemma traced_if [traced_intro]:
  "(b \<Longrightarrow> traced h P m) \<Longrightarrow> (\<not> b \<Longrightarrow> traced h P n) \<Longrightarrow> traced h P (if b then m else n)"
  by simp

lemma traced_case_sum [traced_intro]:
  "(\<And>a. x = Inl a \<Longrightarrow> traced h P (f a)) \<Longrightarrow> (\<And>b. x = Inr b \<Longrightarrow> traced h P (g b)) \<Longrightarrow>
    traced h P (case x of Inl a \<Rightarrow> f a | Inr b \<Rightarrow> g b)"
  by (simp split: sum.split)

lemma traced_case_option [traced_intro]:
  "(x = None \<Longrightarrow> traced h P m) \<Longrightarrow> (\<And>a. x = Some a \<Longrightarrow> traced h P (f a)) \<Longrightarrow>
    traced h P (case x of None \<Rightarrow> m | Some a \<Rightarrow> f a)"
  by (simp split: option.split)

lemma traced_case_prod [traced_intro]:
  "(\<And>a b. x = (a, b) \<Longrightarrow> traced h P (f a b)) \<Longrightarrow> traced h P (case x of (a, b) \<Rightarrow> f a b)"
  by (simp split: prod.split)

lemma traced_case_list [traced_intro]:
  "(x = [] \<Longrightarrow> traced h P m) \<Longrightarrow> (\<And>a as. x = a # as \<Longrightarrow> traced h P (f a as)) \<Longrightarrow>
    traced h P (case x of [] \<Rightarrow> m | a # as \<Rightarrow> f a as)"
  by (simp split: list.split)

lemma traced_let [traced_intro]: "(\<And>y. y = x \<Longrightarrow> traced h P (f y)) \<Longrightarrow> traced h P (let y = x in f y)"
  by simp

lemma traced_mono: "mono_trace P \<Longrightarrow> traced h P m \<Longrightarrow> set h \<subseteq> set h' \<Longrightarrow> traced h' P m"
  unfolding traced_def using steps_ok_mono by metis

lemma traced_emits: "emits P m \<Longrightarrow> traced h (\<lambda>_. P) m"
proof -
  have "list_all P es \<Longrightarrow> steps_ok (\<lambda>_. P) h es" for es
    by (rule steps_ok_all) (simp add: list_all_iff)
  then show "emits P m \<Longrightarrow> traced h (\<lambda>_. P) m"
    unfolding emits_def traced_def by metis
qed

text \<open>How the rules are read off at a run.\<close>

lemma performed_traced:
  assumes "traced [] P m" "performed m s = es1 @ e # es2"
  shows "P es1 e"
proof -
  obtain es where es: "effects (snd (run_state m s)) = effects s @ es" "steps_ok P [] es"
    using assms(1) unfolding traced_def by blast
  then have "es = es1 @ e # es2" using assms(2) by (simp add: performed_def)
  then show ?thesis using es(2) steps_ok_split [of P "[]" es1 e es2] by simp
qed

lemma performed_emits:
  assumes "emits P m" "e \<in> set (performed m s)"
  shows "P e"
proof -
  obtain es where es: "effects (snd (run_state m s)) = effects s @ es" "list_all P es"
    using assms(1) unfolding emits_def by blast
  then have "e \<in> set es" using assms(2) by (simp add: performed_def)
  then show ?thesis using es(2) by (simp add: list_all_iff)
qed

lemma performed_run:
  "emits P m \<Longrightarrow> effects (snd (run_state m s)) = effects s @ performed m s"
  by (auto simp: emits_def performed_def dest!: spec [of _ s])

end
