(* ===== verification/ProfileCorrect.thy ===== *)
theory ProfileCorrect
  imports CacheProfile Traces Reference
begin

text \<open>
  The cache profile reconciler: one reconcile brings the condition \<open>Active\<close> in line with the
  profile.
\<close>

definition profileEvent :: "bool \<Rightarrow> profile \<Rightarrow> effect list" where
  "profileEvent recorder pr =
     (if \<not> recorder then []
      else [case validateDNSCacheProfile (Some pr) of
        Some e \<Rightarrow> RecordEvent (om_Namespace (pr_Meta pr)) (om_Name (pr_Meta pr)) EventTypeWarning ''InvalidSpec'' (MErr e)
      | None \<Rightarrow> RecordEvent (om_Namespace (pr_Meta pr)) (om_Name (pr_Meta pr)) EventTypeNormal ''Validated''
          (MText ''Validated DNSCacheProfile'' [])])"

lemma active_with:
  assumes "conditions_documented K"
  shows "\<exists>c. find (\<lambda>c. cd_Type c = ''Active'') (st_Conditions (pr_Status (withActiveCondition K pr st r msg))) = Some c \<and>
    cd_Status c = st \<and> cd_ObservedGeneration c = om_Generation (pr_Meta pr)"
  by (simp add: withActiveCondition_def conditions_find [OF assms])

text \<open>C29: a reconcile of a profile records one event and patches the status once: the condition
  \<open>Active\<close> of the generation read is true exactly for a profile without negative numbers whose
  effective minimal TTL is not above the maximal one; metadata and specification stay.  An invalid
  profile is not retried.\<close>

theorem profile_reported:
  assumes "conditions_documented K" "cl_GetProfile C namespace name (world s) = (Inr pr, w)"
  shows "\<exists>pr' r c. performed (reconcileProfile recorder K C namespace name) s =
      GetProfile namespace name (Inr pr) # profileEvent recorder pr @ [PatchProfileStatus pr pr' r] \<and>
    find (\<lambda>c. cd_Type c = ''Active'') (st_Conditions (pr_Status pr')) = Some c \<and>
    cd_Status c = (if nonNegativeProfile (pr_Spec pr) \<and>
        cc_PositiveTtlMin (applyProfile (pr_Spec pr) defaultCache) \<le> cc_PositiveTtlMax (applyProfile (pr_Spec pr) defaultCache)
      then ConditionTrue else ConditionFalse) \<and>
    cd_ObservedGeneration c = om_Generation (pr_Meta pr) \<and> st_ObservedGeneration (pr_Status pr') = om_Generation (pr_Meta pr) \<and>
    pr_Meta pr' = pr_Meta pr \<and> pr_Spec pr' = pr_Spec pr \<and>
    fst (run_state (reconcileProfile recorder K C namespace name) s) =
      (case r of Inl e \<Rightarrow> Some (Wrap ''update DNSCacheProfile status: %w'' [] (ApiErr e)) | Inr _ \<Rightarrow> None)"
proof -
  define st where "st = (if validateDNSCacheProfile (Some pr) = None then ConditionTrue else ConditionFalse)"
  define reason where "reason = (if validateDNSCacheProfile (Some pr) = None then ''Active'' else ''InvalidSpec'')"
  define msg where "msg = (case validateDNSCacheProfile (Some pr) of Some e \<Rightarrow> MErr e
      | None \<Rightarrow> MText ''DNSCacheProfile is active'' [])"
  define pr' where "pr' = withActiveCondition K pr st reason msg"
  obtain r w2 where r: "cl_PatchProfileStatus C pr pr' w = (r, w2)" by force
  have run: "run_state (reconcileProfile recorder K C namespace name) s =
      ((case r of Inl e \<Rightarrow> Some (Wrap ''update DNSCacheProfile status: %w'' [] (ApiErr e)) | Inr _ \<Rightarrow> None),
       s\<lparr>world := w2, effects := effects s @ GetProfile namespace name (Inr pr) # profileEvent recorder pr @
         [PatchProfileStatus pr pr' r]\<rparr>)"
    using r unfolding pr'_def st_def reason_def msg_def
    by (cases "validateDNSCacheProfile (Some pr)")
      (simp_all add: reconcileProfile_def setActiveCondition_def recordProfileEvent_def profileEvent_def run_simps assms(2) Let_def)
  obtain c where c: "find (\<lambda>c. cd_Type c = ''Active'') (st_Conditions (pr_Status pr')) = Some c"
    "cd_Status c = st" "cd_ObservedGeneration c = om_Generation (pr_Meta pr)"
    using active_with [OF assms(1)] unfolding pr'_def by blast
  have rest: "st_ObservedGeneration (pr_Status pr') = om_Generation (pr_Meta pr)" "pr_Meta pr' = pr_Meta pr" "pr_Spec pr' = pr_Spec pr"
    by (simp_all add: pr'_def withActiveCondition_def)
  have trace: "performed (reconcileProfile recorder K C namespace name) s =
      GetProfile namespace name (Inr pr) # profileEvent recorder pr @ [PatchProfileStatus pr pr' r]"
    by (simp add: performed_def run)
  show ?thesis
    unfolding trace
    by (intro exI [of _ pr'] exI [of _ r] exI [of _ c]) (simp add: run c rest st_def validateDNSCacheProfile_iff)
qed

definition invertedProfile :: profile where
  "invertedProfile = \<lparr>pr_Meta = plainMeta ''a'' ''default'', pr_Spec = \<lparr>pf_MaxEntries = 0, pf_PositiveTtlMinSeconds = 400,
     pf_PositiveTtlMaxSeconds = 0, pf_NegativeTtlSeconds = 0, pf_PrefetchEnabled = True, pf_PrefetchThreshold = 0\<rparr>,
     pr_Status = noStatus\<rparr>"

theorem profile_reported_witness:
  "\<exists>pr' r c. performed (reconcileProfile False refK8s memClient ''a'' ''default'')
      \<lparr>world = emptyCluster\<lparr>mc_Profiles := [invertedProfile]\<rparr>, effects = []\<rparr> =
      [GetProfile ''a'' ''default'' (Inr invertedProfile), PatchProfileStatus invertedProfile pr' r] \<and>
    find (\<lambda>c. cd_Type c = ''Active'') (st_Conditions (pr_Status pr')) = Some c \<and> cd_Status c = ConditionFalse"
proof -
  have get: "cl_GetProfile memClient ''a'' ''default'' (world \<lparr>world = emptyCluster\<lparr>mc_Profiles := [invertedProfile]\<rparr>, effects = []\<rparr>) =
      (Inr invertedProfile, emptyCluster\<lparr>mc_Profiles := [invertedProfile]\<rparr>)"
    by (simp add: memClient_def lookupBy_def metaKey_def invertedProfile_def plainMeta_def)
  obtain pr' r c where run: "performed (reconcileProfile False refK8s memClient ''a'' ''default'')
      \<lparr>world = emptyCluster\<lparr>mc_Profiles := [invertedProfile]\<rparr>, effects = []\<rparr> =
      [GetProfile ''a'' ''default'' (Inr invertedProfile), PatchProfileStatus invertedProfile pr' r]"
    "find (\<lambda>c. cd_Type c = ''Active'') (st_Conditions (pr_Status pr')) = Some c"
    "cd_Status c = (if nonNegativeProfile (pr_Spec invertedProfile) \<and>
        cc_PositiveTtlMin (applyProfile (pr_Spec invertedProfile) defaultCache) \<le>
        cc_PositiveTtlMax (applyProfile (pr_Spec invertedProfile) defaultCache) then ConditionTrue else ConditionFalse)"
    using profile_reported [OF refK8s_conditions get, of False] unfolding profileEvent_def if_P [OF simp_thms(8)] append_Nil by auto
  moreover have "cd_Status c = ConditionFalse"
    using run(3) by (simp add: invertedProfile_def applyProfile_fields defaultCache_def)
  ultimately show ?thesis by blast
qed

end
