(* ===== verification/Policy.thy ===== *)
theory Policy
  imports Effects
begin

text \<open>
  \<open>ExternalDNSPolicyReconciler\<close> (\<open>controllers/externaldnspolicy_controller.go\<close>): the
  reconcile with its finalizer, the validation of references, the enforcement by annotations on
  namespaces, and the watch handlers.

  \<open>enforcePolicy\<close> ranges over a Go map, in an order the language leaves open: the order is the
  argument \<open>iter\<close>, of which only \<open>anyOrder\<close> is known, that it visits each key once.
\<close>

abbreviation externalPolicyValidatedCondition :: string where
  "externalPolicyValidatedCondition \<equiv> ''Validated''"

abbreviation externalPolicyFinalizer :: string where
  "externalPolicyFinalizer \<equiv> ''dns.astradns.com/external-policy-finalizer''"

abbreviation ownerUIDAnnotation :: string where
  "ownerUIDAnnotation \<equiv> ''dns.astradns.com/external-policy-owner-uid''"

abbreviation policyNameAnnotation :: string where
  "policyNameAnnotation \<equiv> ''dns.astradns.com/external-policy-name''"

abbreviation upstreamRefAnnotation :: string where
  "upstreamRefAnnotation \<equiv> ''dns.astradns.com/external-policy-upstream-pool''"

abbreviation cacheRefAnnotation :: string where
  "cacheRefAnnotation \<equiv> ''dns.astradns.com/external-policy-cache-profile''"

definition errNamespacePolicyConflict :: goError where
  "errNamespacePolicyConflict = Sentinel ''namespace already managed by another external dns policy''"

definition anyOrder :: "(string list \<Rightarrow> string list) \<Rightarrow> bool" where
  "anyOrder iter \<longleftrightarrow> (\<forall>xs. mset (iter xs) = mset xs)"

section \<open>Annotations\<close>

text \<open>\<open>if annotations[k] != v { annotations[k] = v; changed = true }\<close>.\<close>

definition putAnnotation ::
    "string \<Rightarrow> string \<Rightarrow> (string, string) gomap \<times> bool \<Rightarrow> (string, string) gomap \<times> bool" where
  "putAnnotation k v mc =
     (if gm_index '''' (fst mc) k \<noteq> v then (gm_set k v (fst mc), True) else mc)"

definition policyKey :: "policy \<Rightarrow> string" where
  "policyKey pc = om_Namespace (pc_Meta pc) @ ''/'' @ om_Name (pc_Meta pc)"

definition applyPolicyAnnotations ::
    "policy \<Rightarrow> (string, string) gomap \<Rightarrow> (string, string) gomap \<times> bool" where
  "applyPolicyAnnotations pc m0 =
     (let m1 = putAnnotation ownerUIDAnnotation (om_UID (pc_Meta pc)) (Some (gm_make m0), False);
          m2 = putAnnotation policyNameAnnotation (policyKey pc) m1;
          m3 = putAnnotation upstreamRefAnnotation (pl_UpstreamPoolRef (pc_Spec pc)) m2;
          trimmedCacheRef = trimSpace (pl_CacheProfileRef (pc_Spec pc))
      in if trimmedCacheRef = '''' then
           (if gm_get (fst m3) cacheRefAnnotation \<noteq> None
            then (gm_delete cacheRefAnnotation (fst m3), True) else m3)
         else putAnnotation cacheRefAnnotation trimmedCacheRef m3)"

definition updateNamespacePolicyAnnotations ::
    "'w client \<Rightarrow> namespace \<Rightarrow> policy \<Rightarrow> ('w sys, goError option) state" where
  "updateNamespacePolicyAnnotations C ns pc =
     (let policyUID = om_UID (pc_Meta pc);
          existingUID = gm_index '''' (om_Annotations ns) ownerUIDAnnotation in
      if existingUID \<noteq> '''' \<and> existingUID \<noteq> policyUID then
        let name0 = gm_index '''' (om_Annotations ns) policyNameAnnotation;
            existingPolicy = (if name0 = '''' then existingUID else name0)
        in State_Monad.return (Some (Wrap ''%w: namespace %q already managed by policy %q''
             [AStr (om_Name ns), AStr existingPolicy] errNamespacePolicyConflict))
      else case applyPolicyAnnotations pc (om_Annotations ns) of
        (m, changed) \<Rightarrow>
          if \<not> changed then State_Monad.return None
          else do {
            let ns' = ns\<lparr>om_Annotations := m\<rparr>;
            r \<leftarrow> api (PatchNamespace ns ns') (cl_PatchNamespace C ns ns');
            State_Monad.return (case r of
              Inl e \<Rightarrow> Some (Wrap ''patch namespace %q annotations: %w'' [AStr (om_Name ns)] (ApiErr e))
            | Inr _ \<Rightarrow> None)
          })"

definition policyAnnotationKeys :: "string list" where
  "policyAnnotationKeys =
     [ownerUIDAnnotation, policyNameAnnotation, upstreamRefAnnotation, cacheRefAnnotation]"

definition dropAnnotation ::
    "string \<Rightarrow> (string, string) gomap \<times> bool \<Rightarrow> (string, string) gomap \<times> bool" where
  "dropAnnotation k mc =
     (if gm_get (fst mc) k \<noteq> None then (gm_delete k (fst mc), True) else mc)"

definition dropPolicyAnnotations :: "(string, string) gomap \<Rightarrow> (string, string) gomap \<times> bool" where
  "dropPolicyAnnotations m = fold dropAnnotation policyAnnotationKeys (m, False)"

definition removeNamespacePolicyAnnotations ::
    "'w client \<Rightarrow> namespace \<Rightarrow> ('w sys, goError option) state" where
  "removeNamespacePolicyAnnotations C ns =
     (if om_Annotations ns = None then State_Monad.return None
      else case dropPolicyAnnotations (om_Annotations ns) of
        (m, changed) \<Rightarrow>
          if \<not> changed then State_Monad.return None
          else do {
            let ns' = ns\<lparr>om_Annotations := (if length (gm_make m) = 0 then None else m)\<rparr>;
            r \<leftarrow> api (PatchNamespace ns ns') (cl_PatchNamespace C ns ns');
            State_Monad.return (case r of
              Inl e \<Rightarrow> Some (Wrap ''remove policy annotations from namespace %q: %w''
                [AStr (om_Name ns)] (ApiErr e))
            | Inr _ \<Rightarrow> None)
          })"

section \<open>Enforcement\<close>

definition managedBy :: "string \<Rightarrow> namespace \<Rightarrow> bool" where
  "managedBy policyUID ns \<longleftrightarrow>
     om_Annotations ns \<noteq> None \<and> gm_index '''' (om_Annotations ns) ownerUIDAnnotation = policyUID"

definition listManagedPolicyNamespaces ::
    "'w client \<Rightarrow> string \<Rightarrow> ('w sys, goError + namespace list) state" where
  "listManagedPolicyNamespaces C policyUID = do {
     l \<leftarrow> api ListNamespaces (cl_ListNamespaces C);
     State_Monad.return (case l of
       Inl e \<Rightarrow> Inl (Wrap ''list namespaces: %w'' [] (ApiErr e))
     | Inr items \<Rightarrow> Inr (filter (managedBy policyUID) items))
   }"

text \<open>The loop that removes the annotations, up to the first error.\<close>

fun removeFromAll :: "'w client \<Rightarrow> namespace list \<Rightarrow> ('w sys, goError option) state" where
  "removeFromAll C [] = State_Monad.return None"
| "removeFromAll C (ns # nss) = do {
     r \<leftarrow> removeNamespacePolicyAnnotations C ns;
     case r of Some e \<Rightarrow> State_Monad.return (Some e) | None \<Rightarrow> removeFromAll C nss
   }"

text \<open>The loop over the selected namespaces, with \<open>appliedNamespaces\<close>.\<close>

fun applyToAll ::
    "'w client \<Rightarrow> policy \<Rightarrow> int \<Rightarrow> string list \<Rightarrow> ('w sys, goError + int) state" where
  "applyToAll C pc applied [] = State_Monad.return (Inr applied)"
| "applyToAll C pc applied (name # names) = do {
     g \<leftarrow> api (GetNamespace name) (cl_GetNamespace C name);
     case g of
       Inl e \<Rightarrow>
         if isNotFound e then applyToAll C pc applied names
         else State_Monad.return (Inl (Wrap ''get target namespace %q: %w'' [AStr name] (ApiErr e)))
     | Inr ns \<Rightarrow> do {
         u \<leftarrow> updateNamespacePolicyAnnotations C ns pc;
         case u of
           Some e \<Rightarrow> State_Monad.return (Inl e)
         | None \<Rightarrow> applyToAll C pc (int32 (applied + 1)) names
       }
   }"

definition selectedNamespaces :: "policy \<Rightarrow> string list" where
  "selectedNamespaces pc = remdups (map trimSpace (pl_SelectorNamespaces (pc_Spec pc)))"

definition enforcePolicy ::
    "(string list \<Rightarrow> string list) \<Rightarrow> 'w client \<Rightarrow> policy \<Rightarrow> ('w sys, goError + int) state" where
  "enforcePolicy iter C pc = do {
     l \<leftarrow> listManagedPolicyNamespaces C (om_UID (pc_Meta pc));
     case l of
       Inl e \<Rightarrow> State_Monad.return (Inl e)
     | Inr managed \<Rightarrow> do {
         r \<leftarrow> removeFromAll C (filter (\<lambda>ns. om_Name ns \<notin> set (selectedNamespaces pc)) managed);
         case r of
           Some e \<Rightarrow> State_Monad.return (Inl e)
         | None \<Rightarrow> applyToAll C pc 0 (iter (selectedNamespaces pc))
       }
   }"

definition clearPolicyEnforcement :: "'w client \<Rightarrow> policy \<Rightarrow> ('w sys, goError option) state" where
  "clearPolicyEnforcement C pc = do {
     l \<leftarrow> listManagedPolicyNamespaces C (om_UID (pc_Meta pc));
     case l of
       Inl e \<Rightarrow> State_Monad.return (Some e)
     | Inr managed \<Rightarrow> removeFromAll C managed
   }"

section \<open>Validation\<close>

definition validatePolicyRefName :: "k8s \<Rightarrow> string \<Rightarrow> string \<Rightarrow> bool \<Rightarrow> goError + string" where
  "validatePolicyRefName K raw fieldPath required =
     (let trimmed = trimSpace raw in
      if trimmed = '''' then
        (if required then Inl (Errorf ''%s is required'' [AStr fieldPath])
         else if raw \<noteq> '''' then Inl (Errorf ''%s must not be whitespace'' [AStr fieldPath])
         else Inr '''')
      else if raw \<noteq> trimmed then
        Inl (Errorf ''%s must not include leading or trailing whitespace'' [AStr fieldPath])
      else if length (isDNS1123Subdomain K trimmed) > 0 then
        Inl (Errorf ''%s %q is not a valid resource name'' [AStr fieldPath, AStr raw])
      else Inr trimmed)"

fun checkSelector :: "k8s \<Rightarrow> int \<Rightarrow> string list \<Rightarrow> string list \<Rightarrow> goError option" where
  "checkSelector K i seen [] = None"
| "checkSelector K i seen (ns # nss) =
     (let trimmed = trimSpace ns in
      if trimmed = '''' then Some (Errorf ''spec.selector.namespaces[%d] must not be empty'' [AInt i])
      else if ns \<noteq> trimmed then
        Some (Errorf ''spec.selector.namespaces[%d] must not include leading or trailing whitespace'' [AInt i])
      else if length (isDNS1123Label K trimmed) > 0 then
        Some (Errorf ''spec.selector.namespaces[%d] %q is not a valid namespace name'' [AInt i, AStr ns])
      else if trimmed \<in> set seen then
        Some (Errorf ''spec.selector.namespaces[%d] %q is duplicated'' [AInt i, AStr ns])
      else checkSelector K (i + 1) (trimmed # seen) nss)"

definition validateReferences :: "k8s \<Rightarrow> 'w client \<Rightarrow> policy option \<Rightarrow> ('w sys, goError option) state" where
  "validateReferences K C p =
     (case p of
        None \<Rightarrow> State_Monad.return (Some (Errorf ''external dns policy is nil'' []))
      | Some pc \<Rightarrow>
      let namespace = om_Namespace (pc_Meta pc) in
      if length (pl_SelectorNamespaces (pc_Spec pc)) = 0 then
        State_Monad.return (Some (Errorf ''spec.selector.namespaces must contain at least one namespace'' []))
      else case checkSelector K 0 [] (pl_SelectorNamespaces (pc_Spec pc)) of
        Some e \<Rightarrow> State_Monad.return (Some e)
      | None \<Rightarrow>
      case validatePolicyRefName K (pl_UpstreamPoolRef (pc_Spec pc)) ''spec.upstreamPoolRef.name'' True of
        Inl e \<Rightarrow> State_Monad.return (Some e)
      | Inr poolRef \<Rightarrow> do {
          g \<leftarrow> api (GetPool namespace poolRef) (cl_GetPool C namespace poolRef);
          case g of
            Inl e \<Rightarrow> State_Monad.return (Some (if isNotFound e
              then Errorf ''referenced upstream pool %q does not exist'' [AStr poolRef]
              else Wrap ''get referenced upstream pool %q: %w'' [AStr poolRef] (ApiErr e)))
          | Inr _ \<Rightarrow>
          case validatePolicyRefName K (pl_CacheProfileRef (pc_Spec pc)) ''spec.cacheProfileRef.name'' False of
            Inl e \<Rightarrow> State_Monad.return (Some e)
          | Inr cacheRef \<Rightarrow>
          if cacheRef = '''' then State_Monad.return None
          else do {
            h \<leftarrow> api (GetProfile namespace cacheRef) (cl_GetProfile C namespace cacheRef);
            State_Monad.return (case h of
              Inl e \<Rightarrow> Some (if isNotFound e
                then Errorf ''referenced cache profile %q does not exist'' [AStr cacheRef]
                else Wrap ''get referenced cache profile %q: %w'' [AStr cacheRef] (ApiErr e))
            | Inr _ \<Rightarrow> None)
          }
        })"

section \<open>Reconcile\<close>

definition recordPolicyEvent ::
    "bool \<Rightarrow> policy \<Rightarrow> eventType \<Rightarrow> string \<Rightarrow> message \<Rightarrow> ('w sys, unit) state" where
  "recordPolicyEvent recorder pc typ reason msg =
     (if \<not> recorder then State_Monad.return ()
      else note_effect (RecordEvent (om_Namespace (pc_Meta pc)) (om_Name (pc_Meta pc)) typ reason msg))"

definition withValidatedCondition ::
    "k8s \<Rightarrow> policy \<Rightarrow> conditionStatus \<Rightarrow> string \<Rightarrow> message \<Rightarrow> int \<Rightarrow> policy" where
  "withValidatedCondition K pc status reason msg applied =
     pc\<lparr>pc_Status :=
       \<lparr>st_Conditions = setStatusCondition K (st_Conditions (pc_Status pc))
          \<lparr>cd_Type = externalPolicyValidatedCondition, cd_Status = status, cd_ObservedGeneration = om_Generation (pc_Meta pc),
           cd_Reason = reason, cd_Message = msg\<rparr>,
        st_ObservedGeneration = om_Generation (pc_Meta pc)\<rparr>,
       pc_AppliedNodes := applied\<rparr>"

definition setValidatedCondition ::
    "k8s \<Rightarrow> 'w client \<Rightarrow> policy \<Rightarrow> conditionStatus \<Rightarrow> string \<Rightarrow> message \<Rightarrow> int \<Rightarrow>
     ('w sys, goError option) state" where
  "setValidatedCondition K C pc status reason msg applied = do {
     let pc' = withValidatedCondition K pc status reason msg applied;
     r \<leftarrow> api (PatchPolicyStatus pc pc') (cl_PatchPolicyStatus C pc pc');
     State_Monad.return (case r of
       Inl e \<Rightarrow> Some (Wrap ''update ExternalDNSPolicy status: %w'' [] (ApiErr e))
     | Inr _ \<Rightarrow> None)
   }"

definition isDeleting :: "policy \<Rightarrow> bool" where
  "isDeleting pc \<longleftrightarrow>
     (case om_DeletionTimestamp (pc_Meta pc) of None \<Rightarrow> False | Some t \<Rightarrow> t \<noteq> 0)"

definition withFinalizers :: "(string list \<Rightarrow> string list) \<Rightarrow> policy \<Rightarrow> policy" where
  "withFinalizers f pc = pc\<lparr>pc_Meta := (pc_Meta pc)\<lparr>om_Finalizers := f (om_Finalizers (pc_Meta pc))\<rparr>\<rparr>"

text \<open>The branch of a policy that is being deleted.\<close>

definition finalizePolicy :: "k8s \<Rightarrow> 'w client \<Rightarrow> policy \<Rightarrow> ('w sys, goError option) state" where
  "finalizePolicy K C pc =
     (if \<not> containsFinalizer K (om_Finalizers (pc_Meta pc)) externalPolicyFinalizer then State_Monad.return None
      else do {
        r \<leftarrow> clearPolicyEnforcement C pc;
        case r of
          Some e \<Rightarrow> State_Monad.return (Some (Wrap ''clear policy enforcement: %w'' [] e))
        | None \<Rightarrow> do {
            let pc' = withFinalizers (\<lambda>fs. removeFinalizer K fs externalPolicyFinalizer) pc;
            h \<leftarrow> api (PatchPolicy pc pc') (cl_PatchPolicy C pc pc');
            State_Monad.return (case h of
              Inl e \<Rightarrow> Some (Wrap ''remove policy finalizer: %w'' [] (ApiErr e))
            | Inr _ \<Rightarrow> None)
          }
      })"

text \<open>The end of \<open>Reconcile\<close>: validation, enforcement and status of a live policy.\<close>

definition enforceAndReport ::
    "(string list \<Rightarrow> string list) \<Rightarrow> bool \<Rightarrow> k8s \<Rightarrow> 'w client \<Rightarrow> policy \<Rightarrow> ('w sys, goError option) state" where
  "enforceAndReport iter recorder K C pc = do {
     v \<leftarrow> validateReferences K C (Some pc);
     case v of
       Some e \<Rightarrow> do {
         _ \<leftarrow> recordPolicyEvent recorder pc EventTypeWarning ''ValidationFailed'' (MErr e);
         setValidatedCondition K C pc ConditionFalse ''ValidationFailed'' (MErr e) 0
       }
     | None \<Rightarrow> do {
         a \<leftarrow> enforcePolicy iter C pc;
         case a of
           Inl e \<Rightarrow> do {
             _ \<leftarrow> recordPolicyEvent recorder pc EventTypeWarning ''EnforcementFailed'' (MErr e);
             statusErr \<leftarrow> setValidatedCondition K C pc ConditionFalse ''EnforcementFailed'' (MErr e) 0;
             State_Monad.return (case statusErr of
               Some se \<Rightarrow> Some se
             | None \<Rightarrow> if errorsIs e errNamespacePolicyConflict then None else Some e)
           }
         | Inr appliedNamespaces \<Rightarrow> do {
             _ \<leftarrow> recordPolicyEvent recorder pc EventTypeNormal ''Enforced''
               (MText ''Validated and enforced ExternalDNSPolicy'' []);
             setValidatedCondition K C pc ConditionTrue ''Enforced''
               (MText ''References are valid and policy is enforced'' []) appliedNamespaces
           }
       }
   }"

definition reconcilePolicy ::
    "(string list \<Rightarrow> string list) \<Rightarrow> bool \<Rightarrow> k8s \<Rightarrow> 'w client \<Rightarrow> string \<Rightarrow> string \<Rightarrow>
     ('w sys, goError option) state" where
  "reconcilePolicy iter recorder K C namespace name = do {
     g \<leftarrow> api (GetPolicy namespace name) (cl_GetPolicy C namespace name);
     case g of
       Inl e \<Rightarrow> State_Monad.return (if isNotFound e then None
         else Some (Wrap ''get ExternalDNSPolicy %s: %w'' [AStr (namespace @ ''/'' @ name)] (ApiErr e)))
     | Inr pc0 \<Rightarrow>
       if isDeleting pc0 then finalizePolicy K C pc0
       else if containsFinalizer K (om_Finalizers (pc_Meta pc0)) externalPolicyFinalizer then
         enforceAndReport iter recorder K C pc0
       else do {
         let pc1 = withFinalizers (\<lambda>fs. addFinalizer K fs externalPolicyFinalizer) pc0;
         h \<leftarrow> api (PatchPolicy pc0 pc1) (cl_PatchPolicy C pc0 pc1);
         case h of
           Inl e \<Rightarrow> State_Monad.return (Some (Wrap ''add policy finalizer: %w'' [] (ApiErr e)))
         | Inr pc \<Rightarrow> enforceAndReport iter recorder K C pc
       }
   }"

section \<open>The watches\<close>

definition policyRequest :: "policy \<Rightarrow> string \<times> string" where
  "policyRequest pc = (om_Namespace (pc_Meta pc), om_Name (pc_Meta pc))"

definition mapUpstreamPoolToPolicies ::
    "'w client \<Rightarrow> objectMeta \<Rightarrow> ('w sys, (string \<times> string) list) state" where
  "mapUpstreamPoolToPolicies C obj = do {
     l \<leftarrow> api (ListPolicies (Some (om_Namespace obj))) (cl_ListPolicies C (Some (om_Namespace obj)));
     State_Monad.return (case l of
       Inl e \<Rightarrow> []
     | Inr items \<Rightarrow> map policyRequest
         (filter (\<lambda>pc. trimSpace (pl_UpstreamPoolRef (pc_Spec pc)) = om_Name obj) items))
   }"

definition mapCacheProfileToPolicies ::
    "'w client \<Rightarrow> objectMeta \<Rightarrow> ('w sys, (string \<times> string) list) state" where
  "mapCacheProfileToPolicies C obj = do {
     l \<leftarrow> api (ListPolicies (Some (om_Namespace obj))) (cl_ListPolicies C (Some (om_Namespace obj)));
     State_Monad.return (case l of
       Inl e \<Rightarrow> []
     | Inr items \<Rightarrow> map policyRequest
         (filter (\<lambda>pc. trimSpace (pl_CacheProfileRef (pc_Spec pc)) = om_Name obj) items))
   }"

text \<open>The inner loop stops at the first selector entry that names the namespace.\<close>

definition mapNamespaceToPolicies ::
    "'w client \<Rightarrow> objectMeta \<Rightarrow> ('w sys, (string \<times> string) list) state" where
  "mapNamespaceToPolicies C obj = do {
     l \<leftarrow> api (ListPolicies None) (cl_ListPolicies C None);
     State_Monad.return (case l of
       Inl e \<Rightarrow> []
     | Inr items \<Rightarrow> map policyRequest
         (filter (\<lambda>pc. find (\<lambda>n. trimSpace n = om_Name obj) (pl_SelectorNamespaces (pc_Spec pc)) \<noteq> None) items))
   }"

end
