(* ===== verification/PolicyTrace.thy ===== *)
theory PolicyTrace
  imports Traces Policy
begin

text \<open>
  The annotations of a policy, as maps; and what a reconcile of a policy may do, in the order of its
  calls (\<open>policyJustified\<close>): which namespaces it changes and how, and when it gives up its finalizer.
\<close>

section \<open>Annotations\<close>

lemma putAnnotation_get:
  "gm_get (fst (putAnnotation k v mc)) k' =
     (if gm_index '''' (fst mc) k \<noteq> v \<and> k' = k then Some v else gm_get (fst mc) k')"
  by (simp add: putAnnotation_def)

lemma putAnnotation_index [simp]:
  "gm_index '''' (fst (putAnnotation k v mc)) k' = (if k' = k then v else gm_index '''' (fst mc) k')"
  by (auto simp: putAnnotation_def)

lemma putAnnotation_changed: "snd (putAnnotation k v mc) \<longleftrightarrow> snd mc \<or> gm_index '''' (fst mc) k \<noteq> v"
  by (auto simp: putAnnotation_def)

text \<open>The annotations say what \<open>pc\<close> wants them to say.\<close>

definition annotatedFor :: "policy \<Rightarrow> (string, string) gomap \<Rightarrow> bool" where
  "annotatedFor pc m \<longleftrightarrow>
     gm_index '''' m ownerUIDAnnotation = om_UID (pc_Meta pc) \<and>
     gm_index '''' m policyNameAnnotation = policyKey pc \<and>
     gm_index '''' m upstreamRefAnnotation = pl_UpstreamPoolRef (pc_Spec pc) \<and>
     (if trimSpace (pl_CacheProfileRef (pc_Spec pc)) = '''' then gm_get m cacheRefAnnotation = None
      else gm_index '''' m cacheRefAnnotation = trimSpace (pl_CacheProfileRef (pc_Spec pc)))"

lemma apply_annotated: "annotatedFor pc (fst (applyPolicyAnnotations pc m))"
  by (simp add: annotatedFor_def applyPolicyAnnotations_def Let_def)

lemma apply_changed: "snd (applyPolicyAnnotations pc m) \<longleftrightarrow> \<not> annotatedFor pc m"
  by (auto simp: annotatedFor_def applyPolicyAnnotations_def Let_def putAnnotation_changed putAnnotation_get)

lemma apply_other:
  "k \<notin> set policyAnnotationKeys \<Longrightarrow> gm_get (fst (applyPolicyAnnotations pc m)) k = gm_get m k"
  by (simp add: applyPolicyAnnotations_def policyAnnotationKeys_def Let_def putAnnotation_get)

lemma drop_get: "gm_get (fst (fold dropAnnotation ks mc)) k = (if k \<in> set ks then None else gm_get (fst mc) k)"
  by (induction ks arbitrary: mc) (auto simp: dropAnnotation_def)

lemma drop_changed: "snd (fold dropAnnotation ks mc) \<longleftrightarrow> snd mc \<or> (\<exists>k \<in> set ks. gm_get (fst mc) k \<noteq> None)"
proof (induction ks arbitrary: mc)
  case (Cons k ks)
  then show ?case by (cases "gm_get (fst mc) k = None") (auto simp: dropAnnotation_def)
qed simp

lemma dropPolicy_get:
  "gm_get (fst (dropPolicyAnnotations m)) k = (if k \<in> set policyAnnotationKeys then None else gm_get m k)"
  by (simp add: dropPolicyAnnotations_def drop_get)

lemma dropPolicy_changed:
  "snd (dropPolicyAnnotations m) \<longleftrightarrow> (\<exists>k \<in> set policyAnnotationKeys. gm_get m k \<noteq> None)"
  by (simp add: dropPolicyAnnotations_def drop_changed)

section \<open>The justification of a call\<close>

definition ownerOf :: "namespace \<Rightarrow> string" where
  "ownerOf ns = gm_index '''' (om_Annotations ns) ownerUIDAnnotation"

definition fetchedPolicy :: "effect list \<Rightarrow> string \<Rightarrow> string \<Rightarrow> policy \<Rightarrow> bool" where
  "fetchedPolicy h namespace name pc \<longleftrightarrow>
     GetPolicy namespace name (Inr pc) \<in> set h \<or>
     (\<exists>pc0 pc1. GetPolicy namespace name (Inr pc0) \<in> set h \<and> PatchPolicy pc0 pc1 (Inr pc) \<in> set h)"

text \<open>Only the policy's four annotations differ.\<close>

definition sameBut :: "namespace \<Rightarrow> namespace \<Rightarrow> bool" where
  "sameBut ns ns' \<longleftrightarrow>
     ns' = ns\<lparr>om_Annotations := om_Annotations ns'\<rparr> \<and>
     (\<forall>k. k \<notin> set policyAnnotationKeys \<longrightarrow> gm_get (om_Annotations ns') k = gm_get (om_Annotations ns) k)"

definition annotates :: "policy \<Rightarrow> namespace \<Rightarrow> namespace \<Rightarrow> bool" where
  "annotates pc ns ns' \<longleftrightarrow> (ownerOf ns = '''' \<or> ownerOf ns = om_UID (pc_Meta pc)) \<and> annotatedFor pc (om_Annotations ns')"

definition releases :: "policy \<Rightarrow> namespace \<Rightarrow> namespace \<Rightarrow> bool" where
  "releases pc ns ns' \<longleftrightarrow> ownerOf ns = om_UID (pc_Meta pc) \<and>
     (\<forall>k \<in> set policyAnnotationKeys. gm_get (om_Annotations ns') k = None)"

text \<open>Every namespace of \<open>items\<close> that \<open>uid\<close> manages has been released, or bears no annotation.\<close>

definition released :: "effect list \<Rightarrow> namespace list \<Rightarrow> string \<Rightarrow> bool" where
  "released h items uid \<longleftrightarrow>
     (\<forall>ns \<in> set items. managedBy uid ns \<longrightarrow>
        (\<exists>ns' q. PatchNamespace ns ns' (Inr q) \<in> set h \<and>
           (\<forall>k \<in> set policyAnnotationKeys. gm_get (om_Annotations ns') k = None)) \<or>
        (\<forall>k \<in> set policyAnnotationKeys. gm_get (om_Annotations ns) k = None))"

fun policyJustified :: "k8s \<Rightarrow> string \<Rightarrow> string \<Rightarrow> effect list \<Rightarrow> effect \<Rightarrow> bool" where
  "policyJustified K namespace name h (PatchNamespace ns ns' r) \<longleftrightarrow>
     sameBut ns ns' \<and> (\<exists>pc. fetchedPolicy h namespace name pc \<and> (annotates pc ns ns' \<or> releases pc ns ns'))"
| "policyJustified K namespace name h (PatchPolicy pc pc' r) \<longleftrightarrow>
     GetPolicy namespace name (Inr pc) \<in> set h \<and>
     (pc' = withFinalizers (\<lambda>fs. addFinalizer K fs externalPolicyFinalizer) pc \<and> \<not> isDeleting pc \<or>
      pc' = withFinalizers (\<lambda>fs. removeFinalizer K fs externalPolicyFinalizer) pc \<and> isDeleting pc \<and>
        (\<exists>items. ListNamespaces (Inr items) \<in> set h \<and> released h items (om_UID (pc_Meta pc))))"
| "policyJustified K namespace name h _ \<longleftrightarrow> True"

lemma mono_fetchedPolicy: "fetchedPolicy h namespace name pc \<Longrightarrow> set h \<subseteq> set h' \<Longrightarrow> fetchedPolicy h' namespace name pc"
  unfolding fetchedPolicy_def by blast

lemma mono_released: "released h items uid \<Longrightarrow> set h \<subseteq> set h' \<Longrightarrow> released h' items uid"
  unfolding released_def by blast

lemma mono_policyJustified: "mono_trace (policyJustified K namespace name)"
  unfolding mono_trace_def
proof (intro allI impI)
  fix h h' :: "effect list" and e
  assume j: "policyJustified K namespace name h e" and sub: "set h \<subseteq> set h'"
  show "policyJustified K namespace name h' e"
    using j sub mono_fetchedPolicy [OF _ sub] mono_released [OF _ sub]
    by (cases "(K, namespace, name, h, e)" rule: policyJustified.cases) (simp_all, blast+)
qed

section \<open>Releasing namespaces\<close>

definition withoutPolicy :: "namespace \<Rightarrow> namespace" where
  "withoutPolicy ns = ns\<lparr>om_Annotations :=
     (let m = fst (dropPolicyAnnotations (om_Annotations ns)) in if length (gm_make m) = 0 then None else m)\<rparr>"

lemma withoutPolicy_get:
  "gm_get (om_Annotations (withoutPolicy ns)) k =
     (if k \<in> set policyAnnotationKeys then None else gm_get (om_Annotations ns) k)"
proof -
  have "gm_get (if length (gm_make m) = 0 then None else m) k = gm_get m k" for m :: "(string, string) gomap"
    by (simp add: gm_get_def)
  then show ?thesis by (simp add: withoutPolicy_def Let_def dropPolicy_get)
qed

lemma sameBut_withoutPolicy: "sameBut ns (withoutPolicy ns)"
  by (simp add: sameBut_def withoutPolicy_get) (simp add: withoutPolicy_def)

lemma remove_eq: "removeNamespacePolicyAnnotations C ns =
   (if om_Annotations ns = None \<or> \<not> snd (dropPolicyAnnotations (om_Annotations ns)) then State_Monad.return None
    else State_Monad.bind (api (PatchNamespace ns (withoutPolicy ns)) (cl_PatchNamespace C ns (withoutPolicy ns)))
      (\<lambda>r. State_Monad.return (case r of
         Inl e \<Rightarrow> Some (Wrap ''remove policy annotations from namespace %q: %w'' [AStr (om_Name ns)] (ApiErr e))
       | Inr _ \<Rightarrow> None)))"
  by (auto simp: removeNamespacePolicyAnnotations_def withoutPolicy_def Let_def split: prod.split)

definition isReleased :: "effect list \<Rightarrow> namespace \<Rightarrow> bool" where
  "isReleased h ns \<longleftrightarrow>
     (\<exists>ns' q. PatchNamespace ns ns' (Inr q) \<in> set h \<and>
        (\<forall>k \<in> set policyAnnotationKeys. gm_get (om_Annotations ns') k = None)) \<or>
     (\<forall>k \<in> set policyAnnotationKeys. gm_get (om_Annotations ns) k = None)"

lemma isReleased_unchanged:
  "om_Annotations ns = None \<or> \<not> snd (dropPolicyAnnotations (om_Annotations ns)) \<Longrightarrow> isReleased h ns"
  by (auto simp: isReleased_def dropPolicy_changed)

lemma mono_isReleased: "isReleased h ns \<Longrightarrow> set h \<subseteq> set h' \<Longrightarrow> isReleased h' ns"
  unfolding isReleased_def by blast

lemma removeFromAll_then:
  assumes "\<And>h' ns r. set h \<subseteq> set h' \<Longrightarrow> ns \<in> set nss \<Longrightarrow> P h' (PatchNamespace ns (withoutPolicy ns) r)"
    and "\<And>h'. set h \<subseteq> set h' \<Longrightarrow> \<forall>ns \<in> set nss. isReleased h' ns \<Longrightarrow> traced h' P (f None)"
    and "\<And>h' e. set h \<subseteq> set h' \<Longrightarrow> traced h' P (f (Some e))"
  shows "traced h P (State_Monad.bind (removeFromAll C nss) f)"
  using assms
proof (induction nss arbitrary: h)
  case Nil
  then show ?case by simp
next
  case (Cons ns nss)
  have rest: "traced h' P (State_Monad.bind (removeFromAll C nss) f)"
    if sub: "set h \<subseteq> set h'" and rel: "isReleased h' ns" for h'
  proof (rule Cons.IH)
    fix h'' assume "set h' \<subseteq> set h''" "\<forall>ns \<in> set nss. isReleased h'' ns"
    then show "traced h'' P (f None)"
      using Cons.prems(2) [of h''] sub mono_isReleased [OF rel] by auto
  qed (use Cons.prems(1,3) sub in auto)
  show ?case
  proof (cases "om_Annotations ns = None \<or> \<not> snd (dropPolicyAnnotations (om_Annotations ns))")
    case True
    then show ?thesis
      using rest [of h] isReleased_unchanged by (simp add: remove_eq)
  next
    case False
    have gone: "isReleased (h @ [PatchNamespace ns (withoutPolicy ns) (Inr q)]) ns" for q
      by (auto simp: isReleased_def withoutPolicy_get)
    have patch: "P h (PatchNamespace ns (withoutPolicy ns) r)" for r
      using Cons.prems(1) [of h ns] by simp
    have good: "traced (h @ [PatchNamespace ns (withoutPolicy ns) (Inr q)]) P (State_Monad.bind (removeFromAll C nss) f)" for q
      by (rule rest [OF _ gone]) auto
    have bad: "traced (h @ [x]) P (f (Some e))" for x e
      by (rule Cons.prems(3)) auto
    have "traced (h @ [PatchNamespace ns (withoutPolicy ns) r]) P
        (case r of Inl e \<Rightarrow> f (Some (Wrap ''remove policy annotations from namespace %q: %w'' [AStr (om_Name ns)] (ApiErr e)))
         | Inr x \<Rightarrow> State_Monad.bind (removeFromAll C nss) f)" for r
      using good bad by (cases r) simp_all
    with patch show ?thesis
      unfolding removeFromAll.simps remove_eq if_not_P [OF False] prog_simps
      by (rule traced_bind_api)
  qed
qed

section \<open>The whole reconcile\<close>

lemma update_eq: "updateNamespacePolicyAnnotations C ns pc =
   (if ownerOf ns \<noteq> '''' \<and> ownerOf ns \<noteq> om_UID (pc_Meta pc) then
      State_Monad.return (Some (Wrap ''%w: namespace %q already managed by policy %q''
        [AStr (om_Name ns), AStr (if gm_index '''' (om_Annotations ns) policyNameAnnotation = '''' then ownerOf ns
          else gm_index '''' (om_Annotations ns) policyNameAnnotation)] errNamespacePolicyConflict))
    else if annotatedFor pc (om_Annotations ns) then State_Monad.return None
    else State_Monad.bind (api (PatchNamespace ns (ns\<lparr>om_Annotations := fst (applyPolicyAnnotations pc (om_Annotations ns))\<rparr>))
        (cl_PatchNamespace C ns (ns\<lparr>om_Annotations := fst (applyPolicyAnnotations pc (om_Annotations ns))\<rparr>)))
      (\<lambda>r. State_Monad.return (case r of
         Inl e \<Rightarrow> Some (Wrap ''patch namespace %q annotations: %w'' [AStr (om_Name ns)] (ApiErr e))
       | Inr _ \<Rightarrow> None)))"
proof -
  obtain m ch where m: "applyPolicyAnnotations pc (om_Annotations ns) = (m, ch)" by force
  then have "ch \<longleftrightarrow> \<not> annotatedFor pc (om_Annotations ns)" using apply_changed [of pc "om_Annotations ns"] by simp
  then show ?thesis
    by (simp add: updateNamespacePolicyAnnotations_def Let_def m ownerOf_def)
qed

lemma sameBut_apply: "sameBut ns (ns\<lparr>om_Annotations := fst (applyPolicyAnnotations pc (om_Annotations ns))\<rparr>)"
  by (simp add: sameBut_def apply_other)

lemma update_justified:
  assumes "fetchedPolicy h namespace name pc"
  shows "traced h (policyJustified K namespace name) (updateNamespacePolicyAnnotations C ns pc)"
proof -
  have "policyJustified K namespace name h
      (PatchNamespace ns (ns\<lparr>om_Annotations := fst (applyPolicyAnnotations pc (om_Annotations ns))\<rparr>) r)"
    if "\<not> (ownerOf ns \<noteq> '''' \<and> ownerOf ns \<noteq> om_UID (pc_Meta pc))" for r
    using that assms sameBut_apply [of ns pc] apply_annotated [of pc "om_Annotations ns"]
    by (auto simp: annotates_def)
  then show ?thesis
    unfolding update_eq by (intro traced_if traced_return traced_bind_api) auto
qed

lemma applyToAll_justified:
  assumes "fetchedPolicy h namespace name pc"
  shows "traced h (policyJustified K namespace name) (applyToAll C pc n names)"
  using assms
proof (induction names arbitrary: h n)
  case (Cons nm names)
  have f: "fetchedPolicy (h @ es) namespace name pc" for es
    using mono_fetchedPolicy [OF Cons.prems] by simp
  show ?case
    unfolding applyToAll.simps
    by (intro traced_bind_api traced_bind [OF mono_policyJustified] traced_intro update_justified Cons.IH f) simp
qed (simp add: traced_return)

lemma release_justified:
  assumes "fetchedPolicy h namespace name pc" "managedBy (om_UID (pc_Meta pc)) ns"
  shows "policyJustified K namespace name h (PatchNamespace ns (withoutPolicy ns) r)"
  using assms sameBut_withoutPolicy [of ns]
  by (auto simp: releases_def withoutPolicy_get managedBy_def ownerOf_def)

lemma enforcePolicy_justified:
  assumes "fetchedPolicy h namespace name pc"
  shows "traced h (policyJustified K namespace name) (enforcePolicy iter C pc)"
proof -
  have f: "fetchedPolicy h' namespace name pc" if "set h \<subseteq> set h'" for h'
    by (rule mono_fetchedPolicy [OF assms that])
  have "traced (h @ [ListNamespaces (Inr items)]) (policyJustified K namespace name)
     (State_Monad.bind (removeFromAll C (filter (\<lambda>ns. om_Name ns \<notin> set (selectedNamespaces pc))
        (filter (managedBy (om_UID (pc_Meta pc))) items)))
      (\<lambda>r. case r of None \<Rightarrow> applyToAll C pc 0 (iter (selectedNamespaces pc)) | Some e \<Rightarrow> State_Monad.return (Inl e)))"
    for items
    by (rule removeFromAll_then)
      (auto simp del: policyJustified.simps intro!: release_justified applyToAll_justified traced_return intro: f)
  then show ?thesis
    unfolding enforcePolicy_def listManagedPolicyNamespaces_def prog_simps
    by (intro traced_bind_api traced_intro) auto
qed

lemma recordPolicyEvent_justified:
  "traced h (policyJustified K namespace name) (recordPolicyEvent recorder pc typ reason msg)"
  by (simp add: recordPolicyEvent_def traced_intro)

lemma validateReferences_justified: "traced h (policyJustified K namespace name) (validateReferences K' C p)"
  unfolding validateReferences_def
  by (intro traced_bind_api traced_intro) simp_all

lemma enforceAndReport_justified:
  assumes "fetchedPolicy h namespace name pc"
  shows "traced h (policyJustified K namespace name) (enforceAndReport iter recorder K' C pc)"
  unfolding enforceAndReport_def setValidatedCondition_def Let_def
  by (intro traced_bind_api traced_bind [OF mono_policyJustified] traced_intro validateReferences_justified
      recordPolicyEvent_justified enforcePolicy_justified assms) simp_all

lemma finalizePolicy_justified:
  assumes "GetPolicy namespace name (Inr pc) \<in> set h" "isDeleting pc"
  shows "traced h (policyJustified K namespace name) (finalizePolicy K C pc)"
proof -
  have f: "fetchedPolicy h' namespace name pc" if "set h \<subseteq> set h'" for h'
    using assms(1) that by (auto simp: fetchedPolicy_def)
  have patch: "policyJustified K namespace name h'
      (PatchPolicy pc (withFinalizers (\<lambda>fs. removeFinalizer K fs externalPolicyFinalizer) pc) r)"
    if "set (h @ [ListNamespaces (Inr items)]) \<subseteq> set h'" "\<forall>ns \<in> set (filter (managedBy (om_UID (pc_Meta pc))) items). isReleased h' ns"
    for h' items r
    using that assms unfolding policyJustified.simps released_def isReleased_def
    by (intro conjI disjI2 exI [of _ items]) auto
  have "traced (h @ [ListNamespaces (Inr items)]) (policyJustified K namespace name)
     (State_Monad.bind (removeFromAll C (filter (managedBy (om_UID (pc_Meta pc))) items))
      (\<lambda>r. case r of
        None \<Rightarrow> State_Monad.bind
          (api (PatchPolicy pc (withFinalizers (\<lambda>fs. removeFinalizer K fs externalPolicyFinalizer) pc))
            (cl_PatchPolicy C pc (withFinalizers (\<lambda>fs. removeFinalizer K fs externalPolicyFinalizer) pc)))
          (\<lambda>x. State_Monad.return (case x of Inl e \<Rightarrow> Some (Wrap ''remove policy finalizer: %w'' [] (ApiErr e)) | Inr _ \<Rightarrow> None))
      | Some e \<Rightarrow> State_Monad.return (Some (Wrap ''clear policy enforcement: %w'' [] e))))" for items
    by (rule removeFromAll_then)
      (auto simp del: policyJustified.simps intro!: release_justified traced_bind_api traced_return patch f)
  then show ?thesis
    unfolding finalizePolicy_def clearPolicyEnforcement_def listManagedPolicyNamespaces_def prog_simps
    by (intro traced_bind_api traced_intro) auto
qed

lemma reconcilePolicy_justified:
  "traced [] (policyJustified K namespace name) (reconcilePolicy iter recorder K C namespace name)"
  unfolding reconcilePolicy_def Let_def
  by (intro traced_bind_api traced_intro finalizePolicy_justified enforceAndReport_justified)
    (auto simp: fetchedPolicy_def)

end
