(* ===== verification/PolicyEnforce.thy ===== *)
theory PolicyEnforce
  imports PolicyTrace Reference
begin

text \<open>
  What enforcement achieves on an API server that answers and whose namespaces nobody else changes
  meanwhile, as a locale (\<open>namespace_server\<close>): \<open>removeFromAll\<close> and \<open>applyToAll\<close> as functions on the
  list of namespaces, and enforcement as the pointwise \<open>enforcedOn\<close>.  The server in memory is an
  instance.
\<close>

section \<open>One namespace\<close>

definition afterRemove :: "namespace \<Rightarrow> namespace" where
  "afterRemove ns =
     (if om_Annotations ns = None \<or> \<not> snd (dropPolicyAnnotations (om_Annotations ns)) then ns else withoutPolicy ns)"

definition afterApply :: "policy \<Rightarrow> namespace \<Rightarrow> namespace" where
  "afterApply pc ns =
     (if annotatedFor pc (om_Annotations ns) then ns
      else ns\<lparr>om_Annotations := fst (applyPolicyAnnotations pc (om_Annotations ns))\<rparr>)"

text \<open>What the whole enforcement does to one namespace.\<close>

definition enforcedOn :: "policy \<Rightarrow> namespace \<Rightarrow> namespace" where
  "enforcedOn pc ns =
     (if om_Name ns \<in> set (selectedNamespaces pc) then afterApply pc ns
      else if ownerOf ns = om_UID (pc_Meta pc) then afterRemove ns
      else ns)"

lemma name_after [simp]: "om_Name (afterRemove ns) = om_Name ns" "om_Name (afterApply pc ns) = om_Name ns"
  "om_Name (enforcedOn pc ns) = om_Name ns"
  by (simp_all add: afterRemove_def withoutPolicy_def afterApply_def enforcedOn_def)

lemma managedBy_owner: "uid \<noteq> '''' \<Longrightarrow> managedBy uid ns \<longleftrightarrow> ownerOf ns = uid"
  by (cases "om_Annotations ns") (auto simp: managedBy_def ownerOf_def gm_index_def)

lemma owner_afterRemove: "ownerOf (afterRemove ns) = ''''"
proof (cases "om_Annotations ns = None \<or> \<not> snd (dropPolicyAnnotations (om_Annotations ns))")
  case True
  have key: "ownerUIDAnnotation \<in> set policyAnnotationKeys" by (simp add: policyAnnotationKeys_def)
  have "gm_get (om_Annotations ns) ownerUIDAnnotation = None"
    using True key unfolding dropPolicy_changed by (metis gm_get_None)
  then show ?thesis using True by (simp add: afterRemove_def ownerOf_def gm_index_def)
next
  case False
  then show ?thesis
    by (auto simp: afterRemove_def ownerOf_def gm_index_def withoutPolicy_get policyAnnotationKeys_def)
qed

lemma annotated_afterApply: "annotatedFor pc (om_Annotations (afterApply pc ns))"
  by (simp add: afterApply_def apply_annotated)

lemma owner_afterApply: "ownerOf (afterApply pc ns) = om_UID (pc_Meta pc)"
  using annotated_afterApply [of pc ns] by (simp add: ownerOf_def annotatedFor_def)

lemma owner_enforced:
  "om_UID (pc_Meta pc) \<noteq> '''' \<Longrightarrow>
    ownerOf (enforcedOn pc ns) = om_UID (pc_Meta pc) \<longleftrightarrow> om_Name ns \<in> set (selectedNamespaces pc)"
  by (auto simp: enforcedOn_def owner_afterApply owner_afterRemove)

lemma sameBut_enforced: "sameBut ns (enforcedOn pc ns)"
  using sameBut_withoutPolicy [of ns] sameBut_apply [of ns pc]
  by (auto simp: enforcedOn_def afterApply_def afterRemove_def) (auto simp: sameBut_def)

lemma enforced_twice: "om_UID (pc_Meta pc) \<noteq> '''' \<Longrightarrow> enforcedOn pc (enforcedOn pc ns) = enforcedOn pc ns"
  using annotated_afterApply [of pc ns]
  by (auto simp: enforcedOn_def owner_afterRemove afterApply_def apply_annotated)

text \<open>Replacing the object of a name, where names are unique.\<close>

lemma replaceBy_map:
  assumes "distinct (map f xs)" "x \<in> set xs" "f y = f x" "y = g x"
  shows "replaceBy f y xs = map (\<lambda>z. if z = x then g z else z) xs"
  using assms by (auto simp: replaceBy_def distinct_map inj_on_def)

lemma lookupBy_Inr: "distinct (map f xs) \<Longrightarrow> x \<in> set xs \<Longrightarrow> lookupBy f (f x) xs = Inr x"
  by (induction xs) (auto simp: lookupBy_def)

lemma lookupBy_Inl: "k \<notin> f ` set xs \<Longrightarrow> lookupBy f k xs = Inl NotFound"
  by (induction xs) (auto simp: lookupBy_def)

text \<open>The namespaces the first phase releases.\<close>

definition deselected :: "policy \<Rightarrow> namespace list \<Rightarrow> namespace list" where
  "deselected pc nss =
     filter (\<lambda>ns. om_Name ns \<notin> set (selectedNamespaces pc)) (filter (managedBy (om_UID (pc_Meta pc))) nss)"

lemma anyOrder_set: "anyOrder iter \<Longrightarrow> set (iter xs) = set xs \<and> length (iter xs) = length xs \<and> (distinct (iter xs) \<longleftrightarrow> distinct xs)"
  unfolding anyOrder_def by (metis mset_eq_setD mset_eq_length mset_eq_imp_distinct_iff)

text \<open>One more name in the loop over the selected namespaces.\<close>

lemma applied_cons:
  assumes "distinct (map om_Name xs)" "ns \<in> set xs" "om_Name ns \<notin> set names"
  shows "map (\<lambda>y. if om_Name y \<in> set names then afterApply pc y else y) (map (\<lambda>y. if y = ns then afterApply pc y else y) xs) =
    map (\<lambda>y. if om_Name y \<in> set (om_Name ns # names) then afterApply pc y else y) xs"
  unfolding map_map
proof (rule map_cong [OF refl])
  fix y assume "y \<in> set xs"
  then have "y = ns" if "om_Name y = om_Name ns"
    using that assms(1,2) by (auto simp: distinct_map inj_on_def)
  then show "((\<lambda>y. if om_Name y \<in> set names then afterApply pc y else y) \<circ>
      (\<lambda>y. if y = ns then afterApply pc y else y)) y =
    (if om_Name y \<in> set (om_Name ns # names) then afterApply pc y else y)"
    using assms(3) by (cases "y = ns") auto
qed

lemma card_cons: "nm \<in> B \<Longrightarrow> nm \<notin> set names \<Longrightarrow> card (set (nm # names) \<inter> B) = Suc (card (set names \<inter> B))"
  by simp

section \<open>The server\<close>

locale namespace_server =
  fixes C :: "'w client" and view :: "'w \<Rightarrow> namespace list"
  assumes list_namespaces: "cl_ListNamespaces C w = (Inr (view w), w)"
    and get_namespace: "cl_GetNamespace C n w = (lookupBy om_Name n (view w), w)"
    and patch_namespace: "\<exists>q w'. cl_PatchNamespace C old new w = (Inr q, w') \<and>
      view w' = replaceBy om_Name new (view w)"
begin

lemma remove_run:
  assumes "distinct (map om_Name (view (world s)))" "ns \<in> set (view (world s))"
  shows "\<exists>s'. run_state (removeNamespacePolicyAnnotations C ns) s = (None, s') \<and>
    view (world s') = map (\<lambda>y. if y = ns then afterRemove y else y) (view (world s))"
proof (cases "om_Annotations ns = None \<or> \<not> snd (dropPolicyAnnotations (om_Annotations ns))")
  case True
  then have "afterRemove ns = ns" by (simp add: afterRemove_def)
  then have "map (\<lambda>y. if y = ns then afterRemove y else y) (view (world s)) = view (world s)"
    by (intro map_idI) auto
  then show ?thesis using True by (simp add: remove_eq)
next
  case False
  then have r: "withoutPolicy ns = afterRemove ns" by (auto simp: afterRemove_def)
  obtain q w' where w': "cl_PatchNamespace C ns (withoutPolicy ns) (world s) = (Inr q, w')"
    "view w' = replaceBy om_Name (withoutPolicy ns) (view (world s))"
    using patch_namespace by blast
  have "replaceBy om_Name (withoutPolicy ns) (view (world s)) =
      map (\<lambda>y. if y = ns then afterRemove y else y) (view (world s))"
    using assms r by (intro replaceBy_map) simp_all
  then show ?thesis using False w' by (auto simp: remove_eq run_simps)
qed

lemma removeFromAll_run:
  assumes "distinct (map om_Name (view (world s)))" "set nss \<subseteq> set (view (world s))" "distinct (map om_Name nss)"
  shows "\<exists>s'. run_state (removeFromAll C nss) s = (None, s') \<and>
    view (world s') = map (\<lambda>y. if y \<in> set nss then afterRemove y else y) (view (world s))"
  using assms
proof (induction nss arbitrary: s)
  case Nil
  then show ?case by simp
next
  case (Cons ns nss)
  have "ns \<in> set (view (world s))" using Cons.prems(2) by simp
  then obtain s1 where s1: "run_state (removeNamespacePolicyAnnotations C ns) s = (None, s1)"
    "view (world s1) = map (\<lambda>y. if y = ns then afterRemove y else y) (view (world s))"
    using remove_run [OF Cons.prems(1)] by blast
  have names: "map om_Name (view (world s1)) = map om_Name (view (world s))"
    by (simp add: s1(2))
  have other: "om_Name y \<noteq> om_Name ns" if "y \<in> set nss" for y
    using that Cons.prems(3) by (auto simp: image_iff)
  have sub: "set nss \<subseteq> set (view (world s1))"
  proof
    fix y assume y: "y \<in> set nss"
    then have "y \<noteq> ns" "y \<in> set (view (world s))" using other Cons.prems(2) by auto
    then show "y \<in> set (view (world s1))" by (force simp: s1(2))
  qed
  obtain s2 where s2: "run_state (removeFromAll C nss) s1 = (None, s2)"
    "view (world s2) = map (\<lambda>y. if y \<in> set nss then afterRemove y else y) (view (world s1))"
    using Cons.IH [of s1] Cons.prems(1,3) names sub by auto
  have "afterRemove ns \<notin> set nss" using other by (metis name_after(1))
  then have "view (world s2) = map (\<lambda>y. if y \<in> set (ns # nss) then afterRemove y else y) (view (world s))"
    unfolding s2(2) s1(2) by auto
  then show ?case using s1(1) s2(1) by simp
qed

lemma update_run:
  assumes "distinct (map om_Name (view (world s)))" "ns \<in> set (view (world s))"
    and "ownerOf ns = '''' \<or> ownerOf ns = om_UID (pc_Meta pc)"
  shows "\<exists>s'. run_state (updateNamespacePolicyAnnotations C ns pc) s = (None, s') \<and>
    view (world s') = map (\<lambda>y. if y = ns then afterApply pc y else y) (view (world s))"
proof (cases "annotatedFor pc (om_Annotations ns)")
  case True
  then have "afterApply pc ns = ns" by (simp add: afterApply_def)
  then have "map (\<lambda>y. if y = ns then afterApply pc y else y) (view (world s)) = view (world s)"
    by (intro map_idI) auto
  then show ?thesis using True assms(3) by (auto simp: update_eq)
next
  case False
  then have r: "ns\<lparr>om_Annotations := fst (applyPolicyAnnotations pc (om_Annotations ns))\<rparr> = afterApply pc ns"
    by (simp add: afterApply_def)
  obtain q w' where w': "cl_PatchNamespace C ns (afterApply pc ns) (world s) = (Inr q, w')"
    "view w' = replaceBy om_Name (afterApply pc ns) (view (world s))"
    using patch_namespace by blast
  have "replaceBy om_Name (afterApply pc ns) (view (world s)) =
      map (\<lambda>y. if y = ns then afterApply pc y else y) (view (world s))"
    using assms(1,2) by (intro replaceBy_map) simp_all
  then show ?thesis using False assms(3) w' by (auto simp: update_eq run_simps r)
qed

section \<open>One round of the loop over the selected namespaces\<close>

lemma apply_missing:
  assumes "nm \<notin> om_Name ` set (view (world s))"
  shows "\<exists>s0. world s0 = world s \<and> run_state (applyToAll C pc n (nm # names)) s = run_state (applyToAll C pc n names) s0"
  by (intro exI [of _ "s\<lparr>effects := effects s @ [GetNamespace nm (Inl NotFound)]\<rparr>"])
    (simp add: run_simps get_namespace lookupBy_Inl [OF assms] isNotFound_def)

lemma apply_conflict:
  assumes "distinct (map om_Name (view (world s)))" "ns \<in> set (view (world s))"
    and "ownerOf ns \<noteq> ''''" "ownerOf ns \<noteq> om_UID (pc_Meta pc)"
  shows "\<exists>e s'. run_state (applyToAll C pc n (om_Name ns # names)) s = (Inl e, s') \<and> errorsIs e errNamespacePolicyConflict"
  using assms(3,4) by (simp add: run_simps get_namespace lookupBy_Inr [OF assms(1,2)] update_eq)

lemma apply_found:
  assumes "distinct (map om_Name (view (world s)))" "ns \<in> set (view (world s))"
    and "ownerOf ns = '''' \<or> ownerOf ns = om_UID (pc_Meta pc)"
  shows "\<exists>s1. run_state (applyToAll C pc n (om_Name ns # names)) s = run_state (applyToAll C pc (int32 (n + 1)) names) s1 \<and>
    view (world s1) = map (\<lambda>y. if y = ns then afterApply pc y else y) (view (world s))"
proof -
  define s0 where "s0 = s\<lparr>effects := effects s @ [GetNamespace (om_Name ns) (Inr ns)]\<rparr>"
  obtain s1 where s1: "run_state (updateNamespacePolicyAnnotations C ns pc) s0 = (None, s1)"
    "view (world s1) = map (\<lambda>y. if y = ns then afterApply pc y else y) (view (world s))"
    using update_run [of s0 ns pc] assms by (auto simp: s0_def)
  then show ?thesis
    by (intro exI [of _ s1]) (simp add: run_simps get_namespace lookupBy_Inr [OF assms(1,2)] s0_def)
qed

lemma applyToAll_run:
  assumes "distinct (map om_Name (view (world s)))" "distinct names"
    and "\<forall>ns \<in> set (view (world s)). om_Name ns \<in> set names \<longrightarrow> ownerOf ns = '''' \<or> ownerOf ns = om_UID (pc_Meta pc)"
    and "0 \<le> n" "n + int (length names) < 2 ^ 31"
  shows "\<exists>s'. run_state (applyToAll C pc n names) s =
      (Inr (n + int (card (set names \<inter> om_Name ` set (view (world s))))), s') \<and>
    view (world s') = map (\<lambda>y. if om_Name y \<in> set names then afterApply pc y else y) (view (world s))"
  using assms
proof (induction names arbitrary: s n)
  case Nil
  then show ?case by (simp add: run_simps)
next
  case (Cons nm names)
  show ?case
  proof (cases "nm \<in> om_Name ` set (view (world s))")
    case False
    obtain s0 where s0: "world s0 = world s"
      "run_state (applyToAll C pc n (nm # names)) s = run_state (applyToAll C pc n names) s0"
      using apply_missing [OF False] by blast
    obtain s' where s': "run_state (applyToAll C pc n names) s0 =
        (Inr (n + int (card (set names \<inter> om_Name ` set (view (world s))))), s')"
      "view (world s') = map (\<lambda>y. if om_Name y \<in> set names then afterApply pc y else y) (view (world s))"
      using Cons.IH [of s0 n] Cons.prems s0(1) by auto
    have "set (nm # names) \<inter> om_Name ` set (view (world s)) = set names \<inter> om_Name ` set (view (world s))"
      "map (\<lambda>y. if om_Name y \<in> set names then afterApply pc y else y) (view (world s)) =
        map (\<lambda>y. if om_Name y \<in> set (nm # names) then afterApply pc y else y) (view (world s))"
      using False by auto
    then show ?thesis using s0(2) s' by simp
  next
    case True
    then obtain ns where ns: "ns \<in> set (view (world s))" "om_Name ns = nm" by auto
    then have owner: "ownerOf ns = '''' \<or> ownerOf ns = om_UID (pc_Meta pc)" using Cons.prems(3) by auto
    have int: "int32 (n + 1) = n + 1" using Cons.prems(4,5) by (intro int32_id) (simp add: is_int32_def)
    obtain s1 where s1: "run_state (applyToAll C pc n (nm # names)) s = run_state (applyToAll C pc (n + 1) names) s1"
      "view (world s1) = map (\<lambda>y. if y = ns then afterApply pc y else y) (view (world s))"
      using apply_found [OF Cons.prems(1) ns(1) owner, of n names, unfolded ns(2) int] by (elim exE conjE) (rule that)
    have names: "map om_Name (view (world s1)) = map om_Name (view (world s))"
      by (simp add: s1(2))
    have v2: "om_Name ` set (view (world s1)) = om_Name ` set (view (world s))"
      using arg_cong [OF names, of set] by simp
    have owners: "\<forall>y \<in> set (view (world s1)). om_Name y \<in> set names \<longrightarrow> ownerOf y = '''' \<or> ownerOf y = om_UID (pc_Meta pc)"
      using Cons.prems(3) by (auto simp: s1(2) owner_afterApply)
    obtain s' where s': "run_state (applyToAll C pc (n + 1) names) s1 =
        (Inr (n + 1 + int (card (set names \<inter> om_Name ` set (view (world s))))), s')"
      "view (world s') = map (\<lambda>y. if om_Name y \<in> set names then afterApply pc y else y) (view (world s1))"
      using Cons.IH [of s1 "n + 1"] Cons.prems(1,2,4,5) owners names v2 by auto
    have "view (world s') = map (\<lambda>y. if om_Name y \<in> set (nm # names) then afterApply pc y else y) (view (world s))"
      using applied_cons [OF Cons.prems(1) ns(1)] Cons.prems(2) ns(2) unfolding s'(2) s1(2) by simp
    then show ?thesis using s1(1) s'(1) card_cons [OF True] Cons.prems(2) by simp
  qed
qed

section \<open>Enforcement\<close>

lemma release_run:
  assumes "distinct (map om_Name (view (world s)))"
  shows "\<exists>s1. run_state (enforcePolicy iter C pc) s = run_state (applyToAll C pc 0 (iter (selectedNamespaces pc))) s1 \<and>
    view (world s1) = map (\<lambda>y. if y \<in> set (deselected pc (view (world s))) then afterRemove y else y) (view (world s))"
proof -
  define s0 where "s0 = s\<lparr>effects := effects s @ [ListNamespaces (Inr (view (world s)))]\<rparr>"
  have "set (deselected pc (view (world s))) \<subseteq> set (view (world s0))" "distinct (map om_Name (deselected pc (view (world s))))"
    using assms by (auto simp: deselected_def s0_def distinct_map_filter)
  then obtain s1 where s1: "run_state (removeFromAll C (deselected pc (view (world s)))) s0 = (None, s1)"
    "view (world s1) = map (\<lambda>y. if y \<in> set (deselected pc (view (world s))) then afterRemove y else y) (view (world s))"
    using removeFromAll_run [of s0] assms by (auto simp: s0_def)
  then show ?thesis
    by (intro exI [of _ s1])
      (simp add: enforcePolicy_def listManagedPolicyNamespaces_def run_simps list_namespaces s0_def deselected_def)
qed

lemma enforcePolicy_run:
  assumes "anyOrder iter" "om_UID (pc_Meta pc) \<noteq> ''''"
    and "distinct (map om_Name (view (world s)))"
    and "\<forall>ns \<in> set (view (world s)). om_Name ns \<in> set (selectedNamespaces pc) \<longrightarrow>
      ownerOf ns = '''' \<or> ownerOf ns = om_UID (pc_Meta pc)"
    and "length (selectedNamespaces pc) < 2 ^ 31"
  shows "\<exists>s'. run_state (enforcePolicy iter C pc) s =
      (Inr (int (card (set (selectedNamespaces pc) \<inter> om_Name ` set (view (world s))))), s') \<and>
    view (world s') = map (enforcedOn pc) (view (world s))"
proof -
  let ?gone = "deselected pc (view (world s))" and ?sel = "selectedNamespaces pc"
  have iter: "set (iter ?sel) = set ?sel" "length (iter ?sel) = length ?sel" "distinct (iter ?sel)"
    using anyOrder_set [OF assms(1), of ?sel] by (simp_all add: selectedNamespaces_def)
  obtain s1 where s1: "run_state (enforcePolicy iter C pc) s = run_state (applyToAll C pc 0 (iter ?sel)) s1"
    "view (world s1) = map (\<lambda>y. if y \<in> set ?gone then afterRemove y else y) (view (world s))"
    using release_run [OF assms(3)] by blast
  have names: "map om_Name (view (world s1)) = map om_Name (view (world s))" by (simp add: s1(2))
  have imgs: "om_Name ` set (view (world s1)) = om_Name ` set (view (world s))"
    using arg_cong [OF names, of set] by simp
  have owners: "\<forall>ns \<in> set (view (world s1)). om_Name ns \<in> set (iter ?sel) \<longrightarrow> ownerOf ns = '''' \<or> ownerOf ns = om_UID (pc_Meta pc)"
    using assms(4) unfolding iter s1(2) by (auto simp: owner_afterRemove)
  obtain s2 where s2: "run_state (applyToAll C pc 0 (iter ?sel)) s1 =
      (Inr (int (card (set ?sel \<inter> om_Name ` set (view (world s))))), s2)"
    "view (world s2) = map (\<lambda>y. if om_Name y \<in> set ?sel then afterApply pc y else y) (view (world s1))"
    using applyToAll_run [of s1 "iter ?sel" pc 0] names imgs assms(3,5) iter owners by auto
  have "view (world s2) = map (enforcedOn pc) (view (world s))"
    unfolding s2(2) s1(2) map_map
    by (rule map_cong [OF refl]) (auto simp: enforcedOn_def deselected_def managedBy_owner [OF assms(2)])
  then show ?thesis using s1(1) s2(1) by auto
qed

lemma applyToAll_conflict:
  assumes "distinct (map om_Name (view (world s)))"
    and "\<exists>ns \<in> set (view (world s)). om_Name ns \<in> set names \<and> ownerOf ns \<notin> {'''', om_UID (pc_Meta pc)}"
  shows "\<exists>e s'. run_state (applyToAll C pc n names) s = (Inl e, s') \<and> errorsIs e errNamespacePolicyConflict"
  using assms
proof (induction names arbitrary: s n)
  case (Cons nm names)
  obtain other where other: "other \<in> set (view (world s))" "om_Name other \<in> set (nm # names)"
    "ownerOf other \<notin> {'''', om_UID (pc_Meta pc)}"
    using Cons.prems(2) by blast
  show ?case
  proof (cases "nm \<in> om_Name ` set (view (world s))")
    case False
    then have "om_Name other \<in> set names" using other by auto
    then show ?thesis using apply_missing [OF False, of pc n names] Cons.IH Cons.prems(1) other by metis
  next
    case True
    then obtain ns where ns: "ns \<in> set (view (world s))" "nm = om_Name ns" by auto
    show ?thesis
    proof (cases "ownerOf ns = '''' \<or> ownerOf ns = om_UID (pc_Meta pc)")
      case False
      then show ?thesis using apply_conflict [OF Cons.prems(1) ns(1)] ns(2) by blast
    next
      case True
      obtain s1 where s1: "run_state (applyToAll C pc n (nm # names)) s = run_state (applyToAll C pc (int32 (n + 1)) names) s1"
        "view (world s1) = map (\<lambda>y. if y = ns then afterApply pc y else y) (view (world s))"
        using apply_found [OF Cons.prems(1) ns(1) True] ns(2) by blast
      have "other \<noteq> ns" using other(3) True by auto
      then have "other \<in> set (view (world s1))" "om_Name other \<in> set names"
        using other Cons.prems(1) ns by (force simp: s1(2), auto simp: distinct_map inj_on_def)
      moreover have "map om_Name (view (world s1)) = map om_Name (view (world s))" by (simp add: s1(2))
      then have "distinct (map om_Name (view (world s1)))" using Cons.prems(1) by simp
      ultimately show ?thesis using Cons.IH [of s1 "int32 (n + 1)"] other(3) s1(1) by auto
    qed
  qed
qed simp

lemma enforcePolicy_conflict:
  assumes "anyOrder iter" "distinct (map om_Name (view (world s)))" "ns \<in> set (view (world s))"
    and "om_Name ns \<in> set (selectedNamespaces pc)" "ownerOf ns \<notin> {'''', om_UID (pc_Meta pc)}"
  shows "\<exists>e s'. run_state (enforcePolicy iter C pc) s = (Inl e, s') \<and> errorsIs e errNamespacePolicyConflict"
proof -
  obtain s1 where s1: "run_state (enforcePolicy iter C pc) s = run_state (applyToAll C pc 0 (iter (selectedNamespaces pc))) s1"
    "view (world s1) = map (\<lambda>y. if y \<in> set (deselected pc (view (world s))) then afterRemove y else y) (view (world s))"
    using release_run [OF assms(2)] by blast
  have "map om_Name (view (world s1)) = map om_Name (view (world s))" by (simp add: s1(2))
  then have "distinct (map om_Name (view (world s1)))" using assms(2) by simp
  moreover have "ns \<notin> set (deselected pc (view (world s)))" using assms(4) by (simp add: deselected_def)
  then have "ns \<in> set (view (world s1))" using assms(3) by (force simp: s1(2))
  moreover have "om_Name ns \<in> set (iter (selectedNamespaces pc))"
    using assms(4) anyOrder_set [OF assms(1)] by simp
  ultimately show ?thesis
    using applyToAll_conflict [of s1 "iter (selectedNamespaces pc)" pc 0] assms(5) unfolding s1(1) by blast
qed

end

interpretation memns: namespace_server memClient mc_Namespaces
  by unfold_locales (simp_all add: memClient_def)

end
