(* ===== verification/PolicyCorrect.thy ===== *)
theory PolicyCorrect
  imports PolicyEnforce Demo
begin

text \<open>
  What enforcement of a policy achieves on an API server that answers, and that it is stable.
\<close>

section \<open>Sample objects\<close>

definition demoPolicy :: policy where
  "demoPolicy = \<lparr>pc_Meta = (plainMeta ''a'' ''pol'')\<lparr>om_UID := ''u1'', om_Finalizers := [externalPolicyFinalizer]\<rparr>,
     pc_Spec = \<lparr>pl_SelectorNamespaces = [''x'', ''y''], pl_UpstreamPoolRef = ''p'', pl_CacheProfileRef = ''''\<rparr>,
     pc_Status = noStatus, pc_AppliedNodes = 0\<rparr>"

definition plainNamespace :: "string \<Rightarrow> namespace" where
  "plainNamespace n = plainMeta '''' n"

definition ownedNamespace :: "string \<Rightarrow> namespace" where
  "ownedNamespace n = (plainMeta '''' n)\<lparr>om_Annotations := Some [(ownerUIDAnnotation, ''u1''), (''team'', ''blue'')]\<rparr>"

definition policyCluster :: cluster where
  "policyCluster = (demoCluster [demoPool])\<lparr>mc_Policies := [demoPolicy],
     mc_Namespaces := [plainNamespace ''x'', ownedNamespace ''z'', plainNamespace ''w'']\<rparr>"

definition policyState :: "cluster sys" where
  "policyState = \<lparr>world = policyCluster, effects = []\<rparr>"

lemma trim_lits [simp]: "trimSpace ''x'' = ''x''" "trimSpace ''y'' = ''y''" "trimSpace ''p'' = ''p''"
  by (simp_all add: trimSpace_alnum lit_simps)

lemma demo_selected: "selectedNamespaces demoPolicy = [''x'', ''y'']"
  by (simp add: selectedNamespaces_def demoPolicy_def)

lemma demo_uid: "om_UID (pc_Meta demoPolicy) = ''u1''"
  by (simp add: demoPolicy_def)

lemma demo_owners: "ownerOf (plainNamespace n) = ''''" "ownerOf (ownedNamespace n) = ''u1''"
  "om_Name (plainNamespace n) = n" "om_Name (ownedNamespace n) = n"
  by (simp_all add: plainNamespace_def ownedNamespace_def ownerOf_def plainMeta_def gm_index_def gm_get_def gm_make_def)

section \<open>Enforcement\<close>

text \<open>C9: on an API server whose namespaces nobody else changes, and where no selected namespace
  belongs to another policy, enforcement succeeds in any iteration order.  It reports the number of
  selected namespaces that exist; afterwards the policy owns exactly these, each annotated as the
  policy asks; annotations of others are kept, and a namespace that is neither selected nor owned is
  left alone.\<close>

theorem enforcement_exact:
  assumes "namespace_server C view" "anyOrder iter" "om_UID (pc_Meta pc) \<noteq> ''''"
    and "distinct (map om_Name (view (world s)))"
    and "\<forall>ns \<in> set (view (world s)). om_Name ns \<in> set (selectedNamespaces pc) \<longrightarrow>
      ownerOf ns = '''' \<or> ownerOf ns = om_UID (pc_Meta pc)"
    and "length (selectedNamespaces pc) < 2 ^ 31"
  shows "\<exists>s'. run_state (enforcePolicy iter C pc) s =
      (Inr (int (card (set (selectedNamespaces pc) \<inter> om_Name ` set (view (world s))))), s') \<and>
    om_Name ` {ns \<in> set (view (world s')). ownerOf ns = om_UID (pc_Meta pc)} =
      set (selectedNamespaces pc) \<inter> om_Name ` set (view (world s)) \<and>
    list_all2 (\<lambda>ns ns'. sameBut ns ns' \<and>
        (om_Name ns \<in> set (selectedNamespaces pc) \<longrightarrow> annotatedFor pc (om_Annotations ns')) \<and>
        (om_Name ns \<notin> set (selectedNamespaces pc) \<and> ownerOf ns \<noteq> om_UID (pc_Meta pc) \<longrightarrow> ns' = ns))
      (view (world s)) (view (world s'))"
proof -
  obtain s' where run: "run_state (enforcePolicy iter C pc) s =
      (Inr (int (card (set (selectedNamespaces pc) \<inter> om_Name ` set (view (world s))))), s')"
    and v: "view (world s') = map (enforcedOn pc) (view (world s))"
    using namespace_server.enforcePolicy_run [OF assms] by blast
  have "om_Name ` {ns \<in> set (view (world s')). ownerOf ns = om_UID (pc_Meta pc)} =
      om_Name ` {ns \<in> set (view (world s)). om_Name ns \<in> set (selectedNamespaces pc)}"
  proof -
    have "{ns \<in> set (view (world s')). ownerOf ns = om_UID (pc_Meta pc)} =
        enforcedOn pc ` {ns \<in> set (view (world s)). om_Name ns \<in> set (selectedNamespaces pc)}"
      by (auto simp: v owner_enforced [OF assms(3)])
    then show ?thesis by (simp add: image_image)
  qed
  then have "om_Name ` {ns \<in> set (view (world s')). ownerOf ns = om_UID (pc_Meta pc)} =
      set (selectedNamespaces pc) \<inter> om_Name ` set (view (world s))"
    by auto
  moreover have "list_all2 (\<lambda>ns ns'. sameBut ns ns' \<and>
        (om_Name ns \<in> set (selectedNamespaces pc) \<longrightarrow> annotatedFor pc (om_Annotations ns')) \<and>
        (om_Name ns \<notin> set (selectedNamespaces pc) \<and> ownerOf ns \<noteq> om_UID (pc_Meta pc) \<longrightarrow> ns' = ns))
      (view (world s)) (view (world s'))"
    by (auto simp: v list_all2_map2 sameBut_enforced intro!: list_all2_refl) (auto simp: enforcedOn_def annotated_afterApply)
  ultimately show ?thesis using run by blast
qed

lemma demo_quiet_hyps:
  "anyOrder rev" "om_UID (pc_Meta demoPolicy) \<noteq> ''''" "distinct (map om_Name (mc_Namespaces (world policyState)))"
  "\<forall>ns \<in> set (mc_Namespaces (world policyState)). om_Name ns \<in> set (selectedNamespaces demoPolicy) \<longrightarrow>
      ownerOf ns = '''' \<or> ownerOf ns = om_UID (pc_Meta demoPolicy)"
  "length (selectedNamespaces demoPolicy) < 2 ^ 31"
  by (simp_all add: anyOrder_def demo_uid demo_selected policyState_def policyCluster_def demo_owners)

theorem enforcement_exact_witness:
  "\<exists>s'. run_state (enforcePolicy rev memClient demoPolicy) policyState = (Inr 1, s') \<and>
    om_Name ` {ns \<in> set (mc_Namespaces (world s')). ownerOf ns = ''u1''} = {''x''}"
  using enforcement_exact [OF memns.namespace_server_axioms demo_quiet_hyps]
  by (auto simp: demo_selected demo_uid policyState_def policyCluster_def demo_owners)

text \<open>Enforcement is stable: enforcing the same policy again, in any iteration order, reports the
  same number and changes no namespace.\<close>

lemma enforcement_stable:
  assumes "namespace_server C view" "anyOrder iter" "anyOrder iter'" "om_UID (pc_Meta pc) \<noteq> ''''"
    and "distinct (map om_Name (view (world s)))"
    and "\<forall>ns \<in> set (view (world s)). om_Name ns \<in> set (selectedNamespaces pc) \<longrightarrow>
      ownerOf ns = '''' \<or> ownerOf ns = om_UID (pc_Meta pc)"
    and "length (selectedNamespaces pc) < 2 ^ 31"
  shows "\<exists>n s1 s2. run_state (enforcePolicy iter C pc) s = (Inr n, s1) \<and>
    run_state (enforcePolicy iter' C pc) s1 = (Inr n, s2) \<and> view (world s2) = view (world s1)"
proof -
  obtain s1 where r1: "run_state (enforcePolicy iter C pc) s =
      (Inr (int (card (set (selectedNamespaces pc) \<inter> om_Name ` set (view (world s))))), s1)"
    and v1: "view (world s1) = map (enforcedOn pc) (view (world s))"
    using namespace_server.enforcePolicy_run [OF assms(1,2,4-7)] by blast
  have names: "map om_Name (view (world s1)) = map om_Name (view (world s))" by (simp add: v1)
  have imgs: "om_Name ` set (view (world s1)) = om_Name ` set (view (world s))"
    using arg_cong [OF names, of set] by simp
  have owners: "\<forall>ns \<in> set (view (world s1)). om_Name ns \<in> set (selectedNamespaces pc) \<longrightarrow>
      ownerOf ns = '''' \<or> ownerOf ns = om_UID (pc_Meta pc)"
    by (auto simp: v1) (simp add: enforcedOn_def owner_afterApply)
  have dist: "distinct (map om_Name (view (world s1)))" using names assms(5) by simp
  obtain s2 where r2: "run_state (enforcePolicy iter' C pc) s1 =
      (Inr (int (card (set (selectedNamespaces pc) \<inter> om_Name ` set (view (world s1))))), s2)"
    and v2: "view (world s2) = map (enforcedOn pc) (view (world s1))"
    using namespace_server.enforcePolicy_run [OF assms(1,3,4) dist owners assms(7)] by blast
  have "view (world s2) = view (world s1)" by (simp add: v2 v1 enforced_twice [OF assms(4)])
  then show ?thesis using r1 r2 imgs by auto
qed

lemma enforcement_stable_ex:
  "\<exists>n s1 s2. run_state (enforcePolicy rev memClient demoPolicy) policyState = (Inr n, s1) \<and>
    run_state (enforcePolicy rev memClient demoPolicy) s1 = (Inr n, s2) \<and>
    mc_Namespaces (world s2) = mc_Namespaces (world s1)"
  by (rule enforcement_stable [OF memns.namespace_server_axioms demo_quiet_hyps(1) demo_quiet_hyps])

end
