(* ===== verification/PolicySteps.thy ===== *)
theory PolicySteps
  imports PolicyCorrect
begin

text \<open>
  The policy reconciler, step by step: which namespaces a reconcile may change, what deletion leaves
  behind, how conflicts and invalid references are reported, and which policies are valid.
\<close>

section \<open>The changes of a reconcile\<close>

text \<open>C18: whatever the API server answers, a reconcile of a policy changes only annotations of
  namespaces, only the four keys of policies among them, and only to annotate a namespace that is free
  or its own as the policy it read asks, or to release a namespace of its own.\<close>

theorem namespace_changes_owned:
  assumes "performed (reconcilePolicy iter recorder K C namespace name) s = es1 @ PatchNamespace ns ns' r # es2"
  shows "sameBut ns ns' \<and>
    (\<exists>pc. fetchedPolicy es1 namespace name pc \<and> (annotates pc ns ns' \<or> releases pc ns ns'))"
  using performed_traced [OF reconcilePolicy_justified assms] by simp

text \<open>C12: the finalizer is added only to a live policy and removed only from a deleted one, and this
  only after every namespace listed as its own has been released.\<close>

theorem finalizer_after_release:
  assumes "performed (reconcilePolicy iter recorder K C namespace name) s = es1 @ PatchPolicy pc pc' r # es2"
  shows "GetPolicy namespace name (Inr pc) \<in> set es1 \<and>
    (if isDeleting pc
     then pc' = withFinalizers (\<lambda>fs. removeFinalizer K fs externalPolicyFinalizer) pc \<and>
       (\<exists>items. ListNamespaces (Inr items) \<in> set es1 \<and> released es1 items (om_UID (pc_Meta pc)))
     else pc' = withFinalizers (\<lambda>fs. addFinalizer K fs externalPolicyFinalizer) pc)"
  using performed_traced [OF reconcilePolicy_justified assms] by auto

definition deletedPolicy :: policy where
  "deletedPolicy = demoPolicy\<lparr>pc_Meta := (pc_Meta demoPolicy)\<lparr>om_DeletionTimestamp := Some 9\<rparr>\<rparr>"

definition deletionState :: "cluster sys" where
  "deletionState = \<lparr>world = policyCluster\<lparr>mc_Policies := [deletedPolicy]\<rparr>, effects = []\<rparr>"

definition releasedZ :: namespace where
  "releasedZ = (plainMeta '''' ''z'')\<lparr>om_Annotations := Some [(''team'', ''blue'')]\<rparr>"

lemma deleted_meta: "om_Namespace (pc_Meta deletedPolicy) = ''a''" "om_Name (pc_Meta deletedPolicy) = ''pol''"
  "om_UID (pc_Meta deletedPolicy) = ''u1''" "isDeleting deletedPolicy"
  "om_Finalizers (pc_Meta deletedPolicy) = [externalPolicyFinalizer]"
  by (simp_all add: deletedPolicy_def demoPolicy_def isDeleting_def plainMeta_def)

lemma ownedZ_without: "withoutPolicy (ownedNamespace ''z'') = releasedZ"
  by (simp add: withoutPolicy_def ownedNamespace_def releasedZ_def plainMeta_def dropPolicyAnnotations_def
      policyAnnotationKeys_def dropAnnotation_def gm_get_def gm_delete_def gm_make_def Let_def)

lemma ownedZ_changed: "om_Annotations (ownedNamespace ''z'') \<noteq> None"
    "snd (dropPolicyAnnotations (om_Annotations (ownedNamespace ''z'')))"
  by (simp_all add: ownedNamespace_def dropPolicy_changed policyAnnotationKeys_def gm_get_def gm_make_def)

lemma deletion_run: "performed (reconcilePolicy rev False refK8s memClient ''a'' ''pol'') deletionState =
   [GetPolicy ''a'' ''pol'' (Inr deletedPolicy),
    ListNamespaces (Inr [plainNamespace ''x'', ownedNamespace ''z'', plainNamespace ''w'']),
    PatchNamespace (ownedNamespace ''z'') releasedZ (Inr releasedZ),
    PatchPolicy deletedPolicy (withFinalizers (\<lambda>fs. []) deletedPolicy) (Inr (withFinalizers (\<lambda>fs. []) deletedPolicy))]"
proof -
  have m: "managedBy ''u1'' (ownedNamespace n)" "\<not> managedBy ''u1'' (plainNamespace n)" for n
    using demo_owners [of n] by (simp_all add: managedBy_owner)
  have c: "containsFinalizer refK8s [externalPolicyFinalizer] externalPolicyFinalizer"
    by (simp add: refK8s_def)
  have r: "withFinalizers (\<lambda>fs. removeFinalizer refK8s fs externalPolicyFinalizer) deletedPolicy = withFinalizers (\<lambda>fs. []) deletedPolicy"
    by (simp add: refK8s_def withFinalizers_def deleted_meta)
  have world: "world deletionState = policyCluster\<lparr>mc_Policies := [deletedPolicy]\<rparr>" "effects deletionState = []"
    by (simp_all add: deletionState_def)
  show ?thesis
    unfolding performed_def reconcilePolicy_def finalizePolicy_def clearPolicyEnforcement_def listManagedPolicyNamespaces_def
    by (simp add: run_simps memClient_def world lookupBy_def metaKey_def deleted_meta c r m remove_eq ownedZ_changed
      ownedZ_without policyCluster_def demoCluster_def Let_def)
qed

theorem namespace_changes_owned_witness: "sameBut (ownedNamespace ''z'') releasedZ"
  using namespace_changes_owned [of rev False refK8s memClient "''a''" "''pol''" deletionState
      "[GetPolicy ''a'' ''pol'' (Inr deletedPolicy),
        ListNamespaces (Inr [plainNamespace ''x'', ownedNamespace ''z'', plainNamespace ''w''])]"
      "ownedNamespace ''z''" releasedZ "Inr releasedZ"]
  by (simp add: deletion_run)

theorem finalizer_after_release_witness:
  "\<exists>items. released [GetPolicy ''a'' ''pol'' (Inr deletedPolicy),
      ListNamespaces (Inr [plainNamespace ''x'', ownedNamespace ''z'', plainNamespace ''w'']),
      PatchNamespace (ownedNamespace ''z'') releasedZ (Inr releasedZ)] items ''u1''"
  using finalizer_after_release [of rev False refK8s memClient "''a''" "''pol''" deletionState
      "[GetPolicy ''a'' ''pol'' (Inr deletedPolicy),
        ListNamespaces (Inr [plainNamespace ''x'', ownedNamespace ''z'', plainNamespace ''w'']),
        PatchNamespace (ownedNamespace ''z'') releasedZ (Inr releasedZ)]"
      deletedPolicy "withFinalizers (\<lambda>fs. []) deletedPolicy" "Inr (withFinalizers (\<lambda>fs. []) deletedPolicy)" "[]"]
  by (auto simp: deletion_run deleted_meta)

section \<open>Deletion\<close>

text \<open>C23: deletion of a policy completes in one reconcile on an API server that answers: no
  namespace names the policy as its owner any more, and the finalizer is given up last.\<close>

theorem deletion_completes:
  assumes "namespace_server C view" "om_UID (pc_Meta pc) \<noteq> ''''" "distinct (map om_Name (view (world s)))"
    and "cl_GetPolicy C namespace name (world s) = (Inr pc, world s)" "isDeleting pc"
    and "containsFinalizer K (om_Finalizers (pc_Meta pc)) externalPolicyFinalizer"
    and "\<forall>pc' w. \<exists>q w'. cl_PatchPolicy C pc pc' w = (Inr q, w') \<and> view w' = view w"
  shows "\<exists>s' q. run_state (reconcilePolicy iter recorder K C namespace name) s = (None, s') \<and>
    (\<forall>ns \<in> set (view (world s')). ownerOf ns \<noteq> om_UID (pc_Meta pc)) \<and>
    last (effects s') = PatchPolicy pc (withFinalizers (\<lambda>fs. removeFinalizer K fs externalPolicyFinalizer) pc) (Inr q)"
proof -
  define mine where "mine = filter (managedBy (om_UID (pc_Meta pc))) (view (world s))"
  define s1 where "s1 = s\<lparr>effects := effects s @ [GetPolicy namespace name (Inr pc), ListNamespaces (Inr (view (world s)))]\<rparr>"
  define pc' where "pc' = withFinalizers (\<lambda>fs. removeFinalizer K fs externalPolicyFinalizer) pc"
  have list: "cl_ListNamespaces C (world s) = (Inr (view (world s)), world s)"
    by (rule namespace_server.list_namespaces [OF assms(1)])
  have "set mine \<subseteq> set (view (world s1))" "distinct (map om_Name mine)" "distinct (map om_Name (view (world s1)))"
    using assms(3) by (auto simp: mine_def s1_def distinct_map_filter)
  then obtain s2 where s2: "run_state (removeFromAll C mine) s1 = (None, s2)"
    "view (world s2) = map (\<lambda>y. if y \<in> set mine then afterRemove y else y) (view (world s1))"
    using namespace_server.removeFromAll_run [OF assms(1)] by blast
  obtain q w' where w': "cl_PatchPolicy C pc pc' (world s2) = (Inr q, w')" "view w' = view (world s2)"
    using assms(7) by blast
  have run: "run_state (reconcilePolicy iter recorder K C namespace name) s =
      (None, s2\<lparr>world := w', effects := effects s2 @ [PatchPolicy pc pc' (Inr q)]\<rparr>)"
    using s2(1) w'(1) assms(4-6)
    by (simp add: reconcilePolicy_def finalizePolicy_def clearPolicyEnforcement_def listManagedPolicyNamespaces_def
        run_simps list Let_def s1_def mine_def pc'_def)
  have "ownerOf ns \<noteq> om_UID (pc_Meta pc)" if "ns \<in> set (view w')" for ns
    using that assms(2) by (auto simp: w'(2) s2(2) s1_def mine_def owner_afterRemove managedBy_owner split: if_splits)
  then show ?thesis using run by (auto simp: pc'_def)
qed

theorem deletion_completes_witness:
  "\<exists>s'. fst (run_state (reconcilePolicy rev False refK8s memClient ''a'' ''pol'') deletionState) = None \<and>
    run_state (reconcilePolicy rev False refK8s memClient ''a'' ''pol'') deletionState = (None, s') \<and>
    (\<forall>ns \<in> set (mc_Namespaces (world s')). ownerOf ns \<noteq> ''u1'')"
proof -
  have "cl_GetPolicy memClient ''a'' ''pol'' (world deletionState) = (Inr deletedPolicy, world deletionState)"
    by (simp add: memClient_def deletionState_def lookupBy_def metaKey_def deleted_meta)
  moreover have "\<forall>pc' w. \<exists>q w'. cl_PatchPolicy memClient deletedPolicy pc' w = (Inr q, w') \<and> mc_Namespaces w' = mc_Namespaces w"
    by (simp add: memClient_def)
  moreover have "distinct (map om_Name (mc_Namespaces (world deletionState)))"
    by (simp add: deletionState_def policyCluster_def demo_owners)
  moreover have "containsFinalizer refK8s (om_Finalizers (pc_Meta deletedPolicy)) externalPolicyFinalizer"
    unfolding deleted_meta by (simp add: refK8s_def)
  ultimately show ?thesis
    using deletion_completes [OF memns.namespace_server_axioms, of deletedPolicy deletionState "''a''" "''pol''" refK8s rev False]
    by (auto simp: deleted_meta)
qed

section \<open>Conflicts\<close>

text \<open>Where a selected namespace belongs to another policy, a valid policy is reported
  \<open>Validated=False\<close> with reason \<open>EnforcementFailed\<close>, a conflict error and no applied namespaces; the
  reconcile ends without an error, so it is not retried until a watched object changes.\<close>

lemma conflict_reported:
  assumes "namespace_server C view" "anyOrder iter" "om_UID (pc_Meta pc) \<noteq> ''''"
    and "run_state (validateReferences K C (Some pc)) s = (None, t)"
    and "distinct (map om_Name (view (world t)))" "ns \<in> set (view (world t))"
    and "om_Name ns \<in> set (selectedNamespaces pc)" "ownerOf ns \<notin> {'''', om_UID (pc_Meta pc)}"
  shows "\<exists>e r s'. run_state (enforceAndReport iter recorder K C pc) s =
      ((case r of Inl f \<Rightarrow> Some (Wrap ''update ExternalDNSPolicy status: %w'' [] (ApiErr f)) | Inr _ \<Rightarrow> None), s') \<and>
    errorsIs e errNamespacePolicyConflict \<and>
    last (effects s') = PatchPolicyStatus pc (withValidatedCondition K pc ConditionFalse ''EnforcementFailed'' (MErr e) 0) r"
proof -
  obtain e s1 where e: "run_state (enforcePolicy iter C pc) t = (Inl e, s1)" "errorsIs e errNamespacePolicyConflict"
    using namespace_server.enforcePolicy_conflict [OF assms(1,2,5-8)] by blast
  obtain r w where w: "cl_PatchPolicyStatus C pc (withValidatedCondition K pc ConditionFalse ''EnforcementFailed'' (MErr e) 0)
      (world s1) = (r, w)" by force
  show ?thesis
    using e w assms(4)
    by (intro exI [of _ e] exI [of _ r])
      (auto simp: enforceAndReport_def setValidatedCondition_def recordPolicyEvent_def run_simps Let_def split: sum.split)
qed

section \<open>Validation\<close>

definition refNameOk :: "k8s \<Rightarrow> string \<Rightarrow> bool" where
  "refNameOk K n \<longleftrightarrow> n \<noteq> '''' \<and> trimSpace n = n \<and> isDNS1123Subdomain K n = []"

definition policySpecOk :: "k8s \<Rightarrow> policySpec \<Rightarrow> bool" where
  "policySpecOk K sp \<longleftrightarrow>
     pl_SelectorNamespaces sp \<noteq> [] \<and> distinct (pl_SelectorNamespaces sp) \<and>
     (\<forall>n \<in> set (pl_SelectorNamespaces sp). n \<noteq> '''' \<and> trimSpace n = n \<and> isDNS1123Label K n = []) \<and>
     refNameOk K (pl_UpstreamPoolRef sp) \<and>
     (pl_CacheProfileRef sp = '''' \<or> refNameOk K (pl_CacheProfileRef sp))"

lemma checkSelector_iff: "checkSelector K i seen nss = None \<longleftrightarrow>
    distinct nss \<and> set nss \<inter> set seen = {} \<and>
    (\<forall>n \<in> set nss. n \<noteq> '''' \<and> trimSpace n = n \<and> isDNS1123Label K n = [])"
  by (induction K i seen nss rule: checkSelector.induct) (auto simp: Let_def)

lemma validatePolicyRefName_iff: "validatePolicyRefName K raw path required = Inr n \<longleftrightarrow>
    n = raw \<and> (refNameOk K raw \<or> raw = '''' \<and> \<not> required)"
  by (auto simp: validatePolicyRefName_def refNameOk_def Let_def)

lemma validatePolicyRefName_cases:
  "(\<exists>e. validatePolicyRefName K raw path required = Inl e) \<longleftrightarrow> \<not> (refNameOk K raw \<or> raw = '''' \<and> \<not> required)"
  by (metis validatePolicyRefName_iff sum.exhaust sum.distinct(1))

lemma validateReferences_ok:
  "fst (run_state (validateReferences K C (Some pc)) s) = None \<longleftrightarrow>
    policySpecOk K (pc_Spec pc) \<and>
    (\<exists>p w. cl_GetPool C (om_Namespace (pc_Meta pc)) (pl_UpstreamPoolRef (pc_Spec pc)) (world s) = (Inr p, w) \<and>
      (pl_CacheProfileRef (pc_Spec pc) = '''' \<or>
       (\<exists>pr v. cl_GetProfile C (om_Namespace (pc_Meta pc)) (pl_CacheProfileRef (pc_Spec pc)) w = (Inr pr, v))))"
proof -
  let ?sp = "pc_Spec pc"
  let ?pool = "validatePolicyRefName K (pl_UpstreamPoolRef ?sp) ''spec.upstreamPoolRef.name'' True"
  let ?cache = "validatePolicyRefName K (pl_CacheProfileRef ?sp) ''spec.cacheProfileRef.name'' False"
  obtain g w where g: "cl_GetPool C (om_Namespace (pc_Meta pc)) (pl_UpstreamPoolRef ?sp) (world s) = (g, w)" by force
  obtain h v where h: "cl_GetProfile C (om_Namespace (pc_Meta pc)) (pl_CacheProfileRef ?sp) w = (h, v)" by force
  show ?thesis
  proof (cases "pl_SelectorNamespaces ?sp \<noteq> [] \<and> checkSelector K 0 [] (pl_SelectorNamespaces ?sp) = None \<and>
      refNameOk K (pl_UpstreamPoolRef ?sp)")
    case False
    have "fst (run_state (validateReferences K C (Some pc)) s) \<noteq> None"
      using False validatePolicyRefName_cases [of K "pl_UpstreamPoolRef ?sp" "''spec.upstreamPoolRef.name''" True]
      by (auto simp: validateReferences_def Let_def split: option.split)
    then show ?thesis using False by (auto simp: policySpecOk_def checkSelector_iff)
  next
    case True
    then have pool: "?pool = Inr (pl_UpstreamPoolRef ?sp)" by (simp add: validatePolicyRefName_iff)
    have spec: "policySpecOk K ?sp \<longleftrightarrow> pl_CacheProfileRef ?sp = '''' \<or> refNameOk K (pl_CacheProfileRef ?sp)"
      using True by (auto simp: policySpecOk_def checkSelector_iff)
    show ?thesis
    proof (cases ?cache)
      case (Inl e)
      then have "\<not> policySpecOk K ?sp"
        using spec validatePolicyRefName_cases [of K "pl_CacheProfileRef ?sp" "''spec.cacheProfileRef.name''" False] by auto
      then show ?thesis
        using True Inl by (simp add: validateReferences_def Let_def pool run_simps g split: sum.split)
    next
      case (Inr n)
      then have n: "n = pl_CacheProfileRef ?sp" "policySpecOk K ?sp" by (simp_all add: validatePolicyRefName_iff spec) auto
      show ?thesis
        using True Inr n by (auto simp: validateReferences_def Let_def pool run_simps g h split: sum.split)
    qed
  qed
qed

text \<open>C24: references are valid exactly for a specification with well-formed, distinct namespace
  names and well-formed references, whose upstream pool and, if named, cache profile the API server
  returns from the namespace of the policy.\<close>

theorem references_valid_iff:
  "fst (run_state (validateReferences K C (Some pc)) s) = None \<longleftrightarrow>
    policySpecOk K (pc_Spec pc) \<and>
    (\<exists>p w. cl_GetPool C (om_Namespace (pc_Meta pc)) (pl_UpstreamPoolRef (pc_Spec pc)) (world s) = (Inr p, w) \<and>
      (pl_CacheProfileRef (pc_Spec pc) = '''' \<or>
       (\<exists>pr v. cl_GetProfile C (om_Namespace (pc_Meta pc)) (pl_CacheProfileRef (pc_Spec pc)) w = (Inr pr, v))))"
  by (rule validateReferences_ok)

definition conflictPolicy :: policy where
  "conflictPolicy = demoPolicy\<lparr>pc_Meta := (pc_Meta demoPolicy)\<lparr>om_UID := ''u2''\<rparr>,
     pc_Spec := (pc_Spec demoPolicy)\<lparr>pl_SelectorNamespaces := [''x'', ''z'']\<rparr>\<rparr>"

lemma conflict_meta: "om_UID (pc_Meta conflictPolicy) = ''u2''" "selectedNamespaces conflictPolicy = [''x'', ''z'']"
  by (simp_all add: conflictPolicy_def selectedNamespaces_def demoPolicy_def trimSpace_alnum lit_simps)

lemma conflict_names: "checkSelector refK8s 0 [] [''x'', ''z''] = None"
    "validatePolicyRefName refK8s ''p'' path True = Inr ''p''" "validatePolicyRefName refK8s '''' path False = Inr ''''"
  by (auto simp: checkSelector_iff validatePolicyRefName_iff refNameOk_def refK8s_def refLabel_def refSubdomain_def
      trimSpace_alnum lit_simps)

lemma conflict_valid: "\<exists>t. run_state (validateReferences refK8s memClient (Some conflictPolicy)) policyState = (None, t) \<and>
    world t = policyCluster"
proof -
  have sp: "pl_SelectorNamespaces (pc_Spec conflictPolicy) = [''x'', ''z'']" "pl_UpstreamPoolRef (pc_Spec conflictPolicy) = ''p''"
    "pl_CacheProfileRef (pc_Spec conflictPolicy) = ''''" "om_Namespace (pc_Meta conflictPolicy) = ''a''"
    by (simp_all add: conflictPolicy_def demoPolicy_def plainMeta_def)
  have get: "cl_GetPool memClient ''a'' ''p'' policyCluster = (Inr demoPool, policyCluster)"
    by (simp add: memClient_def lookupBy_def metaKey_def policyCluster_def demoCluster_def demo_meta plainMeta_def)
  show ?thesis
    by (simp add: validateReferences_def sp conflict_names run_simps get policyState_def Let_def del: checkSelector.simps)
qed

lemma conflict_reported_ex:
  "\<exists>e r s'. run_state (enforceAndReport rev False refK8s memClient conflictPolicy) policyState =
      ((case r of Inl f \<Rightarrow> Some (Wrap ''update ExternalDNSPolicy status: %w'' [] (ApiErr f)) | Inr _ \<Rightarrow> None), s') \<and>
    errorsIs e errNamespacePolicyConflict \<and>
    last (effects s') = PatchPolicyStatus conflictPolicy
      (withValidatedCondition refK8s conflictPolicy ConditionFalse ''EnforcementFailed'' (MErr e) 0) r"
proof -
  obtain t where t: "run_state (validateReferences refK8s memClient (Some conflictPolicy)) policyState = (None, t)"
    "world t = policyCluster"
    using conflict_valid by blast
  have "anyOrder rev" by (rule demo_quiet_hyps(1))
  moreover have "om_UID (pc_Meta conflictPolicy) \<noteq> ''''" by (simp add: conflict_meta)
  moreover have "distinct (map om_Name (mc_Namespaces (world t)))" "ownedNamespace ''z'' \<in> set (mc_Namespaces (world t))"
    by (simp_all add: t(2) policyCluster_def demo_owners)
  moreover have "om_Name (ownedNamespace ''z'') \<in> set (selectedNamespaces conflictPolicy)"
    "ownerOf (ownedNamespace ''z'') \<notin> {'''', om_UID (pc_Meta conflictPolicy)}"
    by (simp_all add: conflict_meta demo_owners)
  ultimately show ?thesis
    using conflict_reported [OF memns.namespace_server_axioms _ _ t(1), of rev "ownedNamespace ''z''" False]
    by (simp only: simp_thms)
qed

text \<open>A policy whose references are invalid is reported and nothing else: the annotations of
  an earlier, valid version of it stay on the namespaces, and the reconcile ends without an error.\<close>

lemma invalid_policy_keeps_enforcement:
  assumes "run_state (validateReferences K C (Some pc)) s = (Some e, t)"
  shows "\<exists>r. performed (enforceAndReport iter False K C pc) s =
      drop (length (effects s)) (effects t) @
        [PatchPolicyStatus pc (withValidatedCondition K pc ConditionFalse ''ValidationFailed'' (MErr e) 0) r] \<and>
    list_all (\<lambda>x. \<not> (\<exists>ns ns' q. x = PatchNamespace ns ns' q)) (performed (enforceAndReport iter False K C pc) s) \<and>
    fst (run_state (enforceAndReport iter False K C pc) s) =
      (case r of Inl f \<Rightarrow> Some (Wrap ''update ExternalDNSPolicy status: %w'' [] (ApiErr f)) | Inr _ \<Rightarrow> None)"
proof -
  obtain r w where w: "cl_PatchPolicyStatus C pc (withValidatedCondition K pc ConditionFalse ''ValidationFailed'' (MErr e) 0)
      (world t) = (r, w)" by force
  have quiet: "emits (\<lambda>x. \<not> (\<exists>ns ns' q. x = PatchNamespace ns ns' q)) (validateReferences K C (Some pc))"
    unfolding validateReferences_def Let_def option.case by (intro emits_intro) auto
  obtain es where es: "effects t = effects s @ es" "list_all (\<lambda>x. \<not> (\<exists>ns ns' q. x = PatchNamespace ns ns' q)) es"
    using spec [OF quiet [unfolded emits_def], of s] unfolding assms snd_conv by blast
  define last where "last = PatchPolicyStatus pc (withValidatedCondition K pc ConditionFalse ''ValidationFailed'' (MErr e) 0) r"
  have run: "run_state (enforceAndReport iter False K C pc) s =
      ((case r of Inl f \<Rightarrow> Some (Wrap ''update ExternalDNSPolicy status: %w'' [] (ApiErr f)) | Inr _ \<Rightarrow> None),
       t\<lparr>world := w, effects := effects t @ [last]\<rparr>)"
    using assms w by (simp add: enforceAndReport_def setValidatedCondition_def recordPolicyEvent_def run_simps Let_def last_def)
  have trace: "performed (enforceAndReport iter False K C pc) s = es @ [last]"
    unfolding performed_def run es(1) snd_conv by (simp add: es(1))
  have es': "drop (length (effects s)) (effects t) = es" by (simp add: es(1))
  show ?thesis
    unfolding trace es' unfolding run last_def [symmetric]
    by (intro exI [of _ r] conjI) (simp_all only: fst_conv list_all_append es(2) list.pred_inject last_def effect.distinct simp_thms)
qed

lemma invalid_policy_keeps_enforcement_ex:
  "list_all (\<lambda>x. \<not> (\<exists>ns ns' q. x = PatchNamespace ns ns' q))
    (performed (enforceAndReport rev False refK8s memClient
      (demoPolicy\<lparr>pc_Spec := (pc_Spec demoPolicy)\<lparr>pl_SelectorNamespaces := []\<rparr>\<rparr>)) policyState)"
proof -
  have "run_state (validateReferences refK8s memClient
      (Some (demoPolicy\<lparr>pc_Spec := (pc_Spec demoPolicy)\<lparr>pl_SelectorNamespaces := []\<rparr>\<rparr>))) policyState =
      (Some (Errorf ''spec.selector.namespaces must contain at least one namespace'' []), policyState)"
    by (simp add: validateReferences_def Let_def)
  from invalid_policy_keeps_enforcement [OF this, of rev] show ?thesis by (elim exE conjE)
qed

end
