(* ===== verification/Startup.thy ===== *)
theory Startup
  imports PoolReconciler CacheProfile Policy Webhook Renderers
begin

text \<open>
  \<open>cmd/main.go\<close>: the command line, the options of the manager, the choice of the renderer, the
  registration of the controllers and of the webhook, and the exit codes; and what the \<open>init\<close>
  functions and \<open>SetupWithManager\<close> methods register.

  \<open>flag.Parse\<close> of the standard library is written out.  The flags other modules add to the command
  line (zap's, and the configuration loader's) are the argument \<open>foreign\<close>: their kind and which
  values they accept.  controller-runtime and the registry of renderers are the fields of
  \<open>startEnv\<close>; a step of start-up that fails answers with an error text.
\<close>

section \<open>The command line\<close>

record flags =
  fl_metricsAddr :: string
  fl_probeAddr :: string
  fl_enableLeaderElection :: bool
  fl_leaderElectionID :: string
  fl_secureMetrics :: bool
  fl_webhookCertPath :: string
  fl_webhookCertName :: string
  fl_webhookCertKey :: string
  fl_metricsCertPath :: string
  fl_metricsCertName :: string
  fl_metricsCertKey :: string
  fl_enableHTTP2 :: bool

abbreviation defaultLeaderElectionID :: string where "defaultLeaderElectionID \<equiv> ''60acac32.astradns.com''"

definition defaultFlags :: flags where
  "defaultFlags =
     \<lparr>fl_metricsAddr = ''0'', fl_probeAddr = '':8081'', fl_enableLeaderElection = False,
      fl_leaderElectionID = defaultLeaderElectionID, fl_secureMetrics = True,
      fl_webhookCertPath = '''', fl_webhookCertName = ''tls.crt'', fl_webhookCertKey = ''tls.key'',
      fl_metricsCertPath = '''', fl_metricsCertName = ''tls.crt'', fl_metricsCertKey = ''tls.key'',
      fl_enableHTTP2 = False\<rparr>"

datatype flagKind = StringFlag | BoolFlag

definition stringFlags :: "(string \<times> (string \<Rightarrow> flags \<Rightarrow> flags)) list" where
  "stringFlags =
     [(''metrics-bind-address'', \<lambda>v. fl_metricsAddr_update (\<lambda>_. v)),
      (''health-probe-bind-address'', \<lambda>v. fl_probeAddr_update (\<lambda>_. v)),
      (''leader-election-id'', \<lambda>v. fl_leaderElectionID_update (\<lambda>_. v)),
      (''webhook-cert-path'', \<lambda>v. fl_webhookCertPath_update (\<lambda>_. v)),
      (''webhook-cert-name'', \<lambda>v. fl_webhookCertName_update (\<lambda>_. v)),
      (''webhook-cert-key'', \<lambda>v. fl_webhookCertKey_update (\<lambda>_. v)),
      (''metrics-cert-path'', \<lambda>v. fl_metricsCertPath_update (\<lambda>_. v)),
      (''metrics-cert-name'', \<lambda>v. fl_metricsCertName_update (\<lambda>_. v)),
      (''metrics-cert-key'', \<lambda>v. fl_metricsCertKey_update (\<lambda>_. v))]"

definition boolFlags :: "(string \<times> (bool \<Rightarrow> flags \<Rightarrow> flags)) list" where
  "boolFlags =
     [(''leader-elect'', \<lambda>b. fl_enableLeaderElection_update (\<lambda>_. b)),
      (''metrics-secure'', \<lambda>b. fl_secureMetrics_update (\<lambda>_. b)),
      (''enable-http2'', \<lambda>b. fl_enableHTTP2_update (\<lambda>_. b))]"

type_synonym foreignFlags = "string \<Rightarrow> (flagKind \<times> (string \<Rightarrow> bool)) option"

definition flagKindOf :: "foreignFlags \<Rightarrow> string \<Rightarrow> flagKind option" where
  "flagKindOf foreign name =
     (if map_of stringFlags name \<noteq> None then Some StringFlag
      else if map_of boolFlags name \<noteq> None then Some BoolFlag
      else map_option fst (foreign name))"

text \<open>\<open>flag.Value.Set\<close>; \<open>None\<close> is a value that does not parse.\<close>

definition setFlag :: "foreignFlags \<Rightarrow> string \<Rightarrow> string \<Rightarrow> flags \<Rightarrow> flags option" where
  "setFlag foreign name value fl =
     (case map_of stringFlags name of
        Some assign \<Rightarrow> Some (assign value fl)
      | None \<Rightarrow>
      case map_of boolFlags name of
        Some assign \<Rightarrow> map_option (\<lambda>b. assign b fl) (parseBool value)
      | None \<Rightarrow>
      case foreign name of
        Some (_, accepts) \<Rightarrow> if accepts value then Some fl else None
      | None \<Rightarrow> None)"

datatype flagError = ErrHelp | BadSyntax string | NotDefined string | InvalidValue string string | NeedsArgument string

text \<open>\<open>FlagSet.Parse\<close>: arguments up to the first that is no flag; \<open>name=value\<close> is split at the first
  equals sign; a string flag takes the next argument if it has no value of its own.\<close>

fun parseFlags :: "foreignFlags \<Rightarrow> flags \<Rightarrow> string list \<Rightarrow> flagError + flags" where
  "parseFlags foreign fl [] = Inr fl"
| "parseFlags foreign fl (s # args) =
     (if length s < 2 \<or> hd s \<noteq> CHR ''-'' then Inr fl
      else if s = ''--'' then Inr fl
      else
        let body = drop (if s ! 1 = CHR ''-'' then 2 else 1) s in
        if body = [] \<or> hd body = CHR ''-'' \<or> hd body = CHR ''='' then Inl (BadSyntax s)
        else
          let name = takeWhile (\<lambda>c. c \<noteq> CHR ''='') body;
              rest = dropWhile (\<lambda>c. c \<noteq> CHR ''='') body
          in case flagKindOf foreign name of
               None \<Rightarrow> if name = ''help'' \<or> name = ''h'' then Inl ErrHelp else Inl (NotDefined name)
             | Some BoolFlag \<Rightarrow>
                 let value = (if rest \<noteq> [] then tl rest else ''true'') in
                 (case setFlag foreign name value fl of
                    None \<Rightarrow> Inl (InvalidValue value name)
                  | Some fl' \<Rightarrow> parseFlags foreign fl' args)
             | Some StringFlag \<Rightarrow>
                 if rest \<noteq> [] then
                   (case setFlag foreign name (tl rest) fl of
                      None \<Rightarrow> Inl (InvalidValue (tl rest) name)
                    | Some fl' \<Rightarrow> parseFlags foreign fl' args)
                 else (case args of
                     [] \<Rightarrow> Inl (NeedsArgument name)
                   | a # args' \<Rightarrow>
                       (case setFlag foreign name a fl of
                          None \<Rightarrow> Inl (InvalidValue a name)
                        | Some fl' \<Rightarrow> parseFlags foreign fl' args')))"

section \<open>The options of the manager\<close>

record tlsConfig =
  tls_NextProtos :: "string list"

definition disableHTTP2 :: "tlsConfig \<Rightarrow> tlsConfig" where
  "disableHTTP2 c = c\<lparr>tls_NextProtos := [''http/1.1'']\<rparr>"

definition tlsOptsOf :: "flags \<Rightarrow> (tlsConfig \<Rightarrow> tlsConfig) list" where
  "tlsOptsOf fl = (if \<not> fl_enableHTTP2 fl then [disableHTTP2] else [])"

record serverOptions =
  so_TLSOpts :: "(tlsConfig \<Rightarrow> tlsConfig) list"
  so_CertDir :: string
  so_CertName :: string
  so_KeyName :: string

record metricsOptions = serverOptions +
  me_BindAddress :: string
  me_SecureServing :: bool
  me_Authorized :: bool

definition webhookServerOptions :: "flags \<Rightarrow> serverOptions" where
  "webhookServerOptions fl =
     (let o0 = \<lparr>so_TLSOpts = tlsOptsOf fl, so_CertDir = '''', so_CertName = '''', so_KeyName = ''''\<rparr> in
      if length (fl_webhookCertPath fl) > 0 then
        o0\<lparr>so_CertDir := fl_webhookCertPath fl, so_CertName := fl_webhookCertName fl, so_KeyName := fl_webhookCertKey fl\<rparr>
      else o0)"

text \<open>\<open>me_Authorized\<close> says that \<open>FilterProvider\<close> is \<open>filters.WithAuthenticationAndAuthorization\<close>.\<close>

definition metricsServerOptions :: "flags \<Rightarrow> metricsOptions" where
  "metricsServerOptions fl =
     (let o0 = \<lparr>so_TLSOpts = tlsOptsOf fl, so_CertDir = '''', so_CertName = '''', so_KeyName = '''',
            me_BindAddress = fl_metricsAddr fl, me_SecureServing = fl_secureMetrics fl, me_Authorized = False\<rparr>;
          o1 = (if fl_secureMetrics fl then o0\<lparr>me_Authorized := True\<rparr> else o0)
      in if length (fl_metricsCertPath fl) > 0 then
           o1\<lparr>so_CertDir := fl_metricsCertPath fl, so_CertName := fl_metricsCertName fl, so_KeyName := fl_metricsCertKey fl\<rparr>
         else o1)"

record managerOptions =
  mo_Metrics :: metricsOptions
  mo_WebhookServer :: serverOptions
  mo_HealthProbeBindAddress :: string
  mo_LeaderElection :: bool
  mo_LeaderElectionID :: string

definition managerOptionsOf :: "flags \<Rightarrow> managerOptions" where
  "managerOptionsOf fl =
     \<lparr>mo_Metrics = metricsServerOptions fl, mo_WebhookServer = webhookServerOptions fl,
      mo_HealthProbeBindAddress = fl_probeAddr fl, mo_LeaderElection = fl_enableLeaderElection fl,
      mo_LeaderElectionID = fl_leaderElectionID fl\<rparr>"

section \<open>What is registered\<close>

record renderer =
  re_Render :: "engineConfig option \<Rightarrow> goError + string"
  re_EngineType :: string
  re_ConfigFileName :: string

text \<open>The \<open>init\<close> functions of the three packages \<open>cmd/main.go\<close> imports.\<close>

definition unbound_init :: "templates \<Rightarrow> int \<Rightarrow> string \<times> renderer" where
  "unbound_init T cpus = (''unbound'', \<lparr>re_Render = unbound_Render T cpus, re_EngineType = unbound_EngineType,
     re_ConfigFileName = unbound_ConfigFileName\<rparr>)"

definition coredns_init :: "templates \<Rightarrow> int \<Rightarrow> string \<times> renderer" where
  "coredns_init T cpus = (''coredns'', \<lparr>re_Render = coredns_Render T cpus, re_EngineType = coredns_EngineType,
     re_ConfigFileName = coredns_ConfigFileName\<rparr>)"

definition powerdns_init :: "templates \<Rightarrow> int \<Rightarrow> string \<times> renderer" where
  "powerdns_init T cpus = (''powerdns'', \<lparr>re_Render = powerdns_Render T cpus, re_EngineType = powerdns_EngineType,
     re_ConfigFileName = powerdns_ConfigFileName\<rparr>)"

definition registeredRenderers :: "templates \<Rightarrow> int \<Rightarrow> (string \<times> renderer) list" where
  "registeredRenderers T cpus = [coredns_init T cpus, powerdns_init T cpus, unbound_init T cpus]"

datatype objectKind = PoolKind | ProfileKind | PolicyKind | NamespaceKind

text \<open>\<open>For(...)\<close> and \<open>Watches(...)\<close> of a controller.\<close>

record 's controllerSetup =
  cs_For :: objectKind
  cs_Watches :: "(objectKind \<times> (objectMeta \<Rightarrow> ('s, (string \<times> string) list) state)) list"

definition poolSetup :: "'w client \<Rightarrow> 'w poolSys controllerSetup" where
  "poolSetup C = \<lparr>cs_For = PoolKind, cs_Watches = [(ProfileKind, mapCacheProfileToPools C)]\<rparr>"

definition profileSetup :: "'w sys controllerSetup" where
  "profileSetup = \<lparr>cs_For = ProfileKind, cs_Watches = []\<rparr>"

definition policySetup :: "'w client \<Rightarrow> 'w sys controllerSetup" where
  "policySetup C = \<lparr>cs_For = PolicyKind, cs_Watches =
     [(PoolKind, mapUpstreamPoolToPolicies C), (ProfileKind, mapCacheProfileToPolicies C),
      (NamespaceKind, mapNamespaceToPolicies C)]\<rparr>"

abbreviation poolUniquenessWebhookPath :: string where
  "poolUniquenessWebhookPath \<equiv> ''/validate-dns-astradns-com-v1alpha1-dnsupstreampool''"

text \<open>The webhook takes the manager's client if it has none.\<close>

definition webhookSetup :: "'w client option \<Rightarrow> 'w client \<Rightarrow> string \<times> 'w client option" where
  "webhookSetup client mgrClient =
     (poolUniquenessWebhookPath,
      case client of None \<Rightarrow> Some mgrClient | Some c \<Rightarrow> Some c)"

section \<open>\<open>main\<close>\<close>

datatype startStep =
    NewManager managerOptions
  | SetupPools poolReconciler
  | SetupProfiles
  | SetupPolicies
  | SetupWebhook
  | AddCheck string
  | StartManager
  | Exit int

record startEnv =
  se_Args :: "string list"
  se_Foreign :: foreignFlags
  se_EngineEnv :: string
  se_WebhookEnv :: string
  se_PodNamespaceEnv :: string
  se_ConfigMapNameEnv :: string
  se_GetConfig :: bool
  se_NewManager :: "managerOptions \<Rightarrow> string option"
  se_NewRenderer :: "string \<Rightarrow> string + renderer"
  se_Setup :: "startStep \<Rightarrow> string option"
  se_Marshal :: "engineConfig \<Rightarrow> string + string"
  se_CPUs :: int

text \<open>A step that may fail: on an error, log it and \<open>os.Exit(1)\<close>.\<close>

definition orExit :: "startEnv \<Rightarrow> startStep \<Rightarrow> startStep list \<Rightarrow> startStep list" where
  "orExit E step rest = step # (if se_Setup E step \<noteq> None then [Exit 1] else rest)"

text \<open>The reconciler of pools that \<open>main\<close> builds.\<close>

definition poolReconcilerOf :: "startEnv \<Rightarrow> renderer \<Rightarrow> poolReconciler" where
  "poolReconcilerOf E r =
     \<lparr>rc_ConfigGen = Some (Generate (se_CPUs E)), rc_ConfigRenderer = Some (re_Render r), rc_Recorder = True,
      rc_PodNamespace = se_PodNamespaceEnv E, rc_ConfigMapName = se_ConfigMapNameEnv E, rc_MarshalIndent = se_Marshal E\<rparr>"

definition setupControllers :: "startEnv \<Rightarrow> renderer \<Rightarrow> startStep list" where
  "setupControllers E r =
     orExit E (SetupPools (poolReconcilerOf E r))
     (orExit E SetupProfiles
     (orExit E SetupPolicies
     ((\<lambda>rest. if isPoolUniquenessWebhookEnabled (se_WebhookEnv E) then orExit E SetupWebhook rest else rest)
     (orExit E (AddCheck ''healthz'')
     (orExit E (AddCheck ''readyz'')
     (orExit E StartManager [Exit 0]))))))"

definition operatorMain :: "startEnv \<Rightarrow> startStep list" where
  "operatorMain E =
     (case parseFlags (se_Foreign E) defaultFlags (se_Args E) of
        Inl ErrHelp \<Rightarrow> [Exit 0]
      | Inl _ \<Rightarrow> [Exit 2]
      | Inr fl \<Rightarrow>
      if \<not> se_GetConfig E then [Exit 1]
      else
        let opts = managerOptionsOf fl in
        NewManager opts #
          (if se_NewManager E opts \<noteq> None then [Exit 1]
           else case se_NewRenderer E (engineTypeOf (se_EngineEnv E)) of
             Inl e \<Rightarrow> [Exit 1]
           | Inr r \<Rightarrow> setupControllers E r))"

text \<open>\<open>NewRenderer\<close> documents: the renderer that was registered for the engine, or an error.\<close>

definition registry_documented :: "startEnv \<Rightarrow> templates \<Rightarrow> bool" where
  "registry_documented E T \<longleftrightarrow>
     (\<forall>e. case map_of (registeredRenderers T (se_CPUs E)) e of
        Some r \<Rightarrow> se_NewRenderer E e = Inr r
      | None \<Rightarrow> \<exists>err. se_NewRenderer E e = Inl err)"

end
