(* ===== verification/StartupCorrect.thy ===== *)
theory StartupCorrect
  imports Startup Demo
begin

text \<open>
  Start-up: the manager runs only with a known engine and with everything registered, it is secure
  unless told otherwise, and the command line is read as it is written.
\<close>

section \<open>Registration\<close>

lemma registered_engine:
  "map_of (registeredRenderers T cpus) e = Some r \<Longrightarrow> re_EngineType r = e \<and> e \<in> {''unbound'', ''coredns'', ''powerdns''}"
  by (auto simp: registeredRenderers_def unbound_init_def coredns_init_def powerdns_init_def unbound_EngineType_def
      coredns_EngineType_def powerdns_EngineType_def split: if_splits)

lemma starts_orExit:
  "StartManager \<in> set (orExit E step rest) \<longleftrightarrow> step = StartManager \<or> se_Setup E step = None \<and> StartManager \<in> set rest"
  by (auto simp: orExit_def)

lemma orExit_ok: "se_Setup E step = None \<Longrightarrow> orExit E step rest = step # rest"
  by (simp add: orExit_def)

text \<open>C15: the manager is started only with an engine whose renderer is registered (\<open>unbound\<close>, \<open>coredns\<close> or
  \<open>powerdns\<close>), and only after the three controllers, both health checks and, exactly when the environment
  asks for it, the webhook have been registered, in this order and each of them successfully: the kube
  configuration was found, the manager was made, and no registration returned an error.  The reconciler
  of pools it registers has the generator and the renderer of that engine, so a running operator never
  misses them.\<close>

theorem manager_needs_setup:
  assumes "registry_documented E T" "StartManager \<in> set (operatorMain E)"
  shows "\<exists>opts r registrations.
    registrations = [SetupPools (poolReconcilerOf E r), SetupProfiles, SetupPolicies] @
      (if isPoolUniquenessWebhookEnabled (se_WebhookEnv E) then [SetupWebhook] else []) @ [AddCheck ''healthz'', AddCheck ''readyz''] \<and>
    operatorMain E = NewManager opts # registrations @ [StartManager, Exit (if se_Setup E StartManager = None then 0 else 1)] \<and>
    se_GetConfig E \<and> se_NewManager E opts = None \<and> (\<forall>step \<in> set registrations. se_Setup E step = None) \<and>
    re_EngineType r = engineTypeOf (se_EngineEnv E) \<and>
    engineTypeOf (se_EngineEnv E) \<in> {''unbound'', ''coredns'', ''powerdns''} \<and>
    map_of (registeredRenderers T (se_CPUs E)) (engineTypeOf (se_EngineEnv E)) = Some r"
proof -
  obtain fl where fl: "parseFlags (se_Foreign E) defaultFlags (se_Args E) = Inr fl" "se_GetConfig E"
    using assms(2) by (auto simp: operatorMain_def split: sum.splits flagError.splits if_splits)
  obtain r where r: "se_NewManager E (managerOptionsOf fl) = None"
    "se_NewRenderer E (engineTypeOf (se_EngineEnv E)) = Inr r" "StartManager \<in> set (setupControllers E r)"
    using assms(2) fl by (auto simp: operatorMain_def Let_def split: sum.splits if_splits)
  have reg: "map_of (registeredRenderers T (se_CPUs E)) (engineTypeOf (se_EngineEnv E)) = Some r"
    using assms(1) r(2) unfolding registry_documented_def
    by (auto dest!: spec [of _ "engineTypeOf (se_EngineEnv E)"] split: option.splits)
  let ?regs = "[SetupPools (poolReconcilerOf E r), SetupProfiles, SetupPolicies] @
      (if isPoolUniquenessWebhookEnabled (se_WebhookEnv E) then [SetupWebhook] else []) @ [AddCheck ''healthz'', AddCheck ''readyz'']"
  have ok: "\<forall>step \<in> set ?regs. se_Setup E step = None"
    using r(3) by (auto simp: setupControllers_def starts_orExit split: if_splits)
  then have "setupControllers E r = ?regs @ [StartManager, Exit (if se_Setup E StartManager = None then 0 else 1)]"
    by (simp add: setupControllers_def orExit_ok) (simp add: orExit_def)
  then show ?thesis
    using fl r(1,2) reg ok registered_engine [OF reg]
    by (intro exI [of _ "managerOptionsOf fl"] exI [of _ r] exI [of _ ?regs]) (simp add: operatorMain_def Let_def)
qed

definition demoEnv :: "string list \<Rightarrow> startEnv" where
  "demoEnv args =
     \<lparr>se_Args = args, se_Foreign = (\<lambda>_. None), se_EngineEnv = '''', se_WebhookEnv = ''true'', se_PodNamespaceEnv = '''',
      se_ConfigMapNameEnv = '''', se_GetConfig = True, se_NewManager = (\<lambda>_. None),
      se_NewRenderer = (\<lambda>e. case map_of (registeredRenderers plainTemplates 4) e of Some r \<Rightarrow> Inr r | None \<Rightarrow> Inl ''unknown engine''),
      se_Setup = (\<lambda>_. None), se_Marshal = (\<lambda>c. Inr ''''), se_CPUs = 4\<rparr>"

lemma demoEnv_registry: "registry_documented (demoEnv args) plainTemplates"
  by (simp add: registry_documented_def demoEnv_def split: option.split)

lemma demoEnv_main: "operatorMain (demoEnv []) = NewManager (managerOptionsOf defaultFlags) #
    setupControllers (demoEnv []) (snd (unbound_init plainTemplates 4))"
  by (simp add: operatorMain_def demoEnv_def engineTypeOf_def registeredRenderers_def coredns_init_def powerdns_init_def
      unbound_init_def)

theorem manager_needs_setup_witness:
  "\<exists>opts r. re_EngineType r = ''unbound'' \<and> operatorMain (demoEnv []) =
    [NewManager opts, SetupPools (poolReconcilerOf (demoEnv []) r), SetupProfiles, SetupPolicies, SetupWebhook,
     AddCheck ''healthz'', AddCheck ''readyz'', StartManager, Exit 0]"
proof -
  have start: "StartManager \<in> set (operatorMain (demoEnv []))"
    unfolding demoEnv_main setupControllers_def orExit_def by (simp add: demoEnv_def)
  have "isPoolUniquenessWebhookEnabled ''true''"
    by (simp add: isPoolUniquenessWebhookEnabled_def trimSpace_alnum lit_simps parseBool_def)
  then show ?thesis
    using manager_needs_setup [OF demoEnv_registry start] by (auto simp: demoEnv_def engineTypeOf_def)
qed

section \<open>Exit codes\<close>









section \<open>Secure by default\<close>

definition mentions :: "string \<Rightarrow> string list \<Rightarrow> bool" where
  "mentions name args \<longleftrightarrow> (\<exists>a \<in> set args. takeWhile (\<lambda>c. c \<noteq> CHR ''='') a \<in> {''-'' @ name, ''--'' @ name})"

lemma setFlag_http2: "setFlag foreign n v fl = Some fl' \<Longrightarrow> n \<noteq> ''enable-http2'' \<Longrightarrow> fl_enableHTTP2 fl' = fl_enableHTTP2 fl"
  by (auto simp: setFlag_def stringFlags_def boolFlags_def split: if_splits option.splits)

lemma setFlag_secure: "setFlag foreign n v fl = Some fl' \<Longrightarrow> n \<noteq> ''metrics-secure'' \<Longrightarrow> fl_secureMetrics fl' = fl_secureMetrics fl"
  by (auto simp: setFlag_def stringFlags_def boolFlags_def split: if_splits option.splits)

text \<open>What every assignment but those of \<open>name\<close> keeps is kept by a command line that does not
  mention it.\<close>

lemma flag_name:
  assumes "\<not> (length s < 2 \<or> hd s \<noteq> CHR ''-'')" "body = drop (if s ! 1 = CHR ''-'' then 2 else 1) s"
  shows "takeWhile (\<lambda>c. c \<noteq> CHR ''='') s \<in>
    {''-'' @ takeWhile (\<lambda>c. c \<noteq> CHR ''='') body, ''--'' @ takeWhile (\<lambda>c. c \<noteq> CHR ''='') body}"
proof -
  obtain d cs where "s = CHR ''-'' # d # cs" using assms(1) by (cases s; cases "tl s") auto
  then show ?thesis using assms(2) by auto
qed

text \<open>One round of the parser: it stops, or sets the flag its argument names.\<close>

lemma parseFlags_round:
  assumes "parseFlags foreign fl (s # args) = Inr fl'"
  shows "fl' = fl \<or> (\<exists>n v fl1 args1. setFlag foreign n v fl = Some fl1 \<and> parseFlags foreign fl1 args1 = Inr fl' \<and>
    set args1 \<subseteq> set args \<and> length args1 \<le> length args \<and>
    takeWhile (\<lambda>c. c \<noteq> CHR ''='') s \<in> {''-'' @ n, ''--'' @ n})"
proof (cases "(length s < 2 \<or> hd s \<noteq> CHR ''-'') \<or> s = ''--''")
  case True
  then show ?thesis using assms by auto
next
  case False
  define body where "body = drop (if s ! 1 = CHR ''-'' then 2 else 1) s"
  define nm where "nm = takeWhile (\<lambda>c. c \<noteq> CHR ''='') body"
  define rest where "rest = dropWhile (\<lambda>c. c \<noteq> CHR ''='') body"
  note raw = assms [unfolded parseFlags.simps, folded body_def, unfolded Let_def, folded nm_def rest_def]
  have "\<exists>v fl1 args1. setFlag foreign nm v fl = Some fl1 \<and> parseFlags foreign fl1 args1 = Inr fl' \<and>
      set args1 \<subseteq> set args \<and> length args1 \<le> length args"
  proof (cases "flagKindOf foreign nm")
    case None
    then show ?thesis using raw False by (auto split: if_splits)
  next
    case (Some k)
    have "\<exists>v fl1. setFlag foreign nm v fl = Some fl1 \<and>
        (parseFlags foreign fl1 args = Inr fl' \<or> (\<exists>a args1. args = a # args1 \<and> parseFlags foreign fl1 args1 = Inr fl'))"
      using raw False Some by (cases k) (auto split: if_splits option.splits list.splits)
    then obtain v fl1 where v: "setFlag foreign nm v fl = Some fl1"
      "parseFlags foreign fl1 args = Inr fl' \<or> (\<exists>a args1. args = a # args1 \<and> parseFlags foreign fl1 args1 = Inr fl')"
      by blast
    from v(2) show ?thesis
    proof
      assume "parseFlags foreign fl1 args = Inr fl'"
      then show ?thesis using v(1) by blast
    next
      assume "\<exists>a args1. args = a # args1 \<and> parseFlags foreign fl1 args1 = Inr fl'"
      then obtain a args1 where "args = a # args1" "parseFlags foreign fl1 args1 = Inr fl'" by blast
      then show ?thesis using v(1) by (intro exI [of _ v] exI [of _ fl1] exI [of _ args1]) auto
    qed
  qed
  then show ?thesis using flag_name [OF _ body_def] False unfolding nm_def by blast
qed

lemma parseFlags_keeps:
  assumes keep: "\<And>n v fl fl'. setFlag foreign n v fl = Some fl' \<Longrightarrow> n \<noteq> name \<Longrightarrow> g fl' = g fl"
    and "parseFlags foreign fl args = Inr fl'" "\<not> mentions name args"
  shows "g fl' = g fl"
  using assms(2,3)
proof (induction args arbitrary: fl rule: length_induct)
  case (1 args)
  show ?case
  proof (cases args)
    case Nil
    then show ?thesis using "1.prems" by simp
  next
    case (Cons s rest)
    from parseFlags_round [OF "1.prems"(1) [unfolded Cons]] show ?thesis
    proof (elim disjE exE conjE)
      fix n v fl1 args1
      assume set: "setFlag foreign n v fl = Some fl1" and more: "parseFlags foreign fl1 args1 = Inr fl'"
        and sub: "set args1 \<subseteq> set rest" "length args1 \<le> length rest"
        and nm: "takeWhile (\<lambda>c. c \<noteq> CHR ''='') s \<in> {''-'' @ n, ''--'' @ n}"
      have "n \<noteq> name" using nm "1.prems"(2) unfolding Cons mentions_def by auto
      moreover have "\<not> mentions name args1" using "1.prems"(2) sub(1) unfolding Cons mentions_def by auto
      moreover have "length args1 < length args" using sub(2) Cons by simp
      ultimately show ?thesis using "1.IH" more keep [OF set] by auto
    qed simp
  qed
qed

lemma fold_protos: "tls_NextProtos (fold (\<lambda>f. f) [disableHTTP2] c) = [''http/1.1'']"
  by (simp add: disableHTTP2_def)

text \<open>Unless its flag is mentioned, HTTP/2 is disabled on both servers, whatever their TLS
  configuration was, and metrics are served over HTTPS; metrics over HTTPS are always behind
  authentication.\<close>

lemma secure_by_default:
  assumes "NewManager opts \<in> set (operatorMain E)"
  shows "(\<not> mentions ''enable-http2'' (se_Args E) \<longrightarrow>
      (\<forall>c. tls_NextProtos (fold (\<lambda>f. f) (so_TLSOpts (mo_WebhookServer opts)) c) = [''http/1.1''] \<and>
        tls_NextProtos (fold (\<lambda>f. f) (so_TLSOpts (mo_Metrics opts)) c) = [''http/1.1''])) \<and>
    (\<not> mentions ''metrics-secure'' (se_Args E) \<longrightarrow> me_SecureServing (mo_Metrics opts)) \<and>
    (me_SecureServing (mo_Metrics opts) \<longrightarrow> me_Authorized (mo_Metrics opts))"
proof -
  have "NewManager opts \<notin> set (setupControllers E r)" for r
    by (simp add: setupControllers_def orExit_def)
  then obtain fl where fl: "parseFlags (se_Foreign E) defaultFlags (se_Args E) = Inr fl" "opts = managerOptionsOf fl"
    using assms by (auto simp: operatorMain_def Let_def split: sum.splits flagError.splits if_splits)
  have "fl_enableHTTP2 fl = False" if "\<not> mentions ''enable-http2'' (se_Args E)"
    using parseFlags_keeps [of "se_Foreign E" "''enable-http2''" fl_enableHTTP2, OF setFlag_http2 fl(1) that]
    by (simp add: defaultFlags_def)
  moreover have "fl_secureMetrics fl" if "\<not> mentions ''metrics-secure'' (se_Args E)"
    using parseFlags_keeps [of "se_Foreign E" "''metrics-secure''" fl_secureMetrics, OF setFlag_secure fl(1) that]
    by (simp add: defaultFlags_def)
  ultimately show ?thesis
    by (auto simp: fl(2) managerOptionsOf_def webhookServerOptions_def metricsServerOptions_def tlsOptsOf_def disableHTTP2_def Let_def)
qed

lemma secure_by_default_ex:
  "me_Authorized (mo_Metrics (managerOptionsOf defaultFlags)) \<and>
   (\<forall>c. tls_NextProtos (fold (\<lambda>f. f) (so_TLSOpts (mo_WebhookServer (managerOptionsOf defaultFlags))) c) = [''http/1.1''])"
  using secure_by_default [of "managerOptionsOf defaultFlags" "demoEnv []"]
  by (simp add: demoEnv_main mentions_def) (simp add: demoEnv_def)

section \<open>Reading what is written\<close>

definition plainName :: "string \<Rightarrow> bool" where
  "plainName n \<longleftrightarrow> n \<noteq> [] \<and> hd n \<noteq> CHR ''-'' \<and> CHR ''='' \<notin> set n"

lemma takeWhile_name: "CHR ''='' \<notin> set n \<Longrightarrow> takeWhile (\<lambda>c. c \<noteq> CHR ''='') (n @ CHR ''='' # v) = n"
  "CHR ''='' \<notin> set n \<Longrightarrow> dropWhile (\<lambda>c. c \<noteq> CHR ''='') (n @ CHR ''='' # v) = CHR ''='' # v"
  by (induction n) auto

lemma plain_hd: "plainName n \<Longrightarrow> hd (n @ xs) \<noteq> CHR ''-''" "plainName n \<Longrightarrow> hd (n @ xs) \<noteq> CHR ''=''"
  by (cases n; auto simp: plainName_def)+

lemma parse_flag:
  assumes "plainName n" "flagKindOf foreign n \<noteq> None" "setFlag foreign n v fl = Some fl'"
  shows "parseFlags foreign fl ((''--'' @ n @ ''='' @ v) # args) = parseFlags foreign fl' args"
proof -
  obtain k where "flagKindOf foreign n = Some k" using assms(2) by auto
  then show ?thesis
    using assms(1,3) plain_hd [OF assms(1), of "CHR ''='' # v"]
    by (cases k) (simp_all add: takeWhile_name plainName_def)
qed

definition showBool :: "bool \<Rightarrow> string" where
  "showBool b = (if b then ''true'' else ''false'')"

lemma parseBool_show: "parseBool (showBool b) = Some b"
  by (simp add: showBool_def parseBool_def)

text \<open>A command line that sets every flag of the operator.\<close>

definition printFlags :: "flags \<Rightarrow> string list" where
  "printFlags fl = map (\<lambda>(n, v). ''--'' @ n @ ''='' @ v)
     [(''metrics-bind-address'', fl_metricsAddr fl), (''health-probe-bind-address'', fl_probeAddr fl),
      (''leader-elect'', showBool (fl_enableLeaderElection fl)), (''leader-election-id'', fl_leaderElectionID fl),
      (''metrics-secure'', showBool (fl_secureMetrics fl)), (''webhook-cert-path'', fl_webhookCertPath fl),
      (''webhook-cert-name'', fl_webhookCertName fl), (''webhook-cert-key'', fl_webhookCertKey fl),
      (''metrics-cert-path'', fl_metricsCertPath fl), (''metrics-cert-name'', fl_metricsCertName fl),
      (''metrics-cert-key'', fl_metricsCertKey fl), (''enable-http2'', showBool (fl_enableHTTP2 fl))]"

lemma parse_settings:
  assumes "\<forall>(n, v, g) \<in> set xs. plainName n \<and> flagKindOf foreign n \<noteq> None \<and> (\<forall>fl. setFlag foreign n v fl = Some (g fl))"
  shows "parseFlags foreign fl (map (\<lambda>(n, v, g). ''--'' @ n @ ''='' @ v) xs) = Inr (fold (\<lambda>(n, v, g). g) xs fl)"
  using assms
proof (induction xs arbitrary: fl)
  case (Cons x xs)
  obtain n v g where x: "x = (n, v, g)" by (cases x)
  have "parseFlags foreign fl ((''--'' @ n @ ''='' @ v) # args) = parseFlags foreign (g fl) args" for args
    using Cons.prems x by (intro parse_flag) auto
  then show ?case using Cons x by (simp only: list.map case_prod_conv fold_simps) auto
qed simp

text \<open>C26: a command line that sets every flag is read back as it was written, whatever the values (an
  equals sign in one included), the defaults and the flags of other modules.\<close>

theorem flags_roundtrip: "parseFlags foreign fl0 (printFlags fl) = Inr fl"
proof -
  let ?xs = "[(''metrics-bind-address'', fl_metricsAddr fl, fl_metricsAddr_update (\<lambda>_. fl_metricsAddr fl)),
     (''health-probe-bind-address'', fl_probeAddr fl, fl_probeAddr_update (\<lambda>_. fl_probeAddr fl)),
     (''leader-elect'', showBool (fl_enableLeaderElection fl), fl_enableLeaderElection_update (\<lambda>_. fl_enableLeaderElection fl)),
     (''leader-election-id'', fl_leaderElectionID fl, fl_leaderElectionID_update (\<lambda>_. fl_leaderElectionID fl)),
     (''metrics-secure'', showBool (fl_secureMetrics fl), fl_secureMetrics_update (\<lambda>_. fl_secureMetrics fl)),
     (''webhook-cert-path'', fl_webhookCertPath fl, fl_webhookCertPath_update (\<lambda>_. fl_webhookCertPath fl)),
     (''webhook-cert-name'', fl_webhookCertName fl, fl_webhookCertName_update (\<lambda>_. fl_webhookCertName fl)),
     (''webhook-cert-key'', fl_webhookCertKey fl, fl_webhookCertKey_update (\<lambda>_. fl_webhookCertKey fl)),
     (''metrics-cert-path'', fl_metricsCertPath fl, fl_metricsCertPath_update (\<lambda>_. fl_metricsCertPath fl)),
     (''metrics-cert-name'', fl_metricsCertName fl, fl_metricsCertName_update (\<lambda>_. fl_metricsCertName fl)),
     (''metrics-cert-key'', fl_metricsCertKey fl, fl_metricsCertKey_update (\<lambda>_. fl_metricsCertKey fl)),
     (''enable-http2'', showBool (fl_enableHTTP2 fl), fl_enableHTTP2_update (\<lambda>_. fl_enableHTTP2 fl))]"
  have "\<forall>(n, v, g) \<in> set ?xs. plainName n \<and> flagKindOf foreign n \<noteq> None \<and> (\<forall>fl. setFlag foreign n v fl = Some (g fl))"
    by (simp add: plainName_def flagKindOf_def setFlag_def stringFlags_def boolFlags_def parseBool_show)
  from parse_settings [OF this, of fl0] show ?thesis by (simp add: printFlags_def)
qed

end
