(* ===== verification/Watches.thy ===== *)
theory Watches
  imports PolicySteps StartupCorrect
begin

text \<open>
  What starts a reconcile: the objects the controllers read against the watches they register
  (\<open>SetupWithManager\<close>).
\<close>

definition handlerFor :: "'s controllerSetup \<Rightarrow> objectKind \<Rightarrow> objectMeta \<Rightarrow> ('s, (string \<times> string) list) state" where
  "handlerFor S k obj =
     (case map_of (cs_Watches S) k of Some f \<Rightarrow> f obj | None \<Rightarrow> State_Monad.return [])"

text \<open>What a reconcile of a live policy reads of other objects.\<close>

fun readsFor :: "policy \<Rightarrow> effect list \<Rightarrow> effect \<Rightarrow> bool" where
  "readsFor pc h (GetPool ns n r) \<longleftrightarrow> ns = om_Namespace (pc_Meta pc) \<and> n = trimSpace (pl_UpstreamPoolRef (pc_Spec pc))"
| "readsFor pc h (GetProfile ns n r) \<longleftrightarrow> ns = om_Namespace (pc_Meta pc) \<and> n = trimSpace (pl_CacheProfileRef (pc_Spec pc))"
| "readsFor pc h (GetNamespace n r) \<longleftrightarrow> n \<in> set (selectedNamespaces pc)"
| "readsFor pc h _ \<longleftrightarrow> True"

lemma mono_readsFor: "mono_trace (readsFor pc)"
  unfolding mono_trace_def
proof (intro allI impI)
  fix h h' :: "effect list" and e
  assume "readsFor pc h e"
  then show "readsFor pc h' e" by (cases e) simp_all
qed

lemma readsFor_remove: "traced h (readsFor pc) (removeNamespacePolicyAnnotations C ns)"
  unfolding remove_eq by (intro traced_intro) simp

lemma readsFor_removeAll: "traced h (readsFor pc) (removeFromAll C nss)"
proof (induction nss)
  case (Cons ns nss)
  then show ?case
    unfolding removeFromAll.simps by (intro traced_bind [OF mono_readsFor] traced_intro readsFor_remove)
qed (simp add: traced_intro)

lemma readsFor_apply: "set names \<subseteq> set (selectedNamespaces pc) \<Longrightarrow> traced h (readsFor pc) (applyToAll C pc n names)"
proof (induction names arbitrary: n h)
  case (Cons nm names)
  have u: "traced h' (readsFor pc) (updateNamespacePolicyAnnotations C ns pc)" for h' ns
    unfolding update_eq by (intro traced_intro) simp
  show ?case
    unfolding applyToAll.simps using Cons.prems
    by (intro traced_bind_api traced_bind [OF mono_readsFor] traced_intro Cons.IH u) auto
qed (simp add: traced_intro)

lemma validatePolicyRefName_trim: "validatePolicyRefName K raw path required = Inr n \<Longrightarrow> n = trimSpace raw"
  by (auto simp: validatePolicyRefName_iff refNameOk_def)

lemma readsFor_reconcile:
  assumes "anyOrder iter"
  shows "traced h (readsFor pc) (enforceAndReport iter recorder K C pc)"
proof -
  have "set (iter (selectedNamespaces pc)) = set (selectedNamespaces pc)"
    using assms unfolding anyOrder_def by (metis mset_eq_setD)
  then have a: "traced h (readsFor pc) (applyToAll C pc 0 (iter (selectedNamespaces pc)))" for h
    by (intro readsFor_apply) simp
  have v: "traced h (readsFor pc) (validateReferences K C (Some pc))" for h
    unfolding validateReferences_def Let_def option.case
    by (intro traced_bind_api traced_intro) (auto dest: validatePolicyRefName_trim)
  show ?thesis
    unfolding enforceAndReport_def enforcePolicy_def listManagedPolicyNamespaces_def setValidatedCondition_def
      recordPolicyEvent_def prog_simps
    by (intro traced_bind_api traced_bind [OF mono_readsFor] traced_intro v a readsFor_removeAll) simp_all
qed

text \<open>C25: whatever object a reconcile of a live policy reads besides the policy itself, its pool, its
  profile or a namespace it selects, the handler registered for objects of that kind answers a later
  event on it with a request for this policy, as long as the list of policies succeeds and holds it.\<close>

theorem policy_reads_watched:
  assumes "anyOrder iter" "e \<in> set (performed (enforceAndReport iter recorder K C pc) s)"
    and "\<forall>scope \<in> {None, Some (om_Namespace (pc_Meta pc))}. \<forall>w. \<exists>items w'.
      cl_ListPolicies D scope w = (Inr items, w') \<and> pc \<in> set items"
  shows "case e of
      GetPool ns n r \<Rightarrow> om_Namespace obj = ns \<and> om_Name obj = n \<longrightarrow>
        policyRequest pc \<in> set (fst (run_state (handlerFor (policySetup D) PoolKind obj) t))
    | GetProfile ns n r \<Rightarrow> om_Namespace obj = ns \<and> om_Name obj = n \<longrightarrow>
        policyRequest pc \<in> set (fst (run_state (handlerFor (policySetup D) ProfileKind obj) t))
    | GetNamespace n r \<Rightarrow> om_Name obj = n \<longrightarrow>
        policyRequest pc \<in> set (fst (run_state (handlerFor (policySetup D) NamespaceKind obj) t))
    | _ \<Rightarrow> True"
proof -
  obtain es1 es2 where "performed (enforceAndReport iter recorder K C pc) s = es1 @ e # es2"
    using split_list [OF assms(2)] by blast
  then have reads: "readsFor pc es1 e" by (rule performed_traced [OF readsFor_reconcile [OF assms(1)]])
  obtain items w where all: "cl_ListPolicies D None (world t) = (Inr items, w)" "pc \<in> set items"
    using assms(3) by blast
  obtain its v where local: "cl_ListPolicies D (Some (om_Namespace (pc_Meta pc))) (world t) = (Inr its, v)" "pc \<in> set its"
    using assms(3) by blast
  show ?thesis
  proof (cases e)
    case (GetNamespace n r)
    then have "n \<in> trimSpace ` set (pl_SelectorNamespaces (pc_Spec pc))" using reads by (simp add: selectedNamespaces_def)
    then have "find (\<lambda>m. trimSpace m = n) (pl_SelectorNamespaces (pc_Spec pc)) \<noteq> None"
      by (auto simp: find_None_iff)
    then show ?thesis
      using all GetNamespace by (auto simp: handlerFor_def policySetup_def mapNamespaceToPolicies_def run_simps)
  qed (use reads local in \<open>auto simp: handlerFor_def policySetup_def mapUpstreamPoolToPolicies_def
    mapCacheProfileToPolicies_def run_simps\<close>)
qed

definition waitingState :: "cluster sys" where
  "waitingState = \<lparr>world = policyCluster\<lparr>mc_Pools := [], mc_Policies := [conflictPolicy]\<rparr>, effects = []\<rparr>"

definition waitingClient :: "cluster client" where
  "waitingClient = memClient\<lparr>cl_ListPolicies := (\<lambda>ns w. (Inr [conflictPolicy], w))\<rparr>"

theorem policy_reads_watched_witness:
  "policyRequest conflictPolicy \<in> set (fst (run_state (handlerFor (policySetup waitingClient) PoolKind (plainMeta ''a'' ''p'')) waitingState))"
proof -
  have sp: "pl_SelectorNamespaces (pc_Spec conflictPolicy) = [''x'', ''z'']" "pl_UpstreamPoolRef (pc_Spec conflictPolicy) = ''p''"
    "pl_CacheProfileRef (pc_Spec conflictPolicy) = ''''" "om_Namespace (pc_Meta conflictPolicy) = ''a''"
    by (simp_all add: conflictPolicy_def demoPolicy_def plainMeta_def)
  have get: "cl_GetPool memClient ''a'' ''p'' (world waitingState) = (Inl NotFound, world waitingState)"
    by (simp add: memClient_def lookupBy_def waitingState_def)
  have nothing: "effects waitingState = []" by (simp add: waitingState_def)
  have read: "GetPool ''a'' ''p'' (Inl NotFound) \<in>
      set (performed (enforceAndReport rev False refK8s memClient conflictPolicy) waitingState)"
    by (simp add: performed_def enforceAndReport_def setValidatedCondition_def recordPolicyEvent_def validateReferences_def
        sp conflict_names run_simps get nothing Let_def isNotFound_def del: checkSelector.simps split: prod.split)
  have lists: "\<forall>scope \<in> {None, Some (om_Namespace (pc_Meta conflictPolicy))}. \<forall>w. \<exists>items w'.
      cl_ListPolicies waitingClient scope w = (Inr items, w') \<and> conflictPolicy \<in> set items"
    by (simp add: waitingClient_def)
  show ?thesis
    using policy_reads_watched [OF demo_quiet_hyps(1) read lists, of "plainMeta ''a'' ''p''" waitingState]
    by (simp add: plainMeta_def)
qed

end
