(* ===== verification/PoolTrace.thy ===== *)
theory PoolTrace
  imports Traces PoolReconciler
begin

text \<open>
  What a reconcile of a pool may do, in the order of its calls.  \<open>justified\<close> says of each call what
  must have happened before it: a ConfigMap is written only with a configuration built from the pool
  that was read, validated and selected (or, after a deletion, from the oldest pool left), its key is
  removed only where no pool is left, and \<open>Ready=True\<close> is reported only after the write was accepted.
  \<open>reconcilePool_justified\<close> shows it for the whole of \<open>Reconcile\<close>, program by program.
\<close>

section \<open>The programs that end a branch\<close>

lemma recordPoolEvent_traced:
  "(\<And>h ns n t r m. P h (RecordEvent ns n t r m)) \<Longrightarrow> traced h P (recordPoolEvent R p typ reason msg)"
  by (simp add: recordPoolEvent_def traced_intro)

lemma failPool_traced:
  assumes "mono_trace P" "\<And>h ns n t r m. P h (RecordEvent ns n t r m)"
    and "\<And>h r. P h (PatchPoolStatus p (withReadyCondition K p ConditionFalse reason msg) r)"
  shows "traced h P (failPool R K C p reason msg res)"
  unfolding failPool_def setReadyCondition_def Let_def
  by (intro traced_bind [OF assms(1)] recordPoolEvent_traced traced_intro assms(2,3))

lemma storeConfig_traced:
  assumes "mono_trace P" "\<And>h ns n t r m. P h (RecordEvent ns n t r m)" "\<And>h t. P h (ReadClock t)"
    and "\<And>h reason msg r. P h (PatchPoolStatus p (withReadyCondition K p ConditionFalse reason msg) r)"
    and "\<And>r h'. set h \<subseteq> set h' \<Longrightarrow> P h' (CreateOrUpdateConfigMap \<lparr>cm_Name = resolvedAgentConfigMapName R,
        cm_Namespace = operatorNamespace R (om_Namespace (po_Meta p)), cm_Data = None\<rparr>
        (SetDataKey agentConfigKey json) r)"
    and "\<And>reason msg r h'. set h \<subseteq> set h' \<Longrightarrow> CreateOrUpdateConfigMap \<lparr>cm_Name = resolvedAgentConfigMapName R,
        cm_Namespace = operatorNamespace R (om_Namespace (po_Meta p)), cm_Data = None\<rparr>
        (SetDataKey agentConfigKey json) (Inr ()) \<in> set h' \<Longrightarrow>
        P h' (PatchPoolStatus p (withReadyCondition K p ConditionTrue reason msg) r)"
  shows "traced h P (storeConfig R K C p json)"
  unfolding storeConfig_def upsertConfigMapWithCircuitBreaker_def upsertConfigMap_def setReadyCondition_def
    prog_simps
  by (rule traced_bind_api traced_bind [OF assms(1)] traced_return traced_case_option traced_case_sum
      traced_if assms recordPoolEvent_traced failPool_traced traced_withCircuit | simp | force)+

section \<open>The justification of a call\<close>

definition buildsConfig ::
    "poolReconciler \<Rightarrow> (pool option \<Rightarrow> profile option \<Rightarrow> goError + engineConfig) \<Rightarrow>
     (engineConfig option \<Rightarrow> goError + string) \<Rightarrow> pool \<Rightarrow> profile option \<Rightarrow> string \<Rightarrow> bool" where
  "buildsConfig R gen render p prof json \<longleftrightarrow>
     (\<exists>cfg out. gen (Some p) prof = Inr cfg \<and> render (Some cfg) = Inr out \<and>
        rc_MarshalIndent R cfg = Inr json \<and> length json + 11 \<le> 1048576 - 4096)"

definition fetchedPool :: "effect list \<Rightarrow> string \<Rightarrow> string \<Rightarrow> pool \<Rightarrow> bool" where
  "fetchedPool h ns name p \<longleftrightarrow>
     GetPool ns name (Inr p) \<in> set h \<or>
     (\<exists>p0. GetPool ns name (Inr p0) \<in> set h \<and> PatchPool p0 (stampInitialRV p0) (Inr p) \<in> set h)"

definition fetchedProfile :: "effect list \<Rightarrow> string \<Rightarrow> profile option \<Rightarrow> bool" where
  "fetchedProfile h ns prof \<longleftrightarrow>
     (case prof of
        None \<Rightarrow> GetProfile ns ''default'' (Inl NotFound) \<in> set h
      | Some pr \<Rightarrow> GetProfile ns ''default'' (Inr pr) \<in> set h)"

definition activeIn :: "effect list \<Rightarrow> string \<Rightarrow> pool \<Rightarrow> bool" where
  "activeIn h ns p \<longleftrightarrow>
     (\<exists>items. ListPools ns (Inr items) \<in> set h \<and>
        (length items \<le> 1 \<or> poolName p = fst (selectFromPools items)))"

definition oldestLeft :: "effect list \<Rightarrow> string \<Rightarrow> pool \<Rightarrow> bool" where
  "oldestLeft h ns p \<longleftrightarrow>
     (\<exists>items. ListPools ns (Inr items) \<in> set h \<and> items \<noteq> [] \<and> p = hd (sortPoolsForSelection items))"

definition storeOf :: "poolReconciler \<Rightarrow> string \<Rightarrow> configMap" where
  "storeOf R ns =
     \<lparr>cm_Name = resolvedAgentConfigMapName R, cm_Namespace = operatorNamespace R ns, cm_Data = None\<rparr>"

definition readyTrue :: "pool \<Rightarrow> bool" where
  "readyTrue p \<longleftrightarrow>
     (case find (\<lambda>c. cd_Type c = ''Ready'') (st_Conditions (po_Status p)) of
        None \<Rightarrow> False | Some c \<Rightarrow> cd_Status c = ConditionTrue)"

fun justified ::
    "poolReconciler \<Rightarrow> k8s \<Rightarrow> (pool option \<Rightarrow> profile option \<Rightarrow> goError + engineConfig) \<Rightarrow>
     (engineConfig option \<Rightarrow> goError + string) \<Rightarrow> string \<Rightarrow> string \<Rightarrow> effect list \<Rightarrow> effect \<Rightarrow> bool" where
  "justified R K gen render ns name h (CreateOrUpdateConfigMap cm (SetDataKey k json) r) \<longleftrightarrow>
     k = ''config.json'' \<and>
     (\<exists>p prof. buildsConfig R gen render p prof json \<and>
       (fetchedPool h ns name p \<and> validateDNSUpstreamPool K (Some p) = None \<and>
          cm = storeOf R (om_Namespace (po_Meta p)) \<and> activeIn h (om_Namespace (po_Meta p)) p \<and>
          fetchedProfile h (om_Namespace (po_Meta p)) prof \<or>
        GetPool ns name (Inl NotFound) \<in> set h \<and> cm = storeOf R ns \<and> oldestLeft h ns p \<and>
          fetchedProfile h ns prof))"
| "justified R K gen render ns name h (CreateOrUpdateConfigMap cm (DeleteDataKey k) r) \<longleftrightarrow>
     k = ''config.json'' \<and> GetPool ns name (Inl NotFound) \<in> set h \<and> ListPools ns (Inr []) \<in> set h \<and>
     GetConfigMap (operatorNamespace R ns) (resolvedAgentConfigMapName R) (Inr cm) \<in> set h"
| "justified R K gen render ns name h (PatchPoolStatus p p' r) \<longleftrightarrow>
     (readyTrue p' \<longrightarrow> (\<exists>cm prof json. buildsConfig R gen render p prof json \<and>
        CreateOrUpdateConfigMap cm (SetDataKey ''config.json'' json) (Inr ()) \<in> set h))"
| "justified R K gen render ns name h (PatchPool p p' r) \<longleftrightarrow>
     p' = stampInitialRV p \<and> gm_get (om_Annotations (po_Meta p)) initialRVAnnotation = None"
| "justified R K gen render ns name h _ \<longleftrightarrow> True"

lemma mono_fetchedPool: "fetchedPool h ns name p \<Longrightarrow> set h \<subseteq> set h' \<Longrightarrow> fetchedPool h' ns name p"
  unfolding fetchedPool_def by blast

lemma mono_fetchedProfile: "fetchedProfile h ns p \<Longrightarrow> set h \<subseteq> set h' \<Longrightarrow> fetchedProfile h' ns p"
  unfolding fetchedProfile_def by (auto split: option.splits)

lemma mono_activeIn: "activeIn h ns p \<Longrightarrow> set h \<subseteq> set h' \<Longrightarrow> activeIn h' ns p"
  unfolding activeIn_def by blast

lemma mono_oldestLeft: "oldestLeft h ns p \<Longrightarrow> set h \<subseteq> set h' \<Longrightarrow> oldestLeft h' ns p"
  unfolding oldestLeft_def by blast

lemmas mono_facts = mono_fetchedPool mono_fetchedProfile mono_activeIn mono_oldestLeft

lemma mono_justified: "mono_trace (justified R K gen render ns name)"
  unfolding mono_trace_def
proof (intro allI impI)
  fix h h' :: "effect list" and e
  assume j: "justified R K gen render ns name h e" and sub: "set h \<subseteq> set h'"
  show "justified R K gen render ns name h' e"
    using j sub mono_facts [OF _ sub]
    by (cases "(R, K, gen, render, ns, name, h, e)" rule: justified.cases) (simp_all, blast+)
qed

lemma readyTrue_with:
  "conditions_documented K \<Longrightarrow>
    readyTrue (withReadyCondition K p status reason msg) \<longleftrightarrow> status = ConditionTrue"
  by (simp add: readyTrue_def withReadyCondition_def conditions_find)

lemma failPool_justified:
  "conditions_documented K \<Longrightarrow>
    traced h (justified R K gen render ns name) (failPool R K C p reason msg res)"
  by (rule failPool_traced [OF mono_justified]) (simp_all add: readyTrue_with)

lemma recordPoolEvent_justified: "traced h (justified R K gen render ns name) (recordPoolEvent R p typ reason msg)"
  by (rule recordPoolEvent_traced) simp

lemma storeConfig_justified:
  assumes "conditions_documented K" "buildsConfig R gen render p prof json"
    and "fetchedPool h ns name p" "validateDNSUpstreamPool K (Some p) = None"
    and "activeIn h (om_Namespace (po_Meta p)) p" "fetchedProfile h (om_Namespace (po_Meta p)) prof"
  shows "traced h (justified R K gen render ns name) (storeConfig R K C p json)"
proof (rule storeConfig_traced [OF mono_justified])
  fix r h' assume sub: "set h \<subseteq> set h'"
  show "justified R K gen render ns name h' (CreateOrUpdateConfigMap \<lparr>cm_Name = resolvedAgentConfigMapName R,
        cm_Namespace = operatorNamespace R (om_Namespace (po_Meta p)), cm_Data = None\<rparr>
        (SetDataKey agentConfigKey json) r)"
    using assms mono_facts [OF _ sub] by (simp add: storeOf_def) blast
qed (use assms in \<open>simp_all add: readyTrue_with, blast\<close>)

lemma validateSize_None: "validateConfigMapPayloadSize json = None \<longleftrightarrow> length json + 11 \<le> 1048576 - 4096"
  by (simp add: validateConfigMapPayloadSize_def Let_def)

lemma buildsConfigI:
  "gen (Some p) prof = Inr cfg \<Longrightarrow> render (Some cfg) = Inr out \<Longrightarrow> rc_MarshalIndent R cfg = Inr json \<Longrightarrow>
    validateConfigMapPayloadSize json = None \<Longrightarrow> buildsConfig R gen render p prof json"
  by (auto simp: buildsConfig_def validateSize_None)

lemma renderAndStore_justified:
  assumes "conditions_documented K"
    and "fetchedPool h ns name p" "validateDNSUpstreamPool K (Some p) = None"
    and "activeIn h (om_Namespace (po_Meta p)) p" "fetchedProfile h (om_Namespace (po_Meta p)) prof"
  shows "traced h (justified R K gen render ns name) (renderAndStore R gen render K C p prof)"
  unfolding renderAndStore_def
  by (intro traced_case_sum traced_case_option failPool_justified storeConfig_justified buildsConfigI)
    (use assms in auto)

lemma fetched_append [simp]:
  "fetchedPool h ns name p \<Longrightarrow> fetchedPool (h @ h') ns name p"
  "activeIn h ns p \<Longrightarrow> activeIn (h @ h') ns p"
  "oldestLeft h ns p \<Longrightarrow> oldestLeft (h @ h') ns p"
  by (auto elim: mono_facts)

lemma fetchedProfile_get [simp]:
  "fetchedProfile (h @ [GetProfile ns ''default'' (Inr pr)]) ns (Some pr)"
  "isNotFound e \<Longrightarrow> fetchedProfile (h @ [GetProfile ns ''default'' (Inl e)]) ns None"
  by (simp_all add: fetchedProfile_def isNotFound_def)

lemma buildConfig_justified:
  assumes "conditions_documented K" 
    and "fetchedPool h ns name p" "validateDNSUpstreamPool K (Some p) = None"
    and "activeIn h (om_Namespace (po_Meta p)) p" 
  shows "traced h (justified R K gen render ns name) (buildConfig R gen render K C p)"
  unfolding buildConfig_def getDefaultCacheProfile_def prog_simps
  using assms by (intro traced_bind_api traced_intro failPool_justified renderAndStore_justified) simp_all

lemma reconcileValidPool_justified:
  assumes "conditions_documented K" 
    and "fetchedPool h ns name p" "validateDNSUpstreamPool K (Some p) = None"
  shows "traced h (justified R K gen render ns name) (reconcileValidPool R gen render K C p)"
proof -
  have "activeIn (h @ [ListPools ns' (Inr items)]) ns' p"
    if "selectFromPools items = (a, n, reason)" "\<not> (n > 1 \<and> poolName p \<noteq> a)" for ns' items a n reason
    using that selectFromPools_count [of items] by (auto simp: activeIn_def)
  then show ?thesis
    unfolding reconcileValidPool_def selectActivePoolName_def prog_simps
    using assms
    by (intro traced_bind_api traced_bind [OF mono_justified] traced_intro failPool_justified buildConfig_justified) auto
qed

lemma ready_justified:
  "gen (Some p) prof = Inr cfg \<Longrightarrow> render (Some cfg) = Inr out \<Longrightarrow> rc_MarshalIndent R cfg = Inr json \<Longrightarrow>
    validateConfigMapPayloadSize json = None \<Longrightarrow>
    (\<exists>cm. CreateOrUpdateConfigMap cm (SetDataKey ''config.json'' json) (Inr ()) \<in> set h) \<Longrightarrow>
    justified R K gen render ns name h (PatchPoolStatus p p' r)"
  using buildsConfigI by fastforce

lemma rebuildWithProfile_justified:
  assumes "conditions_documented K" "GetPool ns name (Inl NotFound) \<in> set h"
    and "oldestLeft h ns p" "fetchedProfile h ns prof"
  shows "traced h (justified R K gen render ns name) (rebuildWithProfile R gen render K C ns p prof)"
proof -
  have store: "justified R K gen render ns name h' (CreateOrUpdateConfigMap \<lparr>cm_Name = resolvedAgentConfigMapName R,
        cm_Namespace = operatorNamespace R ns, cm_Data = None\<rparr> (SetDataKey agentConfigKey json) r)"
    if "buildsConfig R gen render p prof json" "set h \<subseteq> set h'" for h' json r
    using that assms mono_facts [OF _ that(2)] by (simp add: storeOf_def) blast
  show ?thesis
    unfolding rebuildWithProfile_def upsertConfigMapWithCircuitBreaker_def upsertConfigMap_def
      setReadyCondition_def prog_simps
    by (rule traced_bind_api traced_bind [OF mono_justified] traced_return traced_case_option traced_case_sum
        traced_if recordPoolEvent_justified traced_withCircuit store
        | (simp add: readyTrue_with assms(1); fail)
        | (auto simp: buildsConfig_def validateSize_None readyTrue_with assms(1); fail)
        | (erule (3) ready_justified, rule exI, simp))+
qed

lemma rebuildForPool_justified:
  assumes "conditions_documented K" "GetPool ns name (Inl NotFound) \<in> set h" "oldestLeft h ns p"
  shows "traced h (justified R K gen render ns name) (rebuildForPool R gen render K C ns p)"
  unfolding rebuildForPool_def getDefaultCacheProfile_def prog_simps
  using assms by (intro traced_bind_api traced_intro rebuildWithProfile_justified) simp_all

lemma removeConfigKey_justified:
  assumes "GetPool ns name (Inl NotFound) \<in> set h" "ListPools ns (Inr []) \<in> set h"
  shows "traced h (justified R K gen render ns name) (removeConfigKey R C (operatorNamespace R ns))"
  unfolding removeConfigKey_def prog_simps
  using assms by (intro traced_bind_api traced_intro) simp_all

lemma sortPools_Cons: "sortPoolsForSelection items = q # qs \<Longrightarrow> items \<noteq> [] \<and> q = hd (sortPoolsForSelection items)"
  by auto

lemma reconcileAfterPoolDeletion_justified:
  assumes "conditions_documented K" "GetPool ns name (Inl NotFound) \<in> set h"
  shows "traced h (justified R K gen render ns name) (reconcileAfterPoolDeletion R gen render K C ns)"
proof -
  have "oldestLeft (h @ [ListPools ns (Inr items)]) ns q" if "sortPoolsForSelection items = q # qs" for items q qs
    using sortPools_Cons [OF that] by (auto simp: oldestLeft_def)
  then show ?thesis
    unfolding reconcileAfterPoolDeletion_def prog_simps
    using assms
    by (intro traced_bind_api traced_bind [OF mono_justified] traced_intro rebuildForPool_justified
        removeConfigKey_justified) (auto dest: sortPools_Cons)
qed

lemma reconcilePool_justified:
  assumes "conditions_documented K" "rc_ConfigGen R = Some gen" "rc_ConfigRenderer R = Some render"
  shows "traced [] (justified R K gen render ns name) (reconcilePool R K C ns name)"
  unfolding reconcilePool_def ensureInitialRVAnnotation_def assms option.case prod.case prog_simps
  using assms(1)
  by (intro traced_bind_api traced_bind [OF mono_justified] traced_intro failPool_justified
      reconcileValidPool_justified reconcileAfterPoolDeletion_justified)
    (auto simp: isNotFound_def fetchedPool_def)

end
