(* ===== verification/PoolSafety.thy ===== *)
theory PoolSafety
  imports PoolTrace Demo
begin

text \<open>
  The safety of the pool reconciler: what reaches the ConfigMap and the status, over whole runs of
  \<open>Reconcile\<close> for any API server, any clock and any other actor.
\<close>

section \<open>Sample runs\<close>

lemmas reconciler_defs = reconcilePool_def reconcileValidPool_def selectActivePoolName_def buildConfig_def
  renderAndStore_def storeConfig_def upsertConfigMapWithCircuitBreaker_def upsertConfigMap_def
  setReadyCondition_def ensureInitialRVAnnotation_def getDefaultCacheProfile_def failPool_def
  recordPoolEvent_def validateConfigMapPayloadSize_def removeConfigKey_def reconcileAfterPoolDeletion_def
  rebuildForPool_def rebuildWithProfile_def

lemmas demo_defs = demoReconciler_def demoState_def demoCluster_def emptyCluster_def memClient_def
  lookupBy_def replaceBy_def metaKey_def cmKey_def plainMeta_def demo_meta selectFromPools_def isNotFound_def
  recordActivePoolSelectionMetric_def clearActivePoolSelectionMetric_def operatorNamespace_def
  resolvedAgentConfigMapName_def newBreaker_def isConfigMapCircuitOpen_def ensureConfigMapCircuitState_def
  resetConfigMapUpdateFailures_def mutateConfigMap_def
  trimSpace_alnum lit_simps gm_get_def gm_index_def gm_set_def gm_delete_def gm_make_def Let_def

lemma showNat_ex [simp]: "showNat (Suc 0) = ''1''" "showNat 2 = ''2''"
  by code_simp+

definition demoStored :: pool where
  "demoStored = stampInitialRV demoPool"

definition demoWrite :: effect where
  "demoWrite = CreateOrUpdateConfigMap
     \<lparr>cm_Name = ''astradns-agent-config'', cm_Namespace = ''a'', cm_Data = None\<rparr>
     (SetDataKey ''config.json'' ''2'') (Inr ())"

definition demoReady :: pool where
  "demoReady = withReadyCondition refK8s demoStored ConditionTrue ''Ready''
     (MText ''Configuration rendered successfully'' [])"

lemma demo_run: "performed (reconcilePool (demoReconciler '''') refK8s memClient ''a'' ''p'')
     (demoState (demoCluster [demoPool])) =
   [GetPool ''a'' ''p'' (Inr demoPool), PatchPool demoPool demoStored (Inr demoStored),
    ListPools ''a'' (Inr [demoStored]), Gauge (GaugeSet ''a'' ''p'' ''single_pool''),
    GetProfile ''a'' ''default'' (Inl NotFound), ReadClock 1, demoWrite,
    PatchPoolStatus demoStored demoReady (Inr demoReady)]"
proof -
  obtain c where c: "Generate 4 (Some demoStored) None = Inr c"
    "unbound_Render plainTemplates 4 (Some c) = Inr ''unbound.conf''" "length (ec_Upstreams c) = 2"
    using demo_builds [of "[''1.1.1.1'', ''9.9.9.9'']" demoStored "''a''" "''p''" None]
    by (auto simp: demoPool_def demoStored_def stampInitialRV_def)
  have v: "validateDNSUpstreamPool refK8s (Some demoStored) = None"
    by (rule demo_valid) (simp add: demoStored_def stampInitialRV_def)
  have m: "om_Namespace (po_Meta demoStored) = ''a''" "poolName demoStored = ''p''"
    by (simp_all add: demoStored_def stampInitialRV_def demo_meta plainMeta_def)
  show ?thesis
    unfolding performed_def reconciler_defs demoReady_def demoWrite_def
    by (simp add: run_simps demo_defs v m c demoStored_def [symmetric])
qed

section \<open>What reaches the ConfigMap\<close>

text \<open>C1: every configuration written to the ConfigMap was built from one pool: the generator made
  it, the renderer accepted it, its JSON is within the size limit, it goes to the key and the object
  the operator owns, and the pool was read, stamped, validated and selected in this reconcile, or is
  the oldest pool left after the reconciled one was deleted.\<close>

theorem stored_config_checked:
  assumes "conditions_documented K" "rc_ConfigGen R = Some gen" "rc_ConfigRenderer R = Some render"
    and "performed (reconcilePool R K C ns name) s = es1 @ CreateOrUpdateConfigMap cm (SetDataKey k json) r # es2"
  shows "k = ''config.json'' \<and>
    (\<exists>p prof. buildsConfig R gen render p prof json \<and>
       (fetchedPool es1 ns name p \<and> validateDNSUpstreamPool K (Some p) = None \<and>
          cm = storeOf R (om_Namespace (po_Meta p)) \<and> activeIn es1 (om_Namespace (po_Meta p)) p \<and>
          fetchedProfile es1 (om_Namespace (po_Meta p)) prof \<or>
        GetPool ns name (Inl NotFound) \<in> set es1 \<and> cm = storeOf R ns \<and> oldestLeft es1 ns p \<and>
          fetchedProfile es1 ns prof))"
  using performed_traced [OF reconcilePool_justified [OF assms(1-3)] assms(4)] by simp

lemma demo_components: "rc_ConfigGen (demoReconciler e) = Some (Generate 4)"
    "rc_ConfigRenderer (demoReconciler e) = Some (unbound_Render plainTemplates 4)"
  by (simp_all add: demoReconciler_def)

lemma demo_write_split: "performed (reconcilePool (demoReconciler '''') refK8s memClient ''a'' ''p'')
     (demoState (demoCluster [demoPool])) =
   [GetPool ''a'' ''p'' (Inr demoPool), PatchPool demoPool demoStored (Inr demoStored),
    ListPools ''a'' (Inr [demoStored]), Gauge (GaugeSet ''a'' ''p'' ''single_pool''),
    GetProfile ''a'' ''default'' (Inl NotFound), ReadClock 1] @
    CreateOrUpdateConfigMap \<lparr>cm_Name = ''astradns-agent-config'', cm_Namespace = ''a'', cm_Data = None\<rparr>
     (SetDataKey ''config.json'' ''2'') (Inr ()) # [PatchPoolStatus demoStored demoReady (Inr demoReady)]"
  by (simp add: demo_run demoWrite_def)

theorem stored_config_checked_witness:
  "\<exists>p prof. buildsConfig (demoReconciler '''') (Generate 4) (unbound_Render plainTemplates 4) p prof ''2''"
  using stored_config_checked [OF refK8s_conditions demo_components demo_write_split] by blast

text \<open>C7: a pool's status says \<open>Ready=True\<close> only after the API server has accepted, in the same
  reconcile, a ConfigMap write with the configuration built from that very pool.\<close>

theorem ready_only_after_store:
  assumes "conditions_documented K" "rc_ConfigGen R = Some gen" "rc_ConfigRenderer R = Some render"
    and "performed (reconcilePool R K C ns name) s = es1 @ PatchPoolStatus p p' r # es2" "readyTrue p'"
  shows "\<exists>cm prof json. buildsConfig R gen render p prof json \<and>
    CreateOrUpdateConfigMap cm (SetDataKey ''config.json'' json) (Inr ()) \<in> set es1"
  using performed_traced [OF reconcilePool_justified [OF assms(1-3)] assms(4)] assms(5) by simp

lemma demo_ready_split: "performed (reconcilePool (demoReconciler '''') refK8s memClient ''a'' ''p'')
     (demoState (demoCluster [demoPool])) =
   [GetPool ''a'' ''p'' (Inr demoPool), PatchPool demoPool demoStored (Inr demoStored),
    ListPools ''a'' (Inr [demoStored]), Gauge (GaugeSet ''a'' ''p'' ''single_pool''),
    GetProfile ''a'' ''default'' (Inl NotFound), ReadClock 1, demoWrite] @
    PatchPoolStatus demoStored demoReady (Inr demoReady) # []"
  by (simp add: demo_run)

lemma demoReady_true: "readyTrue demoReady"
  by (simp add: demoReady_def readyTrue_with refK8s_conditions)

theorem ready_only_after_store_witness:
  "\<exists>cm prof json. buildsConfig (demoReconciler '''') (Generate 4) (unbound_Render plainTemplates 4) demoStored prof json \<and>
    CreateOrUpdateConfigMap cm (SetDataKey ''config.json'' json) (Inr ()) \<in> {demoWrite}"
  using ready_only_after_store [OF refK8s_conditions demo_components demo_ready_split demoReady_true]
  by simp

text \<open>C14: the key is removed from the ConfigMap only after the reconciled pool was not found and its
  namespace was listed without any pool; the other keys stay.\<close>

theorem key_removed_only_without_pools:
  assumes "conditions_documented K" "rc_ConfigGen R = Some gen" "rc_ConfigRenderer R = Some render"
    and "performed (reconcilePool R K C ns name) s = es1 @ CreateOrUpdateConfigMap cm (DeleteDataKey k) r # es2"
  shows "GetPool ns name (Inl NotFound) \<in> set es1 \<and> ListPools ns (Inr []) \<in> set es1 \<and>
    GetConfigMap (operatorNamespace R ns) (resolvedAgentConfigMapName R) (Inr cm) \<in> set es1 \<and>
    gm_get (cm_Data (mutateConfigMap (DeleteDataKey k) cm)) ''config.json'' = None \<and>
    (\<forall>k'. k' \<noteq> ''config.json'' \<longrightarrow>
       gm_get (cm_Data (mutateConfigMap (DeleteDataKey k) cm)) k' = gm_get (cm_Data cm) k')"
  using performed_traced [OF reconcilePool_justified [OF assms(1-3)] assms(4)]
  by (simp add: mutateConfigMap_def)

definition demoMap :: configMap where
  "demoMap = \<lparr>cm_Name = ''astradns-agent-config'', cm_Namespace = ''a'',
     cm_Data = Some [(''config.json'', ''2''), (''other'', ''x'')]\<rparr>"

lemma demo_delete_split: "performed (reconcilePool (demoReconciler '''') refK8s memClient ''a'' ''p'')
     (demoState (emptyCluster\<lparr>mc_ConfigMaps := [demoMap]\<rparr>)) =
   [GetPool ''a'' ''p'' (Inl NotFound), ListPools ''a'' (Inr []),
    GetConfigMap ''a'' ''astradns-agent-config'' (Inr demoMap)] @
    CreateOrUpdateConfigMap demoMap (DeleteDataKey ''config.json'') (Inr ()) # []"
  unfolding performed_def reconciler_defs by (simp add: run_simps demo_defs demoMap_def)

theorem key_removed_only_without_pools_witness:
  "gm_get (cm_Data (mutateConfigMap (DeleteDataKey ''config.json'') demoMap)) ''other'' = Some ''x''"
  using key_removed_only_without_pools [OF refK8s_conditions demo_components demo_delete_split]
  by (simp add: demoMap_def gm_get_def)

text \<open>C20: the only change to a pool's metadata is the stamp: the annotation is written only on a pool
  that has none, with the resource version the pool was read at.\<close>

theorem stamped_once:
  assumes "conditions_documented K" "rc_ConfigGen R = Some gen" "rc_ConfigRenderer R = Some render"
    and "performed (reconcilePool R K C ns name) s = es1 @ PatchPool p p' r # es2"
  shows "gm_get (om_Annotations (po_Meta p)) initialRVAnnotation = None \<and>
    gm_get (om_Annotations (po_Meta p')) initialRVAnnotation = Some (om_ResourceVersion (po_Meta p)) \<and>
    po_Spec p' = po_Spec p \<and> po_Status p' = po_Status p"
  using performed_traced [OF reconcilePool_justified [OF assms(1-3)] assms(4)]
  by (simp add: stampInitialRV_def)

lemma demo_patch_split: "performed (reconcilePool (demoReconciler '''') refK8s memClient ''a'' ''p'')
     (demoState (demoCluster [demoPool])) =
   [GetPool ''a'' ''p'' (Inr demoPool)] @ PatchPool demoPool demoStored (Inr demoStored) #
   [ListPools ''a'' (Inr [demoStored]), Gauge (GaugeSet ''a'' ''p'' ''single_pool''),
    GetProfile ''a'' ''default'' (Inl NotFound), ReadClock 1, demoWrite,
    PatchPoolStatus demoStored demoReady (Inr demoReady)]"
  by (simp add: demo_run)

theorem stamped_once_witness:
  "gm_get (om_Annotations (po_Meta demoStored)) initialRVAnnotation = Some (om_ResourceVersion (po_Meta demoPool))"
  using stamped_once [OF refK8s_conditions demo_components demo_patch_split] by simp

end
