(* ===== verification/PoolState.thy ===== *)
theory PoolState
  imports PoolSafety
begin

text \<open>
  The memory of the pool reconciler over its life: the breaker and the metric in every reachable
  state, what one update of the ConfigMap does to the circuit, and how often updates are tried.
\<close>

section \<open>Reachable states\<close>

text \<open>
  A life of the operator starts with empty memory; then pools are reconciled one at a time
  (controller-runtime runs one worker per controller here), and between reconciles the world changes
  in any way.
\<close>

inductive reachable :: "'w poolSys \<Rightarrow> bool" where
  start: "reachable \<lparr>world = w, effects = [], circuit = newBreaker, metric = None\<rparr>"
| reconcile: "reachable s \<Longrightarrow> reachable (snd (run_state (reconcilePool R K C ns name) s))"
| environment: "reachable s \<Longrightarrow> reachable (s\<lparr>world := w\<rparr>)"

fun gaugeEffect :: "effect \<Rightarrow> (string \<times> string \<times> string) set \<Rightarrow> (string \<times> string \<times> string) set" where
  "gaugeEffect (Gauge c) S = gaugeApply c S"
| "gaugeEffect _ S = S"

text \<open>The series of the gauge after a history.\<close>

definition exportedSeries :: "effect list \<Rightarrow> (string \<times> string \<times> string) set" where
  "exportedSeries es = fold gaugeEffect es {}"

definition memoryInv :: "'w poolSys \<Rightarrow> bool" where
  "memoryInv s \<longleftrightarrow> breakerInv (circuit s) \<and> gaugeInv (metric s) (exportedSeries (effects s))"

definition keeps :: "('w poolSys, 'a) state \<Rightarrow> bool" where
  "keeps m \<longleftrightarrow> (\<forall>s. memoryInv s \<longrightarrow> memoryInv (snd (run_state m s)))"

named_theorems keeps_intro "programs that keep the invariant of the memory"

lemma keeps_return [keeps_intro]: "keeps (State_Monad.return x)"
  by (simp add: keeps_def)

lemma keeps_bind [keeps_intro]: "keeps m \<Longrightarrow> (\<And>a. keeps (f a)) \<Longrightarrow> keeps (State_Monad.bind m f)"
  by (simp add: keeps_def split: prod.split) (metis snd_conv)

lemma keeps_api [keeps_intro]: "(\<And>r S. gaugeEffect (e r) S = S) \<Longrightarrow> keeps (api e f)"
  by (simp add: keeps_def memoryInv_def run_api exportedSeries_def split: prod.split)

lemma keeps_recordPoolEvent [keeps_intro]: "keeps (recordPoolEvent R p typ reason msg)"
  by (simp add: recordPoolEvent_def keeps_def memoryInv_def run_note_effect exportedSeries_def)

lemma keeps_withCircuit [keeps_intro]:
  "(\<And>b. breakerInv b \<Longrightarrow> breakerInv (snd (f b))) \<Longrightarrow> keeps (withCircuit f)"
  by (auto simp: keeps_def memoryInv_def run_withCircuit split: prod.split) (metis snd_conv)

lemma gaugeEffect_map: "fold gaugeEffect (map Gauge calls) S = fold gaugeApply calls S"
  by (induction calls arbitrary: S) auto

lemma keeps_withMetric [keeps_intro]:
  "(\<And>m S calls m'. gaugeInv m S \<Longrightarrow> f m = (calls, m') \<Longrightarrow> gaugeInv m' (fold gaugeApply calls S)) \<Longrightarrow>
    keeps (withMetric f)"
  by (auto simp: keeps_def memoryInv_def run_withMetric exportedSeries_def gaugeEffect_map split: prod.split)

lemma keeps_if [keeps_intro]: "keeps m \<Longrightarrow> keeps n \<Longrightarrow> keeps (if b then m else n)"
  by simp

lemma keeps_case_sum [keeps_intro]:
  "(\<And>a. keeps (f a)) \<Longrightarrow> (\<And>b. keeps (g b)) \<Longrightarrow> keeps (case x of Inl a \<Rightarrow> f a | Inr b \<Rightarrow> g b)"
  by (simp split: sum.split)

lemma keeps_case_option [keeps_intro]:
  "keeps m \<Longrightarrow> (\<And>b. keeps (g b)) \<Longrightarrow> keeps (case x of None \<Rightarrow> m | Some b \<Rightarrow> g b)"
  by (simp split: option.split)

lemma keeps_case_list [keeps_intro]:
  "keeps m \<Longrightarrow> (\<And>b bs. keeps (g b bs)) \<Longrightarrow> keeps (case x of [] \<Rightarrow> m | b # bs \<Rightarrow> g b bs)"
  by (simp split: list.split)

lemma keeps_case_prod [keeps_intro]: "(\<And>a b. keeps (f a b)) \<Longrightarrow> keeps (case x of (a, b) \<Rightarrow> f a b)"
  by (simp split: prod.split)

lemma keeps_upsert: "keeps (upsertConfigMapWithCircuitBreaker R C ns json)"
  unfolding upsertConfigMapWithCircuitBreaker_def upsertConfigMap_def prog_simps
  by (intro keeps_intro) (simp_all add: breakerInv_query breakerInv_fail breakerInv_reset)

lemma keeps_failPool: "keeps (failPool R K C p reason msg res)"
  unfolding failPool_def setReadyCondition_def prog_simps by (intro keeps_intro) simp

lemma keeps_deletion: "keeps (reconcileAfterPoolDeletion R gen render K C ns)"
  unfolding reconcileAfterPoolDeletion_def rebuildForPool_def rebuildWithProfile_def removeConfigKey_def
    getDefaultCacheProfile_def setReadyCondition_def Let_def
  by (intro keeps_intro keeps_upsert gaugeInv_clear gaugeInv_record) simp_all

lemma keeps_reconcilePool: "keeps (reconcilePool R K C ns name)"
  unfolding reconcilePool_def reconcileValidPool_def selectActivePoolName_def buildConfig_def
    renderAndStore_def storeConfig_def getDefaultCacheProfile_def setReadyCondition_def
    ensureInitialRVAnnotation_def Let_def
  by (intro keeps_intro keeps_upsert keeps_failPool keeps_deletion gaugeInv_record) simp_all

lemma reachable_memoryInv: "reachable s \<Longrightarrow> memoryInv s"
proof (induction rule: reachable.induct)
  case (start w)
  then show ?case
    by (simp add: memoryInv_def breakerInv_new exportedSeries_def gaugeInv_init)
next
  case (reconcile s R K C ns name)
  then show ?case using keeps_reconcilePool unfolding keeps_def by blast
next
  case (environment s w)
  then show ?case by (simp add: memoryInv_def)
qed

text \<open>C19: in every reachable state the failure counter of a namespace is below the threshold and zero
  while its circuit is open, and the exported gauge has exactly one series for each namespace whose
  selection is remembered and none for the others.\<close>

theorem reachable_memory:
  assumes "reachable s"
  shows "(\<forall>ns. 0 \<le> gm_index 0 (br_FailureCounts (circuit s)) ns \<and>
            gm_index 0 (br_FailureCounts (circuit s)) ns < 3 \<and>
            (gm_get (br_OpenUntil (circuit s)) ns = None \<or> gm_index 0 (br_FailureCounts (circuit s)) ns = 0)) \<and>
    (\<forall>ns. {(pool, reason). (ns, pool, reason) \<in> exportedSeries (effects s)} =
            set_option (gm_get (metric s) ns))"
  using reachable_memoryInv [OF assms] by (auto simp: memoryInv_def breakerInv_def gaugeInv_def)

lemma demo_reachable: "reachable (snd (run_state (reconcilePool (demoReconciler '''') refK8s memClient ''a'' ''p'')
    (demoState (demoCluster [demoPool]))))"
  unfolding demoState_def by (intro reachable.intros)

lemma demo_effects: "effects (snd (run_state (reconcilePool (demoReconciler '''') refK8s memClient ''a'' ''p'')
    (demoState (demoCluster [demoPool])))) =
   performed (reconcilePool (demoReconciler '''') refK8s memClient ''a'' ''p'') (demoState (demoCluster [demoPool]))"
  by (simp add: performed_def demoState_def)

lemma demo_series: "exportedSeries (effects (snd (run_state (reconcilePool (demoReconciler '''') refK8s memClient ''a'' ''p'')
    (demoState (demoCluster [demoPool]))))) = {(''a'', ''p'', ''single_pool'')}"
  unfolding demo_effects demo_run demoWrite_def exportedSeries_def by simp

theorem reachable_memory_witness:
  "set_option (gm_get (metric (snd (run_state (reconcilePool (demoReconciler '''') refK8s memClient ''a'' ''p'')
    (demoState (demoCluster [demoPool]))))) ''a'') = {(''p'', ''single_pool'')}"
proof -
  note m = reachable_memory [OF demo_reachable]
  show ?thesis
    by (subst conjunct2 [OF m, THEN spec, symmetric]) (auto simp: demo_series)
qed

section \<open>One update, as a step of the abstract circuit\<close>

text \<open>C8: an update of the ConfigMap refines the abstract circuit of its namespace.  While the circuit
  is open it answers with the circuit-open error and makes no request.  Otherwise it makes exactly
  one write; if the write is accepted the circuit is closed with no failures, if it is refused the
  circuit counts a failure at the times read after it.  Circuits of other namespaces stay.\<close>

theorem upsert_refines_circuit:
  assumes "breakerInv (circuit s)"
    and "run_state (upsertConfigMapWithCircuitBreaker R C ns json) s = (res, s')"
    and "now = fst (cl_Now C (world s))"
    and "cm = \<lparr>cm_Name = resolvedAgentConfigMapName R, cm_Namespace = ns, cm_Data = None\<rparr>"
  shows "(case fst (circuitQuery now (circuitOf (circuit s) ns)) of
      Some u \<Rightarrow> (\<exists>e. res = Some e \<and> errorsIs e errConfigMapCircuitOpen) \<and>
        effects s' = effects s @ [ReadClock now] \<and> circuitOf (circuit s') ns = circuitOf (circuit s) ns
    | None \<Rightarrow>
        (effects s' = effects s @ [ReadClock now, CreateOrUpdateConfigMap cm (SetDataKey ''config.json'' json) (Inr ())] \<and>
           res = None \<and> circuitOf (circuit s') ns = Closed 0) \<or>
        (\<exists>e t1 t2. effects s' = effects s @ [ReadClock now,
             CreateOrUpdateConfigMap cm (SetDataKey ''config.json'' json) (Inl e), ReadClock t1, ReadClock t2] \<and>
           (\<exists>e'. res = Some e' \<and> \<not> errorsIs e' errConfigMapCircuitOpen) \<and>
           circuitOf (circuit s') ns = circuitFail t1 t2 (snd (circuitQuery now (circuitOf (circuit s) ns))))) \<and>
    (\<forall>ns'. ns' \<noteq> ns \<longrightarrow> circuitOf (circuit s') ns' = circuitOf (circuit s) ns')"
proof -
  obtain w1 where now: "cl_Now C (world s) = (now, w1)" using assms(3) by (metis prod.collapse)
  obtain b1 where b1: "isConfigMapCircuitOpen ns now (circuit s) =
      (fst (circuitQuery now (circuitOf (circuit s) ns)), b1)"
    using isOpen_query [of ns now "circuit s"] by (metis prod.collapse)
  have inv: "breakerInv b1" and abs: "circuitOf b1 ns' =
      (if ns' = ns then snd (circuitQuery now (circuitOf (circuit s) ns)) else circuitOf (circuit s) ns')" for ns'
    using breakerInv_query [OF assms(1), of ns now] circuitOf_query [OF assms(1), of ns now ns'] b1 by auto
  have open_same: "snd (circuitQuery now c) = c" if "fst (circuitQuery now c) = Some u" for c u
    using that by (cases c) (auto split: if_splits)
  obtain r w2 where r: "cl_CreateOrUpdate C cm (mutateConfigMap (SetDataKey agentConfigKey json)) w1 = (r, w2)"
    by (metis prod.collapse)
  obtain t1 w3 where t1: "cl_Now C w2 = (t1, w3)" by (metis prod.collapse)
  obtain t2 w4 where t2: "cl_Now C w3 = (t2, w4)" by (metis prod.collapse)
  note run = assms(2) [unfolded upsertConfigMapWithCircuitBreaker_def upsertConfigMap_def, symmetric]
  show ?thesis
  proof (cases "fst (circuitQuery now (circuitOf (circuit s) ns))")
    case (Some u)
    then show ?thesis
      using run by (simp add: run_simps now b1 abs open_same)
  next
    case None
    then show ?thesis
      using run r t1 t2 inv abs
      by (cases r) (auto simp: run_simps now b1 Let_def circuitOf_fail circuitOf_reset assms(4)
          errConfigMapCircuitOpen_def)
  qed
qed

lemma demo_upsert: "run_state (upsertConfigMapWithCircuitBreaker (demoReconciler '''') memClient ''a'' ''x'')
    (demoState emptyCluster) =
   (None, snd (run_state (upsertConfigMapWithCircuitBreaker (demoReconciler '''') memClient ''a'' ''x'')
    (demoState emptyCluster)))"
  unfolding upsertConfigMapWithCircuitBreaker_def upsertConfigMap_def by (simp add: run_simps demo_defs)

theorem upsert_refines_circuit_witness:
  "circuitOf (circuit (snd (run_state (upsertConfigMapWithCircuitBreaker (demoReconciler '''') memClient ''a'' ''x'')
    (demoState emptyCluster)))) ''a'' = Closed 0"
proof -
  have inv: "breakerInv (circuit (demoState emptyCluster))"
    by (simp add: demoState_def breakerInv_new)
  have "circuitOf (circuit (demoState emptyCluster)) ''a'' = Closed 0"
    by (simp add: demoState_def circuitOf_new)
  then show ?thesis
    using upsert_refines_circuit [OF inv demo_upsert refl refl] by auto
qed

section \<open>A failing API server\<close>

text \<open>Updates of one namespace in a row, whatever each answers.\<close>

fun upserts :: "poolReconciler \<Rightarrow> 'w client \<Rightarrow> string \<Rightarrow> string list \<Rightarrow> ('w poolSys, unit) state" where
  "upserts R C ns [] = State_Monad.return ()"
| "upserts R C ns (json # jsons) = do {
     _ \<leftarrow> upsertConfigMapWithCircuitBreaker R C ns json;
     upserts R C ns jsons
   }"

fun isWrite :: "effect \<Rightarrow> bool" where
  "isWrite (CreateOrUpdateConfigMap cm m r) \<longleftrightarrow> True"
| "isWrite _ \<longleftrightarrow> False"

text \<open>The API server refuses every write, and the clock stays within the interval after \<open>t0\<close>.\<close>

definition refusesWrites :: "'w client \<Rightarrow> bool" where
  "refusesWrites C \<longleftrightarrow> (\<forall>cm f w. \<exists>e. fst (cl_CreateOrUpdate C cm f w) = Inl e)"

definition clockWithin :: "'w client \<Rightarrow> int \<Rightarrow> int \<Rightarrow> bool" where
  "clockWithin C t0 t1 \<longleftrightarrow> (\<forall>w. t0 \<le> fst (cl_Now C w) \<and> fst (cl_Now C w) \<le> t1)"

text \<open>Attempts the circuit still allows.\<close>

fun attemptsLeft :: "int \<Rightarrow> circuit \<Rightarrow> nat" where
  "attemptsLeft t1 (Closed n) = nat (3 - n)"
| "attemptsLeft t1 (Open u) = 0"

fun openAfter :: "int \<Rightarrow> circuit \<Rightarrow> bool" where
  "openAfter t (Closed n) \<longleftrightarrow> True"
| "openAfter t (Open u) \<longleftrightarrow> t \<le> u"

lemma upsert_refused:
  assumes "refusesWrites C" "clockWithin C t0 (t0 + 30000000000)"
    and "breakerInv (circuit s)" "openAfter (t0 + 30000000000) (circuitOf (circuit s) ns)"
    and "s' = snd (run_state (upsertConfigMapWithCircuitBreaker R C ns json) s)"
  shows "\<exists>es. effects s' = effects s @ es \<and> breakerInv (circuit s') \<and>
    openAfter (t0 + 30000000000) (circuitOf (circuit s') ns) \<and>
    length (filter isWrite es) + attemptsLeft t0 (circuitOf (circuit s') ns) =
      attemptsLeft t0 (circuitOf (circuit s) ns) \<and>
    (length (filter isWrite es) = 1 \<longleftrightarrow> attemptsLeft t0 (circuitOf (circuit s) ns) > 0)"
proof -
  obtain now w1 where now: "cl_Now C (world s) = (now, w1)" by force
  obtain b1 where b1: "isConfigMapCircuitOpen ns now (circuit s) =
      (fst (circuitQuery now (circuitOf (circuit s) ns)), b1)"
    using isOpen_query [of ns now "circuit s"] by (metis prod.collapse)
  have inv: "breakerInv b1" and abs: "circuitOf b1 ns = snd (circuitQuery now (circuitOf (circuit s) ns))"
    using breakerInv_query [OF assms(3), of ns now] circuitOf_query [OF assms(3), of ns now ns] b1 by auto
  obtain e w2 where r: "cl_CreateOrUpdate C \<lparr>cm_Name = resolvedAgentConfigMapName R, cm_Namespace = ns, cm_Data = None\<rparr>
      (mutateConfigMap (SetDataKey agentConfigKey json)) w1 = (Inl e, w2)"
    using assms(1) unfolding refusesWrites_def by (metis prod.collapse)
  obtain t1 w3 where t1: "cl_Now C w2 = (t1, w3)" by force
  obtain t2 w4 where t2: "cl_Now C w3 = (t2, w4)" by force
  have bounds: "now \<le> t0 + 30000000000" "t0 \<le> t2"
    using assms(2) now t2 unfolding clockWithin_def by (metis fst_conv)+
  note run = assms(5) [unfolded upsertConfigMapWithCircuitBreaker_def upsertConfigMap_def]
  show ?thesis
  proof (cases "circuitOf (circuit s) ns")
    case (Open u)
    then have "now \<le> u" using assms(4) bounds by simp
    then show ?thesis
      using run Open inv abs assms(4) by (simp add: run_simps now b1)
  next
    case (Closed n)
    then have n: "0 \<le> n" "n < 3"
      using assms(3) by (auto simp: breakerInv_def circuitOf_def split: option.splits)
    then have "n = 0 \<or> n = 1 \<or> n = 2" by linarith
    then show ?thesis
      using run Closed inv abs bounds
      by (elim disjE) (simp_all add: run_simps now b1 Let_def r t1 t2 circuitOf_fail breakerInv_fail)
  qed
qed

lemma upserts_writes:
  assumes "refusesWrites C" "clockWithin C t0 (t0 + 30000000000)"
    and "breakerInv (circuit s)" "openAfter (t0 + 30000000000) (circuitOf (circuit s) ns)"
  shows "\<exists>es. effects (snd (run_state (upserts R C ns jsons) s)) = effects s @ es \<and>
    length (filter isWrite es) = min (length jsons) (attemptsLeft t0 (circuitOf (circuit s) ns))"
  using assms(3,4)
proof (induction jsons arbitrary: s)
  case Nil
  then show ?case by simp
next
  case (Cons json jsons)
  define s' where "s' = snd (run_state (upsertConfigMapWithCircuitBreaker R C ns json) s)"
  obtain es where es: "effects s' = effects s @ es" "breakerInv (circuit s')"
      "openAfter (t0 + 30000000000) (circuitOf (circuit s') ns)"
      "length (filter isWrite es) + attemptsLeft t0 (circuitOf (circuit s') ns) =
        attemptsLeft t0 (circuitOf (circuit s) ns)"
      "length (filter isWrite es) = 1 \<longleftrightarrow> attemptsLeft t0 (circuitOf (circuit s) ns) > 0"
    using upsert_refused [OF assms(1,2) Cons.prems s'_def] by (elim exE conjE) (rule that)
  obtain es' where es': "effects (snd (run_state (upserts R C ns jsons) s')) = effects s' @ es'"
      "length (filter isWrite es') = min (length jsons) (attemptsLeft t0 (circuitOf (circuit s') ns))"
    using Cons.IH [OF es(2,3)] by blast
  have tail: "snd (run_state (upserts R C ns (json # jsons)) s) = snd (run_state (upserts R C ns jsons) s')"
    by (simp add: s'_def split: prod.split)
  have min_step: "f + min n a' = min (Suc n) a" if "f + a' = a" "f = 1 \<longleftrightarrow> a > 0" for f n a a' :: nat
    using that by arith
  have "length (filter isWrite (es @ es')) =
      min (length (json # jsons)) (attemptsLeft t0 (circuitOf (circuit s) ns))"
    using min_step [OF es(4,5)] es'(2) by simp
  then show ?case using tail es(1) es'(1) by (intro exI [of _ "es @ es'"]) simp
qed

text \<open>C11: while the API server refuses the writes of a namespace, however many updates are requested
  within thirty seconds, the operator attempts at most three: exactly three of them if there are
  that many, since the third refusal opens the circuit.\<close>

theorem refused_writes_bounded:
  assumes "refusesWrites C" "clockWithin C t0 (t0 + 30000000000)"
    and "circuitOf (circuit s) ns = Closed 0" "breakerInv (circuit s)"
  shows "length (filter isWrite (performed (upserts R C ns jsons) s)) = min (length jsons) 3"
proof -
  have open_ok: "openAfter (t0 + 30000000000) (circuitOf (circuit s) ns)" using assms(3) by simp
  show ?thesis
    using upserts_writes [OF assms(1,2,4) open_ok, of R jsons] assms(3)
    by (auto simp: performed_def)
qed

definition refusingClient :: "cluster client" where
  "refusingClient = memClient\<lparr>cl_CreateOrUpdate := (\<lambda>cm f w. (Inl (OtherApiError ''forbidden''), w)),
     cl_Now := (\<lambda>w. (7, w))\<rparr>"

theorem refused_writes_bounded_witness:
  "length (filter isWrite (performed (upserts (demoReconciler '''') refusingClient ''a''
     [''1'', ''2'', ''3'', ''4'', ''5'']) (demoState emptyCluster))) = 3"
proof -
  have refuse: "refusesWrites refusingClient" and clock: "clockWithin refusingClient 0 (0 + 30000000000)"
    by (simp_all add: refusesWrites_def clockWithin_def refusingClient_def)
  have closed: "circuitOf (circuit (demoState emptyCluster)) ''a'' = Closed 0"
    and inv: "breakerInv (circuit (demoState emptyCluster))"
    by (simp_all add: demoState_def breakerInv_new circuitOf_new)
  show ?thesis
    using refused_writes_bounded [OF refuse clock closed inv] by (simp del: upserts.simps)
qed

section \<open>An open circuit\<close>

text \<open>When the circuit of the operator's namespace is open, \<open>storeConfig\<close> writes no ConfigMap: it
  reports \<open>Ready=False\<close> with the reason \<open>ConfigMapCircuitOpen\<close> and asks to be run again after
  thirty seconds, without an error unless the status update fails.\<close>

lemma store_open_circuit:
  assumes "isConfigMapCircuitOpen (operatorNamespace R (om_Namespace (po_Meta p))) now (circuit s) = (Some u, b)"
    and "cl_Now C (world s) = (now, w)"
  shows "\<exists>msg p' r. p' = withReadyCondition K p ConditionFalse ''ConfigMapCircuitOpen'' msg \<and>
    performed (storeConfig R K C p json) s =
      ReadClock now # (if rc_Recorder R then [RecordEvent (om_Namespace (po_Meta p)) (om_Name (po_Meta p))
        EventTypeWarning ''ConfigMapCircuitOpen'' msg] else []) @ [PatchPoolStatus p p' r] \<and>
    fst (run_state (storeConfig R K C p json) s) =
      (30000000000, case r of Inl e \<Rightarrow> Some (Wrap ''update DNSUpstreamPool status: %w'' [] (ApiErr e)) | Inr _ \<Rightarrow> None)"
  by (rule exI [of _ "MErr (Wrap ''upsert configmap: %w'' [] (Wrap ''%w: namespace %q until %s''
        [AStr (operatorNamespace R (om_Namespace (po_Meta p))), AInt u] errConfigMapCircuitOpen))"])
    (auto simp: performed_def reconciler_defs run_simps assms Let_def split: prod.split sum.split)

lemma store_open_circuit_ex:
  "fst (fst (run_state (storeConfig (demoReconciler '''') refK8s memClient demoPool ''2'')
    ((demoState emptyCluster)\<lparr>circuit := \<lparr>br_FailureCounts = None, br_OpenUntil = Some [(''a'', 9)]\<rparr>\<rparr>))) = 30000000000"
proof -
  have "operatorNamespace (demoReconciler '''') (om_Namespace (po_Meta demoPool)) = ''a''"
    by (simp add: demo_defs)
  then have isopen: "isConfigMapCircuitOpen (operatorNamespace (demoReconciler '''') (om_Namespace (po_Meta demoPool))) 1
      (circuit ((demoState emptyCluster)\<lparr>circuit := \<lparr>br_FailureCounts = None, br_OpenUntil = Some [(''a'', 9)]\<rparr>\<rparr>)) =
    (Some 9, \<lparr>br_FailureCounts = Some [], br_OpenUntil = Some [(''a'', 9)]\<rparr>)"
    by (simp add: isConfigMapCircuitOpen_def ensureConfigMapCircuitState_def Let_def gm_get_def gm_make_def)
  have clock: "cl_Now memClient (world ((demoState emptyCluster)\<lparr>circuit := \<lparr>br_FailureCounts = None,
      br_OpenUntil = Some [(''a'', 9)]\<rparr>\<rparr>)) = (1, emptyCluster)"
    by (simp add: memClient_def demoState_def emptyCluster_def)
  show ?thesis
    using store_open_circuit [OF isopen clock, of refK8s "''2''"] by (elim exE conjE) simp
qed

end
