(* ===== verification/ApiServer.thy ===== *)
theory ApiServer
  imports PoolState PolicyEnforce
begin

text \<open>
  An API server that answers every request and whose pools, profiles and ConfigMaps nobody else
  changes, as a locale (\<open>api_server\<close>); and the two ways a reconcile of a stamped, valid pool ends on
  it: published, or superseded.  The server in memory is an instance.
\<close>

section \<open>The server\<close>

definition poolKey :: "pool \<Rightarrow> string \<times> string" where
  "poolKey p = metaKey (po_Meta p)"

definition poolsIn :: "string \<Rightarrow> pool list \<Rightarrow> pool list" where
  "poolsIn ns ps = filter (\<lambda>p. om_Namespace (po_Meta p) = ns) ps"

definition upsertBy :: "('a \<Rightarrow> 'k) \<Rightarrow> 'a \<Rightarrow> ('a \<Rightarrow> 'a) \<Rightarrow> 'a list \<Rightarrow> 'a list" where
  "upsertBy key x f xs =
     (if key x \<in> key ` set xs then map (\<lambda>y. if key y = key x then f y else y) xs else xs @ [f x])"

definition defaultProfileOf :: "string \<Rightarrow> profile list \<Rightarrow> profile option" where
  "defaultProfileOf ns prs = find (\<lambda>pr. metaKey (pr_Meta pr) = (ns, ''default'')) prs"

lemma select_other:
  assumes "p \<in> set items" "fst (selectFromPools items) \<noteq> poolName p"
  shows "snd (snd (selectFromPools items)) = ''oldest_pool''"
proof -
  obtain q qs where q: "sortPoolsForSelection items = q # qs" using assms(1) by (cases "sortPoolsForSelection items") auto
  then have "p \<in> set (q # qs)" using assms(1) set_sortPools [of items] by simp
  then have "qs \<noteq> []" using assms(2) q by (auto simp: selectFromPools_def)
  then show ?thesis using q by (simp add: selectFromPools_def)
qed

text \<open>The ConfigMaps after the configuration of a namespace was written.\<close>

definition publishedMap :: "poolReconciler \<Rightarrow> string \<Rightarrow> string \<Rightarrow> configMap list \<Rightarrow> configMap list" where
  "publishedMap R ns json =
     upsertBy cmKey \<lparr>cm_Name = resolvedAgentConfigMapName R, cm_Namespace = operatorNamespace R ns, cm_Data = None\<rparr>
       (mutateConfigMap (SetDataKey ''config.json'' json))"

locale api_server =
  fixes C :: "'w client" and pools :: "'w \<Rightarrow> pool list" and profs :: "'w \<Rightarrow> profile list"
    and cms :: "'w \<Rightarrow> configMap list"
  assumes get_pool: "cl_GetPool C ns n w = (lookupBy poolKey (ns, n) (pools w), w)"
    and list_pools: "cl_ListPools C ns w = (Inr (poolsIn ns (pools w)), w)"
    and patch_status: "\<exists>w'. cl_PatchPoolStatus C old new w = (Inr new, w') \<and>
      pools w' = replaceBy poolKey new (pools w) \<and> profs w' = profs w \<and> cms w' = cms w"
    and get_profile: "cl_GetProfile C ns ''default'' w =
      (case defaultProfileOf ns (profs w) of None \<Rightarrow> Inl NotFound | Some pr \<Rightarrow> Inr pr, w)"
    and upsert: "\<exists>w'. cl_CreateOrUpdate C cm f w = (Inr (), w') \<and>
      pools w' = pools w \<and> profs w' = profs w \<and> cms w' = upsertBy cmKey cm f (cms w)"
    and clock: "\<exists>t w'. cl_Now C w = (t, w') \<and> pools w' = pools w \<and> profs w' = profs w \<and> cms w' = cms w"
begin

text \<open>The two writes a reconcile ends with: the status and, behind the circuit, the ConfigMap.\<close>

lemma condition_run:
  "\<exists>s'. run_state (setReadyCondition K C p status reason msg) s = (None, s') \<and>
    pools (world s') = replaceBy poolKey (withReadyCondition K p status reason msg) (pools (world s)) \<and>
    profs (world s') = profs (world s) \<and> cms (world s') = cms (world s) \<and> circuit s' = circuit s"
proof -
  let ?p' = "withReadyCondition K p status reason msg"
  obtain w1 where w1: "cl_PatchPoolStatus C p ?p' (world s) = (Inr ?p', w1)" "pools w1 = replaceBy poolKey ?p' (pools (world s))"
    "profs w1 = profs (world s)" "cms w1 = cms (world s)" using patch_status by blast
  then show ?thesis by (auto simp: setReadyCondition_def run_simps Let_def)
qed

lemma upsert_run:
  assumes "circuitOf (circuit s) (operatorNamespace R ns) = Closed n"
  shows "\<exists>s'. run_state (upsertConfigMapWithCircuitBreaker R C (operatorNamespace R ns) json) s = (None, s') \<and>
    pools (world s') = pools (world s) \<and> profs (world s') = profs (world s) \<and>
    cms (world s') = publishedMap R ns json (cms (world s)) \<and> circuitOf (circuit s') (operatorNamespace R ns) = Closed 0"
proof -
  let ?ns = "operatorNamespace R ns"
  let ?cm = "\<lparr>cm_Name = resolvedAgentConfigMapName R, cm_Namespace = ?ns, cm_Data = None\<rparr>"
  obtain t w1 where w1: "cl_Now C (world s) = (t, w1)" "pools w1 = pools (world s)" "profs w1 = profs (world s)"
    "cms w1 = cms (world s)" using clock by blast
  obtain w2 where w2: "cl_CreateOrUpdate C ?cm (mutateConfigMap (SetDataKey ''config.json'' json)) w1 = (Inr (), w2)"
    "pools w2 = pools w1" "profs w2 = profs w1"
    "cms w2 = upsertBy cmKey ?cm (mutateConfigMap (SetDataKey ''config.json'' json)) (cms w1)"
    using upsert by blast
  obtain b where b: "isConfigMapCircuitOpen ?ns t (circuit s) = (None, b)"
    using isOpen_query [of ?ns t "circuit s"] assms by (cases "isConfigMapCircuitOpen ?ns t (circuit s)") simp
  show ?thesis
    using w1 w2 b
    by (auto simp: upsertConfigMapWithCircuitBreaker_def upsertConfigMap_def run_simps Let_def publishedMap_def circuitOf_reset)
qed

lemma store_run:
  assumes "circuitOf (circuit s) (operatorNamespace R (om_Namespace (po_Meta p))) = Closed n"
  shows "\<exists>s'. run_state (storeConfig R K C p json) s = ((0, None), s') \<and>
    pools (world s') = replaceBy poolKey (withReadyCondition K p ConditionTrue ''Ready''
      (MText ''Configuration rendered successfully'' [])) (pools (world s)) \<and>
    profs (world s') = profs (world s) \<and> cms (world s') = publishedMap R (om_Namespace (po_Meta p)) json (cms (world s)) \<and>
    circuitOf (circuit s') (operatorNamespace R (om_Namespace (po_Meta p))) = Closed 0"
proof -
  let ?p' = "withReadyCondition K p ConditionTrue ''Ready'' (MText ''Configuration rendered successfully'' [])"
  obtain s1 where s1: "run_state (upsertConfigMapWithCircuitBreaker R C (operatorNamespace R (om_Namespace (po_Meta p))) json) s = (None, s1)"
    "pools (world s1) = pools (world s)" "profs (world s1) = profs (world s)"
    "cms (world s1) = publishedMap R (om_Namespace (po_Meta p)) json (cms (world s))"
    "circuitOf (circuit s1) (operatorNamespace R (om_Namespace (po_Meta p))) = Closed 0"
    using upsert_run [OF assms, of json] by blast
  define s2 where "s2 = snd (run_state (recordPoolEvent R p EventTypeNormal ''ConfigRendered'' (MText ''Rendered engine configuration'' [])) s1)"
  have s2: "world s2 = world s1" "circuit s2 = circuit s1" by (simp_all add: s2_def recordPoolEvent_def run_simps)
  obtain s3 where s3: "run_state (setReadyCondition K C p ConditionTrue ''Ready'' (MText ''Configuration rendered successfully'' [])) s2 = (None, s3)"
    "pools (world s3) = replaceBy poolKey ?p' (pools (world s2))" "profs (world s3) = profs (world s2)"
    "cms (world s3) = cms (world s2)" "circuit s3 = circuit s2"
    using condition_run by blast
  show ?thesis
    using s1 s2 s3 by (auto simp: storeConfig_def run_simps Let_def s2_def [symmetric] case_prod_unfold)
qed

lemma fail_run:
  "\<exists>s'. run_state (failPool R K C p reason msg res) s = (res, s') \<and>
    pools (world s') = replaceBy poolKey (withReadyCondition K p ConditionFalse reason msg) (pools (world s)) \<and>
    profs (world s') = profs (world s) \<and> cms (world s') = cms (world s) \<and> circuit s' = circuit s"
proof -
  define s1 where "s1 = snd (run_state (recordPoolEvent R p EventTypeWarning reason msg) s)"
  have s1: "world s1 = world s" "circuit s1 = circuit s" by (simp_all add: s1_def recordPoolEvent_def run_simps)
  show ?thesis
    using condition_run [of K p ConditionFalse reason msg s1] s1
    by (auto simp: failPool_def run_simps Let_def s1_def [symmetric] case_prod_unfold)
qed

text \<open>The start of a reconcile of a pool that is stamped and valid.\<close>

lemma start_run:
  assumes "rc_ConfigGen R = Some gen" "rc_ConfigRenderer R = Some render"
    and "p \<in> set (pools (world s))" "distinct (map poolKey (pools (world s)))"
    and "gm_get (om_Annotations (po_Meta p)) initialRVAnnotation \<noteq> None" "validateDNSUpstreamPool K (Some p) = None"
  shows "\<exists>s1. world s1 = world s \<and> circuit s1 = circuit s \<and>
    run_state (reconcilePool R K C (om_Namespace (po_Meta p)) (poolName p)) s =
      run_state (if snd (snd (selectFromPools (poolsIn (om_Namespace (po_Meta p)) (pools (world s))))) = ''oldest_pool'' \<and>
          poolName p \<noteq> fst (selectFromPools (poolsIn (om_Namespace (po_Meta p)) (pools (world s))))
        then failPool R K C p ''Superseded'' (MText ''pool %q is active in this namespace''
          [AStr (fst (selectFromPools (poolsIn (om_Namespace (po_Meta p)) (pools (world s)))))]) (0, None)
        else buildConfig R gen render K C p) s1"
proof -
  have key: "poolKey p = (om_Namespace (po_Meta p), poolName p)" by (simp add: poolKey_def metaKey_def)
  have get: "cl_GetPool C (om_Namespace (po_Meta p)) (poolName p) (world s) = (Inr p, world s)"
    using lookupBy_Inr [OF assms(4,3)] by (simp add: get_pool key)
  obtain active cnt reason where sel: "selectFromPools (poolsIn (om_Namespace (po_Meta p)) (pools (world s))) = (active, cnt, reason)"
    by (cases "selectFromPools (poolsIn (om_Namespace (po_Meta p)) (pools (world s)))") auto
  have cnt: "cnt > 1 \<longleftrightarrow> reason = ''oldest_pool''"
    using sel by (auto simp: selectFromPools_def split: list.splits if_splits)
  obtain calls m where m: "recordActivePoolSelectionMetric (om_Namespace (po_Meta p)) active reason (metric s) = (calls, m)"
    by force
  show ?thesis
    using assms(1,2,5,6) m
    by (intro exI [of _ "s\<lparr>metric := m, effects := effects s @ [GetPool (om_Namespace (po_Meta p)) (poolName p) (Inr p),
        ListPools (om_Namespace (po_Meta p)) (Inr (poolsIn (om_Namespace (po_Meta p)) (pools (world s))))] @ map Gauge calls\<rparr>"])
      (simp add: reconcilePool_def ensureInitialRVAnnotation_def reconcileValidPool_def selectActivePoolName_def
        run_simps get list_pools sel cnt)
qed

lemma publish_run:
  assumes "rc_ConfigGen R = Some gen" "rc_ConfigRenderer R = Some render"
    and "p \<in> set (pools (world s))" "distinct (map poolKey (pools (world s)))"
    and "gm_get (om_Annotations (po_Meta p)) initialRVAnnotation \<noteq> None" "validateDNSUpstreamPool K (Some p) = None"
    and "fst (selectFromPools (poolsIn (om_Namespace (po_Meta p)) (pools (world s)))) = poolName p"
    and "buildsConfig R gen render p (defaultProfileOf (om_Namespace (po_Meta p)) (profs (world s))) json"
    and "circuitOf (circuit s) (operatorNamespace R (om_Namespace (po_Meta p))) = Closed n"
  shows "\<exists>s'. run_state (reconcilePool R K C (om_Namespace (po_Meta p)) (poolName p)) s = ((0, None), s') \<and>
    pools (world s') = replaceBy poolKey (withReadyCondition K p ConditionTrue ''Ready''
      (MText ''Configuration rendered successfully'' [])) (pools (world s)) \<and>
    profs (world s') = profs (world s) \<and> cms (world s') = publishedMap R (om_Namespace (po_Meta p)) json (cms (world s)) \<and>
    circuitOf (circuit s') (operatorNamespace R (om_Namespace (po_Meta p))) = Closed 0"
proof -
  obtain s1 where s1: "world s1 = world s" "circuit s1 = circuit s"
    "run_state (reconcilePool R K C (om_Namespace (po_Meta p)) (poolName p)) s = run_state (buildConfig R gen render K C p) s1"
    using start_run [OF assms(1-6)] assms(7) by auto
  define r where "r = (case defaultProfileOf (om_Namespace (po_Meta p)) (profs (world s)) of None \<Rightarrow> Inl NotFound | Some pr \<Rightarrow> Inr pr)"
  define s2 where "s2 = s1\<lparr>world := world s, effects := effects s1 @ [GetProfile (om_Namespace (po_Meta p)) ''default'' r]\<rparr>"
  have s2: "world s2 = world s" "circuit s2 = circuit s" by (simp_all add: s2_def s1)
  obtain cfg out where cfg: "gen (Some p) (defaultProfileOf (om_Namespace (po_Meta p)) (profs (world s))) = Inr cfg"
    "render (Some cfg) = Inr out" "rc_MarshalIndent R cfg = Inr json" "validateConfigMapPayloadSize json = None"
    using assms(8) unfolding buildsConfig_def validateSize_None by blast
  have "run_state (buildConfig R gen render K C p) s1 = run_state (storeConfig R K C p json) s2"
    using cfg
    by (cases "defaultProfileOf (om_Namespace (po_Meta p)) (profs (world s))")
      (simp_all add: buildConfig_def getDefaultCacheProfile_def renderAndStore_def run_simps get_profile s1 isNotFound_def r_def s2_def)
  then show ?thesis
    using store_run [of s2 R p n K json] assms(9) s1(3) s2 by simp
qed

lemma superseded_run:
  assumes "rc_ConfigGen R = Some gen" "rc_ConfigRenderer R = Some render"
    and "p \<in> set (pools (world s))" "distinct (map poolKey (pools (world s)))"
    and "gm_get (om_Annotations (po_Meta p)) initialRVAnnotation \<noteq> None" "validateDNSUpstreamPool K (Some p) = None"
    and "active = fst (selectFromPools (poolsIn (om_Namespace (po_Meta p)) (pools (world s))))" "active \<noteq> poolName p"
  shows "\<exists>s'. run_state (reconcilePool R K C (om_Namespace (po_Meta p)) (poolName p)) s = ((0, None), s') \<and>
    pools (world s') = replaceBy poolKey (withReadyCondition K p ConditionFalse ''Superseded''
      (MText ''pool %q is active in this namespace'' [AStr active])) (pools (world s)) \<and>
    profs (world s') = profs (world s) \<and> cms (world s') = cms (world s) \<and> circuit s' = circuit s"
proof -
  have "p \<in> set (poolsIn (om_Namespace (po_Meta p)) (pools (world s)))" using assms(3) by (simp add: poolsIn_def)
  then have "snd (snd (selectFromPools (poolsIn (om_Namespace (po_Meta p)) (pools (world s))))) = ''oldest_pool''"
    using assms(7,8) by (intro select_other) simp_all
  then obtain s1 where s1: "world s1 = world s" "circuit s1 = circuit s"
    "run_state (reconcilePool R K C (om_Namespace (po_Meta p)) (poolName p)) s =
      run_state (failPool R K C p ''Superseded'' (MText ''pool %q is active in this namespace'' [AStr active]) (0, None)) s1"
    using start_run [OF assms(1-6)] assms(7,8) by auto
  show ?thesis
    using fail_run [of R K p "''Superseded''" "MText ''pool %q is active in this namespace'' [AStr active]" "(0, None)" s1]
    unfolding s1 .
qed

end

section \<open>The server in memory\<close>

lemma find_key: "find (\<lambda>c. key c = key x) xs = None \<longleftrightarrow> key x \<notin> key ` set xs"
  by (auto simp: find_None_iff) (metis imageI)

interpretation mem: api_server memClient mc_Pools mc_Profiles mc_ConfigMaps
proof unfold_locales
  fix ns n w
  show "cl_GetPool memClient ns n w = (lookupBy poolKey (ns, n) (mc_Pools w), w)"
    by (simp add: memClient_def lookupBy_def poolKey_def)
  show "cl_ListPools memClient ns w = (Inr (poolsIn ns (mc_Pools w)), w)"
    by (simp add: memClient_def poolsIn_def)
  show "cl_GetProfile memClient ns ''default'' w =
      (case defaultProfileOf ns (mc_Profiles w) of None \<Rightarrow> Inl NotFound | Some pr \<Rightarrow> Inr pr, w)"
    by (simp add: memClient_def lookupBy_def defaultProfileOf_def)
next
  fix old new w
  show "\<exists>w'. cl_PatchPoolStatus memClient old new w = (Inr new, w') \<and>
      mc_Pools w' = replaceBy poolKey new (mc_Pools w) \<and> mc_Profiles w' = mc_Profiles w \<and> mc_ConfigMaps w' = mc_ConfigMaps w"
    by (simp add: memClient_def replaceBy_def poolKey_def)
next
  fix cm f w
  show "\<exists>w'. cl_CreateOrUpdate memClient cm f w = (Inr (), w') \<and>
      mc_Pools w' = mc_Pools w \<and> mc_Profiles w' = mc_Profiles w \<and> mc_ConfigMaps w' = upsertBy cmKey cm f (mc_ConfigMaps w)"
    using find_key [of cmKey cm "mc_ConfigMaps w"]
    by (auto simp: memClient_def upsertBy_def split: option.split)
next
  fix w
  show "\<exists>t w'. cl_Now memClient w = (t, w') \<and> mc_Pools w' = mc_Pools w \<and> mc_Profiles w' = mc_Profiles w \<and>
      mc_ConfigMaps w' = mc_ConfigMaps w"
    by (simp add: memClient_def)
qed

end
