(* ===== verification/PoolBehaviour.thy ===== *)
theory PoolBehaviour
  imports PoolState
begin

text \<open>
  Whole reconciles of a live pool on the branches that report and stop: an invalid pool, and one that
  is not selected.
\<close>

section \<open>Branches that report and stop\<close>

text \<open>The event of a report, where a recorder is configured.\<close>

definition warningOf :: "poolReconciler \<Rightarrow> pool \<Rightarrow> string \<Rightarrow> message \<Rightarrow> effect list" where
  "warningOf R p reason msg =
     (if rc_Recorder R then [RecordEvent (om_Namespace (po_Meta p)) (om_Name (po_Meta p)) EventTypeWarning reason msg]
      else [])"

definition statusError :: "(apiError + pool) \<Rightarrow> goError option" where
  "statusError r = (case r of Inl e \<Rightarrow> Some (Wrap ''update DNSUpstreamPool status: %w'' [] (ApiErr e)) | Inr _ \<Rightarrow> None)"

lemma run_failPool:
  "\<exists>r w. run_state (failPool R K C p reason msg (0, None)) s =
     ((0, statusError r), s\<lparr>world := w, effects := effects s @ warningOf R p reason msg @
        [PatchPoolStatus p (withReadyCondition K p ConditionFalse reason msg) r]\<rparr>)"
  by (auto simp: failPool_def setReadyCondition_def recordPoolEvent_def warningOf_def statusError_def
      run_simps Let_def split: prod.split sum.split)

text \<open>A pool that fails validation is reported \<open>Ready=False\<close> with reason \<open>InvalidSpec\<close> and the
  validation error, and nothing else happens: no pool is listed, nothing is stored, no retry.\<close>

lemma invalid_pool_reported:
  assumes "rc_ConfigGen R = Some gen" "rc_ConfigRenderer R = Some render"
    and "cl_GetPool C ns name (world s) = (Inr p, w)"
    and "gm_get (om_Annotations (po_Meta p)) initialRVAnnotation \<noteq> None"
    and "validateDNSUpstreamPool K (Some p) = Some e"
  shows "\<exists>r. performed (reconcilePool R K C ns name) s =
      GetPool ns name (Inr p) # warningOf R p ''InvalidSpec'' (MErr e) @
        [PatchPoolStatus p (withReadyCondition K p ConditionFalse ''InvalidSpec'' (MErr e)) r] \<and>
    fst (run_state (reconcilePool R K C ns name) s) = (0, statusError r)"
proof -
  obtain r w' where r: "run_state (failPool R K C p ''InvalidSpec'' (MErr e) (0, None))
      (s\<lparr>world := w, effects := effects s @ [GetPool ns name (Inr p)]\<rparr>) =
     ((0, statusError r), s\<lparr>world := w', effects := (effects s @ [GetPool ns name (Inr p)]) @
        warningOf R p ''InvalidSpec'' (MErr e) @
        [PatchPoolStatus p (withReadyCondition K p ConditionFalse ''InvalidSpec'' (MErr e)) r]\<rparr>)"
    using run_failPool [of R K C p "''InvalidSpec''" "MErr e"
        "s\<lparr>world := w, effects := effects s @ [GetPool ns name (Inr p)]\<rparr>"] by auto
  have "run_state (reconcilePool R K C ns name) s =
     ((0, statusError r), s\<lparr>world := w', effects := (effects s @ [GetPool ns name (Inr p)]) @
        warningOf R p ''InvalidSpec'' (MErr e) @
        [PatchPoolStatus p (withReadyCondition K p ConditionFalse ''InvalidSpec'' (MErr e)) r]\<rparr>)"
    using assms r by (simp add: reconcilePool_def ensureInitialRVAnnotation_def run_simps)
  then show ?thesis by (intro exI [of _ r]) (simp add: performed_def)
qed

definition badPool :: pool where
  "badPool = stampInitialRV (samplePool ''a'' ''bad'' [])"

lemma badPool_invalid: "validateDNSUpstreamPool refK8s (Some badPool) =
    Some (Errorf ''spec.upstreams must contain at least one upstream'' [])"
  by (simp add: badPool_def stampInitialRV_def samplePool_def validateDNSUpstreamPool_def)

lemma badPool_meta: "po_Meta badPool = (plainMeta ''a'' ''bad'')\<lparr>om_Annotations := Some [(initialRVAnnotation, ''7'')]\<rparr>"
  by (simp add: badPool_def stampInitialRV_def samplePool_def plainMeta_def gm_set_def gm_make_def)

lemma invalid_pool_reported_ex:
  "length (performed (reconcilePool (demoReconciler '''') refK8s memClient ''a'' ''bad'') (demoState (demoCluster [badPool]))) = 2"
proof -
  have get: "cl_GetPool memClient ''a'' ''bad'' (world (demoState (demoCluster [badPool]))) =
      (Inr badPool, demoCluster [badPool])"
    by (simp add: memClient_def lookupBy_def metaKey_def demoState_def demoCluster_def badPool_meta plainMeta_def)
  have stamped: "gm_get (om_Annotations (po_Meta badPool)) initialRVAnnotation \<noteq> None"
    by (simp add: badPool_meta gm_get_def gm_make_def)
  have quiet: "\<not> rc_Recorder (demoReconciler '''')" by (simp add: demoReconciler_def)
  show ?thesis
    using invalid_pool_reported [OF demo_components [of "''''"] get stamped badPool_invalid] quiet
    by (auto simp: warningOf_def)
qed

text \<open>A valid pool that is not selected is reported superseded and stores nothing.\<close>

lemma superseded_pool_reported:
  assumes "rc_ConfigGen R = Some gen" "rc_ConfigRenderer R = Some render"
    and "cl_GetPool C ns name (world s) = (Inr p, w)"
    and "gm_get (om_Annotations (po_Meta p)) initialRVAnnotation \<noteq> None"
    and "validateDNSUpstreamPool K (Some p) = None"
    and "cl_ListPools C (om_Namespace (po_Meta p)) w = (Inr items, w2)"
    and "length items > 1" "poolName p \<noteq> fst (selectFromPools items)"
  shows "\<exists>r calls. performed (reconcilePool R K C ns name) s =
      [GetPool ns name (Inr p), ListPools (om_Namespace (po_Meta p)) (Inr items)] @ map Gauge calls @
      warningOf R p ''Superseded'' (MText ''pool %q is active in this namespace'' [AStr (fst (selectFromPools items))]) @
        [PatchPoolStatus p (withReadyCondition K p ConditionFalse ''Superseded''
          (MText ''pool %q is active in this namespace'' [AStr (fst (selectFromPools items))])) r] \<and>
    fst (run_state (reconcilePool R K C ns name) s) = (0, statusError r)"
proof -
  obtain a n reason where sel: "selectFromPools items = (a, n, reason)" by (cases "selectFromPools items") auto
  then have n: "n > 1" "poolName p \<noteq> a" using assms(7,8) selectFromPools_count [of items] by auto
  obtain calls m where m: "recordActivePoolSelectionMetric (om_Namespace (po_Meta p)) a reason (metric s) = (calls, m)"
    by force
  define msg where "msg = MText ''pool %q is active in this namespace'' [AStr a]"
  define s1 where "s1 = s\<lparr>world := w2, metric := m, effects := effects s @ [GetPool ns name (Inr p),
      ListPools (om_Namespace (po_Meta p)) (Inr items)] @ map Gauge calls\<rparr>"
  obtain r w' where r: "run_state (failPool R K C p ''Superseded'' msg (0, None)) s1 =
     ((0, statusError r), s1\<lparr>world := w', effects := effects s1 @ warningOf R p ''Superseded'' msg @
        [PatchPoolStatus p (withReadyCondition K p ConditionFalse ''Superseded'' msg) r]\<rparr>)"
    using run_failPool [of R K C p "''Superseded''" msg s1] by auto
  have "run_state (reconcilePool R K C ns name) s = run_state (failPool R K C p ''Superseded'' msg (0, None)) s1"
    using assms n m sel by (simp add: reconcilePool_def reconcileValidPool_def selectActivePoolName_def
        ensureInitialRVAnnotation_def run_simps s1_def msg_def)
  then show ?thesis
    using sel r by (intro exI [of _ r] exI [of _ calls]) (simp add: performed_def s1_def msg_def)
qed

definition latePool :: pool where
  "latePool = (stampInitialRV demoPool)\<lparr>po_Meta := (plainMeta ''a'' ''p'')\<lparr>om_CreationTimestamp := 6,
     om_Annotations := Some [(initialRVAnnotation, ''8'')]\<rparr>\<rparr>"

lemma latePool_valid: "validateDNSUpstreamPool K (Some latePool) = None"
  by (rule demo_valid) (simp add: latePool_def stampInitialRV_def)

lemma latePool_meta: "po_Meta latePool = (plainMeta ''a'' ''p'')\<lparr>om_CreationTimestamp := 6,
     om_Annotations := Some [(initialRVAnnotation, ''8'')]\<rparr>"
  by (simp add: latePool_def)

lemma select_bad: "selectFromPools [badPool, latePool] = (''bad'', 2, ''oldest_pool'')"
  by (simp add: selectFromPools_def sortPoolsForSelection_def insertionSort_def poolLess_def
      badPool_meta latePool_meta plainMeta_def)

lemma bad_cluster: 
  "cl_GetPool memClient ''a'' ''p'' (demoCluster [badPool, latePool]) = (Inr latePool, demoCluster [badPool, latePool])"
  "cl_GetPool memClient ''a'' ''bad'' (demoCluster [badPool, latePool]) = (Inr badPool, demoCluster [badPool, latePool])"
  "cl_ListPools memClient ''a'' (demoCluster [badPool, latePool]) = (Inr [badPool, latePool], demoCluster [badPool, latePool])"
  by (simp_all add: memClient_def lookupBy_def metaKey_def demoCluster_def badPool_meta latePool_meta plainMeta_def)

end
