(* ===== verification/PoolFindings.thy ===== *)
theory PoolFindings
  imports PoolBehaviour
begin

text \<open>
  Two lemmas on what the code does where the comments promise something else or nothing: an open circuit
  after a deletion, on any server, and an oldest pool that fails the validation, on a cluster in memory.
\<close>

section \<open>After a deletion\<close>

text \<open>When the circuit is open while the configuration is rebuilt after a deletion, nothing is
  written, the pool left is reported \<open>ConfigMapCircuitOpen\<close>, and the reconcile ends without error
  and without asking to be run again, unlike \<open>Reconcile\<close> on a live pool.\<close>

lemma deletion_open_circuit_not_retried:
  assumes "rc_ConfigGen R = Some gen" "rc_ConfigRenderer R = Some render"
    and "cl_GetPool C ns name (world s) = (Inl NotFound, w1)"
    and "cl_ListPools C ns w1 = (Inr items, w2)" "sortPoolsForSelection items = p # ps"
    and "cl_GetProfile C ns ''default'' w2 = (Inl NotFound, w3)"
    and "buildsConfig R gen render p None json"
    and "cl_Now C w3 = (now, w4)"
    and "isConfigMapCircuitOpen (operatorNamespace R ns) now (circuit s) = (Some u, b)"
  shows "\<exists>r. fst (run_state (reconcilePool R K C ns name) s) =
      (0, map_option (\<lambda>e. Wrap ''regenerate config after delete: %w'' [] (Wrap ''update circuit-open pool status: %w'' [] e))
        (statusError r)) \<and>
    filter isWrite (performed (reconcilePool R K C ns name) s) = []"
proof -
  obtain cfg out where c: "gen (Some p) None = Inr cfg" "render (Some cfg) = Inr out" "rc_MarshalIndent R cfg = Inr json"
    "validateConfigMapPayloadSize json = None"
    using assms(7) by (auto simp: buildsConfig_def validateSize_None)
  obtain calls m where m: "recordActivePoolSelectionMetric ns (poolName p)
      (if length (p # ps) > 1 then ''oldest_pool'' else ''single_pool'') (metric s) = (calls, m)" by force
  have gauge: "filter isWrite (map Gauge calls) = []" by (simp add: filter_empty_conv)
  define e where "e = Wrap ''%w: namespace %q until %s'' [AStr (operatorNamespace R ns), AInt u] errConfigMapCircuitOpen"
  have circ: "errorsIs e errConfigMapCircuitOpen" by (simp add: e_def)
  obtain r w5 where r: "cl_PatchPoolStatus C p (withReadyCondition K p ConditionFalse ''ConfigMapCircuitOpen'' (MErr e)) w4 = (r, w5)"
    by force
  show ?thesis
    using assms(1-6,8,9) c m gauge r circ
    by (intro exI [of _ r])
      (simp add: performed_def reconcilePool_def reconcileAfterPoolDeletion_def rebuildForPool_def
        rebuildWithProfile_def getDefaultCacheProfile_def upsertConfigMapWithCircuitBreaker_def
        setReadyCondition_def recordPoolEvent_def run_simps isNotFound_def e_def [symmetric] Let_def statusError_def
        split: sum.split)
qed

definition openState :: "cluster poolSys" where
  "openState = (demoState (demoCluster [demoStored]))\<lparr>circuit :=
     \<lparr>br_FailureCounts = None, br_OpenUntil = Some [(''a'', 9)]\<rparr>\<rparr>"

lemma demo_builds_stored: "buildsConfig (demoReconciler e) (Generate 4) (unbound_Render plainTemplates 4) demoStored None ''2''"
proof -
  obtain c where "Generate 4 (Some demoStored) None = Inr c"
    "unbound_Render plainTemplates 4 (Some c) = Inr ''unbound.conf''" "length (ec_Upstreams c) = 2"
    using demo_builds [of "[''1.1.1.1'', ''9.9.9.9'']" demoStored "''a''" "''p''" None]
    by (auto simp: demoPool_def demoStored_def stampInitialRV_def)
  then show ?thesis by (simp add: buildsConfig_def demoReconciler_def)
qed

lemma demoStored_meta: "po_Meta demoStored = (plainMeta ''a'' ''p'')\<lparr>om_Annotations := Some [(initialRVAnnotation, ''7'')]\<rparr>"
  by (simp add: demoStored_def stampInitialRV_def demo_meta plainMeta_def gm_set_def gm_make_def)

lemma deletion_open_circuit_not_retried_ex:
  "\<exists>r. fst (run_state (reconcilePool (demoReconciler '''') refK8s memClient ''a'' ''gone'') openState) =
      (0, map_option (\<lambda>e. Wrap ''regenerate config after delete: %w'' [] (Wrap ''update circuit-open pool status: %w'' [] e))
        (statusError r))"
proof -
  have get: "cl_GetPool memClient ''a'' ''gone'' (world openState) = (Inl NotFound, demoCluster [demoStored])"
    by (simp add: memClient_def lookupBy_def metaKey_def openState_def demoState_def demoCluster_def demoStored_meta plainMeta_def)
  have list: "cl_ListPools memClient ''a'' (demoCluster [demoStored]) = (Inr [demoStored], demoCluster [demoStored])"
    by (simp add: memClient_def demoCluster_def demoStored_meta plainMeta_def)
  have prof: "cl_GetProfile memClient ''a'' ''default'' (demoCluster [demoStored]) = (Inl NotFound, demoCluster [demoStored])"
    by (simp add: memClient_def lookupBy_def demoCluster_def emptyCluster_def)
  have clock: "cl_Now memClient (demoCluster [demoStored]) = (1, demoCluster [demoStored])"
    by (simp add: memClient_def demoCluster_def emptyCluster_def)
  have isopen: "isConfigMapCircuitOpen (operatorNamespace (demoReconciler '''') ''a'') 1 (circuit openState) =
      (Some 9, \<lparr>br_FailureCounts = Some [], br_OpenUntil = Some [(''a'', 9)]\<rparr>)"
    by (simp add: openState_def demo_defs)
  show ?thesis
    using deletion_open_circuit_not_retried [OF demo_components get list sortPools_single prof
        demo_builds_stored clock isopen, of refK8s] by blast
qed

section \<open>An invalid oldest pool\<close>

text \<open>A pool that fails validation still takes part in the selection: while it is the oldest of
  its namespace, reconciling it reports \<open>InvalidSpec\<close>, reconciling the valid pool reports
  \<open>Superseded\<close>, and the namespace has no configuration.\<close>

lemma invalid_oldest_blocks:
  "filter isWrite (effects (snd (run_state (reconcilePool (demoReconciler '''') refK8s memClient ''a'' ''p'')
     (snd (run_state (reconcilePool (demoReconciler '''') refK8s memClient ''a'' ''bad'')
       (demoState (demoCluster [badPool, latePool]))))))) = [] \<and>
   validateDNSUpstreamPool refK8s (Some latePool) = None"
proof -
  have s: "po_Meta (withReadyCondition K p st r msg) = po_Meta p" for K p st r msg
    by (simp add: withReadyCondition_def)
  have sel: "selectFromPools [withReadyCondition K badPool st r msg, latePool] = (''bad'', 2, ''oldest_pool'')" for K st r msg
    by (simp add: selectFromPools_def sortPoolsForSelection_def insertionSort_def poolLess_def
        badPool_meta latePool_meta plainMeta_def s)
  note demo' = demoReconciler_def demoState_def demoCluster_def emptyCluster_def memClient_def
    lookupBy_def replaceBy_def metaKey_def plainMeta_def recordActivePoolSelectionMetric_def lit_simps trimSpace_alnum
    gm_get_def gm_index_def gm_set_def gm_make_def Let_def
  show ?thesis
    unfolding reconciler_defs
    by (simp add: latePool_valid badPool_invalid run_simps demo' s sel badPool_meta latePool_meta)
qed

end
