(* ===== verification/Converge.thy ===== *)
theory Converge
  imports ApiServer PoolFindings
begin

text \<open>
  A namespace settles: once each of its pools has been reconciled, in any order and however often, the
  ConfigMap holds the configuration of the selected pool and exactly this pool is ready.
\<close>

section \<open>What a status update keeps\<close>

lemma sift_rel:
  assumes "\<And>a b c d. R a c \<Longrightarrow> R b d \<Longrightarrow> lt a b = lt c d" "R x y" "list_all2 R xs ys"
  shows "list_all2 R (sift lt x xs) (sift lt y ys)"
  using assms(3)
proof (induction rule: list_all2_induct)
  case (Cons a as b bs)
  then show ?case using assms(1) [OF assms(2) Cons(1)] assms(2) by simp
qed (use assms(2) in simp)

lemma insertionSort_rel:
  assumes "\<And>a b c d. R a c \<Longrightarrow> R b d \<Longrightarrow> lt a b = lt c d" "list_all2 R xs ys"
  shows "list_all2 R (insertionSort lt xs) (insertionSort lt ys)"
proof -
  have "list_all2 R (fold (sift lt) xs as) (fold (sift lt) ys bs)" if "list_all2 R as bs" for as bs
    using assms(2) that
  proof (induction xs ys arbitrary: as bs rule: list_all2_induct)
    case (Cons a xs b ys as bs)
    have "list_all2 R (sift lt a as) (sift lt b bs)"
      using sift_rel [of R lt a b as bs] assms(1) Cons.hyps(1) Cons.prems by blast
    then show ?case using Cons.IH by simp
  qed simp
  then show ?thesis by (simp add: insertionSort_def)
qed

definition samePool :: "pool \<Rightarrow> pool \<Rightarrow> bool" where
  "samePool p q \<longleftrightarrow> po_Meta q = po_Meta p \<and> po_Spec q = po_Spec p"

lemma samePool_ready: "samePool p (withReadyCondition K p st r msg)"
  by (simp add: samePool_def withReadyCondition_def)

lemma samePool_trans: "samePool p q \<Longrightarrow> samePool q r \<Longrightarrow> samePool p r"
  by (simp add: samePool_def)

lemma select_same: "list_all2 samePool xs ys \<Longrightarrow> selectFromPools ys = selectFromPools xs"
proof -
  assume "list_all2 samePool xs ys"
  then have "list_all2 samePool (sortPoolsForSelection xs) (sortPoolsForSelection ys)"
    unfolding sortPoolsForSelection_def
    by (rule insertionSort_rel [rotated]) (simp add: samePool_def poolLess_def initialRV_def)
  then show ?thesis
    by (cases "sortPoolsForSelection xs"; cases "sortPoolsForSelection ys")
      (auto simp: selectFromPools_def samePool_def dest: list_all2_lengthD)
qed

lemma poolsIn_same: "list_all2 samePool xs ys \<Longrightarrow> list_all2 samePool (poolsIn ns xs) (poolsIn ns ys)"
  by (induction rule: list_all2_induct) (auto simp: poolsIn_def samePool_def)

lemma keys_same: "list_all2 samePool xs ys \<Longrightarrow> map poolKey ys = map poolKey xs"
  by (induction rule: list_all2_induct) (auto simp: poolKey_def samePool_def)

lemma names_same: "list_all2 samePool xs ys \<Longrightarrow> map poolName ys = map poolName xs"
  by (induction rule: list_all2_induct) (auto simp: samePool_def)

lemma valid_same: "samePool p q \<Longrightarrow> validateDNSUpstreamPool K (Some q) = None \<longleftrightarrow> validateDNSUpstreamPool K (Some p) = None"
  by (simp add: validateDNSUpstreamPool_iff samePool_def)

lemma builds_same: "samePool p q \<Longrightarrow> buildsConfig R (Generate cpus) render q prof json \<longleftrightarrow> buildsConfig R (Generate cpus) render p prof json"
  by (simp add: buildsConfig_def Generate_def samePool_def Let_def)

text \<open>Replacing a pool by itself with another status.\<close>

lemma replace_same:
  assumes "distinct (map poolKey ps)" "p \<in> set ps" "samePool p p'"
  shows "list_all2 samePool ps (replaceBy poolKey p' ps)"
    "q \<in> set (replaceBy poolKey p' ps) \<longleftrightarrow> q = p' \<or> q \<in> set ps \<and> poolKey q \<noteq> poolKey p"
proof -
  have key: "poolKey p' = poolKey p" using assms(3) by (simp add: samePool_def poolKey_def)
  have "y = p" if "y \<in> set ps" "poolKey y = poolKey p" for y
    using assms(1,2) that by (auto simp: distinct_map inj_on_def)
  then have "samePool y (if poolKey y = poolKey p' then p' else y)" if "y \<in> set ps" for y
    using that assms(3) key by (auto simp: samePool_def)
  then show "list_all2 samePool ps (replaceBy poolKey p' ps)"
    by (auto simp: replaceBy_def list_all2_map2 list_all2_same)
  show "q \<in> set (replaceBy poolKey p' ps) \<longleftrightarrow> q = p' \<or> q \<in> set ps \<and> poolKey q \<noteq> poolKey p"
    using assms(2) key by (auto simp: replaceBy_def image_iff)
qed

text \<open>A pool listed before is still there, with what the specification promised.\<close>

lemma pool_again:
  assumes "list_all2 samePool ps qs" "name \<in> poolName ` set (poolsIn ns ps)"
    and "\<forall>q \<in> set (poolsIn ns ps). gm_get (om_Annotations (po_Meta q)) initialRVAnnotation \<noteq> None \<and>
      validateDNSUpstreamPool K (Some q) = None \<and>
      (poolName q = active \<longrightarrow> buildsConfig R (Generate cpus) render q prof json)"
  shows "\<exists>p \<in> set qs. om_Namespace (po_Meta p) = ns \<and> poolName p = name \<and>
      gm_get (om_Annotations (po_Meta p)) initialRVAnnotation \<noteq> None \<and> validateDNSUpstreamPool K (Some p) = None \<and>
      (name = active \<longrightarrow> buildsConfig R (Generate cpus) render p prof json)"
proof -
  obtain q where q: "q \<in> set ps" "om_Namespace (po_Meta q) = ns" "poolName q = name"
    using assms(2) by (auto simp: poolsIn_def)
  then obtain p where p: "p \<in> set qs" "samePool q p"
    using assms(1) by (metis list_all2_conv_all_nth in_set_conv_nth)
  have "q \<in> set (poolsIn ns ps)" using q by (simp add: poolsIn_def)
  then show ?thesis
    using p q assms(3) valid_same [OF p(2), of K] builds_same [OF p(2)] by (intro bexI [of _ p]) (auto simp: samePool_def)
qed

section \<open>Reconciling pool after pool\<close>

fun reconcileEach ::
    "poolReconciler \<Rightarrow> k8s \<Rightarrow> 'w client \<Rightarrow> string \<Rightarrow> string list \<Rightarrow> ('w poolSys, reconcileResult list) state" where
  "reconcileEach R K C ns [] = State_Monad.return []"
| "reconcileEach R K C ns (n # names) = do {
     r \<leftarrow> reconcilePool R K C ns n;
     rs \<leftarrow> reconcileEach R K C ns names;
     State_Monad.return (r # rs)
   }"

definition publishes :: "poolReconciler \<Rightarrow> string \<Rightarrow> string \<Rightarrow> configMap list \<Rightarrow> bool" where
  "publishes R ns json cs \<longleftrightarrow>
     (\<exists>cm \<in> set cs. cmKey cm = (operatorNamespace R ns, resolvedAgentConfigMapName R) \<and>
        gm_get (cm_Data cm) ''config.json'' = Some json)"

lemma publishes_map: "publishes R ns json (publishedMap R ns json cs)"
proof -
  let ?cm = "\<lparr>cm_Name = resolvedAgentConfigMapName R, cm_Namespace = operatorNamespace R ns, cm_Data = None\<rparr>"
  let ?f = "mutateConfigMap (SetDataKey ''config.json'' json)"
  have f: "cmKey (?f c) = cmKey c" "gm_get (cm_Data (?f c)) ''config.json'' = Some json" for c
    by (simp_all add: mutateConfigMap_def cmKey_def)
  have "\<exists>c \<in> set (publishedMap R ns json cs). cmKey c = cmKey ?cm \<and> gm_get (cm_Data c) ''config.json'' = Some json"
  proof (cases "cmKey ?cm \<in> cmKey ` set cs")
    case True
    then obtain c where "c \<in> set cs" "cmKey c = cmKey ?cm" by (metis imageE)
    then show ?thesis
      using f unfolding publishedMap_def upsertBy_def if_P [OF True] by (intro bexI [of _ "?f c"]) auto
  next
    case False
    then show ?thesis using f unfolding publishedMap_def upsertBy_def if_not_P [OF False] by (intro bexI [of _ "?f ?cm"]) auto
  qed
  then show ?thesis by (simp add: publishes_def cmKey_def)
qed

context api_server
begin

text \<open>The pools named in \<open>D\<close> have been reconciled since \<open>s0\<close>.\<close>

definition settled where
  "settled R ns json active D s0 s \<longleftrightarrow>
     list_all2 samePool (pools (world s0)) (pools (world s)) \<and> profs (world s) = profs (world s0) \<and>
     (\<exists>n. circuitOf (circuit s) (operatorNamespace R ns) = Closed n) \<and>
     (\<forall>q \<in> set (poolsIn ns (pools (world s))). poolName q \<in> D \<longrightarrow> (readyTrue q \<longleftrightarrow> poolName q = active)) \<and>
     (active \<in> D \<longrightarrow> publishes R ns json (cms (world s)))"

text \<open>One reconcile of a stamped and valid pool: it publishes if the pool is the active one, and changes
  nothing but this pool's status otherwise.\<close>

lemma reconcile_valid_run:
  assumes "conditions_documented K" "rc_ConfigGen R = Some (Generate cpus)" "rc_ConfigRenderer R = Some render"
    and "p \<in> set (pools (world s))" "distinct (map poolKey (pools (world s)))"
    and "om_Namespace (po_Meta p) = ns" "poolName p = name"
    and "gm_get (om_Annotations (po_Meta p)) initialRVAnnotation \<noteq> None" "validateDNSUpstreamPool K (Some p) = None"
    and "fst (selectFromPools (poolsIn ns (pools (world s)))) = active"
    and "name = active \<longrightarrow> buildsConfig R (Generate cpus) render p (defaultProfileOf ns (profs (world s))) json"
    and "circuitOf (circuit s) (operatorNamespace R ns) = Closed n"
  shows "\<exists>s' p'. run_state (reconcilePool R K C ns name) s = ((0, None), s') \<and> samePool p p' \<and>
      (readyTrue p' \<longleftrightarrow> name = active) \<and> pools (world s') = replaceBy poolKey p' (pools (world s)) \<and>
      profs (world s') = profs (world s) \<and> (\<exists>n. circuitOf (circuit s') (operatorNamespace R ns) = Closed n) \<and>
      (if name = active then publishes R ns json (cms (world s')) else cms (world s') = cms (world s))"
proof (cases "name = active")
  case True
  have "fst (selectFromPools (poolsIn ns (pools (world s)))) = name"
    "buildsConfig R (Generate cpus) render p (defaultProfileOf ns (profs (world s))) json"
    using assms(10,11) True by simp_all
  then obtain s' where s': "run_state (reconcilePool R K C ns name) s = ((0, None), s')"
    "pools (world s') = replaceBy poolKey (withReadyCondition K p ConditionTrue ''Ready''
      (MText ''Configuration rendered successfully'' [])) (pools (world s))"
    "profs (world s') = profs (world s)" "cms (world s') = publishedMap R ns json (cms (world s))"
    "circuitOf (circuit s') (operatorNamespace R ns) = Closed 0"
    using publish_run [OF assms(2-5,8,9), unfolded assms(6,7)] assms(12) by blast
  moreover have "publishes R ns json (cms (world s'))" unfolding s'(4) by (rule publishes_map)
  ultimately show ?thesis
    using True samePool_ready [of p K] readyTrue_with [OF assms(1)] by (intro exI [of _ s'] exI conjI) auto
next
  case False
  have "active \<noteq> poolName p" using False assms(7) by simp
  then obtain s' where s': "run_state (reconcilePool R K C ns name) s = ((0, None), s')"
    "pools (world s') = replaceBy poolKey (withReadyCondition K p ConditionFalse ''Superseded''
      (MText ''pool %q is active in this namespace'' [AStr active])) (pools (world s))"
    "profs (world s') = profs (world s)" "cms (world s') = cms (world s)" "circuit s' = circuit s"
    using superseded_run [OF assms(2-5,8,9), unfolded assms(6), OF assms(10) [symmetric]] assms(7) by auto
  then show ?thesis
    using False assms(12) samePool_ready [of p K] readyTrue_with [OF assms(1)] by (intro exI [of _ s'] exI conjI) auto
qed

lemma settled_after:
  assumes "settled R ns json active D s0 s" "distinct (map poolKey (pools (world s)))"
    and "p \<in> set (pools (world s))" "om_Namespace (po_Meta p) = ns" "poolName p = name"
    and "samePool p p'" "readyTrue p' \<longleftrightarrow> name = active" "pools (world s') = replaceBy poolKey p' (pools (world s))"
    and "profs (world s') = profs (world s)" "\<exists>n. circuitOf (circuit s') (operatorNamespace R ns) = Closed n"
    and "if name = active then publishes R ns json (cms (world s')) else cms (world s') = cms (world s)"
  shows "settled R ns json active (insert name D) s0 s'"
proof -
  have same: "list_all2 samePool (pools (world s0)) (pools (world s))" using assms(1) by (simp add: settled_def)
  have "list_all2 samePool (pools (world s0)) (pools (world s'))"
    unfolding assms(8) by (rule list_all2_trans [OF _ same replace_same(1) [OF assms(2,3,6)]]) (rule samePool_trans)
  moreover have "readyTrue q \<longleftrightarrow> poolName q = active"
    if "q \<in> set (poolsIn ns (pools (world s')))" "poolName q \<in> insert name D" for q
  proof -
    have "q = p' \<or> q \<in> set (poolsIn ns (pools (world s))) \<and> poolKey q \<noteq> poolKey p"
      using that(1) replace_same(2) [OF assms(2,3,6)] unfolding assms(8) by (auto simp: poolsIn_def)
    then show ?thesis
      using that assms(1,4-7) by (auto simp: settled_def samePool_def poolKey_def metaKey_def poolsIn_def)
  qed
  moreover have "publishes R ns json (cms (world s'))" if "active \<in> insert name D"
    using that assms(1,11) by (auto simp: settled_def split: if_splits)
  ultimately show ?thesis using assms(1,9,10) unfolding settled_def by auto
qed

lemma settle_step:
  assumes "conditions_documented K" "rc_ConfigGen R = Some (Generate cpus)" "rc_ConfigRenderer R = Some render"
    and "distinct (map poolKey (pools (world s0)))"
    and "\<forall>q \<in> set (poolsIn ns (pools (world s0))). gm_get (om_Annotations (po_Meta q)) initialRVAnnotation \<noteq> None \<and>
      validateDNSUpstreamPool K (Some q) = None \<and>
      (poolName q = active \<longrightarrow> buildsConfig R (Generate cpus) render q (defaultProfileOf ns (profs (world s0))) json)"
    and "fst (selectFromPools (poolsIn ns (pools (world s0)))) = active"
    and "settled R ns json active D s0 s" "name \<in> poolName ` set (poolsIn ns (pools (world s0)))"
  shows "\<exists>s'. run_state (reconcilePool R K C ns name) s = ((0, None), s') \<and> settled R ns json active (insert name D) s0 s'"
proof -
  have same: "list_all2 samePool (pools (world s0)) (pools (world s))" and pr: "profs (world s) = profs (world s0)"
    using assms(7) by (simp_all add: settled_def)
  obtain n where n: "circuitOf (circuit s) (operatorNamespace R ns) = Closed n" using assms(7) by (auto simp: settled_def)
  have sel: "fst (selectFromPools (poolsIn ns (pools (world s)))) = active"
    using select_same [OF poolsIn_same [OF same]] assms(6) by simp
  have dist: "distinct (map poolKey (pools (world s)))" using keys_same [OF same] assms(4) by simp
  obtain p where p: "p \<in> set (pools (world s))" "om_Namespace (po_Meta p) = ns" "poolName p = name"
    "gm_get (om_Annotations (po_Meta p)) initialRVAnnotation \<noteq> None" "validateDNSUpstreamPool K (Some p) = None"
    "name = active \<longrightarrow> buildsConfig R (Generate cpus) render p (defaultProfileOf ns (profs (world s))) json"
    using pool_again [OF same assms(8,5)] unfolding pr by blast
  obtain s' p' where s': "run_state (reconcilePool R K C ns name) s = ((0, None), s')" "samePool p p'"
    "readyTrue p' \<longleftrightarrow> name = active" "pools (world s') = replaceBy poolKey p' (pools (world s))"
    "profs (world s') = profs (world s)" "\<exists>n. circuitOf (circuit s') (operatorNamespace R ns) = Closed n"
    "if name = active then publishes R ns json (cms (world s')) else cms (world s') = cms (world s)"
    using reconcile_valid_run [OF assms(1-3) p(1) dist p(2-5) sel p(6) n] by blast
  then show ?thesis using settled_after [OF assms(7) dist p(1-3) s'(2-7)] by blast
qed

lemma settle_each:
  assumes "conditions_documented K" "rc_ConfigGen R = Some (Generate cpus)" "rc_ConfigRenderer R = Some render"
    and "distinct (map poolKey (pools (world s0)))"
    and "\<forall>q \<in> set (poolsIn ns (pools (world s0))). gm_get (om_Annotations (po_Meta q)) initialRVAnnotation \<noteq> None \<and>
      validateDNSUpstreamPool K (Some q) = None \<and>
      (poolName q = active \<longrightarrow> buildsConfig R (Generate cpus) render q (defaultProfileOf ns (profs (world s0))) json)"
    and "fst (selectFromPools (poolsIn ns (pools (world s0)))) = active"
    and "set names \<subseteq> poolName ` set (poolsIn ns (pools (world s0)))" "settled R ns json active D s0 s"
  shows "\<exists>s'. run_state (reconcileEach R K C ns names) s = (replicate (length names) (0, None), s') \<and>
    settled R ns json active (D \<union> set names) s0 s'"
  using assms(7,8)
proof (induction names arbitrary: s D)
  case (Cons n names)
  obtain s1 where s1: "run_state (reconcilePool R K C ns n) s = ((0, None), s1)" "settled R ns json active (insert n D) s0 s1"
    using settle_step [OF assms(1-6) Cons.prems(2)] Cons.prems(1) by auto
  obtain s' where "run_state (reconcileEach R K C ns names) s1 = (replicate (length names) (0, None), s')"
    "settled R ns json active (insert n D \<union> set names) s0 s'"
    using Cons.IH [OF _ s1(2)] Cons.prems(1) by auto
  then show ?case using s1(1) by (intro exI [of _ s']) (simp add: run_simps)
qed (simp add: run_simps)

lemma settled_start:
  "circuitOf (circuit s) (operatorNamespace R ns) = Closed n \<Longrightarrow> settled R ns json active {} s s"
  by (auto simp: settled_def list_all2_same samePool_def)

end

text \<open>A namespace settles.  Take an API server that answers and that nobody else changes, pools that
  are stamped and valid, the oldest of which has a configuration the renderer accepts, and a closed
  circuit.  Reconciling every pool of the namespace, in any order and as often as one likes, succeeds
  each time; afterwards the ConfigMap holds the configuration of the oldest pool, exactly this pool is
  ready, and nothing but the status of the pools has changed.\<close>

lemma namespace_settles:
  assumes "api_server C pools profs cms" "conditions_documented K"
    and "rc_ConfigGen R = Some (Generate cpus)" "rc_ConfigRenderer R = Some render"
    and "distinct (map poolKey (pools (world s)))"
    and "\<forall>q \<in> set (poolsIn ns (pools (world s))). gm_get (om_Annotations (po_Meta q)) initialRVAnnotation \<noteq> None \<and>
      validateDNSUpstreamPool K (Some q) = None"
    and "p \<in> set (poolsIn ns (pools (world s)))" "fst (selectFromPools (poolsIn ns (pools (world s)))) = poolName p"
    and "buildsConfig R (Generate cpus) render p (defaultProfileOf ns (profs (world s))) json"
    and "circuitOf (circuit s) (operatorNamespace R ns) = Closed n"
    and "set names = poolName ` set (poolsIn ns (pools (world s)))"
  shows "\<exists>s'. run_state (reconcileEach R K C ns names) s = (replicate (length names) (0, None), s') \<and>
    (\<exists>cm \<in> set (cms (world s')). cmKey cm = (operatorNamespace R ns, resolvedAgentConfigMapName R) \<and>
        gm_get (cm_Data cm) ''config.json'' = Some json) \<and>
    (\<forall>q \<in> set (poolsIn ns (pools (world s'))). readyTrue q \<longleftrightarrow> poolName q = poolName p) \<and>
    list_all2 (\<lambda>q q'. po_Meta q' = po_Meta q \<and> po_Spec q' = po_Spec q) (pools (world s)) (pools (world s'))"
proof -
  have unique: "q = p" if "q \<in> set (poolsIn ns (pools (world s)))" "poolName q = poolName p" for q
    using that assms(5,7) by (auto simp: poolsIn_def distinct_map inj_on_def poolKey_def metaKey_def)
  have all: "\<forall>q \<in> set (poolsIn ns (pools (world s))). gm_get (om_Annotations (po_Meta q)) initialRVAnnotation \<noteq> None \<and>
      validateDNSUpstreamPool K (Some q) = None \<and>
      (poolName q = poolName p \<longrightarrow> buildsConfig R (Generate cpus) render q (defaultProfileOf ns (profs (world s))) json)"
    using assms(6,9) unique by blast
  obtain s' where s': "run_state (reconcileEach R K C ns names) s = (replicate (length names) (0, None), s')"
    "api_server.settled pools profs cms R ns json (poolName p) ({} \<union> set names) s s'"
    using api_server.settle_each [OF assms(1-5) all assms(8) equalityD1 [OF assms(11)]
        api_server.settled_start [OF assms(1,10)]] by blast
  have same: "list_all2 samePool (pools (world s)) (pools (world s'))" using s'(2) by (simp add: api_server.settled_def [OF assms(1)])
  have "poolName q \<in> set names" if "q \<in> set (poolsIn ns (pools (world s')))" for q
    using that assms(11) names_same [OF poolsIn_same [OF same, of ns]] by (metis list.set_map imageI)
  then show ?thesis
    using s' assms(7,11) unfolding api_server.settled_def [OF assms(1)] publishes_def samePool_def by auto
qed

definition youngPool :: pool where
  "youngPool = demoStored\<lparr>po_Meta := (plainMeta ''a'' ''q'')\<lparr>om_CreationTimestamp := 6,
     om_Annotations := Some [(initialRVAnnotation, ''9'')]\<rparr>\<rparr>"

lemma youngPool_meta: "po_Meta youngPool = (plainMeta ''a'' ''q'')\<lparr>om_CreationTimestamp := 6,
     om_Annotations := Some [(initialRVAnnotation, ''9'')]\<rparr>"
  by (simp add: youngPool_def)

text \<open>A namespace with two pools, the one listed first the younger.\<close>

definition youngState :: "cluster poolSys" where
  "youngState = demoState (demoCluster [youngPool, demoStored])"

lemma young_pools: "mc_Pools (world youngState) = [youngPool, demoStored]" "mc_Profiles (world youngState) = []"
  "poolsIn ''a'' [youngPool, demoStored] = [youngPool, demoStored]" "poolName demoStored = ''p''" "poolName youngPool = ''q''"
  by (simp_all add: youngState_def demoState_def demoCluster_def emptyCluster_def poolsIn_def youngPool_meta
      demoStored_meta plainMeta_def)

lemma young_keys: "distinct (map poolKey (mc_Pools (world youngState)))"
  by (simp add: young_pools(1) poolKey_def metaKey_def young_pools(4,5))

lemma young_good: "\<forall>q \<in> set (poolsIn ''a'' (mc_Pools (world youngState))).
    gm_get (om_Annotations (po_Meta q)) initialRVAnnotation \<noteq> None \<and> validateDNSUpstreamPool refK8s (Some q) = None"
proof -
  have "validateDNSUpstreamPool refK8s (Some youngPool) = None" "validateDNSUpstreamPool refK8s (Some demoStored) = None"
    by (rule demo_valid, simp add: youngPool_def demoStored_def stampInitialRV_def)+
  then show ?thesis by (simp add: young_pools youngPool_meta demoStored_meta gm_get_def gm_make_def)
qed

lemma young_active: "demoStored \<in> set (poolsIn ''a'' (mc_Pools (world youngState)))"
    "fst (selectFromPools (poolsIn ''a'' (mc_Pools (world youngState)))) = poolName demoStored"
  by (simp_all add: young_pools(1,3) selectFromPools_def sortPoolsForSelection_def insertionSort_def poolLess_def
      youngPool_meta demoStored_meta plainMeta_def)

lemma young_builds: "buildsConfig (demoReconciler '''') (Generate 4) (unbound_Render plainTemplates 4) demoStored
    (defaultProfileOf ''a'' (mc_Profiles (world youngState))) ''2''"
  using demo_builds_stored by (simp add: young_pools defaultProfileOf_def)

lemma young_closed: "circuitOf (circuit youngState) (operatorNamespace (demoReconciler '''') ''a'') = Closed 0"
  by (simp add: youngState_def demoState_def circuitOf_new)

lemmas young_facts = young_keys young_good young_active young_builds young_closed

lemma namespace_settles_ex:
  "\<exists>s'. run_state (reconcileEach (demoReconciler '''') refK8s memClient ''a'' [''q'', ''p'', ''q'']) youngState =
      ([(0, None), (0, None), (0, None)], s') \<and>
    (\<forall>q \<in> set (poolsIn ''a'' (mc_Pools (world s'))). readyTrue q \<longleftrightarrow> poolName q = ''p'')"
proof -
  have names: "set [''q'', ''p'', ''q''] = poolName ` set (poolsIn ''a'' (mc_Pools (world youngState)))"
    by (auto simp: young_pools)
  show ?thesis
    using namespace_settles [OF mem.api_server_axioms refK8s_conditions demo_components(1) [of "''''"] demo_components(2) [of "''''"]
        young_facts names] by (auto simp: young_pools)
qed

end
