(* ===== verification/Failover.thy ===== *)
theory Failover
  imports Converge
begin

text \<open>
  What the deletion of a pool leads to on a server that answers: the next pool is published; and how
  many calls a reconcile makes at most, on any server.
\<close>

section \<open>Deletion\<close>

context api_server
begin

lemma failover_run:
  assumes "rc_ConfigGen R = Some gen" "rc_ConfigRenderer R = Some render"
    and "(ns, name) \<notin> poolKey ` set (pools (world s))"
    and "sortPoolsForSelection (poolsIn ns (pools (world s))) = p # ps"
    and "buildsConfig R gen render p (defaultProfileOf ns (profs (world s))) json"
    and "circuitOf (circuit s) (operatorNamespace R ns) = Closed n"
  shows "\<exists>s'. run_state (reconcilePool R K C ns name) s = ((0, None), s') \<and>
    pools (world s') = replaceBy poolKey (withReadyCondition K p ConditionTrue ''Ready''
      (MText ''Configuration rendered successfully'' [])) (pools (world s)) \<and>
    profs (world s') = profs (world s) \<and> cms (world s') = publishedMap R ns json (cms (world s)) \<and>
    circuitOf (circuit s') (operatorNamespace R ns) = Closed 0"
proof -
  let ?p' = "withReadyCondition K p ConditionTrue ''Ready'' (MText ''Configuration rendered successfully'' [])"
  let ?r = "case defaultProfileOf ns (profs (world s)) of None \<Rightarrow> Inl NotFound | Some pr \<Rightarrow> Inr pr"
  obtain calls m where m: "recordActivePoolSelectionMetric ns (poolName p)
      (if length (p # ps) > 1 then ''oldest_pool'' else ''single_pool'') (metric s) = (calls, m)" by force
  obtain cfg out where cfg: "gen (Some p) (defaultProfileOf ns (profs (world s))) = Inr cfg"
    "render (Some cfg) = Inr out" "rc_MarshalIndent R cfg = Inr json" "validateConfigMapPayloadSize json = None"
    using assms(5) unfolding buildsConfig_def validateSize_None by blast
  have get: "cl_GetPool C ns name (world s) = (Inl NotFound, world s)"
    using lookupBy_Inl [OF assms(3)] by (simp add: get_pool)
  define s1 where "s1 = s\<lparr>metric := m, effects := effects s @ [GetPool ns name (Inl NotFound),
    ListPools ns (Inr (poolsIn ns (pools (world s))))] @ map Gauge calls @ [GetProfile ns ''default'' ?r]\<rparr>"
  have s1: "world s1 = world s" "circuit s1 = circuit s" by (simp_all add: s1_def)
  obtain s2 where s2: "run_state (upsertConfigMapWithCircuitBreaker R C (operatorNamespace R ns) json) s1 = (None, s2)"
    "pools (world s2) = pools (world s)" "profs (world s2) = profs (world s)"
    "cms (world s2) = publishedMap R ns json (cms (world s))" "circuitOf (circuit s2) (operatorNamespace R ns) = Closed 0"
    using upsert_run [of s1 R ns n json] assms(6) s1 by auto
  obtain s3 where s3: "run_state (setReadyCondition K C p ConditionTrue ''Ready''
      (MText ''Configuration rendered successfully'' [])) s2 = (None, s3)"
    "pools (world s3) = replaceBy poolKey ?p' (pools (world s2))" "profs (world s3) = profs (world s2)"
    "cms (world s3) = cms (world s2)" "circuit s3 = circuit s2"
    using condition_run by blast
  have "run_state (reconcilePool R K C ns name) s = ((0, None), s3)"
    using m cfg s2(1) s3(1) unfolding s1_def
    by (cases "defaultProfileOf ns (profs (world s))")
      (simp_all add: reconcilePool_def reconcileAfterPoolDeletion_def rebuildForPool_def rebuildWithProfile_def
        getDefaultCacheProfile_def run_simps assms(1,2,4) get list_pools get_profile isNotFound_def Let_def)
  then show ?thesis using s2 s3 by auto
qed

end

text \<open>C10: when a pool has been deleted, its reconcile hands the namespace over: on an API server that
  answers and with a closed circuit, the configuration of the pool that is first in the selection order
  of those left is in the ConfigMap, and this pool is ready, without a reconcile of its own.\<close>

theorem deletion_hands_over:
  assumes "api_server C pools profs cms" "conditions_documented K"
    and "rc_ConfigGen R = Some gen" "rc_ConfigRenderer R = Some render"
    and "(ns, name) \<notin> poolKey ` set (pools (world s))"
    and "sortPoolsForSelection (poolsIn ns (pools (world s))) = p # ps"
    and "buildsConfig R gen render p (defaultProfileOf ns (profs (world s))) json"
    and "circuitOf (circuit s) (operatorNamespace R ns) = Closed n"
  shows "\<exists>s'. run_state (reconcilePool R K C ns name) s = ((0, None), s') \<and>
    (\<exists>cm \<in> set (cms (world s')). cmKey cm = (operatorNamespace R ns, resolvedAgentConfigMapName R) \<and>
        gm_get (cm_Data cm) ''config.json'' = Some json) \<and>
    (\<exists>q \<in> set (pools (world s')). po_Meta q = po_Meta p \<and> po_Spec q = po_Spec p \<and> readyTrue q)"
proof -
  let ?p' = "withReadyCondition K p ConditionTrue ''Ready'' (MText ''Configuration rendered successfully'' [])"
  obtain s' where s': "run_state (reconcilePool R K C ns name) s = ((0, None), s')"
    "pools (world s') = replaceBy poolKey ?p' (pools (world s))"
    "cms (world s') = publishedMap R ns json (cms (world s))"
    using api_server.failover_run [OF assms(1,3-8)] by blast
  have "p \<in> set (poolsIn ns (pools (world s)))" using assms(6) by (metis list.set_intros(1) set_sortPools)
  then have "?p' \<in> set (pools (world s'))"
    unfolding s'(2) replaceBy_def by (force simp: poolsIn_def poolKey_def withReadyCondition_def)
  moreover have "readyTrue ?p'" "po_Meta ?p' = po_Meta p" "po_Spec ?p' = po_Spec p"
    using readyTrue_with [OF assms(2)] by (simp_all add: withReadyCondition_def)
  moreover have "publishes R ns json (cms (world s'))"
    unfolding s'(3) by (rule publishes_map)
  ultimately show ?thesis using s'(1) unfolding publishes_def by blast
qed

theorem deletion_hands_over_witness:
  "\<exists>s'. run_state (reconcilePool (demoReconciler '''') refK8s memClient ''a'' ''gone'') (demoState (demoCluster [demoStored])) =
    ((0, None), s') \<and> (\<exists>q \<in> set (mc_Pools (world s')). po_Meta q = po_Meta demoStored \<and> readyTrue q)"
proof -
  let ?s = "demoState (demoCluster [demoStored])"
  have pools: "mc_Pools (world ?s) = [demoStored]" "mc_Profiles (world ?s) = []"
    by (simp_all add: demoState_def demoCluster_def emptyCluster_def)
  have gone: "(''a'', ''gone'') \<notin> poolKey ` set (mc_Pools (world ?s))"
    by (simp add: pools poolKey_def metaKey_def demoStored_meta plainMeta_def)
  have sorted: "sortPoolsForSelection (poolsIn ''a'' (mc_Pools (world ?s))) = [demoStored]"
    by (simp add: pools poolsIn_def demoStored_meta plainMeta_def)
  have builds: "buildsConfig (demoReconciler '''') (Generate 4) (unbound_Render plainTemplates 4) demoStored
      (defaultProfileOf ''a'' (mc_Profiles (world ?s))) ''2''"
    using demo_builds_stored by (simp add: pools defaultProfileOf_def)
  have closed: "circuitOf (circuit ?s) (operatorNamespace (demoReconciler '''') ''a'') = Closed 0"
    by (simp add: demoState_def circuitOf_new)
  show ?thesis
    using deletion_hands_over [OF mem.api_server_axioms refK8s_conditions demo_components(1) [of "''''"] demo_components(2) [of "''''"]
        gone sorted builds closed] by blast
qed

section \<open>How many requests\<close>

definition costs :: "(effect \<Rightarrow> bool) \<Rightarrow> (('w, 'z) sys_scheme, 'a) state \<Rightarrow> nat \<Rightarrow> bool" where
  "costs Q m n \<longleftrightarrow> (\<forall>s. \<exists>es. effects (snd (run_state m s)) = effects s @ es \<and> length (filter Q es) \<le> n)"

named_theorems costs_intro "bounds on the requests of a program"

lemma costs_return [costs_intro]: "costs Q (State_Monad.return x) n"
  by (simp add: costs_def)

lemma costs_bind:
  assumes "costs Q m a" "\<And>x. costs Q (f x) b"
  shows "costs Q (State_Monad.bind m f) (a + b)"
  unfolding costs_def
proof
  fix s
  obtain x t where m: "run_state m s = (x, t)" by force
  obtain es where es: "effects t = effects s @ es" "length (filter Q es) \<le> a"
    using assms(1) m unfolding costs_def by (metis snd_conv)
  obtain es' where "effects (snd (run_state (f x) t)) = effects t @ es'" "length (filter Q es') \<le> b"
    using assms(2) unfolding costs_def by blast
  then show "\<exists>es. effects (snd (run_state (State_Monad.bind m f) s)) = effects s @ es \<and> length (filter Q es) \<le> a + b"
    using m es by (intro exI [of _ "es @ es'"]) simp
qed

lemma costs_api: "costs Q (api e f) (Suc n)"
  by (simp add: costs_def api_def split: prod.split)

lemma costs_free: "(\<And>r. \<not> Q (e r)) \<Longrightarrow> costs Q (api e f) n"
  by (simp add: costs_def api_def split: prod.split)

lemma costs_bind_api [costs_intro]: "(\<And>r. costs Q (f r) n) \<Longrightarrow> costs Q (State_Monad.bind (api e g) f) (Suc n)"
  using costs_bind [OF costs_api [of Q e g 0], of f n] by simp

lemma costs_bind_free: "costs Q m 0 \<Longrightarrow> (\<And>x. costs Q (f x) n) \<Longrightarrow> costs Q (State_Monad.bind m f) n"
  using costs_bind [of Q m 0 f n] by simp

lemma costs_withCircuit [costs_intro]: "costs Q (withCircuit f) n"
  by (simp add: costs_def withCircuit_def split: prod.split)

lemma costs_withMetric: "(\<And>c. \<not> Q (Gauge c)) \<Longrightarrow> costs Q (withMetric f) n"
  by (auto simp: costs_def withMetric_def filter_empty_conv split: prod.split)

lemma costs_if [costs_intro]: "costs Q m n \<Longrightarrow> costs Q m' n \<Longrightarrow> costs Q (if b then m else m') n"
  by simp

lemma costs_case [costs_intro]:
  "(\<And>a. costs Q (f a) n) \<Longrightarrow> (\<And>b. costs Q (g b) n) \<Longrightarrow> costs Q (case x of Inl a \<Rightarrow> f a | Inr b \<Rightarrow> g b) n"
  "costs Q m n \<Longrightarrow> (\<And>b. costs Q (g b) n) \<Longrightarrow> costs Q (case y of None \<Rightarrow> m | Some b \<Rightarrow> g b) n"
  "costs Q m n \<Longrightarrow> (\<And>b bs. costs Q (h b bs) n) \<Longrightarrow> costs Q (case z of [] \<Rightarrow> m | b # bs \<Rightarrow> h b bs) n"
  "(\<And>a b. costs Q (k a b) n) \<Longrightarrow> costs Q (case u of (a, b) \<Rightarrow> k a b) n"
  by (simp_all split: sum.split option.split list.split prod.split)

fun isRequest :: "effect \<Rightarrow> bool" where
  "isRequest (ReadClock t) \<longleftrightarrow> False"
| "isRequest (RecordEvent ns n t r m) \<longleftrightarrow> False"
| "isRequest (Gauge c) \<longleftrightarrow> False"
| "isRequest _ \<longleftrightarrow> True"

lemma costs_mono: "costs Q m a \<Longrightarrow> a \<le> b \<Longrightarrow> costs Q m b"
  unfolding costs_def by (meson le_trans)

lemma costs_event [costs_intro]: "costs isRequest (recordPoolEvent R p typ reason msg) n"
  by (simp add: recordPoolEvent_def costs_def run_note_effect)

lemma costs_event_then [costs_intro]:
  "(\<And>x. costs isRequest (f x) n) \<Longrightarrow> costs isRequest (State_Monad.bind (recordPoolEvent R p typ reason msg) f) n"
  by (rule costs_bind_free [OF costs_event])

lemma costs_clock [costs_intro]: "(\<And>t. costs isRequest (f t) n) \<Longrightarrow> costs isRequest (State_Monad.bind (api ReadClock g) f) n"
  by (rule costs_bind_free [OF costs_free]) simp_all

lemma costs_circuit [costs_intro]: "(\<And>x. costs Q (f x) n) \<Longrightarrow> costs Q (State_Monad.bind (withCircuit g) f) n"
  by (rule costs_bind_free [OF costs_withCircuit])

lemma costs_metric [costs_intro]:
  "(\<And>x. costs isRequest (f x) n) \<Longrightarrow> costs isRequest (State_Monad.bind (withMetric g) f) n"
  by (rule costs_bind_free [OF costs_withMetric]) simp_all

lemma costs_status: "costs isRequest (setReadyCondition K C p status reason msg) (Suc 0)"
  unfolding setReadyCondition_def Let_def by (intro costs_intro)

lemma costs_status_then [costs_intro]:
  "costs isRequest (State_Monad.bind (setReadyCondition K C p status reason msg) (\<lambda>e. State_Monad.return (f e))) (Suc n)"
  by (rule costs_mono [OF costs_bind [OF costs_status costs_return [of _ _ 0]]]) simp

lemma costs_fail [costs_intro]: "costs isRequest (failPool R K C p reason msg res) (Suc n)"
  unfolding failPool_def by (intro costs_intro)

lemma costs_upsert: "costs isRequest (upsertConfigMapWithCircuitBreaker R C ns json) (Suc 0)"
  unfolding upsertConfigMapWithCircuitBreaker_def upsertConfigMap_def prog_simps
  by (intro costs_clock costs_intro)

lemma costs_upsert_then [costs_intro]:
  "(\<And>x. costs isRequest (f x) n) \<Longrightarrow> costs isRequest (State_Monad.bind (upsertConfigMapWithCircuitBreaker R C ns json) f) (Suc n)"
  using costs_bind [OF costs_upsert, of f n] by simp

lemma costs_render: "costs isRequest (renderAndStore R gen render K C p prof) (Suc (Suc 0))"
  unfolding renderAndStore_def storeConfig_def Let_def by (intro costs_intro)

lemma costs_valid: "costs isRequest (reconcileValidPool R gen render K C p) (Suc (Suc (Suc (Suc 0))))"
  unfolding reconcileValidPool_def selectActivePoolName_def buildConfig_def getDefaultCacheProfile_def prog_simps
  by (intro costs_intro costs_render)

lemma costs_delete: "costs isRequest (reconcileAfterPoolDeletion R gen render K C ns) (Suc (Suc (Suc (Suc 0))))"
  unfolding reconcileAfterPoolDeletion_def rebuildForPool_def rebuildWithProfile_def removeConfigKey_def
    getDefaultCacheProfile_def prog_simps
  by (intro costs_intro)

text \<open>C30: whatever the answers, a reconcile of a pool makes at most six requests to the API server
  (the creation or update of the ConfigMap counted as one) and ends.\<close>

theorem reconcile_requests_bounded:
  "length (filter isRequest (performed (reconcilePool R K C ns name) s)) \<le> 6"
proof -
  let ?five = "Suc (Suc (Suc (Suc (Suc 0))))"
  have delete: "costs isRequest (State_Monad.bind (reconcileAfterPoolDeletion R gen render K C ns) (\<lambda>r. State_Monad.return (f r))) ?five"
    for gen render and f :: "goError option \<Rightarrow> reconcileResult"
    by (rule costs_mono [OF costs_bind [OF costs_delete costs_return [of _ _ 0]]]) simp
  have valid: "costs isRequest (reconcileValidPool R gen render K C p) ?five" for gen render p
    by (rule costs_mono [OF costs_valid]) simp
  have "costs isRequest (reconcilePool R K C ns name) (Suc ?five)"
  proof (cases "rc_ConfigGen R = None \<or> rc_ConfigRenderer R = None")
    case True
    then show ?thesis by (auto simp: reconcilePool_def costs_return split: option.split)
  next
    case False
    then obtain gen render where "rc_ConfigGen R = Some gen" "rc_ConfigRenderer R = Some render" by auto
    then show ?thesis
      unfolding reconcilePool_def ensureInitialRVAnnotation_def
      by (simp only: prod.case option.case prog_simps) (intro costs_intro delete valid costs_valid)
  qed
  then obtain es where "effects (snd (run_state (reconcilePool R K C ns name) s)) = effects s @ es" "length (filter isRequest es) \<le> 6"
    unfolding costs_def by fastforce
  then show ?thesis by (simp add: performed_def)
qed

end
