(* ===== verification/Rbac.thy ===== *)
theory Rbac
  imports Watches Failover
begin

text \<open>
  What the operator may do in the cluster against what it does: the permissions the controllers
  declare (the \<open>+kubebuilder:rbac\<close> markers above each \<open>Reconcile\<close>), the roles deployed from them
  (\<open>config/rbac/role.yaml\<close> and the ClusterRole of the chart), and the requests of the reconciles.
\<close>

section \<open>Permissions\<close>

datatype verb = VGet | VList | VWatch | VCreate | VUpdate | VPatch

record rbacRule =
  rb_Group :: string
  rb_Resources :: "string list"
  rb_Verbs :: "verb list"

abbreviation dnsGroup :: string where
  "dnsGroup \<equiv> ''dns.astradns.com''"

definition poolRBAC :: "rbacRule list" where
  "poolRBAC =
     [\<lparr>rb_Group = dnsGroup, rb_Resources = [''dnsupstreampools''], rb_Verbs = [VGet, VList, VWatch, VUpdate, VPatch]\<rparr>,
      \<lparr>rb_Group = dnsGroup, rb_Resources = [''dnsupstreampools/status''], rb_Verbs = [VGet, VUpdate, VPatch]\<rparr>,
      \<lparr>rb_Group = dnsGroup, rb_Resources = [''dnscacheprofiles''], rb_Verbs = [VGet, VList, VWatch]\<rparr>,
      \<lparr>rb_Group = '''', rb_Resources = [''configmaps''], rb_Verbs = [VGet, VList, VWatch, VCreate, VUpdate]\<rparr>,
      \<lparr>rb_Group = '''', rb_Resources = [''events''], rb_Verbs = [VCreate, VPatch]\<rparr>]"

definition profileRBAC :: "rbacRule list" where
  "profileRBAC =
     [\<lparr>rb_Group = dnsGroup, rb_Resources = [''dnscacheprofiles''], rb_Verbs = [VGet, VList, VWatch, VUpdate, VPatch]\<rparr>,
      \<lparr>rb_Group = dnsGroup, rb_Resources = [''dnscacheprofiles/status''], rb_Verbs = [VGet, VUpdate, VPatch]\<rparr>,
      \<lparr>rb_Group = '''', rb_Resources = [''events''], rb_Verbs = [VCreate, VPatch]\<rparr>]"

definition policyRBAC :: "rbacRule list" where
  "policyRBAC =
     [\<lparr>rb_Group = dnsGroup, rb_Resources = [''externaldnspolicies''], rb_Verbs = [VGet, VList, VWatch, VUpdate, VPatch]\<rparr>,
      \<lparr>rb_Group = dnsGroup, rb_Resources = [''externaldnspolicies/status''], rb_Verbs = [VGet, VUpdate, VPatch]\<rparr>,
      \<lparr>rb_Group = dnsGroup, rb_Resources = [''externaldnspolicies/finalizers''], rb_Verbs = [VUpdate]\<rparr>,
      \<lparr>rb_Group = dnsGroup, rb_Resources = [''dnsupstreampools''], rb_Verbs = [VGet, VList, VWatch]\<rparr>,
      \<lparr>rb_Group = dnsGroup, rb_Resources = [''dnscacheprofiles''], rb_Verbs = [VGet, VList, VWatch]\<rparr>,
      \<lparr>rb_Group = '''', rb_Resources = [''namespaces''], rb_Verbs = [VGet, VList, VWatch, VUpdate, VPatch]\<rparr>,
      \<lparr>rb_Group = '''', rb_Resources = [''events''], rb_Verbs = [VCreate, VPatch]\<rparr>]"

text \<open>The deployed role; the ClusterRole of the chart has the same rules in another order.\<close>

definition managerRole :: "rbacRule list" where
  "managerRole =
     [\<lparr>rb_Group = '''', rb_Resources = [''configmaps''], rb_Verbs = [VCreate, VGet, VList, VUpdate, VWatch]\<rparr>,
      \<lparr>rb_Group = '''', rb_Resources = [''events''], rb_Verbs = [VCreate, VPatch]\<rparr>,
      \<lparr>rb_Group = dnsGroup, rb_Resources = [''dnscacheprofiles'', ''dnsupstreampools'', ''externaldnspolicies''],
        rb_Verbs = [VGet, VList, VPatch, VUpdate, VWatch]\<rparr>,
      \<lparr>rb_Group = dnsGroup, rb_Resources = [''externaldnspolicies/finalizers''], rb_Verbs = [VUpdate]\<rparr>,
      \<lparr>rb_Group = dnsGroup,
        rb_Resources = [''dnscacheprofiles/status'', ''dnsupstreampools/status'', ''externaldnspolicies/status''],
        rb_Verbs = [VGet, VPatch, VUpdate]\<rparr>,
      \<lparr>rb_Group = '''', rb_Resources = [''namespaces''], rb_Verbs = [VGet, VList, VPatch, VUpdate, VWatch]\<rparr>]"

definition grants :: "rbacRule list \<Rightarrow> string \<times> string \<times> verb \<Rightarrow> bool" where
  "grants rules q \<longleftrightarrow>
     list_ex (\<lambda>r. fst q = rb_Group r \<and> fst (snd q) \<in> set (rb_Resources r) \<and> snd (snd q) \<in> set (rb_Verbs r)) rules"

definition permissions :: "rbacRule list \<Rightarrow> (string \<times> string \<times> verb) list" where
  "permissions rules =
     concat (map (\<lambda>r. concat (map (\<lambda>x. map (\<lambda>v. (rb_Group r, x, v)) (rb_Verbs r)) (rb_Resources r))) rules)"

lemma grants_permissions: "grants rules q \<longleftrightarrow> q \<in> set (permissions rules)"
  by (cases q) (auto simp: grants_def permissions_def list_ex_iff image_iff)

section \<open>What a request needs\<close>

text \<open>
  Reads go through the cache of the manager, which lists and watches the kind.
  \<open>controllerutil.CreateOrUpdate\<close> reads, then creates or updates.  The API group of the events a
  recorder writes belongs to the library it comes from and is the argument \<open>eg\<close>.
\<close>

abbreviation cached :: "string \<Rightarrow> string \<Rightarrow> (string \<times> string \<times> verb) list" where
  "cached g r \<equiv> [(g, r, VGet), (g, r, VList), (g, r, VWatch)]"

fun needs :: "string \<Rightarrow> effect \<Rightarrow> (string \<times> string \<times> verb) list" where
  "needs eg (GetPool ns n r) = cached dnsGroup ''dnsupstreampools''"
| "needs eg (ListPools ns r) = cached dnsGroup ''dnsupstreampools''"
| "needs eg (PatchPool p p' r) = [(dnsGroup, ''dnsupstreampools'', VPatch)]"
| "needs eg (PatchPoolStatus p p' r) = [(dnsGroup, ''dnsupstreampools/status'', VPatch)]"
| "needs eg (GetProfile ns n r) = cached dnsGroup ''dnscacheprofiles''"
| "needs eg (PatchProfileStatus p p' r) = [(dnsGroup, ''dnscacheprofiles/status'', VPatch)]"
| "needs eg (GetPolicy ns n r) = cached dnsGroup ''externaldnspolicies''"
| "needs eg (ListPolicies ns r) = cached dnsGroup ''externaldnspolicies''"
| "needs eg (PatchPolicy p p' r) = [(dnsGroup, ''externaldnspolicies'', VPatch)]"
| "needs eg (PatchPolicyStatus p p' r) = [(dnsGroup, ''externaldnspolicies/status'', VPatch)]"
| "needs eg (GetNamespace n r) = cached '''' ''namespaces''"
| "needs eg (ListNamespaces r) = cached '''' ''namespaces''"
| "needs eg (PatchNamespace n n' r) = [('''', ''namespaces'', VPatch)]"
| "needs eg (GetConfigMap ns n r) = cached '''' ''configmaps''"
| "needs eg (CreateOrUpdateConfigMap cm f r) =
     cached '''' ''configmaps'' @ [('''', ''configmaps'', VCreate), ('''', ''configmaps'', VUpdate)]"
| "needs eg (RecordEvent ns n t reason m) = [(eg, ''events'', VCreate), (eg, ''events'', VPatch)]"
| "needs eg (ReadClock t) = []"
| "needs eg (Gauge c) = []"

definition authorized :: "rbacRule list \<Rightarrow> string \<Rightarrow> effect \<Rightarrow> bool" where
  "authorized rules eg e \<longleftrightarrow> list_all (grants rules) (needs eg e)"

text \<open>Events are the one thing that depends on their group.\<close>

fun expected :: "string \<Rightarrow> effect \<Rightarrow> bool" where
  "expected eg (RecordEvent ns n t reason m) \<longleftrightarrow> eg = ''''"
| "expected eg _ \<longleftrightarrow> True"

fun kindResource :: "objectKind \<Rightarrow> string \<times> string" where
  "kindResource PoolKind = (dnsGroup, ''dnsupstreampools'')"
| "kindResource ProfileKind = (dnsGroup, ''dnscacheprofiles'')"
| "kindResource PolicyKind = (dnsGroup, ''externaldnspolicies'')"
| "kindResource NamespaceKind = ('''', ''namespaces'')"

definition watchable :: "rbacRule list \<Rightarrow> objectKind \<Rightarrow> bool" where
  "watchable rules k \<longleftrightarrow>
     grants rules (fst (kindResource k), snd (kindResource k), VList) \<and>
     grants rules (fst (kindResource k), snd (kindResource k), VWatch)"

text \<open>The role is what the markers declare.\<close>

lemma managerRole_markers:
  "set (permissions managerRole) = set (permissions (poolRBAC @ profileRBAC @ policyRBAC))"
  by code_simp

section \<open>The reconciles\<close>

text \<open>The requests each controller makes.\<close>

lemma pool_authorized:
  "authorized poolRBAC eg (GetPool ns n r1)" "authorized poolRBAC eg (ListPools ns r2)"
  "authorized poolRBAC eg (PatchPool p p' r3)" "authorized poolRBAC eg (PatchPoolStatus p p' r3)"
  "authorized poolRBAC eg (GetProfile ns n r4)" "authorized poolRBAC eg (GetConfigMap ns n r5)"
  "authorized poolRBAC eg (CreateOrUpdateConfigMap cm f r6)" "authorized poolRBAC eg (ReadClock t)"
  "authorized poolRBAC eg (Gauge c)" "authorized poolRBAC eg (RecordEvent ns n ty reason m) \<longleftrightarrow> eg = ''''"
  by (simp_all add: authorized_def grants_def poolRBAC_def)

lemma profile_authorized:
  "authorized profileRBAC eg (GetProfile ns n r4)" "authorized profileRBAC eg (PatchProfileStatus q q' r1)"
  "authorized profileRBAC eg (RecordEvent ns n ty reason m) \<longleftrightarrow> eg = ''''"
  by (simp_all add: authorized_def grants_def profileRBAC_def)

lemma policy_authorized:
  "authorized policyRBAC eg (GetPolicy ns n r1)" "authorized policyRBAC eg (ListPolicies sc r2)"
  "authorized policyRBAC eg (PatchPolicy p p' r3)" "authorized policyRBAC eg (PatchPolicyStatus p p' r3)"
  "authorized policyRBAC eg (GetPool ns n r4)" "authorized policyRBAC eg (GetProfile ns n r5)"
  "authorized policyRBAC eg (GetNamespace n r6)" "authorized policyRBAC eg (ListNamespaces r7)"
  "authorized policyRBAC eg (PatchNamespace q q' r6)"
  "authorized policyRBAC eg (RecordEvent ns n ty reason m) \<longleftrightarrow> eg = ''''"
  by (simp_all add: authorized_def grants_def policyRBAC_def)

text \<open>An effect the role settles is authorised as expected.\<close>

abbreviation settles :: "rbacRule list \<Rightarrow> string \<Rightarrow> effect \<Rightarrow> bool" where
  "settles rules eg e \<equiv> authorized rules eg e = expected eg e"

lemma emits_removeFromAll: "emits (settles policyRBAC eg) (removeFromAll C nss)"
  by (induction nss) (auto simp: remove_eq policy_authorized intro!: emits_intro)

lemma emits_applyToAll: "emits (settles policyRBAC eg) (applyToAll C pc n names)"
  by (induction names arbitrary: n) (auto simp: update_eq policy_authorized intro!: emits_intro)

lemma emits_pool: "emits (settles poolRBAC eg) (reconcilePool R K C ns n)"
  unfolding reconcilePool_def ensureInitialRVAnnotation_def reconcileValidPool_def selectActivePoolName_def
    buildConfig_def getDefaultCacheProfile_def renderAndStore_def storeConfig_def failPool_def
    upsertConfigMapWithCircuitBreaker_def upsertConfigMap_def setReadyCondition_def recordPoolEvent_def
    reconcileAfterPoolDeletion_def rebuildForPool_def rebuildWithProfile_def removeConfigKey_def prog_simps
  by (intro emits_intro) (simp_all add: pool_authorized)

lemma emits_profile: "emits (settles profileRBAC eg) (reconcileProfile recorder K C ns n)"
  unfolding reconcileProfile_def recordProfileEvent_def setActiveCondition_def prog_simps
  by (intro emits_intro) (simp_all add: profile_authorized)

lemma emits_policy: "emits (settles policyRBAC eg) (reconcilePolicy iter recorder K C ns n)"
  unfolding reconcilePolicy_def finalizePolicy_def clearPolicyEnforcement_def listManagedPolicyNamespaces_def
    enforceAndReport_def enforcePolicy_def validateReferences_def setValidatedCondition_def recordPolicyEvent_def prog_simps
  by (intro emits_intro emits_removeFromAll emits_applyToAll) (simp_all add: policy_authorized)

lemma performed_all: "emits P m \<Longrightarrow> list_all P (performed m s)"
  by (auto simp: list_all_iff dest: performed_emits)

text \<open>Watches and the requests their handlers make.\<close>

definition setupAuthorized :: "rbacRule list \<Rightarrow> ('w, 'z) sys_scheme controllerSetup \<Rightarrow> objectMeta \<Rightarrow> ('w, 'z) sys_scheme \<Rightarrow> bool" where
  "setupAuthorized rules S obj s \<longleftrightarrow>
     list_all (watchable rules) (cs_For S # map fst (cs_Watches S)) \<and>
     list_all (\<lambda>(k, f). list_all (authorized rules '''') (performed (f obj) s)) (cs_Watches S)"

lemma emits_handlers:
  "emits (authorized poolRBAC eg) (mapCacheProfileToPools C obj)"
  "emits (authorized policyRBAC eg) (mapUpstreamPoolToPolicies D obj)"
  "emits (authorized policyRBAC eg) (mapCacheProfileToPolicies D obj)"
  "emits (authorized policyRBAC eg) (mapNamespaceToPolicies D obj)"
  unfolding mapCacheProfileToPools_def mapUpstreamPoolToPolicies_def mapCacheProfileToPolicies_def
    mapNamespaceToPolicies_def prog_simps
  by (intro emits_intro; simp add: pool_authorized policy_authorized)+

text \<open>C33: the permissions suffice, and each controller keeps to its own.  The deployed role grants what
  the markers of the three controllers declare, no more and no less.  Whatever the API server answers,
  every request of a reconcile, of a watch and of its handler is granted by the markers of its own
  controller, except that events are granted in the core API group only.\<close>

theorem requests_authorized:
  "set (permissions managerRole) = set (permissions (poolRBAC @ profileRBAC @ policyRBAC)) \<and>
   list_all (\<lambda>e. authorized poolRBAC eg e = expected eg e) (performed (reconcilePool R K C ns n) s) \<and>
   list_all (\<lambda>e. authorized profileRBAC eg e = expected eg e) (performed (reconcileProfile recorder K D ns n) t) \<and>
   list_all (\<lambda>e. authorized policyRBAC eg e = expected eg e) (performed (reconcilePolicy iter recorder K D ns n) t) \<and>
   setupAuthorized poolRBAC (poolSetup C) obj s \<and> setupAuthorized profileRBAC profileSetup obj t \<and>
   setupAuthorized policyRBAC (policySetup D) obj t"
proof -
  have kinds: "watchable poolRBAC PoolKind" "watchable poolRBAC ProfileKind" "watchable profileRBAC ProfileKind"
    "watchable policyRBAC PolicyKind" "watchable policyRBAC PoolKind" "watchable policyRBAC ProfileKind"
    "watchable policyRBAC NamespaceKind"
    by (simp_all add: watchable_def grants_def poolRBAC_def profileRBAC_def policyRBAC_def)
  have "setupAuthorized poolRBAC (poolSetup C) obj s" "setupAuthorized profileRBAC profileSetup obj t"
    "setupAuthorized policyRBAC (policySetup D) obj t"
    by (simp_all add: setupAuthorized_def poolSetup_def profileSetup_def policySetup_def kinds
        performed_all [OF emits_handlers(1)] performed_all [OF emits_handlers(2)]
        performed_all [OF emits_handlers(3)] performed_all [OF emits_handlers(4)])
  then show ?thesis
    by (intro conjI managerRole_markers performed_all emits_pool emits_profile emits_policy)
qed

end
