(* ===== verification/Retry.thy ===== *)
theory Retry
  imports Rbac
begin

text \<open>
  Which failures a reconcile reports to the work queue, which runs it again.  \<open>surfaces F ok m\<close>: when
  \<open>m\<close> ends with a value that is \<open>ok\<close>, it has made no call that is \<open>F\<close>; \<open>rejects ok m\<close>: it never ends with
  one.  Their rules follow the structure of a program; after a failed call the rest must reject.
\<close>

section \<open>Failed calls\<close>

text \<open>An answer that an object is missing is no failure of the call.\<close>

definition refused :: "apiError + 'a \<Rightarrow> bool" where
  "refused r \<longleftrightarrow> (case r of Inl e \<Rightarrow> \<not> isNotFound e | Inr _ \<Rightarrow> False)"

fun failedCall :: "effect \<Rightarrow> bool" where
  "failedCall (GetPool ns n r) \<longleftrightarrow> refused r"
| "failedCall (ListPools ns r) \<longleftrightarrow> isl r"
| "failedCall (PatchPool p p' r) \<longleftrightarrow> isl r"
| "failedCall (PatchPoolStatus p p' r) \<longleftrightarrow> isl r"
| "failedCall (GetProfile ns n r) \<longleftrightarrow> refused r"
| "failedCall (PatchProfileStatus p p' r) \<longleftrightarrow> isl r"
| "failedCall (GetPolicy ns n r) \<longleftrightarrow> refused r"
| "failedCall (ListPolicies ns r) \<longleftrightarrow> isl r"
| "failedCall (PatchPolicy p p' r) \<longleftrightarrow> isl r"
| "failedCall (PatchPolicyStatus p p' r) \<longleftrightarrow> isl r"
| "failedCall (GetNamespace n r) \<longleftrightarrow> refused r"
| "failedCall (ListNamespaces r) \<longleftrightarrow> isl r"
| "failedCall (PatchNamespace n n' r) \<longleftrightarrow> isl r"
| "failedCall (GetConfigMap ns n r) \<longleftrightarrow> refused r"
| "failedCall (CreateOrUpdateConfigMap cm f r) \<longleftrightarrow> isl r"
| "failedCall (RecordEvent ns n t reason m) \<longleftrightarrow> False"
| "failedCall (ReadClock t) \<longleftrightarrow> False"
| "failedCall (Gauge c) \<longleftrightarrow> False"

section \<open>Rules\<close>

named_theorems surfaces_intro "programs that report their failed calls"

definition surfaces :: "(effect \<Rightarrow> bool) \<Rightarrow> ('a \<Rightarrow> bool) \<Rightarrow> (('w, 'z) sys_scheme, 'a) state \<Rightarrow> bool" where
  "surfaces F ok m \<longleftrightarrow>
     (\<forall>s. \<exists>es. effects (snd (run_state m s)) = effects s @ es \<and>
        (ok (fst (run_state m s)) \<longrightarrow> list_all (\<lambda>e. \<not> F e) es))"

definition rejects :: "('a \<Rightarrow> bool) \<Rightarrow> (('w, 'z) sys_scheme, 'a) state \<Rightarrow> bool" where
  "rejects ok m \<longleftrightarrow> surfaces (\<lambda>_. True) ok m \<and> (\<forall>s. \<not> ok (fst (run_state m s)))"

lemma rejects_surfaces: "rejects ok m \<Longrightarrow> surfaces F ok m"
  unfolding rejects_def surfaces_def by blast

lemma surfaces_return [surfaces_intro]: "surfaces F ok (State_Monad.return x)"
  by (simp add: surfaces_def)

lemma rejects_return [surfaces_intro]: "\<not> ok x \<Longrightarrow> rejects ok (State_Monad.return x)"
  by (simp add: rejects_def surfaces_def)

lemma surfaces_note [surfaces_intro]: "\<not> F e \<Longrightarrow> surfaces F ok (note_effect e)"
  by (simp add: surfaces_def note_effect_def)

lemma surfaces_api: "(\<And>r. F (e r) \<Longrightarrow> \<not> ok r) \<Longrightarrow> surfaces F ok (api e g)"
  by (auto simp: surfaces_def api_def split: prod.split)

lemma surfaces_withCircuit [surfaces_intro]: "surfaces F ok (withCircuit f)"
  by (simp add: surfaces_def withCircuit_def split: prod.split)

lemma surfaces_withMetric [surfaces_intro]: "(\<And>c. \<not> F (Gauge c)) \<Longrightarrow> surfaces F ok (withMetric f)"
  by (simp add: surfaces_def withMetric_def list_all_iff split: prod.split)

text \<open>What \<open>m\<close> lets through with \<open>mid\<close>, the rest must handle; what it does not, the rest must reject.\<close>

lemma surfaces_bind:
  assumes "surfaces F mid m" "\<And>a. mid a \<Longrightarrow> surfaces F ok (f a)" "\<And>a. \<not> mid a \<Longrightarrow> rejects ok (f a)"
  shows "surfaces F ok (State_Monad.bind m f)"
  unfolding surfaces_def
proof
  fix s
  obtain a t where m: "run_state m s = (a, t)" by force
  obtain es where es: "effects t = effects s @ es" "mid a \<longrightarrow> list_all (\<lambda>e. \<not> F e) es"
    using assms(1) m unfolding surfaces_def by (metis fst_conv snd_conv)
  have "surfaces F ok (f a)" "\<not> mid a \<Longrightarrow> \<not> ok (fst (run_state (f a) t))"
    using assms(2,3) rejects_surfaces unfolding rejects_def by blast+
  then obtain es' where "effects (snd (run_state (f a) t)) = effects t @ es'"
    "ok (fst (run_state (f a) t)) \<longrightarrow> mid a \<and> list_all (\<lambda>e. \<not> F e) es'"
    unfolding surfaces_def by blast
  then show "\<exists>es. effects (snd (run_state (State_Monad.bind m f) s)) = effects s @ es \<and>
      (ok (fst (run_state (State_Monad.bind m f) s)) \<longrightarrow> list_all (\<lambda>e. \<not> F e) es)"
    using m es by (intro exI [of _ "es @ es'"]) auto
qed

lemma rejects_bind:
  assumes "surfaces G mid m" "\<And>a. rejects ok (f a)"
  shows "rejects ok (State_Monad.bind m f)"
proof -
  have m: "surfaces F (\<lambda>_. False) m" for F using assms(1) unfolding surfaces_def by blast
  have "surfaces (\<lambda>_. True) ok (State_Monad.bind m f)"
    by (rule surfaces_bind [OF m]) (simp_all add: assms(2))
  then show ?thesis
    using assms(2) unfolding rejects_def by (auto split: prod.split)
qed

text \<open>A call that fails is followed by a program that rejects.\<close>

lemma surfaces_bind_api [surfaces_intro]:
  "(\<And>r. F (e r) \<Longrightarrow> rejects ok (f r)) \<Longrightarrow> (\<And>r. \<not> F (e r) \<Longrightarrow> surfaces F ok (f r)) \<Longrightarrow>
    surfaces F ok (State_Monad.bind (api e g) f)"
  by (rule surfaces_bind [OF surfaces_api, of F e "\<lambda>r. \<not> F (e r)"]) simp_all

lemma rejects_bind_api [surfaces_intro]: "(\<And>r. rejects ok (f r)) \<Longrightarrow> rejects ok (State_Monad.bind (api e g) f)"
  by (rule rejects_bind [OF surfaces_api, of _ _ "\<lambda>_. False"]) simp_all

lemma surfaces_if [surfaces_intro]:
  "(b \<Longrightarrow> surfaces F ok m) \<Longrightarrow> (\<not> b \<Longrightarrow> surfaces F ok n) \<Longrightarrow> surfaces F ok (if b then m else n)"
  "(b \<Longrightarrow> rejects ok m) \<Longrightarrow> (\<not> b \<Longrightarrow> rejects ok n) \<Longrightarrow> rejects ok (if b then m else n)"
  by simp_all

lemma surfaces_case_sum [surfaces_intro]:
  "(\<And>a. x = Inl a \<Longrightarrow> surfaces F ok (f a)) \<Longrightarrow> (\<And>b. x = Inr b \<Longrightarrow> surfaces F ok (g b)) \<Longrightarrow>
    surfaces F ok (case x of Inl a \<Rightarrow> f a | Inr b \<Rightarrow> g b)"
  "(\<And>a. x = Inl a \<Longrightarrow> rejects ok (f a)) \<Longrightarrow> (\<And>b. x = Inr b \<Longrightarrow> rejects ok (g b)) \<Longrightarrow>
    rejects ok (case x of Inl a \<Rightarrow> f a | Inr b \<Rightarrow> g b)"
  by (simp_all split: sum.split)

lemma surfaces_case_option [surfaces_intro]:
  "(x = None \<Longrightarrow> surfaces F ok m) \<Longrightarrow> (\<And>a. x = Some a \<Longrightarrow> surfaces F ok (f a)) \<Longrightarrow>
    surfaces F ok (case x of None \<Rightarrow> m | Some a \<Rightarrow> f a)"
  "(x = None \<Longrightarrow> rejects ok m) \<Longrightarrow> (\<And>a. x = Some a \<Longrightarrow> rejects ok (f a)) \<Longrightarrow>
    rejects ok (case x of None \<Rightarrow> m | Some a \<Rightarrow> f a)"
  by (simp_all split: option.split)

lemma surfaces_case_prod [surfaces_intro]:
  "(\<And>a b. x = (a, b) \<Longrightarrow> surfaces F ok (f a b)) \<Longrightarrow> surfaces F ok (case x of (a, b) \<Rightarrow> f a b)"
  by (simp split: prod.split)

lemma surfaces_case_list [surfaces_intro]:
  "(x = [] \<Longrightarrow> surfaces F ok m) \<Longrightarrow> (\<And>a as. x = a # as \<Longrightarrow> surfaces F ok (f a as)) \<Longrightarrow>
    surfaces F ok (case x of [] \<Rightarrow> m | a # as \<Rightarrow> f a as)"
  by (simp split: list.split)

lemma surfaces_performed:
  "surfaces F ok m \<Longrightarrow> ok (fst (run_state m s)) \<Longrightarrow> list_all (\<lambda>e. \<not> F e) (performed m s)"
  unfolding surfaces_def performed_def by (metis append_eq_conv_conj)

text \<open>Steps that call nothing that can fail.\<close>

lemma surfaces_circuit_then [surfaces_intro]:
  "(\<And>x. surfaces F ok (g x)) \<Longrightarrow> surfaces F ok (State_Monad.bind (withCircuit f) g)"
  "(\<And>x. rejects ok (g x)) \<Longrightarrow> rejects ok (State_Monad.bind (withCircuit f) g)"
  by (rule surfaces_bind [where mid = "\<lambda>_. True", OF surfaces_withCircuit]; simp)
    (rule rejects_bind [OF surfaces_withCircuit])

lemma surfaces_note_then [surfaces_intro]:
  "\<not> F e \<Longrightarrow> surfaces F ok (g ()) \<Longrightarrow> surfaces F ok (State_Monad.bind (note_effect e) g)"
  "rejects ok (g ()) \<Longrightarrow> rejects ok (State_Monad.bind (note_effect e) g)"
  by (rule surfaces_bind [where mid = "\<lambda>_. True", OF surfaces_note]; simp)
    (rule rejects_bind [where G = "\<lambda>_. False", OF surfaces_note]; simp)

lemma surfaces_metric_then [surfaces_intro]:
  "(\<And>x. surfaces failedCall ok (g x)) \<Longrightarrow> surfaces failedCall ok (State_Monad.bind (withMetric f) g)"
  by (rule surfaces_bind [where mid = "\<lambda>_. True", OF surfaces_withMetric]) simp_all

section \<open>Pools and profiles\<close>

abbreviation noError :: "goError option \<Rightarrow> bool" where "noError r \<equiv> r = None"
abbreviation noErrorRes :: "reconcileResult \<Rightarrow> bool" where "noErrorRes r \<equiv> snd r = None"

lemma refused_Inl: "refused (Inl e) \<longleftrightarrow> \<not> isNotFound e" "\<not> refused (Inr x)"
  by (simp_all add: refused_def)

lemma refused_iff: "refused r \<longleftrightarrow> (\<exists>e. r = Inl e \<and> \<not> isNotFound e)"
  by (cases r) (simp_all add: refused_def)

lemma surfaces_poolEvent: "surfaces failedCall ok (recordPoolEvent R p ty reason msg)"
  by (simp add: recordPoolEvent_def surfaces_return surfaces_note)

lemma surfaces_status: "surfaces failedCall noError (setReadyCondition K C p status reason msg)"
  unfolding setReadyCondition_def Let_def
  by (intro surfaces_intro) (auto split: sum.split simp: isl_def)

lemma surfaces_event_then [surfaces_intro]:
  "(\<And>x. surfaces failedCall ok (f x)) \<Longrightarrow> surfaces failedCall ok (State_Monad.bind (recordPoolEvent R p ty reason msg) f)"
  "(\<And>x. rejects ok (f x)) \<Longrightarrow> rejects ok (State_Monad.bind (recordPoolEvent R p ty reason msg) f)"
  by (rule surfaces_bind [OF surfaces_poolEvent [of "\<lambda>_. True"]]; simp)
    (rule rejects_bind [OF surfaces_poolEvent [of "\<lambda>_. True"]])

lemma surfaces_status_then [surfaces_intro]:
  "surfaces failedCall ok (f None) \<Longrightarrow> (\<And>e. rejects ok (f (Some e))) \<Longrightarrow>
    surfaces failedCall ok (State_Monad.bind (setReadyCondition K C p status reason msg) f)"
  "(\<And>x. rejects ok (f x)) \<Longrightarrow> rejects ok (State_Monad.bind (setReadyCondition K C p status reason msg) f)"
  by (rule surfaces_bind [OF surfaces_status]; auto) (rule rejects_bind [OF surfaces_status])

lemma surfaces_fail [surfaces_intro]:
  "surfaces failedCall noErrorRes (failPool R K C p reason msg res)"
  "snd res \<noteq> None \<Longrightarrow> rejects noErrorRes (failPool R K C p reason msg res)"
  unfolding failPool_def by (intro surfaces_intro; auto split: option.split)+

text \<open>A write behind the circuit reports every failure but the open circuit, which is no call.\<close>

definition writeKept :: "goError option \<Rightarrow> bool" where
  "writeKept r \<longleftrightarrow> (case r of None \<Rightarrow> True | Some e \<Rightarrow> errorsIs e errConfigMapCircuitOpen)"

lemma surfaces_upsert: "surfaces failedCall writeKept (upsertConfigMapWithCircuitBreaker R C ns json)"
  unfolding upsertConfigMapWithCircuitBreaker_def upsertConfigMap_def prog_simps
  by (intro surfaces_intro) (auto simp: writeKept_def errConfigMapCircuitOpen_def isl_def)

lemma surfaces_upsert_then [surfaces_intro]:
  "surfaces failedCall ok (f None) \<Longrightarrow> (\<And>e. errorsIs e errConfigMapCircuitOpen \<Longrightarrow> surfaces failedCall ok (f (Some e))) \<Longrightarrow>
    (\<And>e. \<not> errorsIs e errConfigMapCircuitOpen \<Longrightarrow> rejects ok (f (Some e))) \<Longrightarrow>
    surfaces failedCall ok (State_Monad.bind (upsertConfigMapWithCircuitBreaker R C ns json) f)"
  by (rule surfaces_bind [OF surfaces_upsert]) (auto simp: writeKept_def split: option.splits)

lemma surfaces_store [surfaces_intro]: "surfaces failedCall noErrorRes (storeConfig R K C p json)"
  unfolding storeConfig_def Let_def option.case
  by (intro surfaces_intro) (auto simp: errConfigMapCircuitOpen_def)

lemma surfaces_build: "surfaces failedCall noErrorRes (buildConfig R gen render K C p)"
  unfolding buildConfig_def renderAndStore_def getDefaultCacheProfile_def prog_simps
  by (intro surfaces_intro) (auto simp: refused_iff split: sum.splits option.splits)

lemma surfaces_valid: "surfaces failedCall noErrorRes (reconcileValidPool R gen render K C p)"
  unfolding reconcileValidPool_def selectActivePoolName_def prog_simps
  by (intro surfaces_intro surfaces_build) (auto simp: isl_def)

lemma surfaces_delete: "surfaces failedCall noError (reconcileAfterPoolDeletion R gen render K C ns)"
  unfolding reconcileAfterPoolDeletion_def rebuildForPool_def rebuildWithProfile_def removeConfigKey_def
    getDefaultCacheProfile_def prog_simps
  by (intro surfaces_intro) (auto simp: refused_iff isl_def split: sum.splits)

lemma surfaces_pool: "surfaces failedCall noErrorRes (reconcilePool R K C ns name)"
proof -
  have delete: "surfaces failedCall noErrorRes
      (State_Monad.bind (reconcileAfterPoolDeletion R gen render K C ns) (\<lambda>r. State_Monad.return (0, map_option f r)))"
    for gen render f
    by (rule surfaces_bind [OF surfaces_delete]) (simp_all add: surfaces_return rejects_return)
  show ?thesis
    unfolding reconcilePool_def ensureInitialRVAnnotation_def prog_simps
    by (intro surfaces_intro delete surfaces_valid) (auto simp: refused_iff isl_def)
qed

lemma surfaces_profile: "surfaces failedCall noError (reconcileProfile recorder K C ns name)"
  unfolding reconcileProfile_def recordProfileEvent_def setActiveCondition_def prog_simps
  by (intro surfaces_intro) (auto simp: refused_iff isl_def)

section \<open>Policies\<close>

text \<open>A policy reconcile keeps two kinds of failures from the queue: a conflict, which is no failed call,
  and a failed read of the pool or profile it refers to.\<close>

definition failedBeyondRefs :: "effect \<Rightarrow> bool" where
  "failedBeyondRefs e \<longleftrightarrow> failedCall e \<and> (\<forall>ns n r. e \<noteq> GetPool ns n r) \<and> (\<forall>ns n r. e \<noteq> GetProfile ns n r)"

lemma failedBeyondRefs_simps [simp]:
  "\<not> failedBeyondRefs (GetPool ns n r1)" "\<not> failedBeyondRefs (GetProfile ns n r2)"
  "failedBeyondRefs (GetPolicy ns n r3) \<longleftrightarrow> refused r3" "failedBeyondRefs (PatchPolicy p p' r4) \<longleftrightarrow> isl r4"
  "failedBeyondRefs (PatchPolicyStatus p p' r5) \<longleftrightarrow> isl r5" "failedBeyondRefs (GetNamespace n r6) \<longleftrightarrow> refused r6"
  "failedBeyondRefs (ListNamespaces r7) \<longleftrightarrow> isl r7" "failedBeyondRefs (PatchNamespace q q' r8) \<longleftrightarrow> isl r8"
  "\<not> failedBeyondRefs (RecordEvent ns n t reason m)"
  by (simp_all add: failedBeyondRefs_def)

definition conflictOnly :: "goError option \<Rightarrow> bool" where
  "conflictOnly r \<longleftrightarrow> (case r of None \<Rightarrow> True | Some e \<Rightarrow> errorsIs e errNamespacePolicyConflict)"

lemma conflictOnly_simps [simp]:
  "conflictOnly None" "conflictOnly (Some (Wrap f as (ApiErr e))) \<longleftrightarrow> False"
  by (simp_all add: conflictOnly_def errNamespacePolicyConflict_def)

lemma surfaces_remove: "surfaces failedBeyondRefs conflictOnly (removeNamespacePolicyAnnotations C ns)"
  unfolding remove_eq by (intro surfaces_intro) (auto simp: isl_def)

lemma surfaces_removeFromAll: "surfaces failedBeyondRefs conflictOnly (removeFromAll C nss)"
proof (induction nss)
  case (Cons ns nss)
  then show ?case
    unfolding removeFromAll.simps
    by (intro surfaces_bind [OF surfaces_remove] surfaces_intro) (auto intro: rejects_return surfaces_return split: option.split)
qed (simp add: surfaces_return)

definition conflictOnlySum :: "goError + 'a \<Rightarrow> bool" where
  "conflictOnlySum r \<longleftrightarrow> (case r of Inl e \<Rightarrow> errorsIs e errNamespacePolicyConflict | Inr _ \<Rightarrow> True)"

lemma conflictOnlySum_simps [simp]:
  "conflictOnlySum (Inr x)" "conflictOnlySum (Inl e) \<longleftrightarrow> conflictOnly (Some e)"
  by (simp_all add: conflictOnlySum_def conflictOnly_def)

lemma surfaces_update: "surfaces failedBeyondRefs conflictOnly (updateNamespacePolicyAnnotations C ns pc)"
  unfolding update_eq by (intro surfaces_intro) (auto simp: isl_def)

lemma surfaces_applyToAll: "surfaces failedBeyondRefs conflictOnlySum (applyToAll C pc n names)"
proof (induction names arbitrary: n)
  case (Cons nm names)
  then show ?case
    unfolding applyToAll.simps
    by (intro surfaces_bind_api surfaces_bind [OF surfaces_update] surfaces_intro)
      (auto simp: refused_iff intro: rejects_return surfaces_return split: option.split)
qed (simp add: surfaces_return)

lemma surfaces_enforce: "surfaces failedBeyondRefs conflictOnlySum (enforcePolicy iter C pc)"
  unfolding enforcePolicy_def listManagedPolicyNamespaces_def prog_simps
  by (intro surfaces_bind_api surfaces_bind [OF surfaces_removeFromAll] surfaces_intro surfaces_applyToAll)
    (auto simp: isl_def intro: rejects_return surfaces_return split: option.split)

lemma surfaces_refs: "surfaces failedBeyondRefs ok (validateReferences K C (Some pc))"
  unfolding validateReferences_def Let_def option.case
  by (intro surfaces_intro) (auto intro: rejects_return)

lemma surfaces_policyStatus:
  "surfaces failedBeyondRefs noError (setValidatedCondition K C pc status reason msg n)"
  unfolding setValidatedCondition_def Let_def
  by (intro surfaces_intro) (auto simp: isl_def)

lemma surfaces_policyStatus_then [surfaces_intro]:
  "surfaces failedBeyondRefs ok (f None) \<Longrightarrow> (\<And>e. rejects ok (f (Some e))) \<Longrightarrow>
    surfaces failedBeyondRefs ok (State_Monad.bind (setValidatedCondition K C pc status reason msg n) f)"
  "(\<And>x. rejects ok (f x)) \<Longrightarrow> rejects ok (State_Monad.bind (setValidatedCondition K C pc status reason msg n) f)"
  by (rule surfaces_bind [OF surfaces_policyStatus]; auto) (rule rejects_bind [OF surfaces_policyStatus])

lemma surfaces_policyEvent_then [surfaces_intro]:
  "(\<And>x. surfaces failedBeyondRefs ok (f x)) \<Longrightarrow>
    surfaces failedBeyondRefs ok (State_Monad.bind (recordPolicyEvent recorder pc ty reason msg) f)"
  "(\<And>x. rejects ok (f x)) \<Longrightarrow> rejects ok (State_Monad.bind (recordPolicyEvent recorder pc ty reason msg) f)"
  unfolding recordPolicyEvent_def by (simp_all add: surfaces_note_then)

lemma surfaces_enforceAndReport: "surfaces failedBeyondRefs noError (enforceAndReport iter recorder K C pc)"
proof -
  have enforce: "surfaces failedBeyondRefs noError (State_Monad.bind (enforcePolicy iter C pc) f)"
    if "\<And>a. conflictOnlySum a \<Longrightarrow> surfaces failedBeyondRefs noError (f a)"
      "\<And>a. \<not> conflictOnlySum a \<Longrightarrow> rejects noError (f a)" for f
    by (rule surfaces_bind [OF surfaces_enforce]) (simp_all add: that)
  show ?thesis
    unfolding enforceAndReport_def
    by (intro surfaces_bind [OF surfaces_refs [of "\<lambda>_. True"]] surfaces_intro surfaces_policyStatus enforce)
      (auto simp: conflictOnly_def split: sum.splits option.splits
        intro!: surfaces_intro surfaces_policyStatus)
qed

lemma surfaces_finalize: "surfaces failedBeyondRefs noError (finalizePolicy K C pc)"
  unfolding finalizePolicy_def clearPolicyEnforcement_def listManagedPolicyNamespaces_def prog_simps
  by (intro surfaces_bind_api surfaces_bind [OF surfaces_removeFromAll] surfaces_intro)
    (auto simp: isl_def conflictOnly_def intro!: surfaces_intro split: option.splits sum.splits)

lemma surfaces_policy: "surfaces failedBeyondRefs noError (reconcilePolicy iter recorder K C ns name)"
  unfolding reconcilePolicy_def Let_def
  by (intro surfaces_intro surfaces_finalize surfaces_enforceAndReport) (auto simp: refused_iff isl_def)

section \<open>What is retried\<close>

text \<open>C31: no failed request is swallowed.  If any request of a reconcile of a pool or of a profile
  fails, on any server, the reconcile ends with an error, so that the work queue runs it again; so does
  the reconcile of a policy, except for failed reads of the pool and the profile it refers to.\<close>

theorem failed_requests_are_retried:
  "(list_ex failedCall (performed (reconcilePool R K C ns name) s) \<longrightarrow>
      snd (fst (run_state (reconcilePool R K C ns name) s)) \<noteq> None) \<and>
   (list_ex failedCall (performed (reconcileProfile recorder K D ns name) t) \<longrightarrow>
      fst (run_state (reconcileProfile recorder K D ns name) t) \<noteq> None) \<and>
   (list_ex failedBeyondRefs (performed (reconcilePolicy iter recorder K D ns name) t) \<longrightarrow>
      fst (run_state (reconcilePolicy iter recorder K D ns name) t) \<noteq> None)"
  using surfaces_performed [OF surfaces_pool [of R K C ns name], of s]
    surfaces_performed [OF surfaces_profile [of recorder K D ns name], of t]
    surfaces_performed [OF surfaces_policy [of iter recorder K D ns name], of t]
  by (auto simp: list_ex_iff list_all_iff)

text \<open>A server on which every read of a pool, a profile or a policy times out.\<close>

definition deafClient :: "cluster client" where
  "deafClient = memClient\<lparr>cl_GetPool := (\<lambda>ns n w. (Inl (OtherApiError ''timeout''), w)),
     cl_GetProfile := (\<lambda>ns n w. (Inl (OtherApiError ''timeout''), w)),
     cl_GetPolicy := (\<lambda>ns n w. (Inl (OtherApiError ''timeout''), w))\<rparr>"

theorem failed_requests_are_retried_witness:
  "snd (fst (run_state (reconcilePool (demoReconciler '''') refK8s deafClient ''a'' ''p'') (demoState emptyCluster))) \<noteq> None \<and>
   fst (run_state (reconcileProfile False refK8s deafClient ''a'' ''p'') policyState) \<noteq> None \<and>
   fst (run_state (reconcilePolicy rev False refK8s deafClient ''a'' ''p'') policyState) \<noteq> None"
proof -
  have "list_ex failedCall (performed (reconcilePool (demoReconciler '''') refK8s deafClient ''a'' ''p'') (demoState emptyCluster))"
    "list_ex failedCall (performed (reconcileProfile False refK8s deafClient ''a'' ''p'') policyState)"
    "list_ex failedBeyondRefs (performed (reconcilePolicy rev False refK8s deafClient ''a'' ''p'') policyState)"
    by (simp_all add: performed_def reconcilePool_def reconcileProfile_def reconcilePolicy_def deafClient_def
        demoReconciler_def demoState_def policyState_def run_simps refused_def isNotFound_def)
  then show ?thesis
    using failed_requests_are_retried [of "demoReconciler ''''" refK8s deafClient "''a''" "''p''" "demoState emptyCluster"
        False deafClient policyState rev] by blast
qed

text \<open>C39: a failed read of the pool a policy refers to is not retried: when the server answers with an
  error other than that the pool is missing, the live policy is reported as invalid, by an event where a
  recorder is set and by its status, and the reconcile ends without an error.  (\<open>validateReferences\<close> returns the error of the server like that of a missing
  pool, and \<open>Reconcile\<close> returns nil for both.)\<close>

theorem failed_lookup_not_retried:
  assumes "cl_GetPolicy C ns name (world s) = (Inr pc, w1)" "\<not> isDeleting pc"
    and "containsFinalizer K (om_Finalizers (pc_Meta pc)) externalPolicyFinalizer"
    and "pl_SelectorNamespaces (pc_Spec pc) \<noteq> []" "checkSelector K 0 [] (pl_SelectorNamespaces (pc_Spec pc)) = None"
    and "validatePolicyRefName K (pl_UpstreamPoolRef (pc_Spec pc)) ''spec.upstreamPoolRef.name'' True = Inr ref"
    and "cl_GetPool C (om_Namespace (pc_Meta pc)) ref w1 = (Inl e, w2)" "\<not> isNotFound e"
    and "cl_PatchPolicyStatus C pc (withValidatedCondition K pc ConditionFalse ''ValidationFailed''
      (MErr (Wrap ''get referenced upstream pool %q: %w'' [AStr ref] (ApiErr e))) 0) w2 = (Inr q, w3)"
  shows "performed (reconcilePolicy iter recorder K C ns name) s =
      [GetPolicy ns name (Inr pc), GetPool (om_Namespace (pc_Meta pc)) ref (Inl e)] @
      (if recorder then [RecordEvent (om_Namespace (pc_Meta pc)) (om_Name (pc_Meta pc)) EventTypeWarning ''ValidationFailed''
         (MErr (Wrap ''get referenced upstream pool %q: %w'' [AStr ref] (ApiErr e)))] else []) @
      [PatchPolicyStatus pc (withValidatedCondition K pc ConditionFalse ''ValidationFailed''
         (MErr (Wrap ''get referenced upstream pool %q: %w'' [AStr ref] (ApiErr e))) 0) (Inr q)] \<and>
    fst (run_state (reconcilePolicy iter recorder K C ns name) s) = None"
  using assms
  by (simp add: performed_def reconcilePolicy_def enforceAndReport_def validateReferences_def setValidatedCondition_def
      recordPolicyEvent_def run_simps Let_def del: checkSelector.simps)

theorem failed_lookup_not_retried_witness:
  "fst (run_state (reconcilePolicy rev True refK8s (deafClient\<lparr>cl_GetPolicy := cl_GetPolicy memClient\<rparr>) ''a'' ''pol'')
      (policyState\<lparr>world := policyCluster\<lparr>mc_Policies := [conflictPolicy]\<rparr>\<rparr>)) = None"
proof -
  let ?C = "deafClient\<lparr>cl_GetPolicy := cl_GetPolicy memClient\<rparr>"
  let ?w = "policyCluster\<lparr>mc_Policies := [conflictPolicy]\<rparr>"
  let ?e = "OtherApiError ''timeout''"
  let ?pc' = "withValidatedCondition refK8s conflictPolicy ConditionFalse ''ValidationFailed''
      (MErr (Wrap ''get referenced upstream pool %q: %w'' [AStr ''p''] (ApiErr ?e))) 0"
  have meta: "pc_Meta conflictPolicy = (plainMeta ''a'' ''pol'')\<lparr>om_UID := ''u2'', om_Finalizers := [externalPolicyFinalizer]\<rparr>"
    "pc_Spec conflictPolicy = \<lparr>pl_SelectorNamespaces = [''x'', ''z''], pl_UpstreamPoolRef = ''p'', pl_CacheProfileRef = ''''\<rparr>"
    by (simp_all add: conflictPolicy_def demoPolicy_def)
  have get: "cl_GetPolicy ?C ''a'' ''pol'' (world (policyState\<lparr>world := ?w\<rparr>)) = (Inr conflictPolicy, ?w)"
    by (simp add: memClient_def lookupBy_def metaKey_def meta plainMeta_def)
  have pool: "cl_GetPool ?C (om_Namespace (pc_Meta conflictPolicy)) ''p'' ?w = (Inl ?e, ?w)"
    by (simp add: deafClient_def)
  obtain w3 where patch: "cl_PatchPolicyStatus ?C conflictPolicy ?pc' ?w = (Inr ?pc', w3)"
    by (simp add: deafClient_def memClient_def)
  have live: "\<not> isDeleting conflictPolicy" "containsFinalizer refK8s (om_Finalizers (pc_Meta conflictPolicy)) externalPolicyFinalizer"
    "pl_SelectorNamespaces (pc_Spec conflictPolicy) \<noteq> []"
    by (simp_all add: isDeleting_def meta plainMeta_def refK8s_def)
  have names: "checkSelector refK8s 0 [] (pl_SelectorNamespaces (pc_Spec conflictPolicy)) = None"
    "validatePolicyRefName refK8s (pl_UpstreamPoolRef (pc_Spec conflictPolicy)) ''spec.upstreamPoolRef.name'' True = Inr ''p''"
    using conflict_names by (simp_all add: meta del: checkSelector.simps)
  show ?thesis
    using failed_lookup_not_retried [OF get live names pool _ patch, of rev True] by (simp add: isNotFound_def)
qed

end
