(* ===== verification/Board.thy ===== *)
theory Board
  imports Failover
begin

text \<open>
  What the pool controller shares with the rest of the world: the pools, the profiles, the ConfigMaps
  and its work queue.  Others change pools and profiles at any time, and every change puts requests
  into the queue (\<open>boardMay\<close>).  The invariant \<open>boardInv\<close> says that what is not yet as it should be
  has a request that is waiting or in hand.
\<close>

section \<open>The board\<close>

text \<open>
  The requests waiting, a set since equal ones are merged, and the one being reconciled; and the
  namespaces in which pools are made.
\<close>

record board =
  bo_Pools :: "pool list"
  bo_Profiles :: "profile list"
  bo_ConfigMaps :: "configMap list"
  bo_Queue :: "(string \<times> string) set"
  bo_Hand :: "(string \<times> string) set"
  bo_Spaces :: "string set"

abbreviation poolNs :: "pool \<Rightarrow> string" where "poolNs p \<equiv> om_Namespace (po_Meta p)"

definition boardKeys :: "board \<Rightarrow> (string \<times> string) set" where
  "boardKeys v = poolKey ` set (bo_Pools v)"

definition pending :: "board \<Rightarrow> (string \<times> string) set" where
  "pending v = bo_Queue v \<union> bo_Hand v"

text \<open>No two pools of a namespace were created in the same second.\<close>

definition boardOk :: "board \<Rightarrow> bool" where
  "boardOk v \<longleftrightarrow> fst ` (boardKeys v \<union> pending v) \<subseteq> bo_Spaces v \<and> distinct (map poolKey (bo_Pools v)) \<and>
     (\<forall>p \<in> set (bo_Pools v). poolCreated p \<noteq> 0 \<and>
        (\<forall>q \<in> set (bo_Pools v). poolNs q = poolNs p \<longrightarrow> poolCreated q = poolCreated p \<longrightarrow> q = p))"

text \<open>
  Others may change, delete and create pools: the request of each pool concerned is put into the
  queue.  A new pool is younger than those of its namespace, and none is created under the name of a
  pool whose request is pending.  When the default profile of a namespace changes, the requests of its
  pools are put into the queue (\<open>mapCacheProfileToPools\<close>).  Nobody else writes the ConfigMaps.
\<close>

definition boardMay :: "board \<Rightarrow> board \<Rightarrow> bool" where
  "boardMay v v' \<longleftrightarrow> boardOk v' \<and> bo_ConfigMaps v' = bo_ConfigMaps v \<and> bo_Hand v' = bo_Hand v \<and>
     bo_Spaces v' = bo_Spaces v \<and> bo_Queue v \<subseteq> bo_Queue v' \<and>
     (\<forall>p \<in> set (bo_Pools v). poolKey p \<in> bo_Queue v' \<or> p \<in> set (bo_Pools v')) \<and>
     (\<forall>p \<in> set (bo_Pools v). \<forall>p' \<in> set (bo_Pools v'). poolKey p' = poolKey p \<longrightarrow> poolCreated p' = poolCreated p) \<and>
     (\<forall>p' \<in> set (bo_Pools v'). poolKey p' \<notin> boardKeys v \<longrightarrow>
        poolKey p' \<in> bo_Queue v' \<and> poolKey p' \<notin> pending v \<and>
        (\<forall>p \<in> set (bo_Pools v). poolKey p \<in> boardKeys v' \<longrightarrow> poolNs p = poolNs p' \<longrightarrow> poolCreated p < poolCreated p')) \<and>
     (\<forall>p' \<in> set (bo_Pools v'). poolKey p' \<in> bo_Queue v' \<or>
        defaultProfileOf (poolNs p') (bo_Profiles v') = defaultProfileOf (poolNs p') (bo_Profiles v))"

text \<open>
  The writes of the controller itself: to a pool's annotations, to its status, to a ConfigMap.  They
  may put requests of pools there are into the queue.
\<close>

definition requeued :: "board \<Rightarrow> board \<Rightarrow> bool" where
  "requeued v v' \<longleftrightarrow> bo_Queue v \<subseteq> bo_Queue v' \<and> bo_Queue v' \<subseteq> bo_Queue v \<union> boardKeys v \<and>
     bo_Hand v' = bo_Hand v \<and> bo_Spaces v' = bo_Spaces v"

definition poolTouched :: "(pool \<Rightarrow> pool \<Rightarrow> bool) \<Rightarrow> string \<times> string \<Rightarrow> board \<Rightarrow> board \<Rightarrow> bool" where
  "poolTouched T k v v' \<longleftrightarrow>
     list_all2 (\<lambda>p p'. if poolKey p = k then poolKey p' = k \<and> poolCreated p' = poolCreated p \<and> po_Spec p' = po_Spec p \<and> T p p'
       else p' = p) (bo_Pools v) (bo_Pools v') \<and>
     bo_Profiles v' = bo_Profiles v \<and> bo_ConfigMaps v' = bo_ConfigMaps v \<and> requeued v v'"

definition statusKept :: "pool \<Rightarrow> pool \<Rightarrow> bool" where
  "statusKept p p' \<longleftrightarrow> po_Status p' = po_Status p"

text \<open>A merge patch of the status sends what differs.\<close>

definition conditionsOf :: "pool \<Rightarrow> condition list" where
  "conditionsOf p = st_Conditions (po_Status p)"

definition conditionsSent :: "pool \<Rightarrow> pool \<Rightarrow> pool \<Rightarrow> pool \<Rightarrow> bool" where
  "conditionsSent old new p p' \<longleftrightarrow>
     conditionsOf p' = (if conditionsOf old = conditionsOf new then conditionsOf p else conditionsOf new)"

definition configWritten :: "configMap \<Rightarrow> (configMap \<Rightarrow> configMap) \<Rightarrow> board \<Rightarrow> board \<Rightarrow> bool" where
  "configWritten cm f v v' \<longleftrightarrow>
     bo_Pools v' = bo_Pools v \<and> bo_Profiles v' = bo_Profiles v \<and>
     bo_ConfigMaps v' = upsertBy cmKey cm f (bo_ConfigMaps v) \<and> requeued v v'"

section \<open>The invariant\<close>

definition firstIn :: "board \<Rightarrow> pool \<Rightarrow> bool" where
  "firstIn v p \<longleftrightarrow> p \<in> set (bo_Pools v) \<and> (\<forall>q \<in> set (bo_Pools v). poolNs q = poolNs p \<longrightarrow> poolCreated p \<le> poolCreated q)"

text \<open>A deleted pool whose request is in \<open>Q\<close>.\<close>

definition goneIn :: "(string \<times> string) set \<Rightarrow> board \<Rightarrow> string \<Rightarrow> bool" where
  "goneIn Q v ns \<longleftrightarrow> (\<exists>n. (ns, n) \<in> Q \<and> (ns, n) \<notin> boardKeys v)"

record controller =
  ct_R :: poolReconciler
  ct_K :: k8s
  ct_Cpus :: int
  ct_Render :: "engineConfig option \<Rightarrow> goError + string"

definition builds :: "controller \<Rightarrow> board \<Rightarrow> pool \<Rightarrow> string \<Rightarrow> bool" where
  "builds c v p json \<longleftrightarrow>
     buildsConfig (ct_R c) (Generate (ct_Cpus c)) (ct_Render c) p (defaultProfileOf (poolNs p) (bo_Profiles v)) json"

definition inEffect :: "controller \<Rightarrow> board \<Rightarrow> pool \<Rightarrow> bool" where
  "inEffect c v p \<longleftrightarrow>
     (validateDNSUpstreamPool (ct_K c) (Some p) = None \<longrightarrow>
       (\<forall>json. builds c v p json \<longrightarrow> publishes (ct_R c) (poolNs p) json (bo_ConfigMaps v) \<and> readyTrue p))"

definition circuitOpen :: "breaker \<Rightarrow> string \<Rightarrow> bool" where
  "circuitOpen b ns \<longleftrightarrow> (\<exists>u. circuitOf b ns = Open u)"

text \<open>Of the oldest pool of a namespace; and of the others.\<close>

definition firstServed :: "controller \<Rightarrow> (string \<times> string) set \<Rightarrow> board \<Rightarrow> breaker \<Rightarrow> pool \<Rightarrow> bool" where
  "firstServed c Q v b p \<longleftrightarrow>
     poolKey p \<in> Q \<or> goneIn Q v (poolNs p) \<or> inEffect c v p \<or> circuitOpen b (operatorNamespace (ct_R c) (poolNs p))"

text \<open>
  The configurations of different namespaces go to different ConfigMaps: \<open>POD_NAMESPACE\<close> is not set, or
  pools are made in one namespace only.
\<close>

abbreviation apart :: "controller \<Rightarrow> board \<Rightarrow> bool" where
  "apart c v \<equiv> inj_on (operatorNamespace (ct_R c)) (bo_Spaces v)"

definition boardInv :: "controller \<Rightarrow> board \<Rightarrow> breaker \<Rightarrow> bool" where
  "boardInv c v b \<longleftrightarrow> boardOk v \<and> apart c v \<and> breakerInv b \<and>
     (\<forall>p. firstIn v p \<longrightarrow> firstServed c (pending v) v b p) \<and>
     (\<forall>p \<in> set (bo_Pools v). firstIn v p \<or> poolKey p \<in> pending v \<or> \<not> readyTrue p)"

section \<open>Facts of boards\<close>

lemma poolKey_eq: "poolKey p = poolKey q \<longleftrightarrow> poolNs p = poolNs q \<and> poolName p = poolName q"
  by (simp add: poolKey_def metaKey_def)

lemma poolKey_ns: "poolKey p = (ns, n) \<Longrightarrow> poolNs p = ns"
  by (simp add: poolKey_def metaKey_def)

lemma boardOk_unique: "boardOk v \<Longrightarrow> p \<in> set (bo_Pools v) \<Longrightarrow> q \<in> set (bo_Pools v) \<Longrightarrow> poolKey p = poolKey q \<Longrightarrow> p = q"
  unfolding boardOk_def by (metis distinct_map inj_onD)

lemma boardOk_created: "boardOk v \<Longrightarrow> p \<in> set (bo_Pools v) \<Longrightarrow> q \<in> set (bo_Pools v) \<Longrightarrow> poolNs q = poolNs p \<Longrightarrow>
    poolCreated q = poolCreated p \<Longrightarrow> q = p"
  unfolding boardOk_def by blast

lemma boardOk_spaces: "boardOk v \<Longrightarrow> K \<subseteq> boardKeys v \<union> pending v \<Longrightarrow> fst ` K \<subseteq> bo_Spaces v"
  unfolding boardOk_def by blast

lemma firstIn_mem: "firstIn v p \<Longrightarrow> p \<in> set (bo_Pools v)"
  by (simp add: firstIn_def)

lemma firstIn_unique: "boardOk v \<Longrightarrow> firstIn v p \<Longrightarrow> firstIn v q \<Longrightarrow> poolNs q = poolNs p \<Longrightarrow> q = p"
  unfolding firstIn_def using boardOk_created by (metis order_antisym)

lemma firstIn_least: "p \<in> set (bo_Pools v) \<Longrightarrow> \<exists>q. firstIn v q \<and> poolNs q = poolNs p"
proof -
  assume p: "p \<in> set (bo_Pools v)"
  define S where "S = {q \<in> set (bo_Pools v). poolNs q = poolNs p}"
  have S: "finite S" "S \<noteq> {}" using p by (auto simp: S_def)
  define q where "q = arg_min_on poolCreated S"
  have q: "q \<in> S" "\<forall>r \<in> S. poolCreated q \<le> poolCreated r"
    using arg_min_if_finite [OF S, of poolCreated] by (auto simp: q_def not_less)
  then show ?thesis by (intro exI [of _ q]) (auto simp: firstIn_def S_def)
qed

lemma boardKeys_iff: "k \<in> boardKeys v \<longleftrightarrow> (\<exists>p \<in> set (bo_Pools v). poolKey p = k)"
  by (auto simp: boardKeys_def)

lemma boardKeysI: "p \<in> set (bo_Pools v) \<Longrightarrow> poolKey p \<in> boardKeys v"
  by (simp add: boardKeys_def)

lemma goneInI: "k \<in> Q \<Longrightarrow> k \<notin> boardKeys v \<Longrightarrow> fst k = ns \<Longrightarrow> goneIn Q v ns"
  unfolding goneIn_def by (cases k) auto

lemma fst_poolKey [simp]: "fst (poolKey p) = poolNs p"
  by (simp add: poolKey_def metaKey_def)

text \<open>The first pool of the selection is the oldest, when no two were created in the same second.\<close>

lemma sorted_first:
  assumes "boardOk v" "set items = set (poolsIn ns (bo_Pools v))" "sortPoolsForSelection items = p # ps"
  shows "firstIn v p" "poolNs p = ns"
proof -
  let ?S = "set (poolsIn ns (bo_Pools v))"
  have less: "poolLess a b \<longleftrightarrow> poolCreated a < poolCreated b" if "a \<in> ?S" "b \<in> ?S" for a b
  proof (cases "a = b")
    case False
    have "a \<in> set (bo_Pools v)" "b \<in> set (bo_Pools v)" "poolNs a = poolNs b" using that by (simp_all add: poolsIn_def)
    then have "poolCreated a \<noteq> 0" "poolCreated b \<noteq> 0" "poolCreated a \<noteq> poolCreated b"
      using assms(1) boardOk_created [OF assms(1), of b a] False unfolding boardOk_def by blast+
    then show ?thesis by (simp add: poolLess_def Let_def)
  qed (simp add: poolLess_def Let_def)
  have sw: "strict_weak poolLess ?S"
    by (rule strict_weak.intro) (simp_all add: less)
  have mem: "p \<in> ?S" using set_sortPools [of items] unfolding assms(2,3) by auto
  then show p: "poolNs p = ns" by (simp add: poolsIn_def)
  have "\<not> poolLess q p" if "q \<in> ?S" for q
    using strict_weak.insertionSort_hd_least [OF sw, of items q] that assms(2,3) by (simp add: sortPoolsForSelection_def)
  then have "poolCreated p \<le> poolCreated q" if "q \<in> ?S" for q
    using less [OF that mem] that by (meson not_less)
  then show "firstIn v p" using mem p by (auto simp: firstIn_def poolsIn_def)
qed


section \<open>What others leave alone\<close>

lemma may_ok: "boardMay v v' \<Longrightarrow> boardOk v'"
  by (simp add: boardMay_def)

lemma may_pending: "boardMay v v' \<Longrightarrow> pending v \<subseteq> pending v'" "boardMay v v' \<Longrightarrow> bo_Queue v \<subseteq> bo_Queue v'"
  "boardMay v v' \<Longrightarrow> bo_ConfigMaps v' = bo_ConfigMaps v" "boardMay v v' \<Longrightarrow> bo_Hand v' = bo_Hand v"
  "boardMay v v' \<Longrightarrow> bo_Spaces v' = bo_Spaces v"
  by (auto simp: boardMay_def pending_def)

lemma may_new: "boardMay v v' \<Longrightarrow> k \<in> boardKeys v' \<Longrightarrow> k \<notin> boardKeys v \<Longrightarrow> k \<in> bo_Queue v' \<and> k \<notin> pending v"
  unfolding boardMay_def boardKeys_iff by blast

lemma may_kept: "boardMay v v' \<Longrightarrow> p \<in> set (bo_Pools v) \<Longrightarrow> poolKey p \<notin> bo_Queue v' \<Longrightarrow> p \<in> set (bo_Pools v')"
  unfolding boardMay_def by blast

lemma may_created:
  "boardMay v v' \<Longrightarrow> p \<in> set (bo_Pools v) \<Longrightarrow> p' \<in> set (bo_Pools v') \<Longrightarrow> poolKey p' = poolKey p \<Longrightarrow> poolCreated p' = poolCreated p"
  unfolding boardMay_def by blast

lemma may_gone:
  assumes "boardMay v v'"
  shows "goneIn (pending v) v ns \<Longrightarrow> goneIn (pending v') v' ns" "goneIn (bo_Queue v) v ns \<Longrightarrow> goneIn (bo_Queue v') v' ns"
proof -
  have "k \<notin> boardKeys v'" if "k \<in> pending v" "k \<notin> boardKeys v" for k
    using may_new [OF assms, of k] that by blast
  then show "goneIn (pending v) v ns \<Longrightarrow> goneIn (pending v') v' ns" "goneIn (bo_Queue v) v ns \<Longrightarrow> goneIn (bo_Queue v') v' ns"
    using may_pending(1,2) [OF assms] unfolding goneIn_def pending_def by blast+
qed

lemma may_old:
  assumes "boardMay v v'" "p \<in> set (bo_Pools v')" "poolKey p \<notin> bo_Queue v'"
  shows "p \<in> set (bo_Pools v)"
proof -
  have "poolKey p \<in> boardKeys v" using may_new [OF assms(1) boardKeysI [OF assms(2)]] assms(3) by blast
  then obtain q where q: "q \<in> set (bo_Pools v)" "poolKey q = poolKey p" by (auto simp: boardKeys_iff)
  then have "q \<in> set (bo_Pools v')" using may_kept [OF assms(1)] assms(3) by simp
  then have "q = p" using boardOk_unique [OF may_ok [OF assms(1)]] assms(2) q(2) by blast
  then show ?thesis using q(1) by simp
qed

text \<open>A pool that becomes the oldest does so because an older one was deleted.\<close>

lemma may_first:
  assumes "boardMay v v'" "firstIn v' p" "poolKey p \<notin> bo_Queue v'"
  shows "firstIn v p \<or> goneIn (bo_Queue v') v' (poolNs p)"
proof (rule disjCI)
  assume no: "\<not> goneIn (bo_Queue v') v' (poolNs p)"
  have p: "p \<in> set (bo_Pools v)" "p \<in> set (bo_Pools v')"
    using may_old [OF assms(1) _ assms(3)] assms(2) firstIn_mem by blast+
  have "poolCreated p \<le> poolCreated q" if q: "q \<in> set (bo_Pools v)" "poolNs q = poolNs p" for q
  proof (cases "poolKey q \<in> boardKeys v'")
    case True
    then obtain q' where q': "q' \<in> set (bo_Pools v')" "poolKey q' = poolKey q" by (auto simp: boardKeys_iff)
    then have "poolCreated q' = poolCreated q" "poolNs q' = poolNs p"
      using may_created [OF assms(1) q(1)] q(2) by (simp_all add: poolKey_eq)
    then show ?thesis using assms(2) q'(1) unfolding firstIn_def by metis
  next
    case False
    then have "poolKey q \<in> bo_Queue v'" using may_kept [OF assms(1) q(1)] by (auto simp: boardKeys_iff)
    then have "goneIn (bo_Queue v') v' (poolNs p)"
      by (rule goneInI) (use False q(2) in simp_all)
    then show ?thesis using no by blast
  qed
  then show "firstIn v p" using p(1) by (simp add: firstIn_def)
qed

lemma may_first_kept:
  assumes "boardMay v v'" "firstIn v p" "p' \<in> set (bo_Pools v')" "poolKey p' = poolKey p"
  shows "firstIn v' p'"
  unfolding firstIn_def
proof (intro conjI ballI impI)
  fix q assume q: "q \<in> set (bo_Pools v')" "poolNs q = poolNs p'"
  have p: "p \<in> set (bo_Pools v)" "poolKey p \<in> boardKeys v'" using assms by (auto simp: firstIn_def boardKeys_iff)
  have same: "poolCreated p' = poolCreated p" by (rule may_created [OF assms(1) p(1) assms(3,4)])
  have ns: "poolNs p' = poolNs p" using assms(4) by (simp add: poolKey_eq)
  show "poolCreated p' \<le> poolCreated q"
  proof (cases "poolKey q \<in> boardKeys v")
    case True
    then obtain q0 where q0: "q0 \<in> set (bo_Pools v)" "poolKey q0 = poolKey q" by (auto simp: boardKeys_iff)
    then have "poolCreated q = poolCreated q0" "poolNs q0 = poolNs p"
      using may_created [OF assms(1) q0(1) q(1)] q(2) ns by (simp_all add: poolKey_eq)
    then show ?thesis using assms(2) q0(1) same unfolding firstIn_def by metis
  next
    case False
    then have "poolCreated p < poolCreated q" using assms(1) q p ns unfolding boardMay_def by metis
    then show ?thesis using same by simp
  qed
qed (rule assms(3))

lemma builds_profile:
  "defaultProfileOf (poolNs p) (bo_Profiles v') = defaultProfileOf (poolNs p) (bo_Profiles v) \<Longrightarrow> builds c v' p json \<longleftrightarrow> builds c v p json"
  by (simp add: builds_def)

lemma may_profile:
  "boardMay v v' \<Longrightarrow> p \<in> set (bo_Pools v') \<Longrightarrow> poolKey p \<notin> bo_Queue v' \<Longrightarrow>
    defaultProfileOf (poolNs p) (bo_Profiles v') = defaultProfileOf (poolNs p) (bo_Profiles v)"
  unfolding boardMay_def by blast

lemma may_effect:
  assumes "boardMay v v'" "p \<in> set (bo_Pools v')" "poolKey p \<notin> bo_Queue v'"
  shows "inEffect c v' p \<longleftrightarrow> inEffect c v p"
  using builds_profile [OF may_profile [OF assms]] may_pending(3) [OF assms(1)] by (simp add: inEffect_def)

lemma may_inv:
  assumes "boardMay v v'" "boardInv c v b"
  shows "boardInv c v' b"
  unfolding boardInv_def
proof (intro conjI allI impI ballI)
  show "boardOk v'" "apart c v'" "breakerInv b"
    using may_ok [OF assms(1)] may_pending(5) [OF assms(1)] assms(2) by (simp_all add: boardInv_def)
next
  fix p assume first: "firstIn v' p"
  show "firstServed c (pending v') v' b p"
  proof (cases "poolKey p \<in> bo_Queue v' \<or> goneIn (bo_Queue v') v' (poolNs p)")
    case False
    then have p: "firstIn v p" "p \<in> set (bo_Pools v')" "poolKey p \<notin> bo_Queue v'"
      using may_first [OF assms(1) first] first firstIn_mem by blast+
    then have "firstServed c (pending v) v b p" using assms(2) by (simp add: boardInv_def)
    then show ?thesis
      using may_pending(1) [OF assms(1)] may_gone(1) [OF assms(1)] may_effect [OF assms(1) p(2,3)]
      unfolding firstServed_def by blast
  qed (auto simp: firstServed_def pending_def goneIn_def)
next
  fix p assume p: "p \<in> set (bo_Pools v')"
  show "firstIn v' p \<or> poolKey p \<in> pending v' \<or> \<not> readyTrue p"
  proof (cases "poolKey p \<in> bo_Queue v'")
    case False
    have "p \<in> set (bo_Pools v)" by (rule may_old [OF assms(1) p False])
    then have "firstIn v p \<or> poolKey p \<in> pending v \<or> \<not> readyTrue p" using assms(2) by (simp add: boardInv_def)
    then show ?thesis using may_first_kept [OF assms(1) _ p] may_pending(1) [OF assms(1)] by blast
  qed (simp add: pending_def)
qed


section \<open>What the controller's own writes keep\<close>

text \<open>The oldest pool of a namespace has nothing to prove while its request, or that of a deleted pool, is pending.\<close>

definition excused :: "board \<Rightarrow> string \<Rightarrow> bool" where
  "excused v ns \<longleftrightarrow> (\<forall>p. firstIn v p \<longrightarrow> poolNs p = ns \<longrightarrow> poolKey p \<in> pending v \<or> goneIn (pending v) v ns)"

definition eldest :: "board \<Rightarrow> string \<times> string \<Rightarrow> bool" where
  "eldest v k \<longleftrightarrow> (\<forall>p \<in> set (bo_Pools v). poolKey p = k \<longrightarrow> firstIn v p)"

lemma excused_eldest:
  assumes "boardOk v" "eldest v k" "k \<in> pending v"
  shows "excused v (fst k)"
  unfolding excused_def
proof (intro allI impI)
  fix p assume p: "firstIn v p" "poolNs p = fst k"
  show "poolKey p \<in> pending v \<or> goneIn (pending v) v (fst k)"
  proof (cases "k \<in> boardKeys v")
    case True
    then obtain q where q: "q \<in> set (bo_Pools v)" "poolKey q = k" by (auto simp: boardKeys_iff)
    then have "firstIn v q" "poolNs q = poolNs p" using assms(2) p(2) by (auto simp: eldest_def)
    then have "q = p" by (rule firstIn_unique [OF assms(1) p(1)])
    then show ?thesis using q(2) assms(3) by simp
  next
    case False
    then show ?thesis using assms(3) by (intro disjI2 goneInI) simp_all
  qed
qed

lemma excused_gone: "k \<in> pending v \<Longrightarrow> k \<notin> boardKeys v \<Longrightarrow> excused v (fst k)"
  unfolding excused_def by (simp add: goneInI)

lemma touched_pools:
  assumes "poolTouched T k v v'"
  shows "map poolKey (bo_Pools v') = map poolKey (bo_Pools v)"
    and "p' \<in> set (bo_Pools v') \<Longrightarrow> \<exists>p \<in> set (bo_Pools v). poolKey p' = poolKey p \<and> poolCreated p' = poolCreated p \<and>
      (if poolKey p = k then po_Spec p' = po_Spec p \<and> T p p' else p' = p)"
    and "p \<in> set (bo_Pools v) \<Longrightarrow> \<exists>p' \<in> set (bo_Pools v'). poolKey p' = poolKey p \<and> poolCreated p' = poolCreated p \<and>
      (if poolKey p = k then po_Spec p' = po_Spec p \<and> T p p' else p' = p)"
proof -
  let ?R = "\<lambda>p p'. if poolKey p = k then poolKey p' = k \<and> poolCreated p' = poolCreated p \<and> po_Spec p' = po_Spec p \<and> T p p' else p' = p"
  have r: "list_all2 ?R (bo_Pools v) (bo_Pools v')" using assms by (simp add: poolTouched_def)
  then show "map poolKey (bo_Pools v') = map poolKey (bo_Pools v)"
    by (induction rule: list_all2_induct) (simp_all split: if_splits)
  show "\<exists>p \<in> set (bo_Pools v). poolKey p' = poolKey p \<and> poolCreated p' = poolCreated p \<and>
      (if poolKey p = k then po_Spec p' = po_Spec p \<and> T p p' else p' = p)" if "p' \<in> set (bo_Pools v')"
  proof -
    obtain p where p: "p \<in> set (bo_Pools v)" "?R p p'" using list_all2_in2 [OF r] \<open>p' \<in> set (bo_Pools v')\<close> by blast
    then show ?thesis by (intro bexI [of _ p]) (simp_all split: if_splits)
  qed
  show "\<exists>p' \<in> set (bo_Pools v'). poolKey p' = poolKey p \<and> poolCreated p' = poolCreated p \<and>
      (if poolKey p = k then po_Spec p' = po_Spec p \<and> T p p' else p' = p)" if "p \<in> set (bo_Pools v)"
  proof -
    obtain p' where p': "p' \<in> set (bo_Pools v')" "?R p p'" using list_all2_in1 [OF r] \<open>p \<in> set (bo_Pools v)\<close> by blast
    then show ?thesis by (intro bexI [of _ p']) (simp_all split: if_splits)
  qed
qed

lemma touched_keys: "poolTouched T k v v' \<Longrightarrow> boardKeys v' = boardKeys v"
  using touched_pools(1) unfolding boardKeys_def by (metis set_map)

lemma touched_rest: "poolTouched T k v v' \<Longrightarrow> bo_Profiles v' = bo_Profiles v" "poolTouched T k v v' \<Longrightarrow> bo_ConfigMaps v' = bo_ConfigMaps v"
  "poolTouched T k v v' \<Longrightarrow> bo_Hand v' = bo_Hand v" "poolTouched T k v v' \<Longrightarrow> bo_Queue v \<subseteq> bo_Queue v'"
  "poolTouched T k v v' \<Longrightarrow> pending v \<subseteq> pending v'" "poolTouched T k v v' \<Longrightarrow> bo_Spaces v' = bo_Spaces v"
  "poolTouched T k v v' \<Longrightarrow> pending v' \<subseteq> pending v \<union> boardKeys v"
  by (auto simp: poolTouched_def pending_def requeued_def)

lemma touched_ok:
  assumes "poolTouched T k v v'" "boardOk v"
  shows "boardOk v'"
proof -
  have dist: "distinct (map poolKey (bo_Pools v'))" using assms(2) touched_pools(1) [OF assms(1)] by (simp add: boardOk_def)
  have "poolCreated p' \<noteq> 0" if p': "p' \<in> set (bo_Pools v')" for p'
    using touched_pools(2) [OF assms(1) p'] assms(2) unfolding boardOk_def by metis
  moreover have "q' = p'" if q': "p' \<in> set (bo_Pools v')" "q' \<in> set (bo_Pools v')" "poolNs q' = poolNs p'" "poolCreated q' = poolCreated p'" for p' q'
  proof -
    obtain p where p: "p \<in> set (bo_Pools v)" "poolKey p' = poolKey p" "poolCreated p' = poolCreated p"
      using touched_pools(2) [OF assms(1) q'(1)] by blast
    obtain q where q: "q \<in> set (bo_Pools v)" "poolKey q' = poolKey q" "poolCreated q' = poolCreated q"
      using touched_pools(2) [OF assms(1) q'(2)] by blast
    have "poolNs q = poolNs p" "poolCreated q = poolCreated p" using p q q'(3,4) by (simp_all add: poolKey_eq)
    then have "q = p" by (rule boardOk_created [OF assms(2) p(1) q(1)])
    then show ?thesis using dist q'(1,2) p(2) q(2) by (auto simp: distinct_map inj_on_def)
  qed
  moreover have "fst ` (boardKeys v' \<union> pending v') \<subseteq> bo_Spaces v'"
    unfolding touched_keys [OF assms(1)] touched_rest(6) [OF assms(1)]
    by (rule boardOk_spaces [OF assms(2)]) (use touched_rest(7) [OF assms(1)] in blast)
  ultimately show ?thesis using dist unfolding boardOk_def by blast
qed

lemma touched_first:
  assumes "poolTouched T k v v'" "p \<in> set (bo_Pools v)" "p' \<in> set (bo_Pools v')" "poolKey p' = poolKey p" "poolCreated p' = poolCreated p"
  shows "firstIn v' p' \<longleftrightarrow> firstIn v p"
proof -
  have ns: "poolNs p' = poolNs p" using assms(4) by (simp add: poolKey_eq)
  show ?thesis
  proof
    assume f: "firstIn v' p'"
    have "poolCreated p \<le> poolCreated q" if q: "q \<in> set (bo_Pools v)" "poolNs q = poolNs p" for q
    proof -
      obtain q' where q': "q' \<in> set (bo_Pools v')" "poolKey q' = poolKey q" "poolCreated q' = poolCreated q"
        using touched_pools(3) [OF assms(1) q(1)] by blast
      then have "poolNs q' = poolNs p'" using q(2) ns by (simp add: poolKey_eq)
      then show ?thesis using f q' assms(5) unfolding firstIn_def by metis
    qed
    then show "firstIn v p" using assms(2) by (simp add: firstIn_def)
  next
    assume f: "firstIn v p"
    have "poolCreated p' \<le> poolCreated q'" if q': "q' \<in> set (bo_Pools v')" "poolNs q' = poolNs p'" for q'
    proof -
      obtain q where q: "q \<in> set (bo_Pools v)" "poolKey q' = poolKey q" "poolCreated q' = poolCreated q"
        using touched_pools(2) [OF assms(1) q'(1)] by blast
      then have "poolNs q = poolNs p" using q'(2) ns by (simp add: poolKey_eq)
      then show ?thesis using f q assms(5) unfolding firstIn_def by metis
    qed
    then show "firstIn v' p'" using assms(3) by (simp add: firstIn_def)
  qed
qed

lemma touched_gone: "poolTouched T k v v' \<Longrightarrow> goneIn (pending v) v ns \<Longrightarrow> goneIn (pending v') v' ns"
  using touched_keys touched_rest(5) unfolding goneIn_def by blast

lemma touched_inv:
  assumes "poolTouched T k v v'" "boardInv c v b" "k \<in> pending v \<or> goneIn (pending v) v (fst k) \<and> eldest v k"
  shows "boardInv c v' b"
  unfolding boardInv_def
proof (intro conjI allI impI ballI)
  show "boardOk v'" "apart c v'" "breakerInv b"
    using touched_ok [OF assms(1)] touched_rest(6) [OF assms(1)] assms(2) by (simp_all add: boardInv_def)
next
  fix p' assume first: "firstIn v' p'"
  obtain p where p: "p \<in> set (bo_Pools v)" "poolKey p' = poolKey p" "poolCreated p' = poolCreated p" "poolKey p \<noteq> k \<Longrightarrow> p' = p"
    using touched_pools(2) [OF assms(1) firstIn_mem [OF first]] by (auto split: if_splits)
  have "firstIn v p" using touched_first [OF assms(1) p(1) firstIn_mem [OF first] p(2,3)] first by simp
  then have served: "firstServed c (pending v) v b p" using assms(2) by (simp add: boardInv_def)
  show "firstServed c (pending v') v' b p'"
  proof (cases "poolKey p = k")
    case True
    then have "fst k = poolNs p'" "poolKey p' = k" using p(2) by (simp_all add: poolKey_eq fst_poolKey [symmetric] del: fst_poolKey)
    then have "poolKey p' \<in> pending v' \<or> goneIn (pending v') v' (poolNs p')"
      using assms(3) touched_rest(5) [OF assms(1)] touched_gone [OF assms(1), of "fst k"] by auto
    then show ?thesis by (auto simp: firstServed_def)
  next
    case False
    then have "p' = p" by (rule p(4))
    moreover have "inEffect c v' p \<longleftrightarrow> inEffect c v p"
      using builds_profile [of p v' v] touched_rest(1,2) [OF assms(1)] by (simp add: inEffect_def)
    ultimately show ?thesis
      using served touched_rest(5) [OF assms(1)] touched_gone [OF assms(1), of "poolNs p"] unfolding firstServed_def by blast
  qed
next
  fix p' assume p': "p' \<in> set (bo_Pools v')"
  obtain p where p: "p \<in> set (bo_Pools v)" "poolKey p' = poolKey p" "poolCreated p' = poolCreated p" "poolKey p \<noteq> k \<Longrightarrow> p' = p"
    using touched_pools(2) [OF assms(1) p'] by (auto split: if_splits)
  have "firstIn v p \<or> poolKey p \<in> pending v \<or> \<not> readyTrue p'"
    using assms(2,3) p(1,4) unfolding boardInv_def eldest_def by blast
  then show "firstIn v' p' \<or> poolKey p' \<in> pending v' \<or> \<not> readyTrue p'"
    using touched_first [OF assms(1) p(1) p' p(2,3)] touched_rest(5) [OF assms(1)] p(2) by auto
qed

lemma publishes_other:
  assumes "publishes R ns json cs" "cmKey cm \<noteq> (operatorNamespace R ns, resolvedAgentConfigMapName R)" "\<And>x. cmKey (f x) = cmKey x"
  shows "publishes R ns json (upsertBy cmKey cm f cs)"
proof -
  obtain x where x: "x \<in> set cs" "cmKey x = (operatorNamespace R ns, resolvedAgentConfigMapName R)"
    "gm_get (cm_Data x) ''config.json'' = Some json" using assms(1) unfolding publishes_def by blast
  then have "x \<in> set (upsertBy cmKey cm f cs)"
    using assms(2) by (auto simp: upsertBy_def image_iff intro!: bexI [of _ x])
  then show ?thesis using x(2,3) unfolding publishes_def by blast
qed

lemma written_ok: "configWritten cm f v v' \<Longrightarrow> pending v' \<subseteq> pending v \<union> boardKeys v"
  "configWritten cm f v v' \<Longrightarrow> pending v \<subseteq> pending v'"
  "configWritten cm f v v' \<Longrightarrow> firstIn v' p \<longleftrightarrow> firstIn v p" "configWritten cm f v v' \<Longrightarrow> boardKeys v' = boardKeys v"
  "configWritten cm f v v' \<Longrightarrow> bo_Hand v' = bo_Hand v" "configWritten cm f v v' \<Longrightarrow> bo_Queue v \<subseteq> bo_Queue v'"
  "configWritten cm f v v' \<Longrightarrow> bo_Pools v' = bo_Pools v" "configWritten cm f v v' \<Longrightarrow> bo_Spaces v' = bo_Spaces v"
  by (auto simp: configWritten_def requeued_def pending_def firstIn_def boardKeys_def)

lemma written_boardOk: "configWritten cm f v v' \<Longrightarrow> boardOk v \<Longrightarrow> boardOk v'"
  using written_ok(1,4,7,8) [of cm f v v'] boardOk_spaces [of v "boardKeys v' \<union> pending v'"]
  unfolding boardOk_def by auto

text \<open>A request that is pending, a pool that is there: their namespaces have ConfigMaps of their own.\<close>

lemma inv_spaces: "boardInv c v b \<Longrightarrow> k \<in> pending v \<Longrightarrow> fst k \<in> bo_Spaces v"
  "boardInv c v b \<Longrightarrow> p \<in> set (bo_Pools v) \<Longrightarrow> poolNs p \<in> bo_Spaces v"
  using boardOk_spaces [of v "pending v"] boardOk_spaces [of v "boardKeys v"] boardKeysI [of p v]
  unfolding boardInv_def by (auto simp: fst_poolKey [symmetric] simp del: fst_poolKey)

lemma inv_apart: "boardInv c v b \<Longrightarrow> ns \<in> bo_Spaces v \<Longrightarrow> p \<in> set (bo_Pools v) \<Longrightarrow> poolNs p \<noteq> ns \<Longrightarrow>
    operatorNamespace (ct_R c) (poolNs p) \<noteq> operatorNamespace (ct_R c) ns"
  using inv_spaces(2) unfolding boardInv_def inj_on_def by blast

lemma written_inv:
  assumes "configWritten cm f v v'" "boardInv c v b" "excused v ns" "ns \<in> bo_Spaces v"
    and "cm_Namespace cm = operatorNamespace (ct_R c) ns" "\<And>x. cmKey (f x) = cmKey x"
  shows "boardInv c v' b"
proof -
  note w = written_ok [OF assms(1)]
  have gone: "goneIn (pending v) v n \<Longrightarrow> goneIn (pending v') v' n" for n
    using w(2,4) unfolding goneIn_def by blast
  have effect: "inEffect c v' p" if "inEffect c v p" "p \<in> set (bo_Pools v)" "poolNs p \<noteq> ns" for p
  proof -
    have "cmKey cm \<noteq> (operatorNamespace (ct_R c) (poolNs p), resolvedAgentConfigMapName (ct_R c))"
      using assms(5) inv_apart [OF assms(2,4) that(2,3)] by (simp add: cmKey_def)
    then have "publishes (ct_R c) (poolNs p) json (bo_ConfigMaps v) \<Longrightarrow> publishes (ct_R c) (poolNs p) json (bo_ConfigMaps v')" for json
      using publishes_other [OF _ _ assms(6)] assms(1) by (simp add: configWritten_def)
    moreover have "builds c v' p json \<longleftrightarrow> builds c v p json" for json using assms(1) by (simp add: builds_def configWritten_def)
    ultimately show ?thesis using that(1) by (simp add: inEffect_def)
  qed
  have "firstServed c (pending v') v' b p" if p: "firstIn v p" for p
  proof (cases "poolNs p = ns")
    case True
    then have "poolKey p \<in> pending v \<or> goneIn (pending v) v (poolNs p)" using assms(3) p unfolding excused_def by blast
    then show ?thesis using w(2) gone unfolding firstServed_def by blast
  next
    case False
    have "firstServed c (pending v) v b p" using assms(2) p by (simp add: boardInv_def)
    then show ?thesis using w(2) gone effect [OF _ firstIn_mem [OF p] False] unfolding firstServed_def by blast
  qed
  then show ?thesis using assms(2) written_boardOk [OF assms(1)] w(2,3,7,8) unfolding boardInv_def by auto
qed

lemma circuit_inv:
  assumes "boardInv c v b" "breakerInv b'" "\<And>n. n \<noteq> operatorNamespace (ct_R c) ns \<Longrightarrow> circuitOf b' n = circuitOf b n"
    and "excused v ns" "ns \<in> bo_Spaces v"
  shows "boardInv c v b'"
proof -
  have "firstServed c (pending v) v b' p" if p: "firstIn v p" for p
  proof (cases "poolNs p = ns")
    case True
    then show ?thesis using assms(4) p by (auto simp: excused_def firstServed_def)
  next
    case False
    have "firstServed c (pending v) v b p" using assms(1) p by (simp add: boardInv_def)
    then show ?thesis using assms(3) [OF inv_apart [OF assms(1,5) firstIn_mem [OF p] False]] by (simp add: firstServed_def circuitOpen_def)
  qed
  then show ?thesis using assms(1,2) by (simp add: boardInv_def)
qed

section \<open>Taking a request and finishing it\<close>

lemma inv_pending:
  assumes "boardInv c v b" "bo_Pools v' = bo_Pools v" "bo_Profiles v' = bo_Profiles v" "bo_ConfigMaps v' = bo_ConfigMaps v"
    and "pending v' = pending v" "bo_Spaces v' = bo_Spaces v"
  shows "boardInv c v' b"
proof -
  have "firstServed c (pending v') v' b p" if "firstServed c (pending v) v b p" for p
    using that assms(2-5) by (auto simp: firstServed_def goneIn_def inEffect_def builds_def boardKeys_def)
  then show ?thesis using assms unfolding boardInv_def boardOk_def firstIn_def boardKeys_def by auto
qed

definition settledFor :: "controller \<Rightarrow> board \<Rightarrow> breaker \<Rightarrow> string \<times> string \<Rightarrow> bool" where
  "settledFor c v b k \<longleftrightarrow>
     (\<forall>p. firstIn v p \<longrightarrow> poolNs p = fst k \<longrightarrow> firstServed c (bo_Queue v) v b p) \<and>
     (\<forall>p \<in> set (bo_Pools v). poolKey p = k \<longrightarrow> firstIn v p \<or> k \<in> bo_Queue v \<or> \<not> readyTrue p)"

lemma inv_finish:
  assumes "boardInv c v b" "bo_Hand v = {k}" "settledFor c v b k"
  shows "boardInv c (v\<lparr>bo_Hand := {}\<rparr>) b"
proof -
  let ?v = "v\<lparr>bo_Hand := {}\<rparr>"
  have pend: "pending ?v = bo_Queue v" "pending v = insert k (bo_Queue v)" using assms(2) by (auto simp: pending_def)
  have same: "firstIn ?v p \<longleftrightarrow> firstIn v p" "inEffect c ?v p \<longleftrightarrow> inEffect c v p" "goneIn Q ?v ns \<longleftrightarrow> goneIn Q v ns" for p Q ns
    by (simp_all add: firstIn_def inEffect_def builds_def goneIn_def boardKeys_def)
  have "firstServed c (bo_Queue v) v b p" if p: "firstIn v p" for p
  proof (cases "poolNs p = fst k")
    case False
    have "firstServed c (pending v) v b p" using assms(1) p by (simp add: boardInv_def)
    moreover have "poolKey p \<noteq> k" "goneIn (insert k (bo_Queue v)) v (poolNs p) \<longleftrightarrow> goneIn (bo_Queue v) v (poolNs p)"
      using False by (auto simp: goneIn_def)
    ultimately show ?thesis unfolding pend by (auto simp: firstServed_def)
  qed (use assms(3) p in \<open>simp add: settledFor_def\<close>)
  moreover have "firstIn v p \<or> poolKey p \<in> bo_Queue v \<or> \<not> readyTrue p" if p: "p \<in> set (bo_Pools v)" for p
    using p assms(1,3) pend(2) unfolding boardInv_def settledFor_def by auto
  ultimately show ?thesis
    using assms(1) pend same unfolding boardInv_def firstServed_def boardOk_def boardKeys_def by simp
qed

end
