(* ===== verification/WorkQueue.thy ===== *)
theory WorkQueue
  imports Board
begin

text \<open>
  The pool controller at work on a board that others change between any two of its calls, and whose
  server may fail any call before or after it takes effect (\<open>board_server\<close>).  The proof is by rely
  and guarantee: \<open>leads\<close> is a Hoare triple under the invariant \<open>boardInv\<close>, over facts that others
  cannot spoil without putting the request in hand back into the queue (\<open>here\<close>).
\<close>

section \<open>Facts about a pool, or its request is in the queue\<close>

definition here :: "board \<Rightarrow> string \<times> string \<Rightarrow> (board \<Rightarrow> pool \<Rightarrow> bool) \<Rightarrow> bool" where
  "here v k F \<longleftrightarrow> k \<in> bo_Queue v \<or> (\<exists>p \<in> set (bo_Pools v). poolKey p = k \<and> F v p)"

text \<open>What others and what the controller's writes to this pool leave true of it.\<close>

definition lasts :: "string \<times> string \<Rightarrow> (board \<Rightarrow> pool \<Rightarrow> bool) \<Rightarrow> bool" where
  "lasts k F \<longleftrightarrow>
     (\<forall>v v' p. boardOk v \<longrightarrow> boardMay v v' \<longrightarrow> p \<in> set (bo_Pools v) \<longrightarrow> p \<in> set (bo_Pools v') \<longrightarrow> poolKey p = k \<longrightarrow>
       k \<notin> bo_Queue v' \<longrightarrow> F v p \<longrightarrow> F v' p)"

definition kept :: "string \<times> string \<Rightarrow> (board \<Rightarrow> pool \<Rightarrow> bool) \<Rightarrow> bool" where
  "kept k F \<longleftrightarrow>
     (\<forall>T v v' p p'. poolTouched T k v v' \<longrightarrow> p \<in> set (bo_Pools v) \<longrightarrow> p' \<in> set (bo_Pools v') \<longrightarrow> poolKey p = k \<longrightarrow>
       poolKey p' = k \<longrightarrow> poolCreated p' = poolCreated p \<longrightarrow> po_Spec p' = po_Spec p \<longrightarrow> F v p \<longrightarrow> F v' p')"

lemma lastsD: "lasts k F \<Longrightarrow> boardOk v \<Longrightarrow> boardMay v v' \<Longrightarrow> p \<in> set (bo_Pools v) \<Longrightarrow> p \<in> set (bo_Pools v') \<Longrightarrow> poolKey p = k \<Longrightarrow>
    k \<notin> bo_Queue v' \<Longrightarrow> F v p \<Longrightarrow> F v' p"
  unfolding lasts_def by blast

lemma keptD: "kept k F \<Longrightarrow> poolTouched T k v v' \<Longrightarrow> p \<in> set (bo_Pools v) \<Longrightarrow> p' \<in> set (bo_Pools v') \<Longrightarrow> poolKey p = k \<Longrightarrow>
    poolKey p' = k \<Longrightarrow> poolCreated p' = poolCreated p \<Longrightarrow> po_Spec p' = po_Spec p \<Longrightarrow> F v p \<Longrightarrow> F v' p'"
  unfolding kept_def by blast

lemma here_mono: "here v k F \<Longrightarrow> (\<And>p. p \<in> set (bo_Pools v) \<Longrightarrow> poolKey p = k \<Longrightarrow> F v p \<Longrightarrow> G v p) \<Longrightarrow> here v k G"
  unfolding here_def by blast

lemma here_may:
  assumes "lasts k F" "boardOk v" "boardMay v v'" "here v k F"
  shows "here v' k F"
proof (cases "k \<in> bo_Queue v'")
  case False
  then have "k \<notin> bo_Queue v" using may_pending(2) [OF assms(3)] by blast
  then obtain p where p: "p \<in> set (bo_Pools v)" "poolKey p = k" "F v p" using assms(4) by (auto simp: here_def)
  have p': "p \<in> set (bo_Pools v')" using may_kept [OF assms(3) p(1)] p(2) False by simp
  then have "F v' p" by (rule lastsD [OF assms(1-3) p(1) _ p(2) False p(3)])
  then show ?thesis using p' p(2) unfolding here_def by blast
qed (simp add: here_def)

lemma here_status:
  assumes "kept k F" "poolTouched (conditionsSent q q') k v v'" "here v k (\<lambda>v p. F v p \<and> conditionsOf p = conditionsOf q)"
  shows "here v' k (\<lambda>v p. F v p \<and> conditionsOf p = conditionsOf q')"
proof (cases "k \<in> bo_Queue v'")
  case False
  then have "k \<notin> bo_Queue v" using touched_rest(4) [OF assms(2)] by blast
  then obtain p where p: "p \<in> set (bo_Pools v)" "poolKey p = k" "F v p" "conditionsOf p = conditionsOf q"
    using assms(3) by (auto simp: here_def)
  obtain p' where p': "p' \<in> set (bo_Pools v')" "poolKey p' = k" "poolCreated p' = poolCreated p" "po_Spec p' = po_Spec p"
    "conditionsSent q q' p p'"
    using touched_pools(3) [OF assms(2) p(1)] p(2) by auto
  have "F v' p'" by (rule keptD [OF assms(1,2) p(1) p'(1) p(2) p'(2-4) p(3)])
  moreover have "conditionsOf p' = conditionsOf q'" using p'(5) p(4) by (simp add: conditionsSent_def split: if_splits)
  ultimately show ?thesis using p'(1,2) unfolding here_def by blast
qed (simp add: here_def)

lemma lasts_pool: "lasts k (\<lambda>v p. P p)"
  by (simp add: lasts_def)

lemma lasts_conj: "lasts k F \<Longrightarrow> lasts k G \<Longrightarrow> lasts k (\<lambda>v p. F v p \<and> G v p)"
  unfolding lasts_def by blast

lemma kept_conj: "kept k F \<Longrightarrow> kept k G \<Longrightarrow> kept k (\<lambda>v p. F v p \<and> G v p)"
  unfolding kept_def by blast

lemma kept_spec: "kept k (\<lambda>v p. po_Spec p = sp)"
  by (simp add: kept_def)

lemma lasts_profile: "lasts k (\<lambda>v p. defaultProfileOf (poolNs p) (bo_Profiles v) = prof)"
  unfolding lasts_def by (metis may_profile)

lemma kept_profile: "kept k (\<lambda>v p. defaultProfileOf (poolNs p) (bo_Profiles v) = prof)"
  unfolding kept_def by (metis touched_rest(1) fst_poolKey)

lemma lasts_published: "lasts k (\<lambda>v p. publishes R ns json (bo_ConfigMaps v))"
  unfolding lasts_def using may_pending(3) by metis

lemma kept_published: "kept k (\<lambda>v p. publishes R ns json (bo_ConfigMaps v))"
  unfolding kept_def using touched_rest(2) by metis

lemma lasts_younger: "lasts k (\<lambda>v p. \<not> firstIn v p \<or> goneIn (bo_Queue v) v (poolNs p))"
  unfolding lasts_def using may_first may_gone(2) by metis

lemma kept_younger: "kept k (\<lambda>v p. \<not> firstIn v p \<or> goneIn (bo_Queue v) v (poolNs p))"
  unfolding kept_def
proof (intro allI impI)
  fix T v v' p p'
  assume t: "poolTouched T k v v'" and p: "p \<in> set (bo_Pools v)" "p' \<in> set (bo_Pools v')" "poolKey p = k" "poolKey p' = k"
    "poolCreated p' = poolCreated p" "\<not> firstIn v p \<or> goneIn (bo_Queue v) v (poolNs p)"
  have ns: "poolNs p' = poolNs p" using p(3,4) by (metis fst_poolKey)
  have "firstIn v' p' \<longleftrightarrow> firstIn v p" by (rule touched_first [OF t p(1,2)]) (use p in simp_all)
  moreover have "goneIn (bo_Queue v) v (poolNs p) \<Longrightarrow> goneIn (bo_Queue v') v' (poolNs p')"
    using touched_keys [OF t] touched_rest(4) [OF t] ns unfolding goneIn_def by auto
  ultimately show "\<not> firstIn v' p' \<or> goneIn (bo_Queue v') v' (poolNs p')" using p(6) by blast
qed

lemma eldest_may: "boardMay v v' \<Longrightarrow> k \<in> boardKeys v \<or> k \<in> pending v \<Longrightarrow> eldest v k \<Longrightarrow> eldest v' k"
  unfolding eldest_def using may_first_kept may_new boardKeysI boardKeys_iff by metis

lemma eldest_touched:
  assumes "poolTouched T k' v v'" "eldest v k"
  shows "eldest v' k"
  unfolding eldest_def
proof (intro ballI impI)
  fix p' assume p': "p' \<in> set (bo_Pools v')" "poolKey p' = k"
  obtain p where "p \<in> set (bo_Pools v)" "poolKey p' = poolKey p" "poolCreated p' = poolCreated p"
    using touched_pools(2) [OF assms(1) p'(1)] by blast
  then show "firstIn v' p'" using touched_first [OF assms(1) _ p'(1)] assms(2) p'(2) unfolding eldest_def by metis
qed


section \<open>The server\<close>

text \<open>Before each call others act; a call that is answered with an error may have taken effect.\<close>

locale board_server =
  fixes C :: "'w client" and view :: "'w \<Rightarrow> board"
  assumes get_pool: "boardOk (view w) \<Longrightarrow> cl_GetPool C ns n w = (r1, w') \<Longrightarrow> boardMay (view w) (view w') \<and>
      (\<forall>p. r1 = Inr p \<longrightarrow> p \<in> set (bo_Pools (view w')) \<and> poolKey p = (ns, n)) \<and>
      (r1 = Inl NotFound \<longrightarrow> (ns, n) \<notin> boardKeys (view w'))"
    and list_pools: "boardOk (view w) \<Longrightarrow> cl_ListPools C ns w = (r2, w') \<Longrightarrow> boardMay (view w) (view w') \<and>
      (\<forall>items. r2 = Inr items \<longrightarrow> set items = set (poolsIn ns (bo_Pools (view w'))) \<and> distinct items)"
    and patch_pool: "boardOk (view w) \<Longrightarrow> poolKey new = poolKey old \<Longrightarrow> po_Spec new = po_Spec old \<Longrightarrow> po_Status new = po_Status old \<Longrightarrow>
      cl_PatchPool C old new w = (r1, w') \<Longrightarrow> \<exists>v. boardMay (view w) v \<and>
        (isl r1 \<and> view w' = v \<or> poolTouched statusKept (poolKey new) v (view w') \<and>
          (\<forall>p. r1 = Inr p \<longrightarrow> p \<in> set (bo_Pools (view w')) \<and> poolKey p = poolKey new))"
    and patch_status: "boardOk (view w) \<Longrightarrow> po_Meta new = po_Meta old \<Longrightarrow> po_Spec new = po_Spec old \<Longrightarrow>
      cl_PatchPoolStatus C old new w = (r1, w') \<Longrightarrow> \<exists>v. boardMay (view w) v \<and>
        (isl r1 \<and> view w' = v \<or> poolTouched (conditionsSent old new) (poolKey new) v (view w'))"
    and get_profile: "boardOk (view w) \<Longrightarrow> cl_GetProfile C ns ''default'' w = (r3, w') \<Longrightarrow> boardMay (view w) (view w') \<and>
      (\<forall>pr. r3 = Inr pr \<longrightarrow> defaultProfileOf ns (bo_Profiles (view w')) = Some pr) \<and>
      (r3 = Inl NotFound \<longrightarrow> defaultProfileOf ns (bo_Profiles (view w')) = None)"
    and get_config: "boardOk (view w) \<Longrightarrow> cl_GetConfigMap C ns n w = (r4, w') \<Longrightarrow> boardMay (view w) (view w') \<and>
      (\<forall>cm. r4 = Inr cm \<longrightarrow> cmKey cm = (ns, n))"
    and upsert: "boardOk (view w) \<Longrightarrow> (\<And>x. cmKey (f x) = cmKey x) \<Longrightarrow> cl_CreateOrUpdate C cm f w = (r5, w') \<Longrightarrow>
      \<exists>v. boardMay (view w) v \<and> (isl r5 \<and> view w' = v \<or> configWritten cm f v (view w'))"
    and clock: "boardOk (view w) \<Longrightarrow> cl_Now C w = (t, w') \<Longrightarrow> boardMay (view w) (view w')"

text \<open>Facts that others leave true while the request \<open>k\<close> is in hand.\<close>

definition steady :: "string \<times> string \<Rightarrow> (board \<Rightarrow> bool) \<Rightarrow> bool" where
  "steady k P \<longleftrightarrow> (\<forall>v v'. boardOk v \<longrightarrow> bo_Hand v = {k} \<longrightarrow> boardMay v v' \<longrightarrow> P v \<longrightarrow> P v')"

lemma steadyD: "steady k P \<Longrightarrow> boardOk v \<Longrightarrow> bo_Hand v = {k} \<Longrightarrow> boardMay v v' \<Longrightarrow> P v \<Longrightarrow> P v'"
  unfolding steady_def by blast

lemma steady_True: "steady k (\<lambda>v. True)" "steady k (\<lambda>v. b)"
  by (simp_all add: steady_def)

lemma steady_conj: "steady k P \<Longrightarrow> steady k Q \<Longrightarrow> steady k (\<lambda>v. P v \<and> Q v)"
  unfolding steady_def by blast

lemma steady_here: "lasts k' F \<Longrightarrow> steady k (\<lambda>v. here v k' F)"
  unfolding steady_def using here_may by blast

lemma steady_eldest_hand: "steady k (\<lambda>v. eldest v k)"
  unfolding steady_def using eldest_may by (metis UnCI insertI1 pending_def)

lemma steady_eldest_here:
  assumes "lasts k' F"
  shows "steady k (\<lambda>v. eldest v k' \<and> here v k' F)"
  unfolding steady_def
proof (intro allI impI)
  fix v v' assume v: "boardOk v" "boardMay v v'" "eldest v k' \<and> here v k' F"
  have "k' \<in> boardKeys v \<or> k' \<in> pending v" using v(3) boardKeysI unfolding here_def pending_def by blast
  then show "eldest v' k' \<and> here v' k' F"
    using eldest_may [OF v(2)] here_may [OF assms v(1,2)] v(3) by blast
qed

lemma steady_absent: "steady k (\<lambda>v. k \<notin> boardKeys v)"
  unfolding steady_def using may_new by (metis UnCI insertI1 pending_def)

lemma steady_queued: "steady k (\<lambda>v. \<forall>p \<in> set (poolsIn ns (bo_Pools v)). poolKey p \<in> bo_Queue v)"
  unfolding steady_def
proof (intro allI impI ballI, goal_cases)
  case (1 v v' p)
  show ?case
  proof (rule ccontr)
    assume no: "poolKey p \<notin> bo_Queue v'"
    have "p \<in> set (bo_Pools v)" using may_old [OF 1(3)] no 1(5) by (simp add: poolsIn_def)
    then have "poolKey p \<in> bo_Queue v" using 1(4,5) by (simp add: poolsIn_def)
    then show False using no may_pending(2) [OF 1(3)] by blast
  qed
qed

section \<open>When a request is settled\<close>

definition specProf :: "pool \<Rightarrow> profile option \<Rightarrow> board \<Rightarrow> pool \<Rightarrow> bool" where
  "specProf q prof v p \<longleftrightarrow> po_Spec p = po_Spec q \<and> defaultProfileOf (poolNs p) (bo_Profiles v) = prof"

lemma lasts_specProf: "lasts k (specProf q prof)"
  unfolding specProf_def by (rule lasts_conj [OF lasts_pool lasts_profile])

lemma kept_specProf: "kept k (specProf q prof)"
  unfolding specProf_def by (rule kept_conj [OF kept_spec kept_profile])

definition configured :: "controller \<Rightarrow> bool" where
  "configured c \<longleftrightarrow> rc_ConfigGen (ct_R c) = Some (Generate (ct_Cpus c)) \<and> rc_ConfigRenderer (ct_R c) = Some (ct_Render c) \<and>
     conditions_documented (ct_K c)"

abbreviation buildsFor :: "controller \<Rightarrow> pool \<Rightarrow> profile option \<Rightarrow> string \<Rightarrow> bool" where
  "buildsFor c \<equiv> buildsConfig (ct_R c) (Generate (ct_Cpus c)) (ct_Render c)"

lemma buildsFor_spec: "po_Spec p = po_Spec q \<Longrightarrow> buildsFor c p prof json \<longleftrightarrow> buildsFor c q prof json"
  by (simp add: buildsConfig_def Generate_def Let_def)

lemma specProf_builds: "specProf q prof v p \<Longrightarrow> builds c v p json \<longleftrightarrow> buildsFor c q prof json"
  unfolding specProf_def builds_def using buildsFor_spec by blast

lemma ready_conditions: "conditionsOf p = conditionsOf q \<Longrightarrow> readyTrue p \<longleftrightarrow> readyTrue q"
  by (simp add: readyTrue_def conditionsOf_def)

lemma inEffect_invalid: "po_Spec p = po_Spec q \<Longrightarrow> validateDNSUpstreamPool (ct_K c) (Some q) \<noteq> None \<Longrightarrow> inEffect c v p"
  by (simp add: inEffect_def validateDNSUpstreamPool_iff)

lemma inEffect_unbuilt: "specProf q prof v p \<Longrightarrow> \<forall>json. \<not> buildsFor c q prof json \<Longrightarrow> inEffect c v p"
  using specProf_builds unfolding inEffect_def by blast

lemma inEffect_built:
  "specProf q prof v p \<Longrightarrow> buildsFor c q prof json \<Longrightarrow> publishes (ct_R c) (poolNs p) json (bo_ConfigMaps v) \<Longrightarrow> readyTrue p \<Longrightarrow> inEffect c v p"
  unfolding inEffect_def using specProf_builds [of q prof v p c] by (auto simp: buildsConfig_def)

lemma settled_unready:
  assumes "boardInv c v b" "bo_Hand v = {k}"
    and "here v k (\<lambda>v p. (inEffect c v p \<or> \<not> firstIn v p \<or> goneIn (bo_Queue v) v (poolNs p)) \<and> \<not> readyTrue p)"
  shows "settledFor c v b k"
proof (cases "k \<in> bo_Queue v")
  case True
  then have "pending v = bo_Queue v" using assms(2) by (auto simp: pending_def)
  then show ?thesis using assms(1) True by (auto simp: settledFor_def boardInv_def)
next
  case False
  then obtain p where p: "p \<in> set (bo_Pools v)" "poolKey p = k" "\<not> readyTrue p"
    "inEffect c v p \<or> \<not> firstIn v p \<or> goneIn (bo_Queue v) v (poolNs p)" using assms(3) by (auto simp: here_def)
  have ok: "boardOk v" using assms(1) by (simp add: boardInv_def)
  have key: "k \<in> boardKeys v" using boardKeysI [OF p(1)] p(2) by simp
  have "firstServed c (bo_Queue v) v b q" if q: "firstIn v q" "poolNs q = fst k" for q
  proof (cases "poolKey q = k")
    case True
    then have "q = p" using boardOk_unique [OF ok firstIn_mem [OF q(1)] p(1)] p(2) by simp
    then show ?thesis using p(4) q(1) by (auto simp: firstServed_def)
  next
    case False
    have "goneIn (pending v) v (poolNs q) \<Longrightarrow> goneIn (bo_Queue v) v (poolNs q)"
      using key assms(2) by (auto simp: goneIn_def pending_def)
    moreover have "firstServed c (pending v) v b q" using assms(1) q(1) by (simp add: boardInv_def)
    ultimately show ?thesis using False assms(2) by (auto simp: firstServed_def pending_def)
  qed
  moreover have "\<not> readyTrue q" if "q \<in> set (bo_Pools v)" "poolKey q = k" for q
    using boardOk_unique [OF ok that(1) p(1)] that(2) p(2,3) by simp
  ultimately show ?thesis unfolding settledFor_def by blast
qed

lemma settled_served:
  assumes "boardOk v" "eldest v k'" "here v k' (inEffect c)" "fst k' = fst k" "k' = k \<or> k \<notin> boardKeys v"
  shows "settledFor c v b k"
proof -
  have "firstServed c (bo_Queue v) v b q" if q: "firstIn v q" "poolNs q = fst k" for q
  proof (cases "k' \<in> boardKeys v")
    case True
    then obtain p where p: "p \<in> set (bo_Pools v)" "poolKey p = k'" by (auto simp: boardKeys_iff)
    then have "firstIn v p" "poolNs q = poolNs p" using assms(2,4) q(2) by (auto simp: eldest_def)
    then have "q = p" by (intro firstIn_unique [OF assms(1)] q(1))
    then have "poolKey q \<in> bo_Queue v \<or> inEffect c v q"
      using assms(3) p boardOk_unique [OF assms(1)] unfolding here_def by metis
    then show ?thesis by (auto simp: firstServed_def)
  next
    case False
    then have "k' \<in> bo_Queue v" using assms(3) boardKeysI by (auto simp: here_def)
    then have "goneIn (bo_Queue v) v (poolNs q)" by (rule goneInI) (use False assms(4) q(2) in simp_all)
    then show ?thesis by (simp add: firstServed_def)
  qed
  moreover have "firstIn v q" if "q \<in> set (bo_Pools v)" "poolKey q = k" for q
    using assms(2,5) that boardKeysI unfolding eldest_def by metis
  ultimately show ?thesis unfolding settledFor_def by blast
qed

lemma settled_queued:
  "k \<notin> boardKeys v \<Longrightarrow> \<forall>p \<in> set (poolsIn (fst k) (bo_Pools v)). poolKey p \<in> bo_Queue v \<Longrightarrow> settledFor c v b k"
proof -
  assume a: "k \<notin> boardKeys v" "\<forall>p \<in> set (poolsIn (fst k) (bo_Pools v)). poolKey p \<in> bo_Queue v"
  have "poolKey p \<in> bo_Queue v" if "firstIn v p" "poolNs p = fst k" for p
    using a(2) firstIn_mem [OF that(1)] that(2) by (simp add: poolsIn_def)
  moreover have "poolKey p \<noteq> k" if "p \<in> set (bo_Pools v)" for p using a(1) boardKeysI [OF that] by blast
  ultimately show "settledFor c v b k" unfolding settledFor_def firstServed_def by blast
qed

lemma settled_open: "k \<notin> boardKeys v \<Longrightarrow> circuitOpen b (operatorNamespace (ct_R c) (fst k)) \<Longrightarrow> settledFor c v b k"
  unfolding settledFor_def firstServed_def using boardKeysI by metis

text \<open>What a listing says of the selection.\<close>

lemma listed_active:
  assumes "boardOk v" "set items = set (poolsIn (fst k) (bo_Pools v))" "distinct items"
    and "fst (snd (selectFromPools items)) \<le> 1 \<or> snd k = fst (selectFromPools items)"
  shows "eldest v k"
  unfolding eldest_def
proof (intro ballI impI)
  fix p assume p: "p \<in> set (bo_Pools v)" "poolKey p = k"
  have "poolNs p = fst k" using p(2) by (metis fst_poolKey)
  then have mem: "p \<in> set items" using p(1) unfolding assms(2) by (simp add: poolsIn_def)
  then obtain h t where h: "sortPoolsForSelection items = h # t" by (cases "sortPoolsForSelection items") auto
  have first: "firstIn v h" "poolNs h = fst k" using sorted_first [OF assms(1,2) h] by simp_all
  have "h = p"
  proof (cases "fst (snd (selectFromPools items)) \<le> 1")
    case True
    then have "length items \<le> 1" by (simp add: selectFromPools_count)
    moreover have "h \<in> set items" using set_sortPools [of items] h by auto
    ultimately show ?thesis using mem by (cases items) auto
  next
    case False
    then have "snd k = poolName h" using assms(4) h by (simp add: selectFromPools_def)
    then have "poolKey h = k" using first(2) by (simp add: poolKey_def metaKey_def prod_eq_iff)
    then show ?thesis using boardOk_unique [OF assms(1) firstIn_mem [OF first(1)] p(1)] p(2) by simp
  qed
  then show "firstIn v p" using first(1) by simp
qed

lemma listed_younger:
  assumes "boardOk v" "set items = set (poolsIn (fst k) (bo_Pools v))" "snd k \<noteq> fst (selectFromPools items)"
    and "p \<in> set (bo_Pools v)" "poolKey p = k"
  shows "\<not> firstIn v p"
proof
  assume f: "firstIn v p"
  have "poolNs p = fst k" using assms(5) by (metis fst_poolKey)
  then have "p \<in> set items" using assms(4) unfolding assms(2) by (simp add: poolsIn_def)
  then obtain h t where h: "sortPoolsForSelection items = h # t" by (cases "sortPoolsForSelection items") auto
  have "firstIn v h" "poolNs h = poolNs p" using sorted_first [OF assms(1,2) h] assms(5) by auto
  then have "h = p" by (intro firstIn_unique [OF assms(1) f])
  then show False using assms(3,5) h by (auto simp: selectFromPools_def poolKey_def metaKey_def)
qed

section \<open>Rules\<close>

context board_server
begin

definition good :: "controller \<Rightarrow> string \<times> string \<Rightarrow> 'w poolSys \<Rightarrow> bool" where
  "good c k s \<longleftrightarrow> boardInv c (view (world s)) (circuit s) \<and> bo_Hand (view (world s)) = {k}"

definition leads :: "controller \<Rightarrow> string \<times> string \<Rightarrow> (board \<Rightarrow> breaker \<Rightarrow> bool) \<Rightarrow> ('w poolSys, 'a) state \<Rightarrow>
    ('a \<Rightarrow> board \<Rightarrow> breaker \<Rightarrow> bool) \<Rightarrow> bool" where
  "leads c k P m Q \<longleftrightarrow>
     (\<forall>s. good c k s \<longrightarrow> P (view (world s)) (circuit s) \<longrightarrow>
       good c k (snd (run_state m s)) \<and> Q (fst (run_state m s)) (view (world (snd (run_state m s)))) (circuit (snd (run_state m s))))"

lemma leads_return: "(\<And>v b. P v b \<Longrightarrow> Q x v b) \<Longrightarrow> leads c k P (State_Monad.return x) Q"
  by (simp add: leads_def)

lemma leads_bind: "leads c k P m Q \<Longrightarrow> (\<And>a. leads c k (Q a) (f a) R) \<Longrightarrow> leads c k P (State_Monad.bind m f) R"
  unfolding leads_def run_state_bind by (simp add: case_prod_unfold)

lemma leads_mono: "leads c k P m Q \<Longrightarrow> (\<And>v b. P' v b \<Longrightarrow> P v b) \<Longrightarrow> (\<And>a v b. Q a v b \<Longrightarrow> Q' a v b) \<Longrightarrow> leads c k P' m Q'"
  unfolding leads_def by blast

lemma leads_inv:
  "(\<And>v b. boardInv c v b \<Longrightarrow> bo_Hand v = {k} \<Longrightarrow> P' v b \<Longrightarrow> P v b) \<Longrightarrow> leads c k P m Q \<Longrightarrow> leads c k P' m Q"
  unfolding leads_def good_def by blast

lemma leads_post:
  "leads c k P m Q \<Longrightarrow> (\<And>a v b. boardInv c v b \<Longrightarrow> bo_Hand v = {k} \<Longrightarrow> Q a v b \<Longrightarrow> Q' a v b) \<Longrightarrow> leads c k P m Q'"
  unfolding leads_def good_def by blast

lemma leads_pure: "(\<And>v b. P v b \<Longrightarrow> a) \<Longrightarrow> (a \<Longrightarrow> leads c k P m Q) \<Longrightarrow> leads c k P m Q"
  unfolding leads_def by blast

lemma leads_if: "(a \<Longrightarrow> leads c k P m Q) \<Longrightarrow> (\<not> a \<Longrightarrow> leads c k P n Q) \<Longrightarrow> leads c k P (if a then m else n) Q"
  by simp

lemma leads_case_sum:
  "(\<And>a. x = Inl a \<Longrightarrow> leads c k P (f a) Q) \<Longrightarrow> (\<And>a. x = Inr a \<Longrightarrow> leads c k P (g a) Q) \<Longrightarrow>
    leads c k P (case x of Inl a \<Rightarrow> f a | Inr a \<Rightarrow> g a) Q"
  by (simp split: sum.split)

lemma leads_case_option:
  "(x = None \<Longrightarrow> leads c k P m Q) \<Longrightarrow> (\<And>a. x = Some a \<Longrightarrow> leads c k P (f a) Q) \<Longrightarrow>
    leads c k P (case x of None \<Rightarrow> m | Some a \<Rightarrow> f a) Q"
  by (simp split: option.split)

lemma leads_case_prod:
  "(\<And>a b. x = (a, b) \<Longrightarrow> leads c k P (f a b) Q) \<Longrightarrow> leads c k P (case x of (a, b) \<Rightarrow> f a b) Q"
  by (simp split: prod.split)

lemmas leads_branch = leads_if leads_case_sum leads_case_option

lemma leads_metric: "leads c k P (withMetric f) (\<lambda>_. P)"
  by (simp add: leads_def good_def run_withMetric split: prod.split)

lemma leads_event: "leads c k P (recordPoolEvent R p ty reason msg) (\<lambda>_. P)"
  by (simp add: leads_def good_def recordPoolEvent_def run_note_effect)

lemma leads_circuit:
  assumes "\<And>v b r b'. boardInv c v b \<Longrightarrow> bo_Hand v = {k} \<Longrightarrow> P v b \<Longrightarrow> f b = (r, b') \<Longrightarrow> boardInv c v b' \<and> Q r v b'"
  shows "leads c k P (withCircuit f) Q"
  unfolding leads_def
proof (intro allI impI)
  fix s assume s: "good c k s" "P (view (world s)) (circuit s)"
  obtain r b' where f: "f (circuit s) = (r, b')" by force
  show "good c k (snd (run_state (withCircuit f) s)) \<and> Q (fst (run_state (withCircuit f) s))
      (view (world (snd (run_state (withCircuit f) s)))) (circuit (snd (run_state (withCircuit f) s)))"
    using assms [OF _ _ s(2) f] s(1) f by (simp add: run_withCircuit good_def)
qed

text \<open>A call that only reads, and tells \<open>X\<close>; and one that may write, from \<open>v\<close> to \<open>v'\<close>.\<close>

lemma leads_read:
  assumes "\<And>w r w'. boardOk (view w) \<Longrightarrow> g w = (r, w') \<Longrightarrow> boardMay (view w) (view w') \<and> X r (view w')"
    and "steady k P"
  shows "leads c k (\<lambda>v b. P v) (api e g) (\<lambda>r v b. P v \<and> X r v)"
  unfolding leads_def
proof (intro allI impI)
  fix s assume "good c k s" "P (view (world s))"
  then have s: "boardInv c (view (world s)) (circuit s)" "bo_Hand (view (world s)) = {k}" "P (view (world s))"
    by (simp_all add: good_def)
  obtain r w' where g: "g (world s) = (r, w')" by force
  have ok: "boardOk (view (world s))" using s(1) by (simp add: boardInv_def)
  have m: "boardMay (view (world s)) (view w')" "X r (view w')" using assms(1) [OF ok g] by blast+
  then show "good c k (snd (run_state (api e g) s)) \<and> P (view (world (snd (run_state (api e g) s)))) \<and>
      X (fst (run_state (api e g) s)) (view (world (snd (run_state (api e g) s))))"
    using may_inv [OF m(1) s(1)] steadyD [OF assms(2) ok s(2) m(1) s(3)] may_pending(4) [OF m(1)] s(2) g
    by (simp add: run_api good_def)
qed

lemma leads_write:
  assumes "\<And>w r w'. boardOk (view w) \<Longrightarrow> g w = (r, w') \<Longrightarrow>
      \<exists>v. boardMay (view w) v \<and> (isl r \<and> view w' = v \<or> W r v (view w'))"
    and "steady k P"
    and "\<And>v v' b r. boardInv c v b \<Longrightarrow> bo_Hand v = {k} \<Longrightarrow> P v \<Longrightarrow> W r v v' \<Longrightarrow>
      boardInv c v' b \<and> bo_Hand v' = {k} \<and> Q r v'"
    and "\<And>v r. P v \<Longrightarrow> isl r \<Longrightarrow> Q r v"
  shows "leads c k (\<lambda>v b. P v) (api e g) (\<lambda>r v b. Q r v)"
  unfolding leads_def
proof (intro allI impI)
  fix s assume "good c k s" "P (view (world s))"
  then have s: "boardInv c (view (world s)) (circuit s)" "bo_Hand (view (world s)) = {k}" "P (view (world s))"
    by (simp_all add: good_def)
  obtain r w' where g: "g (world s) = (r, w')" by force
  have ok: "boardOk (view (world s))" using s(1) by (simp add: boardInv_def)
  obtain v where v: "boardMay (view (world s)) v" "isl r \<and> view w' = v \<or> W r v (view w')" using assms(1) [OF ok g] by blast
  have inv: "boardInv c v (circuit s)" "bo_Hand v = {k}" "P v"
    using may_inv [OF v(1) s(1)] steadyD [OF assms(2) ok s(2) v(1) s(3)] may_pending(4) [OF v(1)] s(2) by simp_all
  have "boardInv c (view w') (circuit s) \<and> bo_Hand (view w') = {k} \<and> Q r (view w')"
    using v(2) assms(3) [OF inv] assms(4) [OF inv(3)] inv(1,2) by blast
  then show "good c k (snd (run_state (api e g) s)) \<and> Q (fst (run_state (api e g) s)) (view (world (snd (run_state (api e g) s))))"
    using g by (simp add: run_api good_def)
qed

lemma leads_frame:
  assumes "\<And>s. circuit (snd (run_state m s)) = circuit s" "leads c k (\<lambda>v b. P v) m (\<lambda>r v b. Q r v)"
  shows "leads c k (\<lambda>v b. P v \<and> B b) m (\<lambda>r v b. Q r v \<and> B b)"
  using assms unfolding leads_def by simp

lemma leads_answer:
  assumes "\<And>e. leads c k (\<lambda>v b. A v \<and> True) (N (F e)) R" "leads c k (\<lambda>v b. A v \<and> B v) M R"
  shows "leads c k (\<lambda>v b. A v \<and> (\<not> isl r \<longrightarrow> B v))
    (case case r of Inl e \<Rightarrow> Some (F e) | Inr x \<Rightarrow> None of None \<Rightarrow> M | Some e \<Rightarrow> N e) R"
  using assms by (cases r) simp_all

section \<open>The operations of the controller\<close>

lemma leads_clock: "steady k P \<Longrightarrow> leads c k (\<lambda>v b. P v) (api e (cl_Now C)) (\<lambda>t v b. P v)"
  by (rule leads_mono [OF leads_read [where X = "\<lambda>_ _. True"]]) (use clock in auto)

lemma leads_status:
  assumes "steady k P"
    and "\<And>v. boardOk v \<Longrightarrow> bo_Hand v = {k} \<Longrightarrow> P v \<Longrightarrow>
      poolKey q \<in> pending v \<or> goneIn (pending v) v (poolNs q) \<and> eldest v (poolKey q)"
    and "\<And>v v'. P v \<Longrightarrow> poolTouched (conditionsSent q (withReadyCondition K q st reason msg)) (poolKey q) v v' \<Longrightarrow> Q v'"
  shows "leads c k (\<lambda>v b. P v) (setReadyCondition K C q st reason msg) (\<lambda>r v b. r = None \<longrightarrow> Q v)"
proof -
  let ?q = "withReadyCondition K q st reason msg"
  have same: "po_Meta ?q = po_Meta q" "po_Spec ?q = po_Spec q" "poolKey ?q = poolKey q"
    by (simp_all add: withReadyCondition_def poolKey_def)
  have "leads c k (\<lambda>v b. P v) (api (PatchPoolStatus q ?q) (cl_PatchPoolStatus C q ?q)) (\<lambda>r v b. \<not> isl r \<longrightarrow> Q v)"
  proof (rule leads_write [OF _ assms(1)])
    fix w r w' assume "boardOk (view w)" "cl_PatchPoolStatus C q ?q w = (r, w')"
    then show "\<exists>v. boardMay (view w) v \<and> (isl r \<and> view w' = v \<or> poolTouched (conditionsSent q ?q) (poolKey q) v (view w'))"
      using patch_status [OF _ same(1,2)] same(3) by metis
  next
    fix v v' b and r :: "apiError + pool"
    assume v: "boardInv c v b" "bo_Hand v = {k}" "P v" "poolTouched (conditionsSent q ?q) (poolKey q) v v'"
    have "poolKey q \<in> pending v \<or> goneIn (pending v) v (fst (poolKey q)) \<and> eldest v (poolKey q)"
      using assms(2) [OF _ v(2,3)] v(1) by (simp add: boardInv_def)
    then show "boardInv c v' b \<and> bo_Hand v' = {k} \<and> (\<not> isl r \<longrightarrow> Q v')"
      using touched_inv [OF v(4,1)] touched_rest(3) [OF v(4)] v(2) assms(3) [OF v(3,4)] by simp
  qed simp
  then show ?thesis
    unfolding setReadyCondition_def Let_def by (rule leads_bind) (auto intro!: leads_return split: sum.splits)
qed

lemma excused_written: "configWritten cm f v v' \<Longrightarrow> excused v ns \<Longrightarrow> excused v' ns"
  using written_ok(2,3,4) unfolding excused_def goneIn_def by blast

lemma steady_excused: "steady k (\<lambda>v. excused v ns)"
  unfolding steady_def
proof (intro allI impI)
  fix v v' assume m: "boardMay v v'" and e: "excused v ns"
  have "poolKey p \<in> pending v' \<or> goneIn (pending v') v' ns" if p: "firstIn v' p" "poolNs p = ns" for p
  proof (cases "poolKey p \<in> bo_Queue v' \<or> goneIn (bo_Queue v') v' ns")
    case False
    then have "firstIn v p" using may_first [OF m p(1)] p(2) by auto
    then have "poolKey p \<in> pending v \<or> goneIn (pending v) v ns" using e p(2) unfolding excused_def by blast
    then show ?thesis using may_pending(1) [OF m] may_gone(1) [OF m] by blast
  qed (auto simp: pending_def goneIn_def)
  then show "excused v' ns" by (simp add: excused_def)
qed

text \<open>The ConfigMap behind the circuit: the query, the write and the two changes of the circuit.\<close>

lemma hand_space: "boardInv c v b \<Longrightarrow> bo_Hand v = {k} \<Longrightarrow> fst k \<in> bo_Spaces v"
  by (rule inv_spaces(1)) (simp_all add: pending_def)

lemma leads_query:
  assumes "\<And>v. boardOk v \<Longrightarrow> bo_Hand v = {k} \<Longrightarrow> P v \<Longrightarrow> excused v (fst k)" and ns: "ns = operatorNamespace (ct_R c) (fst k)"
  shows "leads c k (\<lambda>v b. P v) (withCircuit (isConfigMapCircuitOpen ns now)) (\<lambda>r v b. P v \<and> (r \<noteq> None \<longrightarrow> circuitOpen b ns))"
proof (rule leads_circuit)
  fix v b r b' assume v: "boardInv c v b" "bo_Hand v = {k}" "P v" "isConfigMapCircuitOpen ns now b = (r, b')"
  have b: "breakerInv b" "boardOk v" using v(1) by (simp_all add: boardInv_def)
  have q: "r = fst (circuitQuery now (circuitOf b ns))" "b' = snd (isConfigMapCircuitOpen ns now b)"
    using isOpen_query [of ns now b] v(4) by simp_all
  have "circuitOf b' ns = snd (circuitQuery now (circuitOf b ns))" using circuitOf_query [OF b(1)] q(2) by simp
  then have "r \<noteq> None \<longrightarrow> circuitOpen b' ns"
    using q(1) by (cases "circuitOf b ns") (simp_all add: circuitOpen_def)
  moreover have "boardInv c v b'"
    using circuit_inv [OF v(1) breakerInv_query [OF b(1)] _ assms(1) [OF b(2) v(2,3)] hand_space [OF v(1,2)]] circuitOf_query [OF b(1)] q(2) ns
    by simp
  ultimately show "boardInv c v b' \<and> P v \<and> (r \<noteq> None \<longrightarrow> circuitOpen b' ns)" using v(3) by blast
qed

lemma leads_stored:
  assumes "ns = operatorNamespace (ct_R c) (fst k)" "steady k P" "\<And>v. boardOk v \<Longrightarrow> bo_Hand v = {k} \<Longrightarrow> P v \<Longrightarrow> excused v (fst k)"
    and f: "\<And>x. cmKey (f x) = cmKey x"
    and "cm = \<lparr>cm_Name = resolvedAgentConfigMapName (ct_R c), cm_Namespace = ns, cm_Data = None\<rparr>"
    and "f = mutateConfigMap (SetDataKey ''config.json'' json)" "\<And>v v'. P v \<Longrightarrow> configWritten cm f v v' \<Longrightarrow> Q v'"
  shows "leads c k (\<lambda>v b. P v) (api e (cl_CreateOrUpdate C cm f)) (\<lambda>r v b. excused v (fst k) \<and> (\<not> isl r \<longrightarrow> Q v))"
proof (rule leads_inv [OF _ leads_write [where P = "\<lambda>v. P v \<and> excused v (fst k)"]])
  show "steady k (\<lambda>v. P v \<and> excused v (fst k))" by (rule steady_conj [OF assms(2) steady_excused])
  show "P v \<and> excused v (fst k)" if "boardInv c v b" "bo_Hand v = {k}" "P v" for v b
    using assms(3) that by (simp add: boardInv_def)
  show "boardInv c v' b \<and> bo_Hand v' = {k} \<and> excused v' (fst k) \<and> (\<not> isl r \<longrightarrow> Q v')"
    if v: "boardInv c v b" "bo_Hand v = {k}" "P v \<and> excused v (fst k)" "configWritten cm f v v'" for v v' b and r :: "apiError + unit"
    using written_inv [OF v(4,1) _ hand_space [OF v(1,2)] _ f] assms(1,5) written_ok(5) [OF v(4)] excused_written [OF v(4)] assms(7) [OF _ v(4)] v(2,3) by simp
  show "\<exists>v. boardMay (view w) v \<and> (isl r \<and> view w' = v \<or> configWritten cm f v (view w'))"
    if "boardOk (view w)" "cl_CreateOrUpdate C cm f w = (r, w')" for w r w'
    by (rule upsert [OF that(1) f that(2)])
qed auto

lemma leads_change:
  assumes "\<And>b. breakerInv b \<Longrightarrow> breakerInv (g b) \<and> (\<forall>n. n \<noteq> operatorNamespace (ct_R c) (fst k) \<longrightarrow> circuitOf (g b) n = circuitOf b n)"
  shows "leads c k (\<lambda>v b. excused v (fst k) \<and> Q v) (withCircuit (\<lambda>b. ((), g b))) (\<lambda>r v b. Q v)"
proof (rule leads_circuit)
  fix v b r b' assume v: "boardInv c v b" "bo_Hand v = {k}" "excused v (fst k) \<and> Q v" "((), g b) = (r, b')"
  have "breakerInv b" using v(1) by (simp add: boardInv_def)
  then have b': "breakerInv b'" "n \<noteq> operatorNamespace (ct_R c) (fst k) \<Longrightarrow> circuitOf b' n = circuitOf b n" for n using assms v(4) by auto
  have "boardInv c v b'" by (rule circuit_inv [OF v(1) b' conjunct1 [OF v(3)] hand_space [OF v(1,2)]])
  then show "boardInv c v b' \<and> Q v" using v(3) by simp
qed

lemma leads_failed:
  "leads c k (\<lambda>v b. excused v (fst k) \<and> True) (withCircuit (\<lambda>b. ((), recordConfigMapUpdateFailure (operatorNamespace (ct_R c) (fst k)) t1 t2 b))) (\<lambda>r v b. True)"
  by (rule leads_change) (simp add: breakerInv_fail circuitOf_fail)

lemma leads_reset:
  "leads c k (\<lambda>v b. excused v (fst k) \<and> Q v) (withCircuit (\<lambda>b. ((), resetConfigMapUpdateFailures (operatorNamespace (ct_R c) (fst k)) b))) (\<lambda>r v b. Q v)"
  by (rule leads_change) (simp add: breakerInv_reset circuitOf_reset)

lemma leads_upsert:
  assumes ns: "ns = operatorNamespace (ct_R c) (fst k)" and "steady k P" "\<And>v. boardOk v \<Longrightarrow> bo_Hand v = {k} \<Longrightarrow> P v \<Longrightarrow> excused v (fst k)"
    and "\<And>v v'. P v \<Longrightarrow> configWritten \<lparr>cm_Name = resolvedAgentConfigMapName (ct_R c), cm_Namespace = ns, cm_Data = None\<rparr>
      (mutateConfigMap (SetDataKey ''config.json'' json)) v v' \<Longrightarrow> Q v'"
  shows "leads c k (\<lambda>v b. P v) (upsertConfigMapWithCircuitBreaker (ct_R c) C ns json)
    (\<lambda>r v b. (r = None \<longrightarrow> Q v) \<and> (\<forall>e. r = Some e \<longrightarrow> errorsIs e errConfigMapCircuitOpen \<longrightarrow> P v \<and> circuitOpen b ns))"
proof -
  let ?cm = "\<lparr>cm_Name = resolvedAgentConfigMapName (ct_R c), cm_Namespace = ns, cm_Data = None\<rparr>"
  let ?f = "mutateConfigMap (SetDataKey ''config.json'' json)"
  let ?post = "\<lambda>r v b. (r = None \<longrightarrow> Q v) \<and> (\<forall>e. r = Some e \<longrightarrow> errorsIs e errConfigMapCircuitOpen \<longrightarrow> P v \<and> circuitOpen b ns)"
  have f: "cmKey (?f x) = cmKey x" for x by (simp add: mutateConfigMap_def cmKey_def)
  have query: "leads c k (\<lambda>v b. P v) (withCircuit (isConfigMapCircuitOpen ns now)) (\<lambda>r v b. P v \<and> (r \<noteq> None \<longrightarrow> circuitOpen b ns))" for now
    by (rule leads_query [OF assms(3) ns])
  have stored: "leads c k (\<lambda>v b. P v) (api e (cl_CreateOrUpdate C ?cm ?f)) (\<lambda>r v b. excused v (fst k) \<and> (\<not> isl r \<longrightarrow> Q v))" for e
    by (rule leads_stored [OF assms(1,2) _ f refl refl]) (use assms(3,4) in auto)
  have err: "leads c k (\<lambda>v b. excused v (fst k) \<and> True) (do {
        t1 \<leftarrow> api ReadClock (cl_Now C);
        t2 \<leftarrow> api ReadClock (cl_Now C);
        _ \<leftarrow> withCircuit (\<lambda>b. ((), recordConfigMapUpdateFailure ns t1 t2 b));
        State_Monad.return (Some e)
      }) ?post" if "\<not> errorsIs e errConfigMapCircuitOpen" for e
    using that
    by (intro leads_bind [OF leads_clock [OF steady_conj [OF steady_excused steady_True(1)]]] leads_bind [OF leads_failed [where c = c and k = k, folded ns]] leads_return) simp
  have ok: "leads c k (\<lambda>v b. excused v (fst k) \<and> Q v) (do {
        _ \<leftarrow> withCircuit (\<lambda>b. ((), resetConfigMapUpdateFailures ns b));
        State_Monad.return None
      }) ?post"
    by (intro leads_bind [OF leads_reset [where c = c and k = k, folded ns]] leads_return) simp
  show ?thesis
    unfolding upsertConfigMapWithCircuitBreaker_def upsertConfigMap_def Let_def bind_assoc bind_left_identity
    by (rule leads_bind [OF leads_clock [OF assms(2)]], rule leads_bind [OF query], rule leads_case_option,
      rule leads_bind [OF leads_mono [OF stored]], simp, assumption, intro leads_answer err ok,
      simp add: errConfigMapCircuitOpen_def, auto intro!: leads_return)
qed

end

end
