(* ===== verification/PoolAtWork.thy ===== *)
theory PoolAtWork
  imports WorkQueue
begin

text \<open>
  The reconcile of a pool, live or deleted, on a board that others change: its proof outline, operation
  by operation in the order of the code, and the runs of the controller with its restarts.
\<close>

text \<open>The pool \<open>q\<close> that was read is still what is there, or at least its facts \<open>F\<close> are, and its conditions.\<close>

abbreviation still :: "(board \<Rightarrow> pool \<Rightarrow> bool) \<Rightarrow> pool \<Rightarrow> board \<Rightarrow> bool" where
  "still F q v \<equiv> here v (poolKey q) (\<lambda>v p. F v p \<and> conditionsOf p = conditionsOf q)"

abbreviation isStill :: "pool \<Rightarrow> board \<Rightarrow> bool" where
  "isStill q \<equiv> still (\<lambda>v p. po_Spec p = po_Spec q) q"

context board_server
begin

section \<open>A live pool\<close>

lemma leads_ready:
  assumes "conditions_documented K" "lasts (poolKey q) F" "kept (poolKey q) F" "steady k (\<lambda>v. A v \<and> here v (poolKey q) (\<lambda>v p. F v p \<and> conditionsOf p = conditionsOf q))"
    and "\<And>v. boardOk v \<Longrightarrow> bo_Hand v = {k} \<Longrightarrow> A v \<Longrightarrow>
      poolKey q \<in> pending v \<or> goneIn (pending v) v (poolNs q) \<and> eldest v (poolKey q)"
    and "\<And>T v v'. poolTouched T (poolKey q) v v' \<Longrightarrow> A v \<Longrightarrow> A v'"
  shows "leads c k (\<lambda>v b. A v \<and> here v (poolKey q) (\<lambda>v p. F v p \<and> conditionsOf p = conditionsOf q)) (setReadyCondition K C q st reason msg)
    (\<lambda>r v b. r = None \<longrightarrow> A v \<and> here v (poolKey q) (\<lambda>v p. F v p \<and> (readyTrue p \<longleftrightarrow> st = ConditionTrue)))"
proof (rule leads_status [OF assms(4)])
  fix v assume "boardOk v" "bo_Hand v = {k}" "A v \<and> here v (poolKey q) (\<lambda>v p. F v p \<and> conditionsOf p = conditionsOf q)"
  then show "poolKey q \<in> pending v \<or> goneIn (pending v) v (poolNs q) \<and> eldest v (poolKey q)" using assms(5) by blast
next
  fix v v' assume v: "A v \<and> here v (poolKey q) (\<lambda>v p. F v p \<and> conditionsOf p = conditionsOf q)"
    and t: "poolTouched (conditionsSent q (withReadyCondition K q st reason msg)) (poolKey q) v v'"
  have "here v' (poolKey q) (\<lambda>v p. F v p \<and> conditionsOf p = conditionsOf (withReadyCondition K q st reason msg))"
    by (rule here_status [OF assms(3) t conjunct2 [OF v]])
  then have "here v' (poolKey q) (\<lambda>v p. F v p \<and> (readyTrue p \<longleftrightarrow> st = ConditionTrue))"
    by (rule here_mono) (use ready_conditions readyTrue_with [OF assms(1)] in metis)
  then show "A v' \<and> here v' (poolKey q) (\<lambda>v p. F v p \<and> (readyTrue p \<longleftrightarrow> st = ConditionTrue))"
    using assms(6) [OF t] v by blast
qed

text \<open>A failed branch, with its request in hand.\<close>

lemma hand_pending: "bo_Hand v = {k} \<Longrightarrow> k \<in> pending v"
  by (simp add: pending_def)

lemma leads_fail:
  assumes "conditions_documented K" "lasts (poolKey q) F" "kept (poolKey q) F"
  shows "leads c (poolKey q) (\<lambda>v b. here v (poolKey q) (\<lambda>v p. F v p \<and> conditionsOf p = conditionsOf q)) (failPool R K C q reason msg res)
    (\<lambda>r v b. r = (0, None) \<longrightarrow> here v (poolKey q) (\<lambda>v p. F v p \<and> \<not> readyTrue p))"
proof -
  let ?k = "poolKey q"
  have steady: "steady ?k (\<lambda>v. True \<and> here v ?k (\<lambda>v p. F v p \<and> conditionsOf p = conditionsOf q))"
    by (intro steady_conj steady_True steady_here lasts_conj assms(2) lasts_pool)
  have "leads c ?k (\<lambda>v b. True \<and> here v ?k (\<lambda>v p. F v p \<and> conditionsOf p = conditionsOf q)) (setReadyCondition K C q ConditionFalse reason msg)
      (\<lambda>r v b. r = None \<longrightarrow> True \<and> here v ?k (\<lambda>v p. F v p \<and> (readyTrue p \<longleftrightarrow> ConditionFalse = ConditionTrue)))"
    by (rule leads_ready [OF assms steady]) (simp_all add: hand_pending)
  then have status: "leads c ?k (\<lambda>v b. here v ?k (\<lambda>v p. F v p \<and> conditionsOf p = conditionsOf q)) (setReadyCondition K C q ConditionFalse reason msg)
      (\<lambda>r v b. r = None \<longrightarrow> here v ?k (\<lambda>v p. F v p \<and> \<not> readyTrue p))" by simp
  show ?thesis
    unfolding failPool_def
    by (rule leads_bind [OF leads_event], rule leads_bind [OF status], rule leads_return) (auto split: option.splits)
qed

lemma leads_fail_retried:
  assumes "res \<noteq> (0, None)"
  shows "leads c (poolKey q) (\<lambda>v b. True) (failPool R K C q reason msg res) (\<lambda>r v b. r \<noteq> (0, None))"
proof -
  have status: "leads c (poolKey q) (\<lambda>v b. True) (setReadyCondition K C q ConditionFalse reason msg) (\<lambda>r v b. r = None \<longrightarrow> True)"
    by (rule leads_status [OF steady_True(1)]) (simp_all add: hand_pending)
  show ?thesis
    unfolding failPool_def
    by (rule leads_bind [OF leads_event], rule leads_bind [OF status], rule leads_return)
      (use assms in \<open>auto split: option.splits\<close>)
qed

lemma leads_unready:
  assumes "conditions_documented K" "lasts (poolKey q) F" "kept (poolKey q) F"
    and "\<And>v p. F v p \<Longrightarrow> inEffect c v p \<or> \<not> firstIn v p \<or> goneIn (bo_Queue v) v (poolNs p)"
  shows "leads c (poolKey q) (\<lambda>v b. here v (poolKey q) (\<lambda>v p. F v p \<and> conditionsOf p = conditionsOf q)) (failPool R K C q reason msg res)
    (\<lambda>r v b. r = (0, None) \<longrightarrow> settledFor c v b (poolKey q))"
proof (rule leads_post [OF leads_fail [OF assms(1-3)]], intro impI)
  fix r v b assume v: "boardInv c v b" "bo_Hand v = {poolKey q}" "r = (0, None)"
    "r = (0, None) \<longrightarrow> here v (poolKey q) (\<lambda>v p. F v p \<and> \<not> readyTrue p)"
  then have "here v (poolKey q) (\<lambda>v p. F v p \<and> \<not> readyTrue p)" by blast
  then have "here v (poolKey q) (\<lambda>v p. (inEffect c v p \<or> \<not> firstIn v p \<or> goneIn (bo_Queue v) v (poolNs p)) \<and> \<not> readyTrue p)"
    by (rule here_mono) (use assms(4) in blast)
  then show "settledFor c v b (poolKey q)" by (rule settled_unready [OF v(1,2)])
qed

lemma config_eldest: "configWritten cm f v v' \<Longrightarrow> eldest v k \<Longrightarrow> eldest v' k"
  by (simp add: eldest_def written_ok)

lemma here_written:
  assumes "configWritten \<lparr>cm_Name = resolvedAgentConfigMapName R, cm_Namespace = operatorNamespace R ns, cm_Data = None\<rparr>
      (mutateConfigMap (SetDataKey ''config.json'' json)) v v'"
    and "here v k (\<lambda>v p. specProf q prof v p \<and> G p)"
  shows "here v' k (\<lambda>v p. (specProf q prof v p \<and> publishes R ns json (bo_ConfigMaps v)) \<and> G p)"
proof -
  have "bo_ConfigMaps v' = publishedMap R ns json (bo_ConfigMaps v)"
    using assms(1) by (simp add: configWritten_def publishedMap_def)
  then have "publishes R ns json (bo_ConfigMaps v')" by (simp add: publishes_map)
  moreover have "bo_Pools v' = bo_Pools v" "bo_Profiles v' = bo_Profiles v" "bo_Queue v \<subseteq> bo_Queue v'"
    using assms(1) by (simp_all add: configWritten_def requeued_def)
  ultimately show ?thesis using assms(2) unfolding here_def specProf_def by auto
qed

lemma steady_eldest_spec: "steady k (\<lambda>v. eldest v k' \<and> here v k' (\<lambda>v p. specProf q prof v p \<and> conditionsOf p = cs))"
  by (intro steady_eldest_here lasts_conj lasts_specProf lasts_pool)

lemma leads_store:
  assumes "configured c" "buildsFor c q prof json"
  shows "leads c (poolKey q) (\<lambda>v b. eldest v (poolKey q) \<and> here v (poolKey q) (\<lambda>v p. specProf q prof v p \<and> conditionsOf p = conditionsOf q))
    (storeConfig (ct_R c) (ct_K c) C q json) (\<lambda>r v b. r = (0, None) \<longrightarrow> settledFor c v b (poolKey q))"
proof -
  let ?k = "poolKey q" and ?F = "\<lambda>v p. specProf q prof v p \<and> publishes (ct_R c) (poolNs q) json (bo_ConfigMaps v)"
  let ?P = "\<lambda>v. eldest v ?k \<and> here v ?k (\<lambda>v p. specProf q prof v p \<and> conditionsOf p = conditionsOf q)"
  let ?Q = "\<lambda>v. eldest v ?k \<and> here v ?k (\<lambda>v p. ?F v p \<and> conditionsOf p = conditionsOf q)"
  have c: "conditions_documented (ct_K c)" using assms(1) by (simp add: configured_def)
  let ?ns = "operatorNamespace (ct_R c) (poolNs q)"
  have ns: "?ns = operatorNamespace (ct_R c) (fst ?k)" by simp
  have F: "lasts ?k ?F" "kept ?k ?F"
    by (intro lasts_conj kept_conj lasts_specProf kept_specProf lasts_published kept_published)+
  have upsert: "leads c ?k (\<lambda>v b. ?P v) (upsertConfigMapWithCircuitBreaker (ct_R c) C ?ns json)
      (\<lambda>r v b. (r = None \<longrightarrow> ?Q v) \<and> (\<forall>e. r = Some e \<longrightarrow> errorsIs e errConfigMapCircuitOpen \<longrightarrow> ?P v \<and> circuitOpen b ?ns))"
  proof (rule leads_upsert [OF ns steady_eldest_spec])
    fix v assume "boardOk v" "bo_Hand v = {?k}" "?P v"
    then show "excused v (fst ?k)" using excused_eldest [of v ?k] hand_pending by simp
  next
    fix v v' assume "?P v" and w: "configWritten \<lparr>cm_Name = resolvedAgentConfigMapName (ct_R c), cm_Namespace = ?ns, cm_Data = None\<rparr>
      (mutateConfigMap (SetDataKey ''config.json'' json)) v v'"
    then show "?Q v'"
      using config_eldest [OF w] here_written [OF w, of ?k q prof "\<lambda>p. conditionsOf p = conditionsOf q"] by blast
  qed
  have ready: "leads c ?k (\<lambda>v b. ?Q v) (setReadyCondition (ct_K c) C q ConditionTrue reason msg)
      (\<lambda>r v b. r = None \<longrightarrow> eldest v ?k \<and> here v ?k (\<lambda>v p. ?F v p \<and> (readyTrue p \<longleftrightarrow> ConditionTrue = ConditionTrue)))" for reason msg
    by (rule leads_ready [OF c F steady_eldest_here [OF lasts_conj [OF F(1) lasts_pool]]])
      (auto simp: hand_pending intro: eldest_touched)
  have settled: "settledFor c v b ?k" if "boardInv c v b" "eldest v ?k \<and> here v ?k (\<lambda>v p. ?F v p \<and> (readyTrue p \<longleftrightarrow> ConditionTrue = ConditionTrue))" for v b
  proof (rule settled_served [of v ?k])
    show "here v ?k (inEffect c)"
      using conjunct2 [OF that(2)] by (rule here_mono) (use inEffect_built [OF _ assms(2)] in \<open>auto simp: poolKey_eq\<close>)
  qed (use that in \<open>auto simp: boardInv_def\<close>)
  have fail: "leads c ?k A (failPool R K C q reason msg res) (\<lambda>r v b. r = (0, None) \<longrightarrow> settledFor c v b ?k)"
    if "res \<noteq> (0, None)" for A R K reason msg res
    by (rule leads_mono [OF leads_fail_retried [OF that]]) simp_all
  have ready': "leads c ?k (\<lambda>v b. ?Q v) (setReadyCondition (ct_K c) C q ConditionTrue reason msg)
      (\<lambda>r v b. r = None \<longrightarrow> settledFor c v b ?k)" for reason msg
    by (rule leads_post [OF ready]) (use settled in blast)
  have publish: "leads c ?k (\<lambda>v b. ?Q v) (do {
      _ \<leftarrow> recordPoolEvent (ct_R c) q ty reason' msg';
      statusErr \<leftarrow> setReadyCondition (ct_K c) C q ConditionTrue reason msg;
      State_Monad.return (0, statusErr)
    }) (\<lambda>r v b. r = (0, None) \<longrightarrow> settledFor c v b ?k)" for ty reason' msg' reason msg
    by (intro leads_bind [OF leads_event] leads_bind [OF ready'] leads_return) simp
  show ?thesis
    unfolding storeConfig_def Let_def
    by (intro leads_bind [OF upsert] leads_branch fail leads_mono [OF publish]) simp_all
qed

lemma leads_render:
  assumes "configured c"
  shows "leads c (poolKey q) (\<lambda>v b. eldest v (poolKey q) \<and> here v (poolKey q) (\<lambda>v p. specProf q prof v p \<and> conditionsOf p = conditionsOf q))
    (renderAndStore (ct_R c) (Generate (ct_Cpus c)) (ct_Render c) (ct_K c) C q prof) (\<lambda>r v b. r = (0, None) \<longrightarrow> settledFor c v b (poolKey q))"
proof -
  have K: "conditions_documented (ct_K c)" using assms by (simp add: configured_def)
  have fail: "leads c (poolKey q) (\<lambda>v b. eldest v (poolKey q) \<and> here v (poolKey q) (\<lambda>v p. specProf q prof v p \<and> conditionsOf p = conditionsOf q))
      (failPool (ct_R c) (ct_K c) C q reason msg res) (\<lambda>r v b. r = (0, None) \<longrightarrow> settledFor c v b (poolKey q))"
    if "\<forall>json. \<not> buildsFor c q prof json" for reason msg res
    by (rule leads_mono [OF leads_unready [OF K lasts_specProf kept_specProf]]) (use inEffect_unbuilt that in auto)
  show ?thesis
    unfolding renderAndStore_def
    by (intro leads_case_sum leads_case_option fail leads_store [OF assms])
      (auto simp: buildsConfig_def validateConfigMapPayloadSize_def Let_def split: if_splits)
qed

lemma leads_profile:
  assumes "steady k P"
  shows "leads c k (\<lambda>v b. P v) (getDefaultCacheProfile C ns)
    (\<lambda>r v b. P v \<and> (\<forall>prof. r = Inr prof \<longrightarrow> defaultProfileOf ns (bo_Profiles v) = prof))"
proof -
  have "leads c k (\<lambda>v b. P v) (api e (cl_GetProfile C ns ''default'')) (\<lambda>r v b. P v \<and>
      ((\<forall>pr. r = Inr pr \<longrightarrow> defaultProfileOf ns (bo_Profiles v) = Some pr) \<and> (r = Inl NotFound \<longrightarrow> defaultProfileOf ns (bo_Profiles v) = None)))" for e
    by (rule leads_read [OF get_profile assms])
  then show ?thesis
    unfolding getDefaultCacheProfile_def
    by (rule leads_bind) (auto intro!: leads_return simp: isNotFound_def split: sum.splits if_splits)
qed

lemma leads_build:
  assumes "configured c"
  shows "leads c (poolKey q) (\<lambda>v b. eldest v (poolKey q) \<and> here v (poolKey q) (\<lambda>v p. po_Spec p = po_Spec q \<and> conditionsOf p = conditionsOf q))
    (buildConfig (ct_R c) (Generate (ct_Cpus c)) (ct_Render c) (ct_K c) C q) (\<lambda>r v b. r = (0, None) \<longrightarrow> settledFor c v b (poolKey q))"
proof -
  let ?k = "poolKey q"
  let ?P = "\<lambda>v. eldest v ?k \<and> here v ?k (\<lambda>v p. po_Spec p = po_Spec q \<and> conditionsOf p = conditionsOf q)"
  have P: "steady ?k ?P" by (intro steady_eldest_here lasts_pool)
  have store: "leads c ?k (\<lambda>v b. ?P v \<and> (\<forall>prof. r = Inr prof \<longrightarrow> defaultProfileOf (poolNs q) (bo_Profiles v) = prof))
      (renderAndStore (ct_R c) (Generate (ct_Cpus c)) (ct_Render c) (ct_K c) C q prof) (\<lambda>r v b. r = (0, None) \<longrightarrow> settledFor c v b ?k)"
    if "r = Inr prof" for r :: "apiError + profile option" and prof
  proof (rule leads_mono [OF leads_render [OF assms]])
    fix v b assume v: "?P v \<and> (\<forall>prof. r = Inr prof \<longrightarrow> defaultProfileOf (poolNs q) (bo_Profiles v) = prof)"
    have "here v ?k (\<lambda>v p. specProf q prof v p \<and> conditionsOf p = conditionsOf q)"
      by (rule here_mono [of v ?k "\<lambda>v p. po_Spec p = po_Spec q \<and> conditionsOf p = conditionsOf q"])
        (use v that in \<open>auto simp: specProf_def poolKey_eq\<close>)
    then show "eldest v ?k \<and> here v ?k (\<lambda>v p. specProf q prof v p \<and> conditionsOf p = conditionsOf q)" using v by blast
  qed
  have fail: "leads c ?k A (failPool R K C q reason msg res) (\<lambda>r v b. r = (0, None) \<longrightarrow> settledFor c v b ?k)"
    if "res \<noteq> (0, None)" for A R K reason msg res
    by (rule leads_mono [OF leads_fail_retried [OF that]]) simp_all
  show ?thesis
    unfolding buildConfig_def Let_def
    by (intro leads_bind [OF leads_profile [OF P]] leads_case_sum fail store) simp_all
qed

text \<open>What the selection says of the pool \<open>q\<close>, when \<open>active\<close> of \<open>cnt\<close> pools was selected.\<close>

definition standing :: "pool \<Rightarrow> string \<Rightarrow> int \<Rightarrow> board \<Rightarrow> bool" where
  "standing q active cnt v \<longleftrightarrow>
     (if cnt > 1 \<and> poolName q \<noteq> active
      then here v (poolKey q) (\<lambda>v p. (\<not> firstIn v p \<or> goneIn (bo_Queue v) v (poolNs p)) \<and> conditionsOf p = conditionsOf q)
      else eldest v (poolKey q) \<and> isStill q v)"

lemma standing_listed:
  assumes "boardOk v" "set items = set (poolsIn (poolNs q) (bo_Pools v))" "distinct items" "isStill q v"
  shows "standing q (fst (selectFromPools items)) (fst (snd (selectFromPools items))) v"
proof -
  let ?k = "poolKey q"
  have items: "set items = set (poolsIn (fst ?k) (bo_Pools v))" and name: "snd ?k = poolName q"
    using assms(2) by (simp_all add: poolKey_def metaKey_def)
  show ?thesis
  proof (cases "fst (snd (selectFromPools items)) > 1 \<and> poolName q \<noteq> fst (selectFromPools items)")
    case True
    then have "snd ?k \<noteq> fst (selectFromPools items)" unfolding name by blast
    then have younger: "\<not> firstIn v p" if "p \<in> set (bo_Pools v)" "poolKey p = ?k" for p
      using listed_younger [OF assms(1) items _ that] by blast
    have "here v ?k (\<lambda>v p. (\<not> firstIn v p \<or> goneIn (bo_Queue v) v (poolNs p)) \<and> conditionsOf p = conditionsOf q)"
      by (rule here_mono [OF assms(4)]) (use younger in blast)
    then show ?thesis unfolding standing_def if_P [OF True] .
  next
    case False
    then have "fst (snd (selectFromPools items)) \<le> 1 \<or> snd ?k = fst (selectFromPools items)"
      unfolding name by (meson not_le)
    then have "eldest v ?k" by (rule listed_active [OF assms(1) items assms(3)])
    then show ?thesis unfolding standing_def if_not_P [OF False] using assms(4) by blast
  qed
qed

lemma leads_listed:
  "leads c (poolKey q) (\<lambda>v b. isStill q v) (selectActivePoolName C (poolNs q))
    (\<lambda>r v b. \<forall>active cnt reason. r = Inr (active, cnt, reason) \<longrightarrow> standing q active cnt v)"
proof -
  have "leads c (poolKey q) (\<lambda>v b. isStill q v) (api (ListPools (poolNs q)) (cl_ListPools C (poolNs q)))
      (\<lambda>r v b. isStill q v \<and> (\<forall>items. r = Inr items \<longrightarrow> set items = set (poolsIn (poolNs q) (bo_Pools v)) \<and> distinct items))"
    by (intro leads_read [OF list_pools] steady_here lasts_pool)
  then have "leads c (poolKey q) (\<lambda>v b. isStill q v) (api (ListPools (poolNs q)) (cl_ListPools C (poolNs q)))
      (\<lambda>r v b. \<forall>items. r = Inr items \<longrightarrow> standing q (fst (selectFromPools items)) (fst (snd (selectFromPools items))) v)"
    by (rule leads_post) (use standing_listed in \<open>auto simp: boardInv_def\<close>)
  then show ?thesis
    unfolding selectActivePoolName_def by (rule leads_bind) (auto intro!: leads_return split: sum.splits)
qed

lemma leads_valid:
  assumes "configured c"
  shows "leads c (poolKey q) (\<lambda>v b. isStill q v)
    (reconcileValidPool (ct_R c) (Generate (ct_Cpus c)) (ct_Render c) (ct_K c) C q) (\<lambda>r v b. r = (0, None) \<longrightarrow> settledFor c v b (poolKey q))"
proof -
  let ?R = "\<lambda>r v b. r = (0 :: int, None :: goError option) \<longrightarrow> settledFor c v b (poolKey q)"
  have K: "conditions_documented (ct_K c)" using assms by (simp add: configured_def)
  have superseded: "leads c (poolKey q) (\<lambda>v b. standing q active cnt v) (failPool (ct_R c) (ct_K c) C q reason msg res) ?R"
    if "cnt > 1 \<and> poolName q \<noteq> active" for active reason msg res and cnt :: int
    unfolding standing_def if_P [OF that] by (rule leads_unready [OF K lasts_younger kept_younger]) blast
  have build: "leads c (poolKey q) (\<lambda>v b. standing q active cnt v)
      (buildConfig (ct_R c) (Generate (ct_Cpus c)) (ct_Render c) (ct_K c) C q) ?R"
    if "\<not> (cnt > 1 \<and> poolName q \<noteq> active)" for active and cnt :: int
    unfolding standing_def if_not_P [OF that] by (rule leads_build [OF assms])
  have decide: "leads c (poolKey q) (\<lambda>v b. standing q active cnt v)
      (State_Monad.bind (withMetric f) (\<lambda>_. if cnt > 1 \<and> poolName q \<noteq> active then failPool (ct_R c) (ct_K c) C q reason msg res
        else buildConfig (ct_R c) (Generate (ct_Cpus c)) (ct_Render c) (ct_K c) C q)) ?R" for active reason msg res cnt f
    by (rule leads_bind [OF leads_metric]) (rule leads_if [OF superseded build])
  show ?thesis
    unfolding reconcileValidPool_def
    by (intro leads_bind [OF leads_listed] leads_case_sum leads_case_prod leads_return leads_mono [OF decide]) simp_all
qed

lemma leads_stamp:
  assumes "poolKey p0 = k"
  shows "leads c k (\<lambda>v b. isStill p0 v) (ensureInitialRVAnnotation C p0)
    (\<lambda>r v b. \<forall>q. r = Inr q \<longrightarrow> poolKey q = k \<and> isStill q v)"
proof -
  let ?q = "stampInitialRV p0"
  have same: "poolKey ?q = poolKey p0" "po_Spec ?q = po_Spec p0" "po_Status ?q = po_Status p0"
    by (simp_all add: stampInitialRV_def poolKey_def metaKey_def)
  have stamp: "leads c k (\<lambda>v b. isStill p0 v) (api (PatchPool p0 ?q) (cl_PatchPool C p0 ?q))
      (\<lambda>r v b. \<forall>q. r = Inr q \<longrightarrow> poolKey q = k \<and> isStill q v)"
  proof (rule leads_write [where W = "\<lambda>r v v'. poolTouched statusKept k v v' \<and>
      (\<forall>p. r = Inr p \<longrightarrow> p \<in> set (bo_Pools v') \<and> poolKey p = k)"])
    show "\<exists>v. boardMay (view w) v \<and> (isl r \<and> view w' = v \<or> poolTouched statusKept k v (view w') \<and>
        (\<forall>p. r = Inr p \<longrightarrow> p \<in> set (bo_Pools (view w')) \<and> poolKey p = k))"
      if "boardOk (view w)" "cl_PatchPool C p0 ?q w = (r, w')" for w r w'
      using patch_pool [OF that(1) same that(2)] unfolding same(1) assms .
    show "boardInv c v' b \<and> bo_Hand v' = {k} \<and> (\<forall>q. r = Inr q \<longrightarrow> poolKey q = k \<and> isStill q v')"
      if v: "boardInv c v b" "bo_Hand v = {k}" "poolTouched statusKept k v v' \<and>
          (\<forall>p. r = Inr p \<longrightarrow> p \<in> set (bo_Pools v') \<and> poolKey p = k)" for v v' b and r :: "apiError + pool"
      using touched_inv [OF conjunct1 [OF v(3)] v(1)] touched_rest(3) [OF conjunct1 [OF v(3)]] v hand_pending
      unfolding here_def by auto
  qed (auto intro: steady_here lasts_pool)
  show ?thesis
    unfolding ensureInitialRVAnnotation_def Let_def
    by (intro leads_if leads_return leads_bind [OF stamp]) (use assms in \<open>auto split: sum.splits\<close>)
qed

section \<open>A deleted pool\<close>

lemma leads_remove:
  assumes "ns = operatorNamespace (ct_R c) (fst k)"
  shows "leads c k (\<lambda>v b. k \<notin> boardKeys v \<and> (\<forall>p \<in> set (poolsIn (fst k) (bo_Pools v)). poolKey p \<in> bo_Queue v))
    (removeConfigKey (ct_R c) C ns) (\<lambda>r v b. r = None \<longrightarrow> settledFor c v b k)"
proof -
  let ?P = "\<lambda>v. k \<notin> boardKeys v \<and> (\<forall>p \<in> set (poolsIn (fst k) (bo_Pools v)). poolKey p \<in> bo_Queue v)"
  let ?f = "mutateConfigMap (DeleteDataKey ''config.json'')"
  have P: "steady k ?P" by (intro steady_conj steady_absent steady_queued)
  have f: "cmKey (?f x) = cmKey x" for x by (simp add: mutateConfigMap_def cmKey_def)
  have get: "leads c k (\<lambda>v b. ?P v) (api e (cl_GetConfigMap C ns n)) (\<lambda>r v b. ?P v \<and> (\<forall>cm. r = Inr cm \<longrightarrow> cmKey cm = (ns, n)))" for e n
    by (rule leads_read [OF get_config P])
  have settled: "?P v \<Longrightarrow> settledFor c v b k" for v b using settled_queued by blast
  have removed: "leads c k (\<lambda>v b. ?P v) (api e (cl_CreateOrUpdate C cm ?f)) (\<lambda>r v b. ?P v)" if "cmKey cm = (ns, n)" for e cm n
  proof (rule leads_write [OF upsert [OF _ f] P])
    fix v v' b and r :: "apiError + unit"
    assume v: "boardInv c v b" "bo_Hand v = {k}" "?P v" "configWritten cm ?f v v'"
    have "excused v (fst k)" using excused_gone [OF hand_pending [OF v(2)]] v(3) by blast
    then have "boardInv c v' b"
      by (rule written_inv [OF v(4,1) _ hand_space [OF v(1,2)]]) (use that f assms in \<open>simp_all add: cmKey_def\<close>)
    then show "boardInv c v' b \<and> bo_Hand v' = {k} \<and> ?P v'"
      using written_ok(4-7) [OF v(4)] v(2,3) by auto
  qed simp_all
  show ?thesis
    unfolding removeConfigKey_def Let_def
  proof (rule leads_bind [OF get], rule leads_case_sum)
    fix r :: "apiError + configMap" and cm assume "r = Inr cm"
    show "leads c k (\<lambda>v b. ?P v \<and> (\<forall>cm. r = Inr cm \<longrightarrow> cmKey cm = (ns, resolvedAgentConfigMapName (ct_R c)))) (do {
        r \<leftarrow> api (CreateOrUpdateConfigMap cm (DeleteDataKey ''config.json'')) (cl_CreateOrUpdate C cm ?f);
        State_Monad.return (case r of Inl e \<Rightarrow> Some (Wrap ''remove config key from ConfigMap %s/%s: %w''
          [AStr ns, AStr (resolvedAgentConfigMapName (ct_R c))] (ApiErr e)) | Inr _ \<Rightarrow> None)
      }) (\<lambda>r v b. r = None \<longrightarrow> settledFor c v b k)"
      by (rule leads_pure [where a = "cmKey cm = (ns, resolvedAgentConfigMapName (ct_R c))"], simp add: \<open>r = Inr cm\<close>)
        (rule leads_mono [OF leads_bind [OF removed leads_return]], use settled in auto)
  qed (auto intro!: leads_return simp: settled)
qed

text \<open>The pool \<open>q\<close> is first of those left, in place of the deleted \<open>k\<close>.\<close>

abbreviation heir :: "string \<times> string \<Rightarrow> pool \<Rightarrow> board \<Rightarrow> bool" where
  "heir k q v \<equiv> k \<notin> boardKeys v \<and> eldest v (poolKey q)"

lemma steady_heir: "lasts (poolKey q) F \<Longrightarrow> steady k (\<lambda>v. heir k q v \<and> still F q v)"
  using steady_conj [OF steady_absent steady_eldest_here [OF lasts_conj [OF _ lasts_pool]], of "poolKey q" F k "\<lambda>p. conditionsOf p = conditionsOf q"]
  by (simp add: conj_assoc)

lemma heir_settled: "boardInv c v b \<Longrightarrow> heir k q v \<Longrightarrow> here v (poolKey q) (inEffect c) \<Longrightarrow> poolNs q = fst k \<Longrightarrow> settledFor c v b k"
  using settled_served [of v "poolKey q" c k] by (auto simp: boardInv_def)

lemma leads_heir_status:
  assumes "conditions_documented K" "poolNs q = fst k" "lasts (poolKey q) F" "kept (poolKey q) F"
  shows "leads c k (\<lambda>v b. heir k q v \<and> still F q v) (setReadyCondition K C q st reason msg)
      (\<lambda>r v b. r = None \<longrightarrow> heir k q v \<and> here v (poolKey q) (\<lambda>v p. F v p \<and> (readyTrue p \<longleftrightarrow> st = ConditionTrue)))"
proof -
  have "goneIn (pending v) v (poolNs q)" if "bo_Hand v = {k}" "heir k q v" for v
    using hand_pending [OF that(1)] that(2) assms(2) by (auto intro: goneInI)
  then show ?thesis
    by (intro leads_ready [OF assms(1,3,4) steady_heir [OF assms(3)]]) (use touched_keys eldest_touched in auto)
qed

lemma leads_heir_unbuilt:
  assumes "configured c" "poolNs q = fst k" "\<forall>json. \<not> buildsFor c q prof json"
  shows "leads c k (\<lambda>v b. heir k q v \<and> still (specProf q prof) q v) (setReadyCondition (ct_K c) C q st reason msg)
      (\<lambda>r v b. r = None \<longrightarrow> settledFor c v b k)"
proof -
  have K: "conditions_documented (ct_K c)" using assms(1) by (simp add: configured_def)
  show ?thesis
    by (rule leads_post [OF leads_heir_status [OF K assms(2) lasts_specProf kept_specProf]])
      (use heir_settled [OF _ _ _ assms(2)] here_mono inEffect_unbuilt [OF _ assms(3)] in \<open>metis (no_types, lifting)\<close>)
qed

lemma leads_heir_stuck:
  assumes "configured c" "poolNs q = fst k"
  shows "leads c k (\<lambda>v b. (heir k q v \<and> still (specProf q prof) q v) \<and> circuitOpen b (operatorNamespace (ct_R c) (fst k))) (setReadyCondition (ct_K c) C q st reason msg)
      (\<lambda>r v b. r = None \<longrightarrow> settledFor c v b k)"
proof -
  have K: "conditions_documented (ct_K c)" using assms(1) by (simp add: configured_def)
  show ?thesis
    by (rule leads_mono [OF leads_frame [OF _ leads_heir_status [OF K assms(2) lasts_specProf kept_specProf], where B = "\<lambda>b. circuitOpen b (operatorNamespace (ct_R c) (fst k))"]])
      (use settled_open [of k _ _ c] in \<open>auto simp: setReadyCondition_def run_simps Let_def split: prod.split\<close>)
qed

text \<open>What is true of the pool once its configuration is written.\<close>

definition written :: "controller \<Rightarrow> pool \<Rightarrow> profile option \<Rightarrow> string \<Rightarrow> string \<Rightarrow> board \<Rightarrow> pool \<Rightarrow> bool" where
  "written c q prof ns json v p \<longleftrightarrow> specProf q prof v p \<and> publishes (ct_R c) ns json (bo_ConfigMaps v)"

lemma written_facts: "lasts k (written c q prof ns json)" "kept k (written c q prof ns json)"
  unfolding written_def
  by (intro lasts_conj kept_conj lasts_specProf kept_specProf lasts_published kept_published)+

lemma leads_heir_upsert:
  assumes "configured c"
  shows "leads c k (\<lambda>v b. heir k q v \<and> still (specProf q prof) q v) (upsertConfigMapWithCircuitBreaker (ct_R c) C (operatorNamespace (ct_R c) (fst k)) json)
      (\<lambda>r v b. (r = None \<longrightarrow> heir k q v \<and> still (written c q prof (fst k) json) q v) \<and>
        (\<forall>e. r = Some e \<longrightarrow> errorsIs e errConfigMapCircuitOpen \<longrightarrow> (heir k q v \<and> still (specProf q prof) q v) \<and> circuitOpen b (operatorNamespace (ct_R c) (fst k))))"
proof (rule leads_upsert [OF refl steady_heir [OF lasts_specProf]])
  show "excused v (fst k)" if "bo_Hand v = {k}" "heir k q v \<and> still (specProf q prof) q v" for v
    using excused_gone [OF hand_pending [OF that(1)]] that(2) by blast
  show "heir k q v' \<and> still (written c q prof (fst k) json) q v'"
    if "heir k q v \<and> still (specProf q prof) q v"
      and w: "configWritten \<lparr>cm_Name = resolvedAgentConfigMapName (ct_R c), cm_Namespace = operatorNamespace (ct_R c) (fst k), cm_Data = None\<rparr>
        (mutateConfigMap (SetDataKey ''config.json'' json)) v v'" for v v'
    using that(1) config_eldest [OF w] written_ok(4) [OF w] here_written [OF w, of "poolKey q" q prof "\<lambda>p. conditionsOf p = conditionsOf q"]
    unfolding written_def by blast
qed

lemma leads_heir_publish:
  assumes "configured c" "poolNs q = fst k" "buildsFor c q prof json"
  shows "leads c k (\<lambda>v b. heir k q v \<and> still (written c q prof (fst k) json) q v)
      (setReadyCondition (ct_K c) C q ConditionTrue reason msg) (\<lambda>r v b. r = None \<longrightarrow> settledFor c v b k)"
proof -
  have K: "conditions_documented (ct_K c)" using assms(1) by (simp add: configured_def)
  have "here v (poolKey q) (inEffect c)" if "here v (poolKey q) (\<lambda>v p. written c q prof (fst k) json v p \<and> readyTrue p)" for v
    using that by (rule here_mono) (use inEffect_built [OF _ assms(3)] assms(2) in \<open>auto simp: poolKey_eq written_def\<close>)
  then show ?thesis
    by (intro leads_post [OF leads_heir_status [OF K assms(2) written_facts]]) (use heir_settled [OF _ _ _ assms(2)] in auto)
qed

lemma leads_rebuild:
  assumes "configured c" "poolNs q = fst k"
  shows "leads c k (\<lambda>v b. heir k q v \<and> still (specProf q prof) q v)
    (rebuildWithProfile (ct_R c) (Generate (ct_Cpus c)) (ct_Render c) (ct_K c) C (fst k) q prof) (\<lambda>r v b. r = None \<longrightarrow> settledFor c v b k)"
proof -
  have return: "leads c k (\<lambda>v b. r = None \<longrightarrow> settledFor c v b k) (State_Monad.return (map_option f r)) (\<lambda>r v b. r = None \<longrightarrow> settledFor c v b k)"
    for r and f :: "goError \<Rightarrow> goError"
    by (rule leads_return) simp
  show ?thesis
    unfolding rebuildWithProfile_def
    by (intro leads_case_sum leads_case_option leads_bind [OF leads_heir_upsert [OF assms(1)]] leads_if leads_bind [OF leads_event]
        leads_bind [OF leads_mono [OF leads_heir_unbuilt [OF assms]] return] leads_bind [OF leads_mono [OF leads_heir_publish [OF assms]] return]
        leads_bind [OF leads_mono [OF leads_heir_stuck [OF assms]] return] leads_return)
      (auto simp: buildsConfig_def validateConfigMapPayloadSize_def Let_def split: if_splits)
qed

text \<open>What a listing says after the deletion of \<open>k\<close>.\<close>

definition succession :: "string \<times> string \<Rightarrow> pool list \<Rightarrow> board \<Rightarrow> bool" where
  "succession k items v \<longleftrightarrow>
     (case sortPoolsForSelection items of
        [] \<Rightarrow> k \<notin> boardKeys v \<and> (\<forall>p \<in> set (poolsIn (fst k) (bo_Pools v)). poolKey p \<in> bo_Queue v)
      | q # qs \<Rightarrow> poolNs q = fst k \<and> heir k q v \<and> isStill q v)"

lemma succession_listed:
  assumes "boardOk v" "k \<notin> boardKeys v" "set items = set (poolsIn (fst k) (bo_Pools v))"
  shows "succession k items v"
proof (cases "sortPoolsForSelection items")
  case Nil
  then show ?thesis using assms(2,3) by (simp add: succession_def)
next
  case (Cons q qs)
  have q: "firstIn v q" "poolNs q = fst k" using sorted_first [OF assms(1,3) Cons] by simp_all
  have "eldest v (poolKey q)"
    unfolding eldest_def using q(1) boardOk_unique [OF assms(1) _ firstIn_mem [OF q(1)]] by metis
  moreover have "isStill q v" using firstIn_mem [OF q(1)] unfolding here_def by blast
  ultimately show ?thesis using Cons q(2) assms(2) by (simp add: succession_def)
qed

lemma leads_succession:
  "leads c k (\<lambda>v b. k \<notin> boardKeys v) (api e (cl_ListPools C (fst k))) (\<lambda>r v b. \<forall>items. r = Inr items \<longrightarrow> succession k items v)"
proof -
  have "leads c k (\<lambda>v b. k \<notin> boardKeys v) (api e (cl_ListPools C (fst k)))
      (\<lambda>r v b. k \<notin> boardKeys v \<and> (\<forall>items. r = Inr items \<longrightarrow> set items = set (poolsIn (fst k) (bo_Pools v)) \<and> distinct items))"
    by (rule leads_read [OF list_pools steady_absent])
  then show ?thesis by (rule leads_post) (use succession_listed in \<open>auto simp: boardInv_def\<close>)
qed

lemma leads_inherit:
  assumes "configured c" "poolNs q = fst k"
  shows "leads c k (\<lambda>v b. heir k q v \<and> isStill q v) (rebuildForPool (ct_R c) (Generate (ct_Cpus c)) (ct_Render c) (ct_K c) C (fst k) q)
      (\<lambda>r v b. r = None \<longrightarrow> settledFor c v b k)"
proof -
  have "still (specProf q prof) q v" if "isStill q v" "defaultProfileOf (fst k) (bo_Profiles v) = prof" for v prof
    using that(1) by (rule here_mono) (use that(2) assms(2) in \<open>auto simp: specProf_def poolKey_eq\<close>)
  then have "leads c k (\<lambda>v b. (heir k q v \<and> isStill q v) \<and> (\<forall>prof. r = Inr prof \<longrightarrow> defaultProfileOf (fst k) (bo_Profiles v) = prof))
      (rebuildWithProfile (ct_R c) (Generate (ct_Cpus c)) (ct_Render c) (ct_K c) C (fst k) q prof)
      (\<lambda>r v b. r = None \<longrightarrow> settledFor c v b k)" if "r = Inr prof" for r :: "apiError + profile option" and prof
    by (intro leads_mono [OF leads_rebuild [OF assms]]) (use that in auto)
  then show ?thesis
    unfolding rebuildForPool_def
    by (intro leads_bind [OF leads_profile [OF steady_heir [OF lasts_pool]]] leads_case_sum leads_return) simp_all
qed

lemma leads_deleted:
  assumes "configured c"
  shows "leads c k (\<lambda>v b. k \<notin> boardKeys v) (reconcileAfterPoolDeletion (ct_R c) (Generate (ct_Cpus c)) (ct_Render c) (ct_K c) C (fst k))
    (\<lambda>r v b. r = None \<longrightarrow> settledFor c v b k)"
proof -
  have inherit: "leads c k (\<lambda>v b. poolNs q = fst k \<and> heir k q v \<and> isStill q v)
      (rebuildForPool (ct_R c) (Generate (ct_Cpus c)) (ct_Render c) (ct_K c) C (fst k) q) (\<lambda>r v b. r = None \<longrightarrow> settledFor c v b k)" for q
    by (rule leads_pure [OF _ leads_mono [OF leads_inherit [OF assms]]]) auto
  have rest: "leads c k (\<lambda>v b. succession k items v)
      (case sortPoolsForSelection items of [] \<Rightarrow> do { _ \<leftarrow> withMetric f; removeConfigKey (ct_R c) C (operatorNamespace (ct_R c) (fst k)) }
       | p # ps \<Rightarrow> do { _ \<leftarrow> withMetric (g p ps); rebuildForPool (ct_R c) (Generate (ct_Cpus c)) (ct_Render c) (ct_K c) C (fst k) p })
      (\<lambda>r v b. r = None \<longrightarrow> settledFor c v b k)" for items f g
    using leads_bind [OF leads_metric leads_remove [OF refl]] leads_bind [OF leads_metric inherit]
    by (cases "sortPoolsForSelection items") (simp_all add: succession_def)
  show ?thesis
    unfolding reconcileAfterPoolDeletion_def
    by (intro leads_bind [OF leads_succession] leads_case_sum leads_return leads_mono [OF rest]) simp_all
qed

text \<open>The whole reconcile: if it is not to be run again, the request is settled.\<close>

lemma leads_checked:
  assumes "configured c"
  shows "leads c k (\<lambda>v b. poolKey q = k \<and> isStill q v)
      (case validateDNSUpstreamPool (ct_K c) (Some q) of
         Some e \<Rightarrow> failPool (ct_R c) (ct_K c) C q ''InvalidSpec'' (MErr e) (0, None)
       | None \<Rightarrow> reconcileValidPool (ct_R c) (Generate (ct_Cpus c)) (ct_Render c) (ct_K c) C q)
      (\<lambda>r v b. r = (0, None) \<longrightarrow> settledFor c v b k)"
proof (rule leads_pure [where a = "poolKey q = k"])
  assume k: "poolKey q = k"
  have K: "conditions_documented (ct_K c)" using assms by (simp add: configured_def)
  have invalid: "leads c (poolKey q) (\<lambda>v b. isStill q v) (failPool (ct_R c) (ct_K c) C q ''InvalidSpec'' (MErr e) (0, None))
      (\<lambda>r v b. r = (0, None) \<longrightarrow> settledFor c v b (poolKey q))" if "validateDNSUpstreamPool (ct_K c) (Some q) = Some e" for e
    by (rule leads_unready [OF K lasts_pool kept_spec]) (use inEffect_invalid that in auto)
  show ?thesis
    unfolding k [symmetric] by (intro leads_case_option leads_mono [OF leads_valid [OF assms]] leads_mono [OF invalid]) simp_all
qed simp

lemma leads_reconcile:
  assumes "configured c"
  shows "leads c k (\<lambda>v b. True) (reconcilePool (ct_R c) (ct_K c) C (fst k) (snd k)) (\<lambda>r v b. r = (0, None) \<longrightarrow> settledFor c v b k)"
proof -
  let ?P = "\<lambda>r v. (\<forall>p. r = Inr p \<longrightarrow> poolKey p = k \<and> isStill p v) \<and> (r = Inl NotFound \<longrightarrow> k \<notin> boardKeys v)"
  have c: "rc_ConfigGen (ct_R c) = Some (Generate (ct_Cpus c))" "rc_ConfigRenderer (ct_R c) = Some (ct_Render c)"
    using assms by (simp_all add: configured_def)
  have get: "leads c k (\<lambda>v b. True) (api (GetPool (fst k) (snd k)) (cl_GetPool C (fst k) (snd k))) (\<lambda>r v b. ?P r v)"
    by (rule leads_mono [OF leads_read [OF get_pool steady_True(1)]]) (auto simp: here_def)
  have deleted: "leads c k (\<lambda>v b. k \<notin> boardKeys v) (do {
      r \<leftarrow> reconcileAfterPoolDeletion (ct_R c) (Generate (ct_Cpus c)) (ct_Render c) (ct_K c) C (fst k);
      State_Monad.return (0, map_option f r)
    }) (\<lambda>r v b. r = (0, None) \<longrightarrow> settledFor c v b k)" for f :: "goError \<Rightarrow> goError"
    by (rule leads_bind [OF leads_deleted [OF assms]], rule leads_return) auto
  have stamp: "leads c k (\<lambda>v b. ?P r v) (ensureInitialRVAnnotation C p) (\<lambda>a v b. \<forall>q. a = Inr q \<longrightarrow> poolKey q = k \<and> isStill q v)"
    if "r = Inr p" for r and p :: pool
    by (rule leads_pure [where a = "poolKey p = k", OF _ leads_mono [OF leads_stamp]]) (use that in auto)
  show ?thesis
    unfolding reconcilePool_def c prod.case option.case
    by (intro leads_bind [OF get] leads_case_sum leads_if leads_mono [OF deleted] leads_bind [OF stamp]
        leads_mono [OF leads_checked [OF assms]] leads_return) (auto simp: isNotFound_def)
qed

end

section \<open>Runs of the controller\<close>

definition taken :: "string \<times> string \<Rightarrow> board \<Rightarrow> board" where
  "taken k v = v\<lparr>bo_Queue := bo_Queue v - {k}, bo_Hand := {k}\<rparr>"

text \<open>A request is put back when its reconcile returns an error or asks to be run again.\<close>

definition finished :: "string \<times> string \<Rightarrow> reconcileResult \<Rightarrow> board \<Rightarrow> board" where
  "finished k r v = v\<lparr>bo_Queue := (if r = (0, None) then bo_Queue v else insert k (bo_Queue v)), bo_Hand := {}\<rparr>"

text \<open>
  The controller starts, and starts again, with an empty memory and a request for every pool there is;
  nothing is assumed of what an earlier run left behind.  It reconciles one request at a time, in any order.
  The pools are made in namespaces whose ConfigMaps are apart.
\<close>

inductive controllerRuns :: "controller \<Rightarrow> 'w client \<Rightarrow> ('w \<Rightarrow> board) \<Rightarrow> 'w poolSys \<Rightarrow> bool" for c C view where
  start: "boardOk (view (world s)) \<Longrightarrow> bo_Hand (view (world s)) = {} \<Longrightarrow> boardKeys (view (world s)) \<subseteq> bo_Queue (view (world s)) \<Longrightarrow>
    apart c (view (world s)) \<Longrightarrow> circuit s = newBreaker \<Longrightarrow> controllerRuns c C view s"
| others: "controllerRuns c C view s \<Longrightarrow> boardMay (view (world s)) (view (world s')) \<Longrightarrow> circuit s' = circuit s \<Longrightarrow>
    controllerRuns c C view s'"
| reconcile: "controllerRuns c C view s \<Longrightarrow> k \<in> bo_Queue (view (world s)) \<Longrightarrow>
    view (world s1) = taken k (view (world s)) \<Longrightarrow> circuit s1 = circuit s \<Longrightarrow>
    run_state (reconcilePool (ct_R c) (ct_K c) C (fst k) (snd k)) s1 = (r, s2) \<Longrightarrow>
    view (world s3) = finished k r (view (world s2)) \<Longrightarrow> circuit s3 = circuit s2 \<Longrightarrow> controllerRuns c C view s3"

lemma inv_start: "boardOk v \<Longrightarrow> apart c v \<Longrightarrow> boardKeys v \<subseteq> pending v \<Longrightarrow> breakerInv b \<Longrightarrow> boardInv c v b"
  unfolding boardInv_def firstServed_def using boardKeysI firstIn_mem by blast

lemma inv_taken: "boardInv c v b \<Longrightarrow> bo_Hand v = {} \<Longrightarrow> k \<in> bo_Queue v \<Longrightarrow> boardInv c (taken k v) b"
  by (rule inv_pending) (auto simp: taken_def pending_def)

lemma inv_finished:
  assumes "boardInv c v b" "bo_Hand v = {k}" "r = (0, None) \<longrightarrow> settledFor c v b k"
  shows "boardInv c (finished k r v) b"
proof (cases "r = (0, None)")
  case True
  then have "finished k r v = v\<lparr>bo_Hand := {}\<rparr>" by (simp add: finished_def)
  then show ?thesis using inv_finish [OF assms(1,2)] assms(3) True by simp
next
  case False
  then show ?thesis
    using assms(2) by (intro inv_pending [OF assms(1)]) (auto simp: finished_def pending_def)
qed

lemma controllerRuns_inv:
  assumes "controllerRuns c C view s" "board_server C view" "configured c"
  shows "boardInv c (view (world s)) (circuit s) \<and> bo_Hand (view (world s)) = {}"
  using assms(1)
proof induction
  case (start s)
  then show ?case using inv_start breakerInv_new by (auto simp: pending_def)
next
  case (others s s')
  then show ?case using may_inv may_pending(4) by metis
next
  case (reconcile s k s1 r s2 s3)
  note good_def = board_server.good_def [OF assms(2)]
  have "boardInv c (view (world s)) (circuit s)" "bo_Hand (view (world s)) = {}" using reconcile.IH by blast+
  then have "boardInv c (view (world s1)) (circuit s1)" using inv_taken reconcile.hyps(2-4) by metis
  moreover have "bo_Hand (view (world s1)) = {k}" using reconcile.hyps(3) by (simp add: taken_def)
  ultimately have "board_server.good view c k s1" unfolding good_def by blast
  moreover have "board_server.leads view c k (\<lambda>v b. True) (reconcilePool (ct_R c) (ct_K c) C (fst k) (snd k))
      (\<lambda>r v b. r = (0, None) \<longrightarrow> settledFor c v b k)"
    by (rule board_server.leads_reconcile [OF assms(2,3)])
  ultimately have "board_server.good view c k s2 \<and> (r = (0, None) \<longrightarrow> settledFor c (view (world s2)) (circuit s2) k)"
    unfolding board_server.leads_def [OF assms(2)] using reconcile.hyps(5) by (metis fst_conv snd_conv)
  then have "boardInv c (finished k r (view (world s2))) (circuit s2)" unfolding good_def using inv_finished by blast
  then show ?case unfolding reconcile.hyps(6,7) by (simp add: finished_def)
qed

text \<open>C2: no change is forgotten.  Others create, change and delete pools and profiles between any two calls
  of the controller, calls fail before or after they took effect, and the operator restarts at any time.
  In every state this leads to, a namespace without a waiting request is as it should be: if its oldest
  pool is valid and has a configuration the renderer accepts, and the circuit of the namespace is
  closed, then this configuration, made with the default profile of now, is in the ConfigMap and the
  pool is ready; and no other pool of the namespace is ready.  It is assumed that
  (1) the namespaces in which pools are made have ConfigMaps of their own: \<open>POD_NAMESPACE\<close> is set, as in
  the deployment the repository ships, and all pools are made in one namespace, or it is not set, and
  they are made anywhere (\<open>namespaces_share_key\<close> shows what happens otherwise);
  (2) no two pools of a namespace are created in the same second;
  (3) a name is used again only after the deletion of its pool was reconciled (otherwise
  \<open>recreated_pool_forgotten\<close>);
  (4) reads are current, there is one worker, and nobody else writes the ConfigMaps.\<close>

theorem settled_unless_pending:
  assumes "controllerRuns c C view s" "board_server C view" "configured c"
    and "\<forall>n. (ns, n) \<notin> bo_Queue (view (world s))"
    and "p \<in> set (bo_Pools (view (world s)))" "poolNs p = ns"
    and "\<forall>q \<in> set (bo_Pools (view (world s))). poolNs q = ns \<longrightarrow> poolCreated p \<le> poolCreated q"
  shows "(validateDNSUpstreamPool (ct_K c) (Some p) = None \<and>
      buildsConfig (ct_R c) (Generate (ct_Cpus c)) (ct_Render c) p (defaultProfileOf ns (bo_Profiles (view (world s)))) json \<and>
      \<not> circuitOpen (circuit s) (operatorNamespace (ct_R c) ns) \<longrightarrow>
        (\<exists>cm \<in> set (bo_ConfigMaps (view (world s))).
          cmKey cm = (operatorNamespace (ct_R c) ns, resolvedAgentConfigMapName (ct_R c)) \<and>
          gm_get (cm_Data cm) ''config.json'' = Some json) \<and> readyTrue p) \<and>
    (\<forall>q \<in> set (bo_Pools (view (world s))). poolNs q = ns \<longrightarrow> q \<noteq> p \<longrightarrow> \<not> readyTrue q)"
proof -
  let ?v = "view (world s)"
  have inv: "boardInv c ?v (circuit s)" and hand: "bo_Hand ?v = {}" using controllerRuns_inv [OF assms(1-3)] by blast+
  have ok: "boardOk ?v" and pend: "pending ?v = bo_Queue ?v" using inv hand by (simp_all add: boardInv_def pending_def)
  have first: "firstIn ?v p" using assms(5-7) by (simp add: firstIn_def)
  have key: "poolKey q \<notin> bo_Queue ?v" if "poolNs q = ns" for q
    using assms(4) that by (simp add: poolKey_def metaKey_def)
  have served: "inEffect c ?v p \<or> circuitOpen (circuit s) (operatorNamespace (ct_R c) ns)"
    using inv first key [OF assms(6)] assms(4,6) unfolding boardInv_def firstServed_def goneIn_def pend by blast
  have "\<not> readyTrue q" if q: "q \<in> set (bo_Pools ?v)" "poolNs q = ns" "q \<noteq> p" for q
    using inv q key [OF q(2)] firstIn_unique [OF ok first, of q] assms(6) unfolding boardInv_def pend by metis
  then show ?thesis
    using served assms(6) unfolding inEffect_def builds_def publishes_def by auto
qed

end
