(* ===== verification/Scripted.thy ===== *)
theory Scripted
  imports Effects
begin

text \<open>
  Servers in memory that others use at the same time, by a script: before each call the actions of its
  next entry take place, and the call is answered, refused, or takes effect while its answer is lost.
  Whatever is true of the actions of others is true of a call (\<open>scripted_others\<close>).
\<close>

datatype fault = Answers | Refuses | LosesAnswer

record 'act scripted =
  sc_Script :: "('act list \<times> fault) list"

definition meets ::
    "('act \<Rightarrow> ('act, 'z) scripted_scheme \<Rightarrow> ('act, 'z) scripted_scheme) \<Rightarrow>
     (('act, 'z) scripted_scheme \<Rightarrow> (apiError + 'a) \<times> ('act, 'z) scripted_scheme) \<Rightarrow>
     ('act, 'z) scripted_scheme \<Rightarrow> (apiError + 'a) \<times> ('act, 'z) scripted_scheme" where
  "meets act f w =
     (case sc_Script w of
        [] \<Rightarrow> f w
      | (acts, x) # script \<Rightarrow>
          let w1 = fold act acts (w\<lparr>sc_Script := script\<rparr>) in
          case x of
            Answers \<Rightarrow> f w1
          | Refuses \<Rightarrow> (Inl (OtherApiError ''refused''), w1)
          | LosesAnswer \<Rightarrow> (Inl (OtherApiError ''timeout''), snd (f w1)))"

locale scripted_others =
  fixes act :: "'act \<Rightarrow> ('act, 'z) scripted_scheme \<Rightarrow> ('act, 'z) scripted_scheme"
    and ok :: "('act, 'z) scripted_scheme \<Rightarrow> bool"
    and may :: "('act, 'z) scripted_scheme \<Rightarrow> ('act, 'z) scripted_scheme \<Rightarrow> bool"
  assumes may_script: "ok w \<Longrightarrow> may w (w\<lparr>sc_Script := s\<rparr>)"
    and may_act: "ok w \<Longrightarrow> may w (act a w)"
    and may_trans: "may w1 w2 \<Longrightarrow> may w2 w3 \<Longrightarrow> may w1 w3"
    and ok_after: "may w w' \<Longrightarrow> ok w'"
begin

lemma may_acts: "may w w1 \<Longrightarrow> may w (fold act acts w1)"
proof (induction acts arbitrary: w1)
  case (Cons a acts)
  have "may w (act a w1)" using may_trans [OF Cons.prems may_act [OF ok_after [OF Cons.prems]]] .
  then show ?case using Cons.IH by simp
qed simp

lemma meets_may:
  assumes "ok w" "meets act f w = (r, w')"
  shows "\<exists>w1. may w w1 \<and> (isl r \<and> w' = w1 \<or> w' = snd (f w1) \<and> (isl r \<or> r = fst (f w1)))"
proof (cases "sc_Script w")
  case Nil
  then have "w' = snd (f w)" "r = fst (f w)" using assms(2) by (simp_all add: meets_def)
  moreover have "may w w" using may_script [OF assms(1), of "sc_Script w"] by simp
  ultimately show ?thesis by blast
next
  case (Cons entry script)
  obtain acts x where entry: "entry = (acts, x)" by force
  define w1 where "w1 = fold act acts (w\<lparr>sc_Script := script\<rparr>)"
  have "may w w1" unfolding w1_def by (rule may_acts [OF may_script [OF assms(1)]])
  moreover have "isl r \<and> w' = w1 \<or> w' = snd (f w1) \<and> (isl r \<or> r = fst (f w1))"
    using assms(2) by (cases x) (auto simp: meets_def Cons entry Let_def w1_def [symmetric])
  ultimately show ?thesis by blast
qed

lemma meets_read:
  assumes "ok w" "meets act (\<lambda>w. (g w, w)) w = (r, w')"
  shows "may w w' \<and> (\<forall>x. r = Inr x \<longrightarrow> g w' = Inr x) \<and> (\<forall>e. r = Inl e \<longrightarrow> e = NotFound \<longrightarrow> g w' = Inl NotFound)"
proof (cases "sc_Script w")
  case Nil
  then show ?thesis using assms may_script [OF assms(1), of "sc_Script w"] by (auto simp: meets_def)
next
  case (Cons entry script)
  obtain acts x where entry: "entry = (acts, x)" by force
  have "may w (fold act acts (w\<lparr>sc_Script := script\<rparr>))" by (rule may_acts [OF may_script [OF assms(1)]])
  then show ?thesis using assms(2) by (cases x) (auto simp: meets_def Cons entry Let_def)
qed

end

text \<open>Merge patches of maps: the keys in which the two objects of the patch differ.\<close>

definition mergeKey :: "('k, 'v) gomap \<Rightarrow> ('k, 'v) gomap \<Rightarrow> 'k \<Rightarrow> ('k, 'v) gomap \<Rightarrow> ('k, 'v) gomap" where
  "mergeKey old new k m =
     (if gm_get old k = gm_get new k then m
      else case gm_get new k of None \<Rightarrow> gm_delete k m | Some v \<Rightarrow> gm_set k v m)"

definition mergeMap :: "('k, 'v) gomap \<Rightarrow> ('k, 'v) gomap \<Rightarrow> ('k, 'v) gomap \<Rightarrow> ('k, 'v) gomap" where
  "mergeMap old new m = fold (mergeKey old new) (map fst (gm_make old) @ map fst (gm_make new)) m"

lemma fold_mergeKey:
  "gm_get (fold (mergeKey old new) ks m) k =
     (if k \<in> set ks \<and> gm_get old k \<noteq> gm_get new k then gm_get new k else gm_get m k)"
proof (induction ks arbitrary: m)
  case (Cons a ks)
  then show ?case by (auto simp: mergeKey_def split: option.split)
qed simp

lemma gm_get_keys: "gm_get m k \<noteq> None \<longleftrightarrow> k \<in> set (map fst (gm_make m))"
  by (simp add: gm_get_def map_of_eq_None_iff)

lemma mergeMap_get: "gm_get (mergeMap old new m) k = (if gm_get old k \<noteq> gm_get new k then gm_get new k else gm_get m k)"
proof -
  have "gm_get old k = gm_get new k" if "k \<notin> set (map fst (gm_make old) @ map fst (gm_make new))"
    using that gm_get_keys [of old k] gm_get_keys [of new k] by (metis UnI1 UnI2 set_append)
  then show ?thesis unfolding mergeMap_def fold_mergeKey by auto
qed

end
