(* ===== verification/PoolCluster.thy ===== *)
theory PoolCluster
  imports PoolAtWork Scripted
begin

text \<open>
  A cluster in memory with pools, profiles and a work queue, that others use by a script while the pool
  controller runs.  It is a \<open>board_server\<close>, whatever the script.
\<close>

section \<open>Others\<close>

datatype poolAct =
    CreatePool string string poolSpec
  | EditPool string string poolSpec
  | DeletePool string string
  | SetProfile profile
  | DeleteProfile string string

record boardServer = "poolAct scripted" +
  bs_Board :: board

text \<open>The clock goes on by a second at least between two creations.\<close>

definition nextTime :: "board \<Rightarrow> int" where
  "nextTime v = 1 + Max (insert 0 (poolCreated ` set (bo_Pools v)))"

definition newPool :: "string \<Rightarrow> string \<Rightarrow> int \<Rightarrow> poolSpec \<Rightarrow> pool" where
  "newPool ns n t spec =
     \<lparr>po_Meta = \<lparr>om_Name = n, om_Namespace = ns, om_UID = n, om_ResourceVersion = ''1'', om_Generation = 1,
        om_CreationTimestamp = t, om_DeletionTimestamp = None, om_Annotations = None, om_Finalizers = []\<rparr>,
      po_Spec = spec, po_Status = noStatus\<rparr>"

definition enqueueNs :: "string \<Rightarrow> board \<Rightarrow> board" where
  "enqueueNs ns v = v\<lparr>bo_Queue := bo_Queue v \<union> poolKey ` set (poolsIn ns (bo_Pools v))\<rparr>"

fun onBoard :: "poolAct \<Rightarrow> board \<Rightarrow> board" where
  "onBoard (CreatePool ns n spec) v =
     (if (ns, n) \<in> boardKeys v \<union> pending v \<or> ns \<notin> bo_Spaces v then v
      else v\<lparr>bo_Pools := bo_Pools v @ [newPool ns n (nextTime v) spec], bo_Queue := insert (ns, n) (bo_Queue v)\<rparr>)"
| "onBoard (EditPool ns n spec) v =
     (if (ns, n) \<notin> boardKeys v then v else v\<lparr>bo_Pools := map (\<lambda>p. if poolKey p = (ns, n) then p\<lparr>po_Spec := spec\<rparr> else p) (bo_Pools v),
       bo_Queue := insert (ns, n) (bo_Queue v)\<rparr>)"
| "onBoard (DeletePool ns n) v =
     (if (ns, n) \<notin> boardKeys v then v
      else v\<lparr>bo_Pools := filter (\<lambda>p. poolKey p \<noteq> (ns, n)) (bo_Pools v), bo_Queue := insert (ns, n) (bo_Queue v)\<rparr>)"
| "onBoard (SetProfile pr) v =
     enqueueNs (om_Namespace (pr_Meta pr))
       (v\<lparr>bo_Profiles := pr # filter (\<lambda>q. metaKey (pr_Meta q) \<noteq> metaKey (pr_Meta pr)) (bo_Profiles v)\<rparr>)"
| "onBoard (DeleteProfile ns n) v =
     enqueueNs ns (v\<lparr>bo_Profiles := filter (\<lambda>q. metaKey (pr_Meta q) \<noteq> (ns, n)) (bo_Profiles v)\<rparr>)"

definition poolAct :: "poolAct \<Rightarrow> boardServer \<Rightarrow> boardServer" where
  "poolAct a w = w\<lparr>bs_Board := onBoard a (bs_Board w)\<rparr>"

section \<open>The server\<close>

text \<open>A write to a pool puts its request into the queue if it changes the pool.\<close>

definition rewritePool :: "string \<times> string \<Rightarrow> (pool \<Rightarrow> pool) \<Rightarrow> boardServer \<Rightarrow> (apiError + pool) \<times> boardServer" where
  "rewritePool k f w =
     (let v = bs_Board w in
      case lookupBy poolKey k (bo_Pools v) of
        Inl e \<Rightarrow> (Inl e, w)
      | Inr p \<Rightarrow> (Inr (f p), w\<lparr>bs_Board := v\<lparr>bo_Pools := map (\<lambda>q. if poolKey q = k then f q else q) (bo_Pools v),
          bo_Queue := (if f p = p then bo_Queue v else insert k (bo_Queue v))\<rparr>\<rparr>))"

definition mergeAnnotations :: "pool \<Rightarrow> pool \<Rightarrow> pool \<Rightarrow> pool" where
  "mergeAnnotations old new p =
     p\<lparr>po_Meta := (po_Meta p)\<lparr>om_Annotations :=
       mergeMap (om_Annotations (po_Meta old)) (om_Annotations (po_Meta new)) (om_Annotations (po_Meta p))\<rparr>\<rparr>"

definition mergeStatus :: "pool \<Rightarrow> pool \<Rightarrow> pool \<Rightarrow> pool" where
  "mergeStatus old new p =
     p\<lparr>po_Status :=
       \<lparr>st_Conditions = (if conditionsOf old = conditionsOf new then conditionsOf p else conditionsOf new),
        st_ObservedGeneration = (if st_ObservedGeneration (po_Status old) = st_ObservedGeneration (po_Status new)
          then st_ObservedGeneration (po_Status p) else st_ObservedGeneration (po_Status new))\<rparr>\<rparr>"

definition boardClient :: "boardServer client" where
  "boardClient =
     \<lparr>cl_GetPool = (\<lambda>ns n. meets poolAct (\<lambda>w. (lookupBy poolKey (ns, n) (bo_Pools (bs_Board w)), w))),
      cl_ListPools = (\<lambda>ns. meets poolAct (\<lambda>w. (Inr (poolsIn ns (bo_Pools (bs_Board w))), w))),
      cl_PatchPool = (\<lambda>old new. meets poolAct (rewritePool (poolKey new) (mergeAnnotations old new))),
      cl_PatchPoolStatus = (\<lambda>old new. meets poolAct (rewritePool (poolKey new) (mergeStatus old new))),
      cl_GetProfile = (\<lambda>ns n. meets poolAct (\<lambda>w.
        (lookupBy (\<lambda>pr. metaKey (pr_Meta pr)) (ns, n) (bo_Profiles (bs_Board w)), w))),
      cl_PatchProfileStatus = (\<lambda>old new. meets poolAct (\<lambda>w. (Inl (OtherApiError ''forbidden''), w))),
      cl_GetPolicy = (\<lambda>ns n. meets poolAct (\<lambda>w. (Inl NotFound, w))),
      cl_ListPolicies = (\<lambda>ns. meets poolAct (\<lambda>w. (Inr [], w))),
      cl_PatchPolicy = (\<lambda>old new. meets poolAct (\<lambda>w. (Inl (OtherApiError ''forbidden''), w))),
      cl_PatchPolicyStatus = (\<lambda>old new. meets poolAct (\<lambda>w. (Inl (OtherApiError ''forbidden''), w))),
      cl_GetNamespace = (\<lambda>n. meets poolAct (\<lambda>w. (Inl NotFound, w))),
      cl_ListNamespaces = meets poolAct (\<lambda>w. (Inr [], w)),
      cl_PatchNamespace = (\<lambda>old new. meets poolAct (\<lambda>w. (Inl (OtherApiError ''forbidden''), w))),
      cl_GetConfigMap = (\<lambda>ns n. meets poolAct (\<lambda>w. (lookupBy cmKey (ns, n) (bo_ConfigMaps (bs_Board w)), w))),
      cl_CreateOrUpdate = (\<lambda>cm f. meets poolAct (\<lambda>w. (Inr (),
        w\<lparr>bs_Board := (bs_Board w)\<lparr>bo_ConfigMaps := upsertBy cmKey cm f (bo_ConfigMaps (bs_Board w))\<rparr>\<rparr>))),
      cl_Now = (\<lambda>w. (1, w))\<rparr>"

section \<open>It is a board server\<close>

lemma may_refl: "boardOk v \<Longrightarrow> boardMay v v"
  unfolding boardMay_def using boardOk_unique boardKeysI by blast

lemma may_trans:
  assumes "boardMay v1 v2" "boardMay v2 v3"
  shows "boardMay v1 v3"
proof -
  note m = may_pending [OF assms(1)] may_pending [OF assms(2)]
  have gone: "k \<in> boardKeys v1 \<Longrightarrow> k \<in> boardKeys v3 \<Longrightarrow> k \<in> boardKeys v2" for k
    using may_new [OF assms(2), of k] may_kept [OF assms(1)] m(1,2) boardKeysI unfolding boardKeys_iff pending_def by blast
  have same: "poolCreated p' = poolCreated p" if "p \<in> set (bo_Pools v1)" "p' \<in> set (bo_Pools v3)" "poolKey p' = poolKey p" for p p'
  proof -
    have "poolKey p \<in> boardKeys v2" using gone [of "poolKey p"] boardKeysI [OF that(1)] boardKeysI [OF that(2)] that(3) by simp
    then obtain q where q: "q \<in> set (bo_Pools v2)" "poolKey q = poolKey p" by (auto simp: boardKeys_iff)
    show ?thesis using may_created [OF assms(1) that(1) q] may_created [OF assms(2) q(1) that(2)] q(2) that(3) by simp
  qed
  have kept: "poolKey p \<in> bo_Queue v3 \<or> p \<in> set (bo_Pools v3)" if "p \<in> set (bo_Pools v1)" for p
    using may_kept [OF assms(1) that] may_kept [OF assms(2)] m(7) by blast
  have new: "poolKey p' \<in> bo_Queue v3 \<and> poolKey p' \<notin> pending v1 \<and>
      (\<forall>p \<in> set (bo_Pools v1). poolKey p \<in> boardKeys v3 \<longrightarrow> poolNs p = poolNs p' \<longrightarrow> poolCreated p < poolCreated p')"
    if p': "p' \<in> set (bo_Pools v3)" "poolKey p' \<notin> boardKeys v1" for p'
  proof (cases "poolKey p' \<in> boardKeys v2")
    case True
    then obtain q where q: "q \<in> set (bo_Pools v2)" "poolKey q = poolKey p'" by (auto simp: boardKeys_iff)
    have "poolCreated p' = poolCreated q" "poolNs q = poolNs p'"
      using may_created [OF assms(2) q(1) p'(1)] q(2) by (simp_all add: poolKey_eq)
    then have "poolCreated p < poolCreated p'" if "p \<in> set (bo_Pools v1)" "poolKey p \<in> boardKeys v3" "poolNs p = poolNs p'" for p
      using assms(1) q p'(2) that gone [OF boardKeysI] unfolding boardMay_def by metis
    then show ?thesis using may_new [OF assms(1) True p'(2)] m(7) by blast
  next
    case False
    have "poolCreated p < poolCreated p'" if p: "p \<in> set (bo_Pools v1)" "poolKey p \<in> boardKeys v3" "poolNs p = poolNs p'" for p
    proof -
      obtain r where r: "r \<in> set (bo_Pools v2)" "poolKey r = poolKey p"
        using gone [OF boardKeysI [OF p(1)] p(2)] by (auto simp: boardKeys_iff)
      have "poolCreated r = poolCreated p" "poolNs r = poolNs p'"
        using may_created [OF assms(1) p(1) r] r(2) p(3) by (simp_all add: poolKey_eq)
      then show ?thesis using assms(2) p'(1) False r p(2) unfolding boardMay_def by metis
    qed
    then show ?thesis using may_new [OF assms(2) boardKeysI [OF p'(1)] False] m(1) by blast
  qed
  have prof: "defaultProfileOf (poolNs p') (bo_Profiles v3) = defaultProfileOf (poolNs p') (bo_Profiles v1)"
    if "p' \<in> set (bo_Pools v3)" "poolKey p' \<notin> bo_Queue v3" for p'
    using may_profile [OF assms(2) that] may_profile [OF assms(1) may_old [OF assms(2) that]] m(7) that(2) by auto
  have frame: "boardOk v3" "bo_Spaces v3 = bo_Spaces v1" "bo_ConfigMaps v3 = bo_ConfigMaps v1" "bo_Hand v3 = bo_Hand v1" "bo_Queue v1 \<subseteq> bo_Queue v3"
    using may_ok [OF assms(2)] m by auto
  show ?thesis
    unfolding boardMay_def using frame kept same new prof by blast
qed

lemma nextTime_later: "p \<in> set (bo_Pools v) \<Longrightarrow> poolCreated p < nextTime v"
proof -
  assume "p \<in> set (bo_Pools v)"
  then have "poolCreated p \<le> Max (insert 0 (poolCreated ` set (bo_Pools v)))" by (intro Max_ge) simp_all
  then show ?thesis unfolding nextTime_def by linarith
qed

lemma nextTime_pos: "nextTime v \<noteq> 0"
proof -
  have "0 \<le> Max (insert 0 (poolCreated ` set (bo_Pools v)))" by (intro Max_ge) simp_all
  then show ?thesis unfolding nextTime_def by linarith
qed

lemma newPool_simps [simp]: "poolKey (newPool ns n t spec) = (ns, n)" "poolCreated (newPool ns n t spec) = t"
  "poolNs (newPool ns n t spec) = ns"
  by (simp_all add: newPool_def poolKey_def metaKey_def)

lemma enqueueNs_simps [simp]: "bo_Pools (enqueueNs ns v) = bo_Pools v" "bo_ConfigMaps (enqueueNs ns v) = bo_ConfigMaps v"
  "bo_Hand (enqueueNs ns v) = bo_Hand v" "bo_Profiles (enqueueNs ns v) = bo_Profiles v"
  "bo_Spaces (enqueueNs ns v) = bo_Spaces v"
  "bo_Queue (enqueueNs ns v) = bo_Queue v \<union> poolKey ` set (poolsIn ns (bo_Pools v))"
  by (simp_all add: enqueueNs_def)

text \<open>A change of the profiles of one namespace.\<close>

lemma may_profiles:
  assumes "boardOk v" "\<And>ns'. ns' \<noteq> ns \<Longrightarrow> defaultProfileOf ns' prs = defaultProfileOf ns' (bo_Profiles v)"
  shows "boardMay v (enqueueNs ns (v\<lparr>bo_Profiles := prs\<rparr>))"
proof -
  let ?v = "enqueueNs ns (v\<lparr>bo_Profiles := prs\<rparr>)"
  have keys: "boardKeys ?v = boardKeys v" "pending ?v \<subseteq> boardKeys v \<union> pending v" by (auto simp: boardKeys_def pending_def poolsIn_def)
  have "fst ` (boardKeys ?v \<union> pending ?v) \<subseteq> bo_Spaces ?v"
    using boardOk_spaces [OF assms(1), of "boardKeys ?v \<union> pending ?v"] keys by simp
  then have "boardOk ?v" using assms(1) unfolding boardOk_def by simp
  then show ?thesis
    unfolding boardMay_def using assms(2) boardOk_unique [OF assms(1)] keys(1) boardKeysI by (auto simp: poolsIn_def)
qed

lemma find_filter_other: "k \<noteq> k' \<Longrightarrow> find (\<lambda>x. key x = k) (filter (\<lambda>x. key x \<noteq> k') xs) = find (\<lambda>x. key x = k) xs"
  by (induction xs) auto

text \<open>A change that concerns the pool of one key only.\<close>

lemma may_change:
  assumes "boardOk v" "distinct (map poolKey ps)" "k \<in> boardKeys v"
    and "\<And>p'. p' \<in> set ps \<Longrightarrow> \<exists>p \<in> set (bo_Pools v). poolKey p' = poolKey p \<and> poolCreated p' = poolCreated p \<and> (poolKey p \<noteq> k \<longrightarrow> p' = p)"
    and "\<And>p. p \<in> set (bo_Pools v) \<Longrightarrow> poolKey p \<noteq> k \<Longrightarrow> p \<in> set ps"
  shows "boardMay v (v\<lparr>bo_Pools := ps, bo_Queue := insert k (bo_Queue v)\<rparr>)"
proof -
  let ?v = "v\<lparr>bo_Pools := ps, bo_Queue := insert k (bo_Queue v)\<rparr>"
  have created: "poolCreated p' = poolCreated p" if "p \<in> set (bo_Pools v)" "p' \<in> set ps" "poolKey p' = poolKey p" for p p'
    using assms(4) [OF that(2)] boardOk_unique [OF assms(1) that(1)] that(3) by metis
  have "p' = q'" if q': "p' \<in> set ps" "q' \<in> set ps" "poolNs p' = poolNs q'" "poolCreated p' = poolCreated q'" for p' q'
  proof -
    obtain p where p: "p \<in> set (bo_Pools v)" "poolKey p' = poolKey p" "poolCreated p' = poolCreated p" using assms(4) [OF q'(1)] by blast
    obtain q where q: "q \<in> set (bo_Pools v)" "poolKey q' = poolKey q" "poolCreated q' = poolCreated q" using assms(4) [OF q'(2)] by blast
    have "poolNs p = poolNs q" "poolCreated p = poolCreated q" using p q q'(3,4) by (simp_all add: poolKey_eq)
    then have "p = q" by (rule boardOk_created [OF assms(1) q(1) p(1)])
    then show ?thesis using assms(2) q'(1,2) p(2) q(2) by (auto simp: distinct_map inj_on_def)
  qed
  moreover have "poolCreated p' \<noteq> 0" if "p' \<in> set ps" for p'
    using assms(1) assms(4) [OF that] unfolding boardOk_def by metis
  moreover have "bo_Pools ?v = ps" by simp
  moreover have old: "poolKey p' \<in> boardKeys v" if "p' \<in> set ps" for p' using assms(4) [OF that] boardKeysI by auto
  moreover have "boardKeys ?v \<union> pending ?v \<subseteq> boardKeys v \<union> pending v"
    using old assms(3) by (auto simp: boardKeys_def pending_def)
  then have "fst ` (boardKeys ?v \<union> pending ?v) \<subseteq> bo_Spaces ?v"
    using boardOk_spaces [OF assms(1), of "boardKeys ?v \<union> pending ?v"] by simp
  ultimately have ok: "boardOk ?v" using assms(2) unfolding boardOk_def by metis
  show ?thesis
    unfolding boardMay_def using ok created old assms(5) by auto
qed

lemma may_create:
  assumes "boardOk v" "(ns, n) \<notin> boardKeys v \<union> pending v" "ns \<in> bo_Spaces v"
  shows "boardMay v (v\<lparr>bo_Pools := bo_Pools v @ [newPool ns n (nextTime v) spec], bo_Queue := insert (ns, n) (bo_Queue v)\<rparr>)"
proof -
  let ?p = "newPool ns n (nextTime v) spec"
  let ?v = "v\<lparr>bo_Pools := bo_Pools v @ [?p], bo_Queue := insert (ns, n) (bo_Queue v)\<rparr>"
  have p: "poolCreated q < poolCreated ?p" "poolKey q \<noteq> (ns, n)" if "q \<in> set (bo_Pools v)" for q
    using nextTime_later [OF that] assms(2) boardKeysI [OF that] by auto
  have "poolCreated q \<noteq> 0 \<and> (\<forall>r \<in> set (bo_Pools v @ [?p]). poolNs r = poolNs q \<longrightarrow> poolCreated r = poolCreated q \<longrightarrow> r = q)"
    if q: "q \<in> set (bo_Pools v @ [?p])" for q
  proof (cases "q = ?p")
    case True
    then show ?thesis using nextTime_pos p(1) by (auto dest: less_imp_neq)
  next
    case False
    then have "q \<in> set (bo_Pools v)" using q by simp
    then show ?thesis using assms(1) p(1) [of q] unfolding boardOk_def by (auto dest: less_imp_neq)
  qed
  moreover have "distinct (map poolKey (bo_Pools v @ [?p]))"
    using assms by (simp add: boardOk_def boardKeys_def)
  moreover have "fst ` (boardKeys ?v \<union> pending ?v) \<subseteq> bo_Spaces ?v"
    using assms(1,3) by (simp add: boardOk_def boardKeys_def pending_def image_Un)
  moreover have "bo_Pools ?v = bo_Pools v @ [?p]" by simp
  ultimately have "boardOk ?v" unfolding boardOk_def by metis
  then show ?thesis
    using assms(2) p boardOk_unique [OF assms(1)] unfolding boardMay_def by (auto simp: boardKeys_def)
qed

lemma may_edit:
  assumes "boardOk v" "k \<in> boardKeys v"
  shows "boardMay v (v\<lparr>bo_Pools := map (\<lambda>p. if poolKey p = k then p\<lparr>po_Spec := spec\<rparr> else p) (bo_Pools v), bo_Queue := insert k (bo_Queue v)\<rparr>)"
proof -
  have key: "poolKey (p\<lparr>po_Spec := spec\<rparr>) = poolKey p" for p by (simp add: poolKey_def)
  let ?f = "\<lambda>p. if poolKey p = k then p\<lparr>po_Spec := spec\<rparr> else p"
  have keys: "map poolKey (map ?f ps) = map poolKey ps" for ps
    by (induction ps) (simp_all add: key)
  show ?thesis
  proof (rule may_change [OF assms(1) _ assms(2)])
    show "distinct (map poolKey (map ?f (bo_Pools v)))" unfolding keys using assms by (simp add: boardOk_def)
    fix p' assume "p' \<in> set (map ?f (bo_Pools v))"
    then obtain p where "p \<in> set (bo_Pools v)" "p' = ?f p" by auto
    then show "\<exists>p \<in> set (bo_Pools v). poolKey p' = poolKey p \<and> poolCreated p' = poolCreated p \<and> (poolKey p \<noteq> k \<longrightarrow> p' = p)"
      by (intro bexI [of _ p]) (simp_all add: key)
  qed (auto simp: image_iff)
qed

lemma default_unchanged:
  assumes "ns' \<noteq> fst k"
  shows "defaultProfileOf ns' (filter (\<lambda>q. metaKey (pr_Meta q) \<noteq> k) prs) = defaultProfileOf ns' prs"
    "metaKey (pr_Meta pr) = k \<Longrightarrow> defaultProfileOf ns' (pr # filter (\<lambda>q. metaKey (pr_Meta q) \<noteq> k) prs) = defaultProfileOf ns' prs"
proof -
  have k: "(ns', ''default'') \<noteq> k" using assms by auto
  show filtered: "defaultProfileOf ns' (filter (\<lambda>q. metaKey (pr_Meta q) \<noteq> k) prs) = defaultProfileOf ns' prs"
    unfolding defaultProfileOf_def by (rule find_filter_other [OF k])
  show "defaultProfileOf ns' (pr # filter (\<lambda>q. metaKey (pr_Meta q) \<noteq> k) prs) = defaultProfileOf ns' prs" if "metaKey (pr_Meta pr) = k"
    using filtered k that by (simp add: defaultProfileOf_def)
qed

lemma onBoard_may:
  assumes "boardOk v"
  shows "boardMay v (onBoard a v)"
proof (cases a)
  case (CreatePool ns n spec)
  then show ?thesis using may_create [OF assms] may_refl [OF assms] by auto
next
  case (EditPool ns n spec)
  then show ?thesis using may_edit [OF assms] may_refl [OF assms] by simp
next
  case (DeletePool ns n)
  have "boardMay v (v\<lparr>bo_Pools := filter (\<lambda>p. poolKey p \<noteq> (ns, n)) (bo_Pools v), bo_Queue := insert (ns, n) (bo_Queue v)\<rparr>)"
    if "(ns, n) \<in> boardKeys v"
    using assms that by (intro may_change) (auto simp: boardOk_def distinct_map_filter)
  then show ?thesis using may_refl [OF assms] unfolding DeletePool onBoard.simps by simp
next
  case (SetProfile pr)
  show ?thesis
    unfolding SetProfile onBoard.simps
    by (rule may_profiles [OF assms], rule default_unchanged(2)) (simp_all add: metaKey_def)
next
  case (DeleteProfile ns n)
  show ?thesis
    unfolding DeleteProfile onBoard.simps
    by (rule may_profiles [OF assms]) (simp add: default_unchanged)
qed

interpretation users: scripted_others poolAct "\<lambda>w. boardOk (bs_Board w)" "\<lambda>w w'. boardMay (bs_Board w) (bs_Board w')"
proof unfold_locales
  show "boardMay (bs_Board w) (bs_Board (poolAct a w))" if "boardOk (bs_Board w)" for w :: boardServer and a
    using onBoard_may [OF that] by (simp add: poolAct_def)
qed (simp_all add: may_refl may_ok, rule may_trans)

text \<open>The requests for a changed profile are those that the handler of the watch returns.\<close>

lemma profile_requests:
  "sc_Script (world s) = [] \<Longrightarrow>
    set (fst (run_state (mapCacheProfileToPools boardClient obj) s)) = poolKey ` set (poolsIn (om_Namespace obj) (bo_Pools (bs_Board (world s))))"
  by (simp add: mapCacheProfileToPools_def run_simps boardClient_def meets_def poolKey_def metaKey_def)

lemma rewrite_touched:
  assumes "rewritePool k f w = (r, w')" "\<And>p. poolKey (f p) = poolKey p \<and> poolCreated (f p) = poolCreated p \<and> po_Spec (f p) = po_Spec p \<and> T p (f p)"
  shows "poolTouched T k (bs_Board w) (bs_Board w')"
    and "\<And>p. r = Inr p \<Longrightarrow> p \<in> set (bo_Pools (bs_Board w')) \<and> poolKey p = k"
proof -
  let ?v = "bs_Board w"
  have f: "poolKey (f p) = poolKey p" "poolCreated (f p) = poolCreated p" "po_Spec (f p) = po_Spec p" "T p (f p)" for p
    using assms(2) by blast+
  have "poolTouched T k ?v (bs_Board w') \<and> (\<forall>p. r = Inr p \<longrightarrow> p \<in> set (bo_Pools (bs_Board w')) \<and> poolKey p = k)"
  proof (cases "lookupBy poolKey k (bo_Pools ?v)")
    case (Inl e)
    then have "poolKey p \<noteq> k" if "p \<in> set (bo_Pools ?v)" for p
      using that by (simp add: lookupBy_def find_None_iff split: option.splits)
    moreover have "w' = w" "r = Inl e" using assms(1) Inl by (simp_all add: rewritePool_def Let_def)
    ultimately show ?thesis by (simp add: poolTouched_def requeued_def list_all2_same)
  next
    case (Inr p)
    then have p: "p \<in> set (bo_Pools ?v)" "poolKey p = k" by (auto simp: lookupBy_def find_Some_iff split: option.splits)
    have w': "bs_Board w' = ?v\<lparr>bo_Pools := map (\<lambda>q. if poolKey q = k then f q else q) (bo_Pools ?v),
        bo_Queue := (if f p = p then bo_Queue ?v else insert k (bo_Queue ?v))\<rparr>" "r = Inr (f p)"
      using assms(1) Inr by (auto simp: rewritePool_def Let_def)
    have "f p \<in> set (map (\<lambda>q. if poolKey q = k then f q else q) (bo_Pools ?v))"
      using p by (auto simp: image_iff intro!: bexI [of _ p])
    then show ?thesis
      unfolding w' using f p(2) boardKeysI [OF p(1)] by (auto simp: poolTouched_def requeued_def list_all2_map2 list_all2_same)
  qed
  then show "poolTouched T k ?v (bs_Board w')" "\<And>p. r = Inr p \<Longrightarrow> p \<in> set (bo_Pools (bs_Board w')) \<and> poolKey p = k" by blast+
qed

lemma merge_simps:
  "poolKey (mergeAnnotations old new p) = poolKey p \<and> poolCreated (mergeAnnotations old new p) = poolCreated p \<and>
    po_Spec (mergeAnnotations old new p) = po_Spec p \<and> statusKept p (mergeAnnotations old new p)"
  "poolKey (mergeStatus old new p) = poolKey p \<and> poolCreated (mergeStatus old new p) = poolCreated p \<and>
    po_Spec (mergeStatus old new p) = po_Spec p \<and> conditionsSent old new p (mergeStatus old new p)"
  by (simp_all add: mergeAnnotations_def mergeStatus_def poolKey_def metaKey_def statusKept_def conditionsSent_def conditionsOf_def)

lemma annotate_touched: "rewritePool k (mergeAnnotations old new) w = (r, w') \<Longrightarrow>
    poolTouched statusKept k (bs_Board w) (bs_Board w') \<and> (\<forall>p. r = Inr p \<longrightarrow> p \<in> set (bo_Pools (bs_Board w')) \<and> poolKey p = k)"
  using rewrite_touched [where f = "mergeAnnotations old new" and T = statusKept] merge_simps(1) by blast

lemma status_touched: "rewritePool k (mergeStatus old new) w = (r, w') \<Longrightarrow>
    poolTouched (conditionsSent old new) k (bs_Board w) (bs_Board w')"
  using rewrite_touched(1) [where f = "mergeStatus old new" and T = "conditionsSent old new"] merge_simps(2) by blast

text \<open>A call that writes, and its answer.\<close>

lemma users_write:
  assumes "boardOk (bs_Board w)" "meets poolAct f w = (r, w')" "\<And>w1 r1 w2. f w1 = (r1, w2) \<Longrightarrow> W r1 (bs_Board w1) (bs_Board w2)"
    and "\<And>r1 r2 v v'. isl r2 \<Longrightarrow> W r1 v v' \<Longrightarrow> W r2 v v'"
  shows "\<exists>v. boardMay (bs_Board w) v \<and> (isl r \<and> bs_Board w' = v \<or> W r v (bs_Board w'))"
proof -
  obtain w1 where w1: "boardMay (bs_Board w) (bs_Board w1)"
    "isl r \<and> w' = w1 \<or> w' = snd (f w1) \<and> (isl r \<or> r = fst (f w1))" using users.meets_may [OF assms(1,2)] by blast
  have "W (fst (f w1)) (bs_Board w1) (bs_Board (snd (f w1)))" by (rule assms(3)) simp
  then show ?thesis using w1 assms(4) by blast
qed

lemma users_read:
  "boardOk (bs_Board w) \<Longrightarrow> meets poolAct (\<lambda>w. (g w, w)) w = (r, w') \<Longrightarrow>
    boardMay (bs_Board w) (bs_Board w') \<and> (\<forall>x. r = Inr x \<longrightarrow> g w' = Inr x) \<and> (r = Inl NotFound \<longrightarrow> g w' = Inl NotFound)"
  using users.meets_read by blast

lemma board_get:
  fixes r :: "apiError + pool"
  assumes w: "boardOk (bs_Board w)" "cl_GetPool boardClient ns n w = (r, w')"
  shows "boardMay (bs_Board w) (bs_Board w') \<and>
      (\<forall>p. r = Inr p \<longrightarrow> p \<in> set (bo_Pools (bs_Board w')) \<and> poolKey p = (ns, n)) \<and>
      (r = Inl NotFound \<longrightarrow> (ns, n) \<notin> boardKeys (bs_Board w'))"
proof -
  have "boardMay (bs_Board w) (bs_Board w') \<and> (\<forall>x. r = Inr x \<longrightarrow> lookupBy poolKey (ns, n) (bo_Pools (bs_Board w')) = Inr x) \<and>
      (r = Inl NotFound \<longrightarrow> lookupBy poolKey (ns, n) (bo_Pools (bs_Board w')) = Inl NotFound)"
    by (rule users_read [OF w(1)]) (use w(2) in \<open>simp add: boardClient_def\<close>)
  moreover have "lookupBy poolKey (ns, n) ps = Inr p \<Longrightarrow> p \<in> set ps \<and> poolKey p = (ns, n)" for p ps
    by (auto simp: lookupBy_def find_Some_iff split: option.splits)
  moreover have "lookupBy poolKey (ns, n) ps = Inl NotFound \<Longrightarrow> (ns, n) \<notin> poolKey ` set ps" for ps
    by (auto simp: lookupBy_def find_None_iff split: option.splits)
  ultimately show ?thesis
    unfolding boardKeys_def by blast
qed

lemma board_list:
  fixes r :: "apiError + pool list"
  assumes w: "boardOk (bs_Board w)" "cl_ListPools boardClient ns w = (r, w')"
  shows "boardMay (bs_Board w) (bs_Board w') \<and>
      (\<forall>items. r = Inr items \<longrightarrow> set items = set (poolsIn ns (bo_Pools (bs_Board w'))) \<and> distinct items)"
proof -
  have r: "boardMay (bs_Board w) (bs_Board w') \<and>
      (\<forall>x. r = Inr x \<longrightarrow> (Inr (poolsIn ns (bo_Pools (bs_Board w'))) :: apiError + pool list) = Inr x) \<and>
      (r = Inl NotFound \<longrightarrow> (Inr (poolsIn ns (bo_Pools (bs_Board w'))) :: apiError + pool list) = Inl NotFound)"
    by (rule users_read [OF w(1)]) (use w(2) in \<open>simp add: boardClient_def\<close>)
  have "distinct (poolsIn ns (bo_Pools (bs_Board w')))"
    using may_ok [OF conjunct1 [OF r]] unfolding boardOk_def poolsIn_def by (simp add: distinct_map)
  then show ?thesis
    using r by auto
qed

lemma board_annotate:
  fixes r :: "apiError + pool"
  assumes w: "boardOk (bs_Board w)" "poolKey new = poolKey old" "po_Spec new = po_Spec old" "po_Status new = po_Status old"
    "cl_PatchPool boardClient old new w = (r, w')"
  shows "\<exists>v. boardMay (bs_Board w) v \<and> (isl r \<and> bs_Board w' = v \<or> poolTouched statusKept (poolKey new) v (bs_Board w') \<and>
      (\<forall>p. r = Inr p \<longrightarrow> p \<in> set (bo_Pools (bs_Board w')) \<and> poolKey p = poolKey new))"
proof -
  have m: "meets poolAct (rewritePool (poolKey new) (mergeAnnotations old new)) w = (r, w')" using w(5) by (simp add: boardClient_def)
  show ?thesis by (rule users_write [OF w(1) m]) (use annotate_touched in blast, auto)
qed

lemma board_status:
  fixes r :: "apiError + pool"
  assumes w: "boardOk (bs_Board w)" "po_Meta new = po_Meta old" "po_Spec new = po_Spec old" "cl_PatchPoolStatus boardClient old new w = (r, w')"
  shows "\<exists>v. boardMay (bs_Board w) v \<and> (isl r \<and> bs_Board w' = v \<or> poolTouched (conditionsSent old new) (poolKey new) v (bs_Board w'))"
proof -
  have m: "meets poolAct (rewritePool (poolKey new) (mergeStatus old new)) w = (r, w')" using w(4) by (simp add: boardClient_def)
  show ?thesis by (rule users_write [OF w(1) m]) (use status_touched in blast, blast)
qed

lemma board_profile:
  fixes r :: "apiError + profile"
  assumes w: "boardOk (bs_Board w)" "cl_GetProfile boardClient ns ''default'' w = (r, w')"
  shows "boardMay (bs_Board w) (bs_Board w') \<and>
      (\<forall>pr. r = Inr pr \<longrightarrow> defaultProfileOf ns (bo_Profiles (bs_Board w')) = Some pr) \<and>
      (r = Inl NotFound \<longrightarrow> defaultProfileOf ns (bo_Profiles (bs_Board w')) = None)"
proof -
  let ?look = "\<lambda>w. lookupBy (\<lambda>pr. metaKey (pr_Meta pr)) (ns, ''default'') (bo_Profiles (bs_Board w))"
  have "boardMay (bs_Board w) (bs_Board w') \<and> (\<forall>x. r = Inr x \<longrightarrow> ?look w' = Inr x) \<and> (r = Inl NotFound \<longrightarrow> ?look w' = Inl NotFound)"
    by (rule users_read [OF w(1)]) (use w(2) in \<open>simp add: boardClient_def\<close>)
  moreover have "?look w' = (case defaultProfileOf ns (bo_Profiles (bs_Board w')) of None \<Rightarrow> Inl NotFound | Some pr \<Rightarrow> Inr pr)"
    by (simp add: lookupBy_def defaultProfileOf_def)
  ultimately show ?thesis by (simp split: option.splits)
qed

lemma board_config:
  fixes r :: "apiError + configMap"
  assumes w: "boardOk (bs_Board w)" "cl_GetConfigMap boardClient ns n w = (r, w')"
  shows "boardMay (bs_Board w) (bs_Board w') \<and> (\<forall>cm. r = Inr cm \<longrightarrow> cmKey cm = (ns, n))"
proof -
  have "boardMay (bs_Board w) (bs_Board w') \<and> (\<forall>x. r = Inr x \<longrightarrow> lookupBy cmKey (ns, n) (bo_ConfigMaps (bs_Board w')) = Inr x) \<and>
      (r = Inl NotFound \<longrightarrow> lookupBy cmKey (ns, n) (bo_ConfigMaps (bs_Board w')) = Inl NotFound)"
    by (rule users_read [OF w(1)]) (use w(2) in \<open>simp add: boardClient_def\<close>)
  moreover have "lookupBy cmKey (ns, n) cs = Inr c \<Longrightarrow> cmKey c = (ns, n)" for c cs
    by (auto simp: lookupBy_def find_Some_iff split: option.splits)
  ultimately show ?thesis by blast
qed

lemma board_upsert:
  fixes f :: "configMap \<Rightarrow> configMap" and r :: "apiError + unit"
  assumes w: "boardOk (bs_Board w)" "\<And>x. cmKey (f x) = cmKey x" "cl_CreateOrUpdate boardClient cm f w = (r, w')"
  shows "\<exists>v. boardMay (bs_Board w) v \<and> (isl r \<and> bs_Board w' = v \<or> configWritten cm f v (bs_Board w'))"
proof -
  let ?g = "\<lambda>w. (Inr () :: apiError + unit, w\<lparr>bs_Board := (bs_Board w)\<lparr>bo_ConfigMaps := upsertBy cmKey cm f (bo_ConfigMaps (bs_Board w))\<rparr>\<rparr>)"
  have m: "meets poolAct ?g w = (r, w')" using w(3) by (simp add: boardClient_def)
  show ?thesis by (rule users_write [OF w(1) m]) (auto simp: configWritten_def requeued_def)
qed

lemma board_clock:
  assumes w: "boardOk (bs_Board w)" "cl_Now boardClient w = (t, w')"
  shows "boardMay (bs_Board w) (bs_Board w')"
  using w by (simp add: boardClient_def may_refl)

lemmas board_laws = board_get board_list board_annotate board_status board_profile board_config board_upsert board_clock

interpretation pools: board_server boardClient bs_Board
  by unfold_locales (fact board_laws)+

section \<open>A run\<close>

text \<open>The deployment of the repository: \<open>POD_NAMESPACE\<close> is set, and the pools are made in one namespace.\<close>

definition demoController :: controller where
  "demoController = \<lparr>ct_R = demoReconciler ''sys'', ct_K = refK8s, ct_Cpus = 4, ct_Render = unbound_Render plainTemplates 4\<rparr>"

definition demoBoard :: "configMap list \<Rightarrow> (string \<times> string) set \<Rightarrow> (string \<times> string) set \<Rightarrow> board" where
  "demoBoard cs Q H = \<lparr>bo_Pools = [demoReady], bo_Profiles = [], bo_ConfigMaps = cs, bo_Queue = Q, bo_Hand = H, bo_Spaces = {''a''}\<rparr>"

definition boardState :: "(poolAct list \<times> fault) list \<Rightarrow> board \<Rightarrow> boardServer poolSys" where
  "boardState script v = \<lparr>world = \<lparr>sc_Script = script, bs_Board = v\<rparr>, effects = [], circuit = newBreaker, metric = None\<rparr>"

lemma demoReady_meta: "po_Meta demoReady = (plainMeta ''a'' ''p'')\<lparr>om_Annotations := Some [(initialRVAnnotation, ''7'')]\<rparr>"
  "po_Spec demoReady = po_Spec demoPool" "poolKey demoReady = (''a'', ''p'')"
  by (simp_all add: demoReady_def withReadyCondition_def demoStored_def stampInitialRV_def demo_meta plainMeta_def
      gm_set_def gm_make_def poolKey_def metaKey_def)

lemma demoReady_again: "withReadyCondition refK8s demoReady ConditionTrue ''Ready'' (MText ''Configuration rendered successfully'' []) = demoReady"
  by (simp add: demoReady_def withReadyCondition_def refK8s_def demoStored_def stampInitialRV_def demoPool_def samplePool_def noStatus_def)

lemma demoReady_merge: "mergeStatus demoReady demoReady demoReady = demoReady"
  by (simp add: mergeStatus_def conditionsOf_def)

lemma demo_configured: "configured demoController" "operatorNamespace (ct_R demoController) ns = ''sys''"
  by (simp_all add: configured_def demoController_def demo_components refK8s_conditions operatorNamespace_def demoReconciler_def
      trimSpace_alnum lit_simps)

lemma demo_start: "controllerRuns demoController boardClient bs_Board (boardState script (demoBoard [] {(''a'', ''p'')} {}))"
  by (rule controllerRuns.start)
    (simp_all add: boardState_def demoBoard_def boardOk_def boardKeys_def demoReady_meta plainMeta_def pending_def)

lemma demo_refused:
  "\<exists>e s'. run_state (reconcilePool (demoReconciler ''sys'') refK8s boardClient ''a'' ''p'') (boardState (([], Refuses) # script) v) =
    ((0, Some e), s') \<and> world s' = \<lparr>sc_Script = script, bs_Board = v\<rparr> \<and> circuit s' = newBreaker"
  by (simp add: reconcilePool_def demoReconciler_def run_simps boardClient_def meets_def boardState_def isNotFound_def)

lemma demo_settles:
  "\<exists>s' cm. run_state (reconcilePool (demoReconciler ''sys'') refK8s boardClient ''a'' ''p'') (boardState [] (demoBoard [] {} H)) =
    ((0, None), s') \<and> bs_Board (world s') = demoBoard [cm] {} H \<and> \<not> circuitOpen (circuit s') ''sys''"
proof -
  obtain c where c: "Generate 4 (Some demoReady) None = Inr c"
    "unbound_Render plainTemplates 4 (Some c) = Inr ''unbound.conf''" "length (ec_Upstreams c) = 2"
    using demo_builds [of "[''1.1.1.1'', ''9.9.9.9'']" demoReady "''a''" "''p''" None]
    by (auto simp: demoPool_def demoReady_meta)
  have v: "validateDNSUpstreamPool refK8s (Some demoReady) = None" by (rule demo_valid) (simp add: demoReady_meta)
  show ?thesis
    unfolding reconciler_defs
    by (simp add: c v run_simps demo_defs boardClient_def meets_def boardState_def demoBoard_def demoReady_meta poolsIn_def
      demoReady_again demoReady_merge rewritePool_def upsertBy_def circuitOpen_def circuitOf_def)
qed

theorem settled_unless_pending_witness:
  "\<exists>s cm. controllerRuns demoController boardClient bs_Board s \<and> cm \<in> set (bo_ConfigMaps (bs_Board (world s))) \<and>
    gm_get (cm_Data cm) ''config.json'' = Some ''2''"
proof -
  let ?k = "(''a'', ''p'')"
  let ?s = "boardState [([], Refuses)] (demoBoard [] {?k} {})" and ?s1 = "boardState [([], Refuses)] (demoBoard [] {} {?k})"
  have c: "ct_R demoController = demoReconciler ''sys''" "ct_K demoController = refK8s" by (simp_all add: demoController_def)
  obtain e s2 where s2: "run_state (reconcilePool (demoReconciler ''sys'') refK8s boardClient ''a'' ''p'') ?s1 = ((0, Some e), s2)"
    "world s2 = \<lparr>sc_Script = [], bs_Board = demoBoard [] {} {?k}\<rparr>" "circuit s2 = newBreaker"
    using demo_refused by blast
  have retried: "controllerRuns demoController boardClient bs_Board (boardState [] (demoBoard [] {?k} {}))"
    by (rule controllerRuns.reconcile [OF demo_start [of "[([], Refuses)]"], of ?k ?s1 "(0, Some e)" s2])
      (use s2 c in \<open>simp_all add: boardState_def demoBoard_def taken_def finished_def\<close>)
  obtain s3 cm where s3: "run_state (reconcilePool (demoReconciler ''sys'') refK8s boardClient ''a'' ''p'') (boardState [] (demoBoard [] {} {?k})) =
    ((0, None), s3)" "bs_Board (world s3) = demoBoard [cm] {} {?k}" "\<not> circuitOpen (circuit s3) ''sys''"
    using demo_settles by blast
  define s4 where "s4 = s3\<lparr>world := \<lparr>sc_Script = [], bs_Board = demoBoard [cm] {} {}\<rparr>\<rparr>"
  have run: "controllerRuns demoController boardClient bs_Board s4"
    by (rule controllerRuns.reconcile [OF retried, of ?k "boardState [] (demoBoard [] {} {?k})" "(0, None)" s3])
      (use s3 c in \<open>simp_all add: boardState_def demoBoard_def taken_def finished_def s4_def\<close>)
  have board: "bs_Board (world s4) = demoBoard [cm] {} {}" "circuit s4 = circuit s3" by (simp_all add: s4_def)
  have builds: "buildsConfig (demoReconciler ''sys'') (Generate 4) (unbound_Render plainTemplates 4) demoReady None ''2''"
    using demo_builds_stored [of "''sys''"] by (simp add: buildsConfig_def Generate_def Let_def demoReady_meta demoStored_def stampInitialRV_def)
  have v: "validateDNSUpstreamPool refK8s (Some demoReady) = None" by (rule demo_valid) (simp add: demoReady_meta)
  have ns: "poolNs demoReady = ''a''" "operatorNamespace (demoReconciler ''sys'') ''a'' = ''sys''"
    using demo_configured(2) [of "''a''"] by (simp_all add: demoReady_meta plainMeta_def c)
  have "(\<exists>cm \<in> set (bo_ConfigMaps (bs_Board (world s4))). gm_get (cm_Data cm) ''config.json'' = Some ''2'')"
    using settled_unless_pending [OF run pools.board_server_axioms demo_configured(1), of "''a''" demoReady "''2''"] v builds s3(3) ns
    by (auto simp: board demoBoard_def demoController_def defaultProfileOf_def)
  then show ?thesis using run by blast
qed

end
