(* ===== verification/Outline.thy ===== *)
theory Outline
  imports Effects
begin

text \<open>
  Proof outlines of programs in a world that others change (\<open>outline\<close>): a program starts where \<open>ok\<close>
  holds, moves the world as \<open>may\<close> allows, which is also what others do, and leads from \<open>P\<close> to \<open>Q\<close> of its
  result.  The rules follow the structure of a program.
\<close>

locale outline =
  fixes at :: "'s \<Rightarrow> 'v" and ok :: "'v \<Rightarrow> bool" and may :: "'v \<Rightarrow> 'v \<Rightarrow> bool"
  assumes outline_refl: "ok v \<Longrightarrow> may v v"
    and outline_trans: "may v1 v2 \<Longrightarrow> may v2 v3 \<Longrightarrow> may v1 v3"
    and outline_ok: "may v v' \<Longrightarrow> ok v'"
begin

definition leads :: "('v \<Rightarrow> bool) \<Rightarrow> ('s, 'a) state \<Rightarrow> ('a \<Rightarrow> 'v \<Rightarrow> bool) \<Rightarrow> bool" where
  "leads P m Q \<longleftrightarrow>
     (\<forall>s. ok (at s) \<longrightarrow> P (at s) \<longrightarrow>
        may (at s) (at (snd (run_state m s))) \<and> Q (fst (run_state m s)) (at (snd (run_state m s))))"

lemma leads_return: "(\<And>v. ok v \<Longrightarrow> P v \<Longrightarrow> Q x v) \<Longrightarrow> leads P (State_Monad.return x) Q"
  by (simp add: leads_def outline_refl)

lemma leads_bind:
  assumes m: "leads P m Q" and f: "\<And>a. leads (Q a) (f a) R"
  shows "leads P (State_Monad.bind m f) R"
  unfolding leads_def run_state_bind case_prod_unfold
proof (intro allI impI)
  fix s assume s: "ok (at s)" "P (at s)"
  let ?t = "snd (run_state m s)" and ?f = "f (fst (run_state m s))"
  have t: "may (at s) (at ?t)" "Q (fst (run_state m s)) (at ?t)" using m s by (simp_all add: leads_def)
  then have "may (at ?t) (at (snd (run_state ?f ?t))) \<and> R (fst (run_state ?f ?t)) (at (snd (run_state ?f ?t)))"
    using f outline_ok [OF t(1)] by (simp add: leads_def)
  then show "may (at s) (at (snd (run_state ?f ?t))) \<and> R (fst (run_state ?f ?t)) (at (snd (run_state ?f ?t)))"
    using outline_trans [OF t(1)] by blast
qed

lemma leads_mono:
  "leads P m Q \<Longrightarrow> (\<And>v. ok v \<Longrightarrow> P' v \<Longrightarrow> P v) \<Longrightarrow> (\<And>a v. ok v \<Longrightarrow> Q a v \<Longrightarrow> Q' a v) \<Longrightarrow> leads P' m Q'"
  unfolding leads_def using outline_ok by blast

lemma leads_pure: "(\<And>v. ok v \<Longrightarrow> P v \<Longrightarrow> b) \<Longrightarrow> (b \<Longrightarrow> leads P m Q) \<Longrightarrow> leads P m Q"
  unfolding leads_def by blast

lemma leads_silent: "(\<And>s. at (snd (run_state m s)) = at s) \<Longrightarrow> leads P m (\<lambda>_. P)"
  by (simp add: leads_def outline_refl)

lemma leads_if: "(b \<Longrightarrow> leads P m Q) \<Longrightarrow> (\<not> b \<Longrightarrow> leads P n Q) \<Longrightarrow> leads P (if b then m else n) Q"
  by simp

lemma leads_case_sum:
  "(\<And>a. x = Inl a \<Longrightarrow> leads P (f a) Q) \<Longrightarrow> (\<And>b. x = Inr b \<Longrightarrow> leads P (g b) Q) \<Longrightarrow>
    leads P (case x of Inl a \<Rightarrow> f a | Inr b \<Rightarrow> g b) Q"
  by (simp split: sum.split)

lemma leads_case_option:
  "(x = None \<Longrightarrow> leads P m Q) \<Longrightarrow> (\<And>a. x = Some a \<Longrightarrow> leads P (f a) Q) \<Longrightarrow>
    leads P (case x of None \<Rightarrow> m | Some a \<Rightarrow> f a) Q"
  by (simp split: option.split)

lemmas leads_branch = leads_if leads_case_sum leads_case_option

end

end
