(* ===== verification/Ownership.thy ===== *)
theory Ownership
  imports PolicySteps Outline
begin

text \<open>
  Who owns the annotated namespaces, on an API server that others use at the same time.  Before each
  call of a reconcile, others may create, edit and delete policies and namespaces (\<open>othersMay\<close>), and
  any call may fail, also after it took effect.  The locale \<open>shared_server\<close> states this of a client;
  its instance is a server in memory that runs a script of other users' actions between the calls.
  The proof is by rely and guarantee: what the reconcile knows of the cluster is stable under others.
\<close>

section \<open>What others do\<close>

text \<open>The metadata of the policies, and the namespaces.\<close>

type_synonym holdings = "objectMeta list \<times> namespace list"

definition holds :: "objectMeta \<Rightarrow> bool" where
  "holds m \<longleftrightarrow> externalPolicyFinalizer \<in> set (om_Finalizers m)"

definition wellFormed :: "holdings \<Rightarrow> bool" where
  "wellFormed h \<longleftrightarrow>
     distinct (map metaKey (fst h)) \<and> distinct (map om_Name (snd h)) \<and> '''' \<notin> set (map om_UID (fst h))"

text \<open>
  An object with a finalizer stays, whoever deletes it; only the controller takes its finalizer off.
  The owner annotation is the controller's: others do not write it, but a namespace may go, and one of
  the same name may come without it.
\<close>

definition othersMay :: "holdings \<Rightarrow> holdings \<Rightarrow> bool" where
  "othersMay h h' \<longleftrightarrow> wellFormed h' \<and>
     (\<forall>m \<in> set (fst h). holds m \<longrightarrow> (\<exists>m' \<in> set (fst h'). metaKey m' = metaKey m \<and> om_UID m' = om_UID m \<and> holds m')) \<and>
     (\<forall>n' \<in> set (snd h'). ownerOf n' \<noteq> '''' \<longrightarrow> (\<exists>n \<in> set (snd h). om_Name n = om_Name n' \<and> ownerOf n = ownerOf n'))"

text \<open>
  The server's part in a write, which is a merge patch: the finalizers of the policy of a key are
  replaced, and the owner annotation of a namespace is set if the two objects of the patch differ in it.
\<close>

definition withFins :: "string \<times> string \<Rightarrow> string list \<Rightarrow> objectMeta list \<Rightarrow> objectMeta list" where
  "withFins k fs ms = map (\<lambda>m. if metaKey m = k then m\<lparr>om_Finalizers := fs\<rparr> else m) ms"

definition ownerChanged :: "namespace \<Rightarrow> namespace \<Rightarrow> bool" where
  "ownerChanged old new \<longleftrightarrow>
     gm_get (om_Annotations old) ownerUIDAnnotation \<noteq> gm_get (om_Annotations new) ownerUIDAnnotation"

definition ownerPatched :: "namespace \<Rightarrow> namespace \<Rightarrow> namespace list \<Rightarrow> namespace list \<Rightarrow> bool" where
  "ownerPatched old new nss nss' \<longleftrightarrow>
     list_all2 (\<lambda>n n'. om_Name n' = om_Name n \<and>
       ownerOf n' = (if om_Name n = om_Name new \<and> ownerChanged old new then ownerOf new else ownerOf n)) nss nss'"

text \<open>A policy that is being deleted and has lost its last finalizer is gone: that is left to \<open>othersMay\<close>.\<close>

definition finsPatched :: "objectMeta \<Rightarrow> apiError + policy \<Rightarrow> holdings \<Rightarrow> holdings \<Rightarrow> bool" where
  "finsPatched m r h h' \<longleftrightarrow>
     (let h1 = (withFins (metaKey m) (om_Finalizers m) (fst h), snd h) in
      othersMay h1 h' \<and> (\<forall>pc. r = Inr pc \<longrightarrow> pc_Meta pc \<in> set (fst h1) \<and> metaKey (pc_Meta pc) = metaKey m))"

locale shared_server =
  fixes C :: "'w client" and view :: "'w \<Rightarrow> holdings"
  assumes get_policy: "wellFormed (view w) \<Longrightarrow> cl_GetPolicy C ns n w = (r1, w') \<Longrightarrow>
      othersMay (view w) (view w') \<and>
      (\<forall>pc. r1 = Inr pc \<longrightarrow> pc_Meta pc \<in> set (fst (view w')) \<and> metaKey (pc_Meta pc) = (ns, n))"
    and patch_policy: "wellFormed (view w) \<Longrightarrow> om_Finalizers (pc_Meta old) \<noteq> om_Finalizers (pc_Meta new) \<Longrightarrow>
      cl_PatchPolicy C old new w = (r1, w') \<Longrightarrow>
      \<exists>h. othersMay (view w) h \<and> (isl r1 \<and> view w' = h \<or> finsPatched (pc_Meta new) r1 h (view w'))"
    and patch_policy_status: "wellFormed (view w) \<Longrightarrow> cl_PatchPolicyStatus C old new w = (r1, w') \<Longrightarrow> othersMay (view w) (view w')"
    and get_pool: "wellFormed (view w) \<Longrightarrow> cl_GetPool C ns n w = (r2, w') \<Longrightarrow> othersMay (view w) (view w')"
    and get_profile: "wellFormed (view w) \<Longrightarrow> cl_GetProfile C ns n w = (r3, w') \<Longrightarrow> othersMay (view w) (view w')"
    and get_namespace: "wellFormed (view w) \<Longrightarrow> cl_GetNamespace C n w = (r4, w') \<Longrightarrow>
      othersMay (view w) (view w') \<and> (\<forall>x. r4 = Inr x \<longrightarrow> x \<in> set (snd (view w')) \<and> om_Name x = n)"
    and list_namespaces: "wellFormed (view w) \<Longrightarrow> cl_ListNamespaces C w = (r5, w') \<Longrightarrow>
      othersMay (view w) (view w') \<and> (\<forall>xs. r5 = Inr xs \<longrightarrow> set xs = set (snd (view w')))"
    and patch_namespace: "wellFormed (view w) \<Longrightarrow> cl_PatchNamespace C x x' w = (r4, w') \<Longrightarrow>
      \<exists>h. othersMay (view w) h \<and>
        (isl r4 \<and> view w' = h \<or> fst (view w') = fst h \<and> ownerPatched x x' (snd h) (snd (view w')))"

section \<open>Knowledge that others cannot spoil\<close>

definition stable :: "(holdings \<Rightarrow> bool) \<Rightarrow> bool" where
  "stable P \<longleftrightarrow> (\<forall>h h'. othersMay h h' \<longrightarrow> P h \<longrightarrow> P h')"

text \<open>Every owner is a policy that still has its finalizer.\<close>

definition ownersHeld :: "holdings \<Rightarrow> bool" where
  "ownersHeld h \<longleftrightarrow> wellFormed h \<and>
     (\<forall>n \<in> set (snd h). ownerOf n \<noteq> '''' \<longrightarrow> (\<exists>m \<in> set (fst h). om_UID m = ownerOf n \<and> holds m))"

definition heldBy :: "string \<Rightarrow> string \<times> string \<Rightarrow> holdings \<Rightarrow> bool" where
  "heldBy uid k h \<longleftrightarrow> uid \<noteq> '''' \<and> (\<exists>m \<in> set (fst h). metaKey m = k \<and> om_UID m = uid \<and> holds m)"

definition ownsWithin :: "string \<Rightarrow> string set \<Rightarrow> holdings \<Rightarrow> bool" where
  "ownsWithin uid names h \<longleftrightarrow> uid \<noteq> '''' \<and> (\<forall>n \<in> set (snd h). ownerOf n = uid \<longrightarrow> om_Name n \<in> names)"

lemma othersMay_wf: "othersMay h h' \<Longrightarrow> wellFormed h'"
  by (simp add: othersMay_def)

lemma wellFormed_UID: "wellFormed h \<Longrightarrow> m \<in> set (fst h) \<Longrightarrow> om_UID m \<noteq> ''''"
  unfolding wellFormed_def by (metis image_eqI set_map)

lemma stable_ownersHeld: "stable ownersHeld"
  unfolding stable_def ownersHeld_def othersMay_def by metis

lemma stable_heldBy: "stable (heldBy uid k)"
  unfolding stable_def heldBy_def othersMay_def by metis

lemma stable_ownsWithin: "stable (ownsWithin uid names)"
  unfolding stable_def ownsWithin_def othersMay_def by metis

lemma othersMay_refl: "wellFormed h \<Longrightarrow> othersMay h h"
  unfolding othersMay_def by blast

lemma othersMay_trans: "othersMay h1 h2 \<Longrightarrow> othersMay h2 h3 \<Longrightarrow> othersMay h1 h3"
  unfolding othersMay_def by metis

lemma stable_conj: "stable P \<Longrightarrow> stable Q \<Longrightarrow> stable (\<lambda>h. P h \<and> Q h)"
  unfolding stable_def by blast

lemma stableD: "stable P \<Longrightarrow> othersMay h h' \<Longrightarrow> P h \<Longrightarrow> P h'"
  unfolding stable_def by blast

lemma metaKey_fins [simp]: "metaKey (m\<lparr>om_Finalizers := fs\<rparr>) = metaKey m" "holds (m\<lparr>om_Finalizers := fs\<rparr>) \<longleftrightarrow> externalPolicyFinalizer \<in> set fs"
  by (simp_all add: metaKey_def holds_def)

lemma withFins_keys: "map metaKey (withFins k fs ms) = map metaKey ms"
  by (induction ms) (simp_all add: withFins_def)

lemma withFins_UIDs: "map om_UID (withFins k fs ms) = map om_UID ms"
  by (induction ms) (simp_all add: withFins_def)

lemma wellFormed_withFins: "wellFormed (withFins k fs ms, nss) \<longleftrightarrow> wellFormed (ms, nss)"
  by (simp only: wellFormed_def fst_conv snd_conv withFins_keys withFins_UIDs)

lemma in_withFins:
  "m \<in> set (withFins k fs ms) \<longleftrightarrow>
     (\<exists>m0 \<in> set ms. m = (if metaKey m0 = k then m0\<lparr>om_Finalizers := fs\<rparr> else m0))"
  by (simp only: withFins_def set_map image_iff)

lemma patched_names: "ownerPatched old new nss nss' \<Longrightarrow> map om_Name nss' = map om_Name nss"
  unfolding ownerPatched_def by (induction rule: list_all2_induct) simp_all

lemma in_patched:
  assumes "ownerPatched old new nss nss'" "n' \<in> set nss'"
  shows "\<exists>n \<in> set nss. om_Name n' = om_Name n \<and>
    ownerOf n' = (if om_Name n = om_Name new \<and> ownerChanged old new then ownerOf new else ownerOf n)"
  by (rule list_all2_in2 [OF assms(1) [unfolded ownerPatched_def] assms(2)])

lemma wellFormed_patched: "ownerPatched old new nss nss' \<Longrightarrow> wellFormed (ms, nss') \<longleftrightarrow> wellFormed (ms, nss)"
  by (simp only: wellFormed_def fst_conv snd_conv patched_names)

lemma ownerChanged_owner: "ownerOf old \<noteq> ownerOf new \<Longrightarrow> ownerChanged old new"
  by (auto simp: ownerChanged_def ownerOf_def gm_index_def)

text \<open>What the two kinds of writes guarantee.\<close>

lemma held_patched:
  assumes "ownersHeld (ms, nss)" "ownerPatched old new nss nss'" "ownerOf new = '''' \<or> heldBy (ownerOf new) k (ms, nss)"
  shows "ownersHeld (ms, nss')"
proof -
  have "\<exists>m \<in> set ms. om_UID m = ownerOf n' \<and> holds m" if n': "n' \<in> set nss'" "ownerOf n' \<noteq> ''''" for n'
    using in_patched [OF assms(2) n'(1)] n'(2) assms(1,3) unfolding ownersHeld_def heldBy_def fst_conv snd_conv by metis
  then show ?thesis
    using assms(1) wellFormed_patched [OF assms(2)] unfolding ownersHeld_def by simp
qed

lemma ownsWithin_patched:
  "ownsWithin uid names (ms, nss) \<Longrightarrow> ownerPatched old new nss nss' \<Longrightarrow> ownerOf new = '''' \<Longrightarrow> ownsWithin uid names (ms, nss')"
  "ownsWithin uid (insert (om_Name new) names) (ms, nss) \<Longrightarrow> ownerPatched old new nss nss' \<Longrightarrow> ownerOf new = '''' \<Longrightarrow>
    ownerChanged old new \<Longrightarrow> ownsWithin uid names (ms, nss')"
  unfolding ownsWithin_def using in_patched [of old new nss nss'] by (metis snd_conv, metis snd_conv insertE)

lemma held_finalizer_added:
  assumes "ownersHeld (ms, nss)" "externalPolicyFinalizer \<in> set fs"
  shows "ownersHeld (withFins k fs ms, nss)"
proof -
  have "\<exists>m' \<in> set (withFins k fs ms). om_UID m' = u \<and> holds m'" if "m \<in> set ms" "om_UID m = u" "holds m" for m u
    using that assms(2) by (intro bexI [of _ "if metaKey m = k then m\<lparr>om_Finalizers := fs\<rparr> else m"]) (auto simp: in_withFins)
  then show ?thesis
    using assms(1) unfolding ownersHeld_def wellFormed_withFins fst_conv snd_conv by metis
qed

text \<open>Taking the finalizer off a policy that owns nothing any more.\<close>

lemma held_finalizer_removed:
  assumes "ownersHeld (ms, nss)" "heldBy uid k (ms, nss)" "ownsWithin uid {} (ms, nss)"
  shows "ownersHeld (withFins k fs ms, nss)"
proof -
  obtain m where m: "m \<in> set ms" "metaKey m = k" "om_UID m = uid" using assms(2) by (auto simp: heldBy_def)
  have dist: "distinct (map metaKey ms)" using assms(1) by (simp add: ownersHeld_def wellFormed_def)
  have "\<exists>m' \<in> set (withFins k fs ms). om_UID m' = ownerOf n \<and> holds m'" if n: "n \<in> set nss" "ownerOf n \<noteq> ''''" for n
  proof -
    obtain m' where m': "m' \<in> set ms" "om_UID m' = ownerOf n" "holds m'" using assms(1) n by (auto simp: ownersHeld_def)
    have "ownerOf n \<noteq> uid" using assms(3) n(1) by (auto simp: ownsWithin_def)
    then have "m' \<noteq> m" using m(3) m'(2) by auto
    then have "metaKey m' \<noteq> k" using m m'(1) dist by (auto simp: distinct_map inj_on_def)
    then show ?thesis using m' by (intro bexI [of _ m']) (auto simp: in_withFins)
  qed
  then show ?thesis using assms(1) unfolding ownersHeld_def wellFormed_withFins by simp
qed

text \<open>A namespace with an owner has annotations to drop.\<close>

lemma owner_annotated: "ownerOf ns \<noteq> '''' \<Longrightarrow> gm_get (om_Annotations ns) ownerUIDAnnotation \<noteq> None"
  by (cases "gm_get (om_Annotations ns) ownerUIDAnnotation") (simp_all add: ownerOf_def gm_index_def)

lemma owned_dropped: "ownerOf ns \<noteq> '''' \<Longrightarrow> \<not> (om_Annotations ns = None \<or> \<not> snd (dropPolicyAnnotations (om_Annotations ns)))"
proof -
  assume "ownerOf ns \<noteq> ''''"
  then have key: "gm_get (om_Annotations ns) ownerUIDAnnotation \<noteq> None" by (rule owner_annotated)
  moreover have "ownerUIDAnnotation \<in> set policyAnnotationKeys" by (simp add: policyAnnotationKeys_def)
  ultimately have "snd (dropPolicyAnnotations (om_Annotations ns))" unfolding dropPolicy_changed by blast
  moreover have "om_Annotations ns \<noteq> None" using key by (cases "om_Annotations ns") simp_all
  ultimately show ?thesis by simp
qed

lemma owner_without: "ownerOf (withoutPolicy ns) = ''''"
  by (simp add: ownerOf_def gm_index_def withoutPolicy_get policyAnnotationKeys_def)

section \<open>Rules for programs on a shared server\<close>

text \<open>From a world whose owners are held to another, whatever others do.\<close>

sublocale shared_server \<subseteq> outline "\<lambda>s. view (world s)" ownersHeld "\<lambda>_ h. ownersHeld h"
  by unfold_locales

context shared_server
begin

lemma leads_note: "leads P (note_effect e) (\<lambda>_. P)"
  by (rule leads_silent) (simp add: note_effect_def)

text \<open>A call in which others may act, and which tells \<open>X\<close>.\<close>

lemma leads_read:
  assumes "\<And>w r w'. wellFormed (view w) \<Longrightarrow> g w = (r, w') \<Longrightarrow> othersMay (view w) (view w') \<and> X r (view w')"
    and "stable P"
  shows "leads P (api e g) (\<lambda>r h. P h \<and> X r h)"
  unfolding leads_def
proof (intro allI impI)
  fix s assume s: "ownersHeld (view (world s))" "P (view (world s))"
  obtain r w' where g: "g (world s) = (r, w')" by force
  have "wellFormed (view (world s))" using s(1) by (simp add: ownersHeld_def)
  then have "othersMay (view (world s)) (view w')" "X r (view w')" using assms(1) g by blast+
  then show "ownersHeld (view (world (snd (run_state (api e g) s)))) \<and>
      P (view (world (snd (run_state (api e g) s)))) \<and> X (fst (run_state (api e g) s)) (view (world (snd (run_state (api e g) s))))"
    using s stableD [OF stable_ownersHeld] stableD [OF assms(2)] g by (simp add: run_api)
qed

lemma leads_reads:
  "stable P \<Longrightarrow> leads P (api e1 (cl_GetPool C ns n)) (\<lambda>_. P)"
  "stable P \<Longrightarrow> leads P (api e2 (cl_GetProfile C ns n)) (\<lambda>_. P)"
  "stable P \<Longrightarrow> leads P (api e3 (cl_GetNamespace C n)) (\<lambda>_. P)"
  "stable P \<Longrightarrow> leads P (api e4 (cl_PatchPolicyStatus C old new)) (\<lambda>_. P)"
  by (rule leads_mono [OF leads_read [where X = "\<lambda>_ _. True"]]; use get_pool get_profile get_namespace patch_policy_status in blast)+

text \<open>Writing to a namespace: a release, and a mark for a policy that holds.\<close>

lemma run_patch:
  assumes "ownersHeld (view (world s))" "P (view (world s))" "stable P"
  shows "\<exists>h r w'. run_state (api e (cl_PatchNamespace C x x')) s = (r, s\<lparr>world := w', effects := effects s @ [e r]\<rparr>) \<and>
    ownersHeld h \<and> P h \<and> (isl r \<and> view w' = h \<or> fst (view w') = fst h \<and> ownerPatched x x' (snd h) (snd (view w')))"
proof -
  obtain r w' where g: "cl_PatchNamespace C x x' (world s) = (r, w')" by force
  have "wellFormed (view (world s))" using assms(1) by (simp add: ownersHeld_def)
  from patch_namespace [OF this g] obtain h where h: "othersMay (view (world s)) h"
    "isl r \<and> view w' = h \<or> fst (view w') = fst h \<and> ownerPatched x x' (snd h) (snd (view w'))" by blast
  have "ownersHeld h" "P h" using h(1) assms stableD [OF stable_ownersHeld] stableD [OF assms(3)] by blast+
  then show ?thesis using g h(2) by (intro exI [of _ h] exI [of _ r] exI [of _ w']) (simp add: run_api)
qed

lemma leads_release:
  assumes "ownerOf x = uid" "ownerOf x' = ''''" "om_Name x' = om_Name x" "uid \<noteq> ''''"
  shows "leads (\<lambda>h. heldBy uid k h \<and> ownsWithin uid (insert (om_Name x) S) h) (api e (cl_PatchNamespace C x x'))
    (\<lambda>r h. heldBy uid k h \<and> (isl r \<or> ownsWithin uid S h))"
  unfolding leads_def
proof (intro allI impI)
  fix s assume s: "ownersHeld (view (world s))" "heldBy uid k (view (world s)) \<and> ownsWithin uid (insert (om_Name x) S) (view (world s))"
  obtain ms nss r w' where run: "run_state (api e (cl_PatchNamespace C x x')) s = (r, s\<lparr>world := w', effects := effects s @ [e r]\<rparr>)"
    and h: "ownersHeld (ms, nss)" "heldBy uid k (ms, nss)" "ownsWithin uid (insert (om_Name x) S) (ms, nss)"
      "isl r \<and> view w' = (ms, nss) \<or> fst (view w') = ms \<and> ownerPatched x x' nss (snd (view w'))"
    using run_patch [OF s stable_conj [OF stable_heldBy stable_ownsWithin], of e x x'] by force
  have "ownersHeld (view w') \<and> heldBy uid k (view w') \<and> (isl r \<or> ownsWithin uid S (view w'))"
    using h(4)
  proof
    assume v: "fst (view w') = ms \<and> ownerPatched x x' nss (snd (view w'))"
    then obtain nss' where w': "view w' = (ms, nss')" "ownerPatched x x' nss nss'" by (metis prod.collapse)
    have "ownersHeld (ms, nss')" using held_patched [OF h(1) w'(2)] assms(2) by simp
    moreover have "heldBy uid k (ms, nss')" using h(2) by (simp add: heldBy_def)
    moreover have "ownsWithin uid S (ms, nss')"
      using ownsWithin_patched(2) [of uid x' S ms nss x nss'] h(3) w'(2) assms ownerChanged_owner [of x x'] by simp
    ultimately show ?thesis by (simp add: w'(1))
  qed (use h in auto)
  then show "ownersHeld (view (world (snd (run_state (api e (cl_PatchNamespace C x x')) s)))) \<and>
      heldBy uid k (view (world (snd (run_state (api e (cl_PatchNamespace C x x')) s)))) \<and>
      (isl (fst (run_state (api e (cl_PatchNamespace C x x')) s)) \<or>
        ownsWithin uid S (view (world (snd (run_state (api e (cl_PatchNamespace C x x')) s)))))"
    by (simp add: run)
qed

lemma leads_mark:
  assumes "ownerOf x' = uid"
  shows "leads (heldBy uid k) (api e (cl_PatchNamespace C x x')) (\<lambda>_. heldBy uid k)"
  unfolding leads_def
proof (intro allI impI)
  fix s assume s: "ownersHeld (view (world s))" "heldBy uid k (view (world s))"
  obtain ms nss r w' where run: "run_state (api e (cl_PatchNamespace C x x')) s = (r, s\<lparr>world := w', effects := effects s @ [e r]\<rparr>)"
    and h: "ownersHeld (ms, nss)" "heldBy uid k (ms, nss)"
      "isl r \<and> view w' = (ms, nss) \<or> fst (view w') = ms \<and> ownerPatched x x' nss (snd (view w'))"
    using run_patch [OF s stable_heldBy, of e x x'] by force
  have "ownersHeld (view w') \<and> heldBy uid k (view w')"
    using h(3)
  proof
    assume "fst (view w') = ms \<and> ownerPatched x x' nss (snd (view w'))"
    then obtain nss' where w': "view w' = (ms, nss')" "ownerPatched x x' nss nss'" by (metis prod.collapse)
    have "ownersHeld (ms, nss')" by (rule held_patched [OF h(1) w'(2), of k]) (use h(2) assms in simp)
    moreover have "heldBy uid k (ms, nss')" using h(2) by (simp add: heldBy_def)
    ultimately show ?thesis by (simp add: w'(1))
  qed (use h in auto)
  then show "ownersHeld (view (world (snd (run_state (api e (cl_PatchNamespace C x x')) s)))) \<and>
      heldBy uid k (view (world (snd (run_state (api e (cl_PatchNamespace C x x')) s))))"
    by (simp add: run)
qed

section \<open>The reconcile of a policy\<close>

lemma leads_remove:
  assumes "ownerOf ns = uid" "uid \<noteq> ''''"
  shows "leads (\<lambda>h. heldBy uid k h \<and> ownsWithin uid (insert (om_Name ns) S) h) (removeNamespacePolicyAnnotations C ns)
    (\<lambda>r h. heldBy uid k h \<and> (r = None \<longrightarrow> ownsWithin uid S h))"
proof -
  have c: "\<not> (om_Annotations ns = None \<or> \<not> snd (dropPolicyAnnotations (om_Annotations ns)))"
    using owned_dropped assms by simp
  have name: "om_Name (withoutPolicy ns) = om_Name ns" by (simp add: withoutPolicy_def)
  show ?thesis
    unfolding remove_eq if_not_P [OF c]
    by (rule leads_bind [OF leads_release [OF assms(1) owner_without name assms(2)]], rule leads_return)
      (auto split: sum.splits)
qed

lemma leads_removeFromAll:
  assumes "\<forall>ns \<in> set nss. ownerOf ns = uid" "uid \<noteq> ''''"
  shows "leads (\<lambda>h. heldBy uid k h \<and> ownsWithin uid (om_Name ` set nss \<union> S) h) (removeFromAll C nss)
    (\<lambda>r h. heldBy uid k h \<and> (r = None \<longrightarrow> ownsWithin uid S h))"
  using assms(1)
proof (induction nss)
  case Nil
  then show ?case by (simp add: leads_return)
next
  case (Cons ns nss)
  have first: "leads (\<lambda>h. heldBy uid k h \<and> ownsWithin uid (insert (om_Name ns) (om_Name ` set nss \<union> S)) h)
      (removeNamespacePolicyAnnotations C ns) (\<lambda>r h. heldBy uid k h \<and> (r = None \<longrightarrow> ownsWithin uid (om_Name ` set nss \<union> S) h))"
    using Cons.prems assms(2) by (intro leads_remove) simp_all
  have rest: "leads (\<lambda>h. heldBy uid k h \<and> (r = None \<longrightarrow> ownsWithin uid (om_Name ` set nss \<union> S) h))
      (case r of Some e \<Rightarrow> State_Monad.return (Some e) | None \<Rightarrow> removeFromAll C nss)
      (\<lambda>r h. heldBy uid k h \<and> (r = None \<longrightarrow> ownsWithin uid S h))" for r
    using Cons by (cases r) (auto intro: leads_return)
  show ?case
    unfolding removeFromAll.simps by (rule leads_bind [OF leads_mono [OF first] rest]) auto
qed

lemma leads_update: "leads (heldBy (om_UID (pc_Meta pc)) k) (updateNamespacePolicyAnnotations C ns pc) (\<lambda>_. heldBy (om_UID (pc_Meta pc)) k)"
proof -
  have owner: "ownerOf (ns\<lparr>om_Annotations := fst (applyPolicyAnnotations pc (om_Annotations ns))\<rparr>) = om_UID (pc_Meta pc)"
    using apply_annotated [of pc "om_Annotations ns"] by (simp add: ownerOf_def annotatedFor_def)
  show ?thesis
    unfolding update_eq
    by (intro leads_branch leads_bind [OF leads_mark [OF owner]] leads_return)
qed

lemma leads_applyToAll: "leads (heldBy (om_UID (pc_Meta pc)) k) (applyToAll C pc n names) (\<lambda>_. heldBy (om_UID (pc_Meta pc)) k)"
proof (induction names arbitrary: n)
  case (Cons nm names)
  show ?case
    unfolding applyToAll.simps
    by (intro leads_bind [OF leads_reads(3) [OF stable_heldBy]] leads_branch leads_bind [OF leads_update] leads_return Cons.IH)
qed (simp add: leads_return)

text \<open>The namespaces listed as managed are all that the policy owns.\<close>

lemma leads_list:
  assumes "stable P" "\<And>h. P h \<Longrightarrow> uid \<noteq> ''''"
  shows "leads P (listManagedPolicyNamespaces C uid) (\<lambda>r h. P h \<and> (\<forall>nss. r = Inr nss \<longrightarrow>
    (\<forall>ns \<in> set nss. ownerOf ns = uid) \<and> ownsWithin uid (om_Name ` set nss) h))"
proof -
  have read: "leads P (api ListNamespaces (cl_ListNamespaces C)) (\<lambda>r h. P h \<and> (\<forall>xs. r = Inr xs \<longrightarrow> set xs = set (snd h)))"
    by (rule leads_read [OF list_namespaces assms(1)])
  show ?thesis
    unfolding listManagedPolicyNamespaces_def
  proof (rule leads_bind [OF read], rule leads_return)
    fix r :: "apiError + namespace list" and h
    assume h: "P h \<and> (\<forall>xs. r = Inr xs \<longrightarrow> set xs = set (snd h))"
    then have "uid \<noteq> ''''" using assms(2) by blast
    then show "P h \<and> (\<forall>nss. (case r of Inl e \<Rightarrow> Inl (Wrap ''list namespaces: %w'' [] (ApiErr e))
        | Inr items \<Rightarrow> Inr (filter (managedBy uid) items)) = Inr nss \<longrightarrow>
      (\<forall>ns \<in> set nss. ownerOf ns = uid) \<and> ownsWithin uid (om_Name ` set nss) h)"
      using h by (cases r) (simp_all add: ownsWithin_def managedBy_owner)
  qed
qed

lemma leads_enforce: "leads (heldBy (om_UID (pc_Meta pc)) k) (enforcePolicy iter C pc) (\<lambda>_. heldBy (om_UID (pc_Meta pc)) k)"
proof -
  let ?uid = "om_UID (pc_Meta pc)"
  let ?P = "heldBy ?uid k"
  have uid: "?P h \<Longrightarrow> ?uid \<noteq> ''''" for h by (simp add: heldBy_def)
  have drop: "leads ?P (removeFromAll C nss) (\<lambda>_. ?P)" if "\<forall>ns \<in> set nss. ownerOf ns = ?uid" for nss
  proof (rule leads_pure [OF uid])
    assume u: "?uid \<noteq> ''''"
    show "leads ?P (removeFromAll C nss) (\<lambda>_. ?P)"
      by (rule leads_mono [OF leads_removeFromAll [OF that u, of k UNIV]]) (auto simp: ownsWithin_def u)
  qed
  have rest: "leads (\<lambda>h. ?P h \<and> (\<forall>nss. r = Inr nss \<longrightarrow> (\<forall>ns \<in> set nss. ownerOf ns = ?uid) \<and> ownsWithin ?uid (om_Name ` set nss) h))
      (case r of Inl e \<Rightarrow> State_Monad.return (Inl e) | Inr managed \<Rightarrow>
        State_Monad.bind (removeFromAll C (filter (\<lambda>ns. om_Name ns \<notin> set (selectedNamespaces pc)) managed))
          (\<lambda>x. case x of None \<Rightarrow> applyToAll C pc 0 (iter (selectedNamespaces pc)) | Some e \<Rightarrow> State_Monad.return (Inl e)))
      (\<lambda>_. ?P)" for r
  proof (cases r)
    case (Inr managed)
    show ?thesis
    proof (rule leads_pure [where b = "\<forall>ns \<in> set managed. ownerOf ns = ?uid"])
      assume own: "\<forall>ns \<in> set managed. ownerOf ns = ?uid"
      have "leads ?P (State_Monad.bind (removeFromAll C (filter (\<lambda>ns. om_Name ns \<notin> set (selectedNamespaces pc)) managed))
          (\<lambda>x. case x of None \<Rightarrow> applyToAll C pc 0 (iter (selectedNamespaces pc)) | Some e \<Rightarrow> State_Monad.return (Inl e))) (\<lambda>_. ?P)"
        using own by (intro leads_bind [OF drop] leads_branch leads_applyToAll leads_return) auto
      then show ?thesis unfolding Inr sum.case by (rule leads_mono) simp_all
    qed (simp add: Inr)
  qed (simp add: leads_return)
  show ?thesis
    unfolding enforcePolicy_def by (rule leads_bind [OF leads_list [OF stable_heldBy uid] rest])
qed

lemma leads_validate: "stable P \<Longrightarrow> leads P (validateReferences K C pc) (\<lambda>_. P)"
  unfolding validateReferences_def Let_def
  by (intro leads_branch leads_return leads_bind [OF leads_reads(1)] leads_bind [OF leads_reads(2)])

lemma leads_setValidated: "stable P \<Longrightarrow> leads P (setValidatedCondition K C pc st reason msg n) (\<lambda>_. P)"
  unfolding setValidatedCondition_def Let_def by (intro leads_bind [OF leads_reads(4)] leads_return)

lemma leads_policyEvent: "leads P (recordPolicyEvent recorder pc ty reason msg) (\<lambda>_. P)"
  unfolding recordPolicyEvent_def by (intro leads_branch leads_return leads_note)

lemma leads_enforceAndReport:
  "leads (heldBy (om_UID (pc_Meta pc)) k) (enforceAndReport iter recorder K C pc) (\<lambda>_. heldBy (om_UID (pc_Meta pc)) k)"
  unfolding enforceAndReport_def
  by (intro leads_bind [OF leads_validate [OF stable_heldBy]] leads_branch leads_bind [OF leads_policyEvent]
      leads_setValidated stable_heldBy leads_bind [OF leads_enforce] leads_bind [OF leads_setValidated [OF stable_heldBy]] leads_return)

text \<open>Adding and removing the finalizer.\<close>

lemma run_patchPolicy:
  assumes "ownersHeld (view (world s))" "P (view (world s))" "stable P" "om_Finalizers (pc_Meta old) \<noteq> om_Finalizers (pc_Meta new)"
  shows "\<exists>h r w'. run_state (api e (cl_PatchPolicy C old new)) s = (r, s\<lparr>world := w', effects := effects s @ [e r]\<rparr>) \<and>
    ownersHeld h \<and> P h \<and> (isl r \<and> view w' = h \<or> finsPatched (pc_Meta new) r h (view w'))"
proof -
  obtain r w' where g: "cl_PatchPolicy C old new (world s) = (r, w')" by force
  have "wellFormed (view (world s))" using assms(1) by (simp add: ownersHeld_def)
  from patch_policy [OF this assms(4) g] obtain h where h: "othersMay (view (world s)) h"
    "isl r \<and> view w' = h \<or> finsPatched (pc_Meta new) r h (view w')" by blast
  have "ownersHeld h" "P h" using h(1) assms stableD [OF stable_ownersHeld] stableD [OF assms(3)] by blast+
  then show ?thesis using g h(2) by (intro exI [of _ h] exI [of _ r] exI [of _ w']) (simp add: run_api)
qed

lemma leads_addFinalizer:
  assumes "externalPolicyFinalizer \<in> set (om_Finalizers (pc_Meta new))" "om_Finalizers (pc_Meta old) \<noteq> om_Finalizers (pc_Meta new)"
  shows "leads (\<lambda>_. True) (api e (cl_PatchPolicy C old new))
    (\<lambda>r h. \<forall>pc. r = Inr pc \<longrightarrow> heldBy (om_UID (pc_Meta pc)) (metaKey (pc_Meta new)) h)"
  unfolding leads_def
proof (intro allI impI)
  fix s assume s: "ownersHeld (view (world s))"
  let ?k = "metaKey (pc_Meta new)" and ?fs = "om_Finalizers (pc_Meta new)"
  obtain h r w' where run: "run_state (api e (cl_PatchPolicy C old new)) s = (r, s\<lparr>world := w', effects := effects s @ [e r]\<rparr>)"
    and h: "ownersHeld h" "isl r \<and> view w' = h \<or> finsPatched (pc_Meta new) r h (view w')"
    using run_patchPolicy [OF s, of "\<lambda>_. True" old new e] assms(2) by (auto simp: stable_def)
  have "ownersHeld (view w') \<and> (\<forall>pc. r = Inr pc \<longrightarrow> heldBy (om_UID (pc_Meta pc)) ?k (view w'))"
    using h(2)
  proof
    assume "finsPatched (pc_Meta new) r h (view w')"
    then have v: "othersMay (withFins ?k ?fs (fst h), snd h) (view w')"
      "\<forall>pc. r = Inr pc \<longrightarrow> pc_Meta pc \<in> set (withFins ?k ?fs (fst h)) \<and> metaKey (pc_Meta pc) = ?k"
      by (simp_all add: finsPatched_def Let_def)
    have held: "ownersHeld (withFins ?k ?fs (fst h), snd h)"
      using held_finalizer_added [of "fst h" "snd h" ?fs ?k] h(1) assms by simp
    have "heldBy (om_UID (pc_Meta pc)) ?k (withFins ?k ?fs (fst h), snd h)" if "r = Inr pc" for pc
    proof -
      have pc: "pc_Meta pc \<in> set (withFins ?k ?fs (fst h))" "metaKey (pc_Meta pc) = ?k" using v(2) that by auto
      obtain m0 where m0: "pc_Meta pc = (if metaKey m0 = ?k then m0\<lparr>om_Finalizers := ?fs\<rparr> else m0)"
        using pc(1) in_withFins by blast
      have "metaKey m0 = ?k" using pc(2) unfolding m0 by (simp split: if_splits)
      then have "holds (pc_Meta pc)" using assms by (simp add: m0)
      moreover have "om_UID (pc_Meta pc) \<noteq> ''''"
        using held pc(1) unfolding ownersHeld_def by (metis wellFormed_UID fst_conv)
      ultimately show ?thesis using pc unfolding heldBy_def fst_conv by blast
    qed
    then show ?thesis using stableD [OF stable_ownersHeld v(1) held] stableD [OF stable_heldBy v(1)] by blast
  qed (use h(1) in auto)
  then show "ownersHeld (view (world (snd (run_state (api e (cl_PatchPolicy C old new)) s)))) \<and>
      (\<forall>pc. fst (run_state (api e (cl_PatchPolicy C old new)) s) = Inr pc \<longrightarrow>
        heldBy (om_UID (pc_Meta pc)) ?k (view (world (snd (run_state (api e (cl_PatchPolicy C old new)) s)))))"
    by (simp add: run)
qed

lemma leads_dropFinalizer:
  assumes "metaKey (pc_Meta new) = k" "om_Finalizers (pc_Meta old) \<noteq> om_Finalizers (pc_Meta new)"
  shows "leads (\<lambda>h. heldBy uid k h \<and> ownsWithin uid {} h) (api e (cl_PatchPolicy C old new)) (\<lambda>_ _. True)"
  unfolding leads_def
proof (intro allI impI)
  fix s assume s: "ownersHeld (view (world s))" "heldBy uid k (view (world s)) \<and> ownsWithin uid {} (view (world s))"
  obtain h r w' where run: "run_state (api e (cl_PatchPolicy C old new)) s = (r, s\<lparr>world := w', effects := effects s @ [e r]\<rparr>)"
    and h: "ownersHeld h" "heldBy uid k h \<and> ownsWithin uid {} h"
      "view w' = h \<or> othersMay (withFins k (om_Finalizers (pc_Meta new)) (fst h), snd h) (view w')"
    using run_patchPolicy [OF s stable_conj [OF stable_heldBy stable_ownsWithin] assms(2), of e] assms(1)
    unfolding finsPatched_def Let_def by blast
  have "ownersHeld (withFins k (om_Finalizers (pc_Meta new)) (fst h), snd h)"
    using held_finalizer_removed [of "fst h" "snd h" uid k] h(1,2) by simp
  then have "ownersHeld (view w')" using h(1,3) stableD [OF stable_ownersHeld] by metis
  then show "ownersHeld (view (world (snd (run_state (api e (cl_PatchPolicy C old new)) s)))) \<and> True"
    by (simp add: run)
qed

text \<open>The release of all namespaces, and then of the finalizer.\<close>

lemma leads_clear:
  "leads (heldBy (om_UID (pc_Meta pc)) k) (clearPolicyEnforcement C pc)
    (\<lambda>r h. heldBy (om_UID (pc_Meta pc)) k h \<and> (r = None \<longrightarrow> ownsWithin (om_UID (pc_Meta pc)) {} h))"
proof -
  let ?uid = "om_UID (pc_Meta pc)"
  have uid: "heldBy ?uid k h \<Longrightarrow> ?uid \<noteq> ''''" for h by (simp add: heldBy_def)
  have remove: "leads (\<lambda>h. heldBy ?uid k h \<and> (\<forall>nss. r = Inr nss \<longrightarrow>
      (\<forall>ns \<in> set nss. ownerOf ns = ?uid) \<and> ownsWithin ?uid (om_Name ` set nss) h))
      (removeFromAll C managed) (\<lambda>r h. heldBy ?uid k h \<and> (r = None \<longrightarrow> ownsWithin ?uid {} h))"
    if r: "r = Inr managed" for r :: "goError + namespace list" and managed
  proof (rule leads_pure [where b = "(\<forall>ns \<in> set managed. ownerOf ns = ?uid) \<and> ?uid \<noteq> ''''"])
    assume b: "(\<forall>ns \<in> set managed. ownerOf ns = ?uid) \<and> ?uid \<noteq> ''''"
    show ?thesis by (rule leads_mono [OF leads_removeFromAll [of managed ?uid k "{}"]]) (use b r in auto)
  qed (use uid r in auto)
  show ?thesis
    unfolding clearPolicyEnforcement_def
    by (intro leads_bind [OF leads_list [OF stable_heldBy uid]] leads_case_sum remove leads_return) simp_all
qed

lemma leads_finalize:
  assumes "finalizers_documented K"
  shows "leads (\<lambda>h. holds (pc_Meta pc) \<longrightarrow> heldBy (om_UID (pc_Meta pc)) (metaKey (pc_Meta pc)) h)
    (finalizePolicy K C pc) (\<lambda>_ _. True)"
proof (cases "holds (pc_Meta pc)")
  case False
  then have "\<not> containsFinalizer K (om_Finalizers (pc_Meta pc)) externalPolicyFinalizer"
    using assms by (simp add: finalizers_documented_def holds_def)
  then show ?thesis by (simp add: finalizePolicy_def leads_return)
next
  case True
  let ?uid = "om_UID (pc_Meta pc)" and ?k = "metaKey (pc_Meta pc)"
  let ?pc = "withFinalizers (\<lambda>fs. removeFinalizer K fs externalPolicyFinalizer) pc"
  have "externalPolicyFinalizer \<notin> set (om_Finalizers (pc_Meta ?pc))"
    using assms by (simp add: finalizers_documented_def withFinalizers_def)
  then have fins: "om_Finalizers (pc_Meta pc) \<noteq> om_Finalizers (pc_Meta ?pc)"
    using True unfolding holds_def by metis
  have drop: "leads (\<lambda>h. heldBy ?uid ?k h \<and> ownsWithin ?uid {} h) (api e (cl_PatchPolicy C pc ?pc)) (\<lambda>_ _. True)" for e
    by (rule leads_dropFinalizer [OF _ fins]) (simp add: withFinalizers_def)
  have release: "leads (\<lambda>h. heldBy ?uid ?k h \<and> (r = None \<longrightarrow> ownsWithin ?uid {} h)) (api e (cl_PatchPolicy C pc ?pc)) (\<lambda>_ _. True)"
    if "r = None" for e and r :: "goError option"
    using drop that by simp
  have "leads (heldBy ?uid ?k) (finalizePolicy K C pc) (\<lambda>_ _. True)"
    unfolding finalizePolicy_def Let_def
    by (intro leads_branch leads_bind [OF leads_clear] leads_bind [OF release] leads_return) simp_all
  then show ?thesis by (rule leads_mono) (use True in auto)
qed

text \<open>A policy as it was read: if it has the finalizer, it holds what it owns.\<close>

definition readHeld :: "policy \<Rightarrow> holdings \<Rightarrow> bool" where
  "readHeld pc h \<longleftrightarrow> (holds (pc_Meta pc) \<longrightarrow> heldBy (om_UID (pc_Meta pc)) (metaKey (pc_Meta pc)) h)"

lemma leads_getPolicy: "leads (\<lambda>_. True) (api e (cl_GetPolicy C ns n)) (\<lambda>r h. \<forall>pc. r = Inr pc \<longrightarrow> readHeld pc h)"
proof -
  have "leads (\<lambda>_. True) (api e (cl_GetPolicy C ns n)) (\<lambda>r h. True \<and> (\<forall>pc. r = Inr pc \<longrightarrow> readHeld pc h))"
  proof (rule leads_read)
    fix w r w' assume w: "wellFormed (view w)" "cl_GetPolicy C ns n w = (r, w')"
    have m: "othersMay (view w) (view w')" "\<forall>pc. r = Inr pc \<longrightarrow> pc_Meta pc \<in> set (fst (view w'))"
      using get_policy [OF w] by blast+
    have "wellFormed (view w')" by (rule othersMay_wf [OF m(1)])
    then show "othersMay (view w) (view w') \<and> (\<forall>pc. r = Inr pc \<longrightarrow> readHeld pc (view w'))"
      using m wellFormed_UID unfolding readHeld_def heldBy_def by blast
  qed (simp add: stable_def)
  then show ?thesis by simp
qed

lemma leads_adopt:
  assumes "finalizers_documented K" "externalPolicyFinalizer \<notin> set (om_Finalizers (pc_Meta pc0))"
  shows "leads (\<lambda>_. True) (api e (cl_PatchPolicy C pc0 (withFinalizers (\<lambda>fs. addFinalizer K fs externalPolicyFinalizer) pc0)))
      (\<lambda>r h. \<forall>pc. r = Inr pc \<longrightarrow> heldBy (om_UID (pc_Meta pc)) (metaKey (pc_Meta pc0)) h)"
proof -
  have added: "externalPolicyFinalizer \<in> set (addFinalizer K fs externalPolicyFinalizer)" for fs
    using assms(1) by (simp add: finalizers_documented_def)
  then have "om_Finalizers (pc_Meta pc0) \<noteq> addFinalizer K (om_Finalizers (pc_Meta pc0)) externalPolicyFinalizer"
    using assms(2) by metis
  then show ?thesis by (intro leads_mono [OF leads_addFinalizer]) (simp_all add: withFinalizers_def added)
qed

lemma leads_reconcilePolicy:
  assumes "finalizers_documented K"
  shows "leads (\<lambda>_. True) (reconcilePolicy iter recorder K C ns n) (\<lambda>_ _. True)"
proof -
  have contains: "containsFinalizer K fs externalPolicyFinalizer \<longleftrightarrow> externalPolicyFinalizer \<in> set fs" for fs
    using assms by (simp add: finalizers_documented_def)
  have finalize: "leads (\<lambda>h. \<forall>pc. r = Inr pc \<longrightarrow> readHeld pc h) (finalizePolicy K C pc) (\<lambda>_ _. True)"
    if "r = Inr pc" for r :: "apiError + policy" and pc
    by (rule leads_mono [OF leads_finalize [OF assms]]) (use that in \<open>simp_all add: readHeld_def\<close>)
  have enforce: "leads (\<lambda>h. \<forall>pc. r = Inr pc \<longrightarrow> readHeld pc h) (enforceAndReport iter recorder K C pc) (\<lambda>_ _. True)"
    if "r = Inr pc" "externalPolicyFinalizer \<in> set (om_Finalizers (pc_Meta pc))" for r :: "apiError + policy" and pc
    by (rule leads_mono [OF leads_enforceAndReport [of pc "metaKey (pc_Meta pc)"]]) (use that in \<open>simp_all add: readHeld_def holds_def\<close>)
  have adopt: "leads (\<lambda>h. \<forall>pc. r = Inr pc \<longrightarrow> readHeld pc h)
      (api e (cl_PatchPolicy C pc0 (withFinalizers (\<lambda>fs. addFinalizer K fs externalPolicyFinalizer) pc0)))
      (\<lambda>r h. \<forall>pc. r = Inr pc \<longrightarrow> heldBy (om_UID (pc_Meta pc)) (metaKey (pc_Meta pc0)) h)"
    if "externalPolicyFinalizer \<notin> set (om_Finalizers (pc_Meta pc0))" for e pc0 and r :: "apiError + policy"
    by (rule leads_mono [OF leads_adopt [OF assms that]]) simp_all
  have adopted: "leads (\<lambda>h. \<forall>pc. r = Inr pc \<longrightarrow> heldBy (om_UID (pc_Meta pc)) k h) (enforceAndReport iter recorder K C pc) (\<lambda>_ _. True)"
    if "r = Inr pc" for r :: "apiError + policy" and pc k
    by (rule leads_mono [OF leads_enforceAndReport]) (use that in simp_all)
  show ?thesis
    unfolding reconcilePolicy_def Let_def contains
    by (intro leads_bind [OF leads_getPolicy] leads_case_sum leads_return leads_if finalize enforce
        leads_bind [OF adopt] adopted) simp_all
qed

lemma reconcile_holds:
  "finalizers_documented K \<Longrightarrow> ownersHeld (view (world s)) \<Longrightarrow>
    ownersHeld (view (world (snd (run_state (reconcilePolicy iter recorder K C ns n) s))))"
  using leads_reconcilePolicy unfolding leads_def by blast

end

section \<open>Runs\<close>

text \<open>
  The states a cluster goes through while the policy controller runs: others act, and the controller
  reconciles any policy, one at a time.  Each reconcile may meet others and failures at every call; one
  that is killed halfway does what it does when the rest of its calls are refused.
\<close>

inductive policyRuns :: "k8s \<Rightarrow> 'w client \<Rightarrow> ('w \<Rightarrow> holdings) \<Rightarrow> 'w \<Rightarrow> bool" for K C view where
  start: "wellFormed (view w) \<Longrightarrow> \<forall>n \<in> set (snd (view w)). ownerOf n = '''' \<Longrightarrow> policyRuns K C view w"
| others: "policyRuns K C view w \<Longrightarrow> othersMay (view w) (view w') \<Longrightarrow> policyRuns K C view w'"
| reconcile: "policyRuns K C view (world s) \<Longrightarrow>
    policyRuns K C view (world (snd (run_state (reconcilePolicy iter recorder K C ns n) s)))"

lemma policyRuns_held:
  assumes "policyRuns K C view w" "shared_server C view" "finalizers_documented K"
  shows "ownersHeld (view w)"
  using assms(1)
proof induction
  case (start w)
  then show ?case by (simp add: ownersHeld_def)
next
  case (others w w')
  then show ?case using stableD [OF stable_ownersHeld] by blast
next
  case (reconcile s iter recorder ns n)
  then show ?case
    using shared_server.reconcile_holds [OF assms(2,3)] by blast
qed

end
