(* ===== verification/SharedCluster.thy ===== *)
theory SharedCluster
  imports Ownership Scripted
begin

text \<open>
  A cluster in memory that others use at the same time: before each call of the controller, the
  actions of the next entry of a script take place, and the call is answered, refused, or takes effect
  while its answer is lost.  It is a \<open>shared_server\<close>, whatever the script.
\<close>

section \<open>Others\<close>

datatype userAct =
    CreatePolicy string string policySpec
  | EditPolicy string string policySpec
  | DeletePolicy string string
  | CreateNamespace string
  | DeleteNamespace string
  | AnnotateNamespace string string string

record shared = "userAct scripted" +
  sh_Policies :: "policy list"
  sh_Namespaces :: "namespace list"
  sh_Pools :: "pool list"
  sh_Profiles :: "profile list"
  sh_NextUID :: nat

definition sharedView :: "shared \<Rightarrow> holdings" where
  "sharedView w = (map pc_Meta (sh_Policies w), sh_Namespaces w)"

definition policyId :: "policy \<Rightarrow> string \<times> string" where
  "policyId pc = metaKey (pc_Meta pc)"

definition newMeta :: "string \<Rightarrow> string \<Rightarrow> string \<Rightarrow> objectMeta" where
  "newMeta ns n uid =
     \<lparr>om_Name = n, om_Namespace = ns, om_UID = uid, om_ResourceVersion = ''1'', om_Generation = 1,
      om_CreationTimestamp = 1, om_DeletionTimestamp = None, om_Annotations = None, om_Finalizers = []\<rparr>"

definition freshUID :: "nat \<Rightarrow> string" where
  "freshUID n = CHR ''u'' # replicate n CHR ''1''"

definition markDeleted :: "policy \<Rightarrow> policy" where
  "markDeleted pc = pc\<lparr>pc_Meta := (pc_Meta pc)\<lparr>om_DeletionTimestamp := Some 1\<rparr>\<rparr>"

text \<open>A new spec is a new generation.\<close>

definition edited :: "policySpec \<Rightarrow> policy \<Rightarrow> policy" where
  "edited spec pc = pc\<lparr>pc_Spec := spec, pc_Meta := (pc_Meta pc)\<lparr>om_Generation := om_Generation (pc_Meta pc) + 1\<rparr>\<rparr>"

text \<open>
  Deleting an object that has finalizers marks it; without, it removes it.  Annotations other than
  those of the policies are everyone's.
\<close>

fun act :: "userAct \<Rightarrow> shared \<Rightarrow> shared" where
  "act (CreatePolicy ns n spec) w =
     (if (ns, n) \<in> policyId ` set (sh_Policies w) then w
      else w\<lparr>sh_Policies := sh_Policies w @
          [\<lparr>pc_Meta = newMeta ns n (freshUID (sh_NextUID w)), pc_Spec = spec, pc_Status = noStatus, pc_AppliedNodes = 0\<rparr>],
        sh_NextUID := sh_NextUID w + 1\<rparr>)"
| "act (EditPolicy ns n spec) w =
     w\<lparr>sh_Policies := map (\<lambda>pc. if policyId pc = (ns, n) then edited spec pc else pc) (sh_Policies w)\<rparr>"
| "act (DeletePolicy ns n) w =
     w\<lparr>sh_Policies := map (\<lambda>pc. if policyId pc = (ns, n) then markDeleted pc else pc)
        (filter (\<lambda>pc. policyId pc \<noteq> (ns, n) \<or> om_Finalizers (pc_Meta pc) \<noteq> []) (sh_Policies w))\<rparr>"
| "act (CreateNamespace n) w =
     (if n \<in> om_Name ` set (sh_Namespaces w) then w
      else w\<lparr>sh_Namespaces := sh_Namespaces w @ [newMeta '''' n n]\<rparr>)"
| "act (DeleteNamespace n) w = w\<lparr>sh_Namespaces := filter (\<lambda>ns. om_Name ns \<noteq> n) (sh_Namespaces w)\<rparr>"
| "act (AnnotateNamespace n k v) w =
     (if k \<in> set policyAnnotationKeys then w
      else w\<lparr>sh_Namespaces := map (\<lambda>ns. if om_Name ns = n
        then ns\<lparr>om_Annotations := gm_set k v (om_Annotations ns)\<rparr> else ns) (sh_Namespaces w)\<rparr>)"

section \<open>The server\<close>

text \<open>The merge patches of the sources: the finalizers of a policy, the annotations of a namespace.\<close>

definition patchFinalizers :: "policy \<Rightarrow> policy \<Rightarrow> shared \<Rightarrow> (apiError + policy) \<times> shared" where
  "patchFinalizers old new w =
     (case lookupBy policyId (policyId new) (sh_Policies w) of
        Inl e \<Rightarrow> (Inl e, w)
      | Inr pc \<Rightarrow>
          if om_Finalizers (pc_Meta old) = om_Finalizers (pc_Meta new) then (Inr pc, w)
          else let pc' = withFinalizers (\<lambda>_. om_Finalizers (pc_Meta new)) pc in
            (Inr pc', w\<lparr>sh_Policies := filter (\<lambda>pc. \<not> (policyId pc = policyId new \<and> om_Finalizers (pc_Meta pc) = [] \<and> isDeleting pc))
               (map (\<lambda>pc. if policyId pc = policyId new then withFinalizers (\<lambda>_. om_Finalizers (pc_Meta new)) pc else pc) (sh_Policies w))\<rparr>))"

definition patchAnnotations :: "namespace \<Rightarrow> namespace \<Rightarrow> shared \<Rightarrow> (apiError + namespace) \<times> shared" where
  "patchAnnotations old new w =
     (let f = (\<lambda>ns. ns\<lparr>om_Annotations := mergeMap (om_Annotations old) (om_Annotations new) (om_Annotations ns)\<rparr>) in
      case lookupBy om_Name (om_Name new) (sh_Namespaces w) of
        Inl e \<Rightarrow> (Inl e, w)
      | Inr ns \<Rightarrow> (Inr (f ns), w\<lparr>sh_Namespaces := map (\<lambda>ns. if om_Name ns = om_Name new then f ns else ns) (sh_Namespaces w)\<rparr>))"

definition patchStatus :: "policy \<Rightarrow> policy \<Rightarrow> shared \<Rightarrow> (apiError + policy) \<times> shared" where
  "patchStatus old new w =
     (let f = (\<lambda>pc. pc\<lparr>pc_Status := pc_Status new, pc_AppliedNodes := pc_AppliedNodes new\<rparr>) in
      case lookupBy policyId (policyId new) (sh_Policies w) of
        Inl e \<Rightarrow> (Inl e, w)
      | Inr pc \<Rightarrow> (Inr (f pc), w\<lparr>sh_Policies := map (\<lambda>pc. if policyId pc = policyId new then f pc else pc) (sh_Policies w)\<rparr>))"

text \<open>The policy controller makes none of the other calls.\<close>

definition sharedClient :: "shared client" where
  "sharedClient =
     \<lparr>cl_GetPool = (\<lambda>ns n. meets act (\<lambda>w. (lookupBy (metaKey \<circ> po_Meta) (ns, n) (sh_Pools w), w))),
      cl_ListPools = (\<lambda>ns. meets act (\<lambda>w. (Inr (filter (\<lambda>p. om_Namespace (po_Meta p) = ns) (sh_Pools w)), w))),
      cl_PatchPool = (\<lambda>old new. meets act (\<lambda>w. (Inl (OtherApiError ''forbidden''), w))),
      cl_PatchPoolStatus = (\<lambda>old new. meets act (\<lambda>w. (Inl (OtherApiError ''forbidden''), w))),
      cl_GetProfile = (\<lambda>ns n. meets act (\<lambda>w. (lookupBy (metaKey \<circ> pr_Meta) (ns, n) (sh_Profiles w), w))),
      cl_PatchProfileStatus = (\<lambda>old new. meets act (\<lambda>w. (Inl (OtherApiError ''forbidden''), w))),
      cl_GetPolicy = (\<lambda>ns n. meets act (\<lambda>w. (lookupBy policyId (ns, n) (sh_Policies w), w))),
      cl_ListPolicies = (\<lambda>ns. meets act (\<lambda>w.
        (Inr (filter (\<lambda>p. ns = None \<or> ns = Some (om_Namespace (pc_Meta p))) (sh_Policies w)), w))),
      cl_PatchPolicy = (\<lambda>old new. meets act (patchFinalizers old new)),
      cl_PatchPolicyStatus = (\<lambda>old new. meets act (patchStatus old new)),
      cl_GetNamespace = (\<lambda>n. meets act (\<lambda>w. (lookupBy om_Name n (sh_Namespaces w), w))),
      cl_ListNamespaces = meets act (\<lambda>w. (Inr (sh_Namespaces w), w)),
      cl_PatchNamespace = (\<lambda>old new. meets act (patchAnnotations old new)),
      cl_GetConfigMap = (\<lambda>ns n. meets act (\<lambda>w. (Inl NotFound, w))),
      cl_CreateOrUpdate = (\<lambda>cm f. meets act (\<lambda>w. (Inl (OtherApiError ''forbidden''), w))),
      cl_Now = (\<lambda>w. (1, w))\<rparr>"

section \<open>It is a shared server\<close>

lemma lookupBy_in: "lookupBy f k xs = Inr x \<Longrightarrow> x \<in> set xs \<and> f x = k"
  by (auto simp: lookupBy_def find_Some_iff split: option.splits)

lemma lookupBy_not: "lookupBy f k xs = Inl e \<Longrightarrow> k \<notin> f ` set xs"
  by (auto simp: lookupBy_def find_None_iff split: option.splits)

lemma freshUID_not: "freshUID n \<noteq> ''''" "'''' \<noteq> freshUID n"
  by (simp_all add: freshUID_def)

lemma newMeta_simps [simp]: "metaKey (newMeta ns n uid) = (ns, n)" "om_Name (newMeta ns n uid) = n"
  "om_UID (newMeta ns n uid) = uid" "ownerOf (newMeta ns n uid) = ''''"
  by (simp_all add: newMeta_def metaKey_def ownerOf_def gm_index_def)

lemma markDeleted_simps [simp]: "policyId (markDeleted pc) = policyId pc" "om_UID (pc_Meta (markDeleted pc)) = om_UID (pc_Meta pc)"
  "om_Finalizers (pc_Meta (markDeleted pc)) = om_Finalizers (pc_Meta pc)"
  by (simp_all add: markDeleted_def policyId_def metaKey_def holds_def)

lemma edited_simps [simp]: "policyId (edited spec pc) = policyId pc" "om_UID (pc_Meta (edited spec pc)) = om_UID (pc_Meta pc)"
  "om_Finalizers (pc_Meta (edited spec pc)) = om_Finalizers (pc_Meta pc)"
  by (simp_all add: edited_def policyId_def metaKey_def)

lemma sharedView_wf: "wellFormed (sharedView w) \<longleftrightarrow>
    distinct (map policyId (sh_Policies w)) \<and> distinct (map om_Name (sh_Namespaces w)) \<and>
    '''' \<notin> (om_UID \<circ> pc_Meta) ` set (sh_Policies w)"
  by (simp add: wellFormed_def sharedView_def policyId_def [abs_def] comp_def image_image)

lemma may_shared:
  "othersMay (sharedView w) (sharedView w') \<longleftrightarrow> wellFormed (sharedView w') \<and>
     (\<forall>pc \<in> set (sh_Policies w). holds (pc_Meta pc) \<longrightarrow> (\<exists>pc' \<in> set (sh_Policies w').
        policyId pc' = policyId pc \<and> om_UID (pc_Meta pc') = om_UID (pc_Meta pc) \<and> holds (pc_Meta pc'))) \<and>
     (\<forall>n' \<in> set (sh_Namespaces w'). ownerOf n' \<noteq> '''' \<longrightarrow>
        (\<exists>n \<in> set (sh_Namespaces w). om_Name n = om_Name n' \<and> ownerOf n = ownerOf n'))"
  by (simp add: othersMay_def sharedView_def policyId_def)

lemma map_if_keys: "(\<And>x. key (f x) = key x) \<Longrightarrow> map key (map (\<lambda>x. if P x then f x else x) xs) = map key xs"
  by (induction xs) simp_all

lemma act_may:
  assumes "wellFormed (sharedView w)"
  shows "othersMay (sharedView w) (sharedView (act a w))"
proof (cases a)
  case (CreatePolicy ns n spec)
  then show ?thesis
    using assms freshUID_not unfolding may_shared sharedView_wf by (auto simp: policyId_def)
next
  case (EditPolicy ns n spec)
  have "distinct (map policyId (sh_Policies (act a w)))"
    using assms unfolding sharedView_wf EditPolicy by (simp add: map_if_keys del: map_map)
  moreover have "'''' \<notin> (om_UID \<circ> pc_Meta) ` set (sh_Policies (act a w))"
    using assms unfolding sharedView_wf EditPolicy by auto
  moreover have "\<exists>pc' \<in> set (sh_Policies (act a w)). policyId pc' = policyId pc \<and>
      om_UID (pc_Meta pc') = om_UID (pc_Meta pc) \<and> holds (pc_Meta pc')"
    if "pc \<in> set (sh_Policies w)" "holds (pc_Meta pc)" for pc
    using that unfolding EditPolicy
    by (intro bexI [of _ "if policyId pc = (ns, n) then edited spec pc else pc"]) (auto simp: holds_def)
  moreover have "sh_Namespaces (act a w) = sh_Namespaces w" by (simp add: EditPolicy)
  ultimately show ?thesis
    using assms unfolding may_shared sharedView_wf by (intro conjI) metis+
next
  case (DeletePolicy ns n)
  have "distinct (map policyId (sh_Policies (act a w)))"
    using assms unfolding sharedView_wf DeletePolicy
    by (simp add: map_if_keys distinct_map_filter del: map_map)
  moreover have "'''' \<notin> (om_UID \<circ> pc_Meta) ` set (sh_Policies (act a w))"
    using assms unfolding sharedView_wf DeletePolicy by auto
  moreover have "\<exists>pc' \<in> set (sh_Policies (act a w)). policyId pc' = policyId pc \<and>
      om_UID (pc_Meta pc') = om_UID (pc_Meta pc) \<and> holds (pc_Meta pc')"
    if "pc \<in> set (sh_Policies w)" "holds (pc_Meta pc)" for pc
    using that unfolding DeletePolicy
    by (intro bexI [of _ "if policyId pc = (ns, n) then markDeleted pc else pc"]) (auto simp: holds_def)
  ultimately show ?thesis
    using assms unfolding may_shared sharedView_wf by (auto simp: DeletePolicy)
next
  case (CreateNamespace n)
  then show ?thesis using assms unfolding may_shared sharedView_wf by auto
next
  case (DeleteNamespace n)
  then show ?thesis using assms unfolding may_shared sharedView_wf by (auto simp: distinct_map_filter)
next
  case (AnnotateNamespace n k v)
  have "ownerOf (ns\<lparr>om_Annotations := gm_set k v (om_Annotations ns)\<rparr>) = ownerOf ns"
    if "k \<notin> set policyAnnotationKeys" for ns
    using that by (auto simp: ownerOf_def policyAnnotationKeys_def)
  then show ?thesis
    using assms unfolding AnnotateNamespace may_shared sharedView_wf
    by (auto simp: comp_def if_distrib cong: if_cong)
qed

lemma sharedView_script [simp]: "sharedView (w\<lparr>sc_Script := s\<rparr>) = sharedView w"
  by (simp add: sharedView_def)

interpretation others: scripted_others act "\<lambda>w. wellFormed (sharedView w)" "\<lambda>w w'. othersMay (sharedView w) (sharedView w')"
  by unfold_locales (simp_all add: othersMay_refl act_may othersMay_wf, rule othersMay_trans)

lemma shared_read:
  "wellFormed (sharedView w) \<Longrightarrow> meets act (\<lambda>w. (g w, w)) w = (r, w') \<Longrightarrow>
    othersMay (sharedView w) (sharedView w') \<and> (\<forall>x. r = Inr x \<longrightarrow> g w' = Inr x)"
  using others.meets_read by blast

lemma withFinalizers_simps [simp]: "policyId (withFinalizers f pc) = policyId pc"
  "pc_Meta (withFinalizers f pc) = (pc_Meta pc)\<lparr>om_Finalizers := f (om_Finalizers (pc_Meta pc))\<rparr>"
  by (simp_all add: withFinalizers_def policyId_def metaKey_def)

lemma patchStatus_view: "sharedView (snd (patchStatus old new w)) = sharedView w"
  by (auto simp: patchStatus_def sharedView_def Let_def comp_def if_distrib cong: if_cong split: sum.split)

lemma patchAnnotations_patched:
  "sh_Policies (snd (patchAnnotations old new w)) = sh_Policies w \<and>
   ownerPatched old new (sh_Namespaces w) (sh_Namespaces (snd (patchAnnotations old new w)))"
proof (cases "lookupBy om_Name (om_Name new) (sh_Namespaces w)")
  case (Inl e)
  have "om_Name n \<noteq> om_Name new" if "n \<in> set (sh_Namespaces w)" for n
    using lookupBy_not [OF Inl] that by (metis imageI)
  then show ?thesis
    using Inl by (auto simp: patchAnnotations_def Let_def ownerPatched_def intro!: list.rel_refl_strong)
next
  case (Inr ns)
  have owner: "ownerOf (n\<lparr>om_Annotations := mergeMap (om_Annotations old) (om_Annotations new) (om_Annotations n)\<rparr>) =
      (if ownerChanged old new then ownerOf new else ownerOf n)" for n
    by (simp add: ownerOf_def gm_index_def mergeMap_get ownerChanged_def)
  show ?thesis
    using Inr by (simp add: patchAnnotations_def Let_def ownerPatched_def list.rel_map owner list_all2_same)
qed

lemma patchFinalizers_patched:
  assumes "wellFormed (sharedView w)" "om_Finalizers (pc_Meta old) \<noteq> om_Finalizers (pc_Meta new)"
    and "patchFinalizers old new w = (r, w')"
  shows "finsPatched (pc_Meta new) r (sharedView w) (sharedView w')"
proof -
  let ?fs = "om_Finalizers (pc_Meta new)" and ?k = "policyId new"
  let ?ps = "map (\<lambda>pc. if policyId pc = ?k then withFinalizers (\<lambda>_. ?fs) pc else pc) (sh_Policies w)"
  define w1 where "w1 = w\<lparr>sh_Policies := ?ps\<rparr>"
  have view: "sharedView w1 = (withFins (metaKey (pc_Meta new)) ?fs (fst (sharedView w)), snd (sharedView w))"
    by (simp add: sharedView_def w1_def withFins_def policyId_def comp_def if_distrib cong: if_cong)
  have wf: "wellFormed (sharedView w1)"
    using assms(1) unfolding view wellFormed_withFins by simp
  show ?thesis
  proof (cases "lookupBy policyId ?k (sh_Policies w)")
    case (Inl e)
    have "policyId pc \<noteq> ?k" if "pc \<in> set (sh_Policies w)" for pc
      using lookupBy_not [OF Inl] that by (metis imageI)
    then have "?ps = sh_Policies w" by (intro map_idI) simp
    then have "w1 = w" by (simp add: w1_def)
    then show ?thesis
      using assms(3) Inl othersMay_refl [OF wf] unfolding finsPatched_def Let_def view [symmetric]
      by (auto simp: patchFinalizers_def)
  next
    case (Inr pc)
    have w': "w' = w1\<lparr>sh_Policies := filter (\<lambda>pc. \<not> (policyId pc = ?k \<and> om_Finalizers (pc_Meta pc) = [] \<and> isDeleting pc)) ?ps\<rparr>"
      "r = Inr (withFinalizers (\<lambda>_. ?fs) pc)"
      using assms(2,3) Inr by (auto simp: patchFinalizers_def Let_def w1_def)
    have may: "othersMay (sharedView w1) (sharedView w')"
      using wf unfolding may_shared sharedView_wf w'
      by (auto simp: w1_def distinct_map_filter holds_def simp del: map_map)
    have key: "policyId pc = ?k" using lookupBy_in [OF Inr] by simp
    have "withFinalizers (\<lambda>_. ?fs) pc \<in> set ?ps"
      using lookupBy_in [OF Inr] by (auto simp: image_iff intro!: bexI [of _ pc])
    then have "pc_Meta (withFinalizers (\<lambda>_. ?fs) pc) \<in> pc_Meta ` set ?ps" by (rule imageI)
    moreover have "sh_Policies w1 = ?ps" by (simp add: w1_def)
    then have "set (fst (sharedView w1)) = pc_Meta ` set ?ps" by (simp only: sharedView_def fst_conv set_map)
    ultimately have "pc_Meta (withFinalizers (\<lambda>_. ?fs) pc) \<in> set (fst (sharedView w1))" by simp
    moreover have "metaKey (pc_Meta (withFinalizers (\<lambda>_. ?fs) pc)) = metaKey (pc_Meta new)"
      using key by (simp add: policyId_def)
    ultimately show ?thesis
      using may unfolding finsPatched_def Let_def view [symmetric] w'(2) by simp
  qed
qed

lemma shared_policy:
  fixes r :: "apiError + policy"
  assumes w: "wellFormed (sharedView w)" "cl_GetPolicy sharedClient ns n w = (r, w')"
  shows "othersMay (sharedView w) (sharedView w') \<and>
      (\<forall>pc. r = Inr pc \<longrightarrow> pc_Meta pc \<in> set (fst (sharedView w')) \<and> metaKey (pc_Meta pc) = (ns, n))"
proof -
  have "othersMay (sharedView w) (sharedView w') \<and> (\<forall>x. r = Inr x \<longrightarrow> lookupBy policyId (ns, n) (sh_Policies w') = Inr x)"
    by (rule shared_read [OF w(1)]) (use w(2) in \<open>simp add: sharedClient_def\<close>)
  then show ?thesis
    using lookupBy_in [of policyId "(ns, n)" "sh_Policies w'"] unfolding sharedView_def fst_conv set_map policyId_def
    by blast
qed

lemma shared_patch:
  fixes r :: "apiError + policy"
  assumes w: "wellFormed (sharedView w)" "om_Finalizers (pc_Meta old) \<noteq> om_Finalizers (pc_Meta new)" "cl_PatchPolicy sharedClient old new w = (r, w')"
  shows "\<exists>h. othersMay (sharedView w) h \<and> (isl r \<and> sharedView w' = h \<or> finsPatched (pc_Meta new) r h (sharedView w'))"
proof -
  have m: "meets act (patchFinalizers old new) w = (r, w')" using w(3) by (simp add: sharedClient_def)
  show ?thesis
  proof -
    obtain w1 where w1: "othersMay (sharedView w) (sharedView w1)"
      "isl r \<and> w' = w1 \<or> w' = snd (patchFinalizers old new w1) \<and> (isl r \<or> r = fst (patchFinalizers old new w1))"
      using others.meets_may [OF w(1) m] by blast
    have "finsPatched (pc_Meta new) (fst (patchFinalizers old new w1)) (sharedView w1) (sharedView (snd (patchFinalizers old new w1)))"
      by (rule patchFinalizers_patched [OF othersMay_wf [OF w1(1)] w(2)]) simp
    then have "finsPatched (pc_Meta new) r (sharedView w1) (sharedView w')" if "\<not> (isl r \<and> w' = w1)"
      using that w1(2) by (auto simp: finsPatched_def Let_def)
    then show ?thesis using w1(1) by blast
  qed
qed

lemma shared_status:
  fixes r :: "apiError + policy"
  assumes w: "wellFormed (sharedView w)" "cl_PatchPolicyStatus sharedClient old new w = (r, w')"
  shows "othersMay (sharedView w) (sharedView w')"
proof -
  have m: "meets act (patchStatus old new) w = (r, w')" using w(2) by (simp add: sharedClient_def)
  show ?thesis
    using others.meets_may [OF w(1) m] unfolding patchStatus_view by (elim exE conjE disjE) (simp_all add: patchStatus_view)
qed

lemma shared_pool:
  fixes r :: "apiError + pool"
  assumes w: "wellFormed (sharedView w)" "cl_GetPool sharedClient ns n w = (r, w')"
  shows "othersMay (sharedView w) (sharedView w')"
proof -
  have "othersMay (sharedView w) (sharedView w') \<and> (\<forall>x. r = Inr x \<longrightarrow> lookupBy (metaKey \<circ> po_Meta) (ns, n) (sh_Pools w') = Inr x)"
    by (rule shared_read [OF w(1)]) (use w(2) in \<open>simp add: sharedClient_def comp_def\<close>)
  then show ?thesis by blast
qed

lemma shared_profile:
  fixes r :: "apiError + profile"
  assumes w: "wellFormed (sharedView w)" "cl_GetProfile sharedClient ns n w = (r, w')"
  shows "othersMay (sharedView w) (sharedView w')"
proof -
  have "othersMay (sharedView w) (sharedView w') \<and> (\<forall>x. r = Inr x \<longrightarrow> lookupBy (metaKey \<circ> pr_Meta) (ns, n) (sh_Profiles w') = Inr x)"
    by (rule shared_read [OF w(1)]) (use w(2) in \<open>simp add: sharedClient_def comp_def\<close>)
  then show ?thesis by blast
qed

lemma shared_namespace:
  fixes r :: "apiError + namespace"
  assumes w: "wellFormed (sharedView w)" "cl_GetNamespace sharedClient n w = (r, w')"
  shows "othersMay (sharedView w) (sharedView w') \<and> (\<forall>x. r = Inr x \<longrightarrow> x \<in> set (snd (sharedView w')) \<and> om_Name x = n)"
proof -
  have "othersMay (sharedView w) (sharedView w') \<and> (\<forall>x. r = Inr x \<longrightarrow> lookupBy om_Name n (sh_Namespaces w') = Inr x)"
    by (rule shared_read [OF w(1)]) (use w(2) in \<open>simp add: sharedClient_def\<close>)
  then show ?thesis
    using lookupBy_in [of om_Name n "sh_Namespaces w'"] unfolding sharedView_def snd_conv by blast
qed

lemma shared_list:
  fixes r :: "apiError + namespace list"
  assumes w: "wellFormed (sharedView w)" "cl_ListNamespaces sharedClient w = (r, w')"
  shows "othersMay (sharedView w) (sharedView w') \<and> (\<forall>xs. r = Inr xs \<longrightarrow> set xs = set (snd (sharedView w')))"
proof -
  have "othersMay (sharedView w) (sharedView w') \<and> (\<forall>x. r = Inr x \<longrightarrow> (Inr (sh_Namespaces w') :: apiError + namespace list) = Inr x)"
    by (rule shared_read [OF w(1), where g = "\<lambda>w. Inr (sh_Namespaces w)"]) (use w(2) in \<open>simp add: sharedClient_def\<close>)
  then show ?thesis
    unfolding sharedView_def snd_conv by (elim conjE, intro conjI allI impI) simp_all
qed

lemma shared_annotate:
  fixes r :: "apiError + namespace"
  assumes w: "wellFormed (sharedView w)" "cl_PatchNamespace sharedClient x x' w = (r, w')"
  shows "\<exists>h. othersMay (sharedView w) h \<and>
      (isl r \<and> sharedView w' = h \<or> fst (sharedView w') = fst h \<and> ownerPatched x x' (snd h) (snd (sharedView w')))"
proof -
  have m: "meets act (patchAnnotations x x') w = (r, w')" using w(2) by (simp add: sharedClient_def)
  have patched: "fst (sharedView (snd (patchAnnotations x x' w1))) = fst (sharedView w1) \<and>
      ownerPatched x x' (snd (sharedView w1)) (snd (sharedView (snd (patchAnnotations x x' w1))))" for w1
    using patchAnnotations_patched [where w = w1] by (simp add: sharedView_def)
  show ?thesis
    using others.meets_may [OF w(1) m] patched by blast
qed

lemmas shared_laws = shared_policy shared_patch shared_status shared_pool shared_profile shared_namespace shared_list shared_annotate

interpretation shared: shared_server sharedClient sharedView
  by unfold_locales (fact shared_laws)+

section \<open>No namespace is orphaned\<close>

text \<open>C3: in every state a cluster can reach while the controller reconciles policies, others create,
  edit and delete policies and namespaces between any two of its calls, and calls fail before or after
  they took effect: a namespace that names an owner names an existing policy that still has its
  finalizer, so the deletion of that policy waits for the namespace to be released.\<close>

theorem no_orphaned_namespaces:
  assumes "policyRuns K C view w" "shared_server C view" "finalizers_documented K"
    and "n \<in> set (snd (view w))" "ownerOf n \<noteq> ''''"
  shows "\<exists>m \<in> set (fst (view w)). om_UID m = ownerOf n \<and> externalPolicyFinalizer \<in> set (om_Finalizers m)"
  using policyRuns_held [OF assms(1-3)] assms(4,5) unfolding ownersHeld_def holds_def by blast

definition contestedWorld :: "policy list \<Rightarrow> namespace list \<Rightarrow> (userAct list \<times> fault) list \<Rightarrow> shared" where
  "contestedWorld pcs nss script =
     \<lparr>sc_Script = script, sh_Policies = pcs, sh_Namespaces = nss, sh_Pools = [demoPool], sh_Profiles = [], sh_NextUID = 0\<rparr>"

text \<open>The policy is deleted just before its namespace is annotated, and the answer is lost.\<close>

definition contested :: "shared sys" where
  "contested = \<lparr>world = contestedWorld [demoPolicy] [plainNamespace ''x'']
     [([], Answers), ([], Answers), ([], Answers), ([], Answers), ([], Answers), ([DeletePolicy ''a'' ''pol''], LosesAnswer)],
     effects = []\<rparr>"

lemma contested_meets:
  "meets act f (contestedWorld pcs nss (([], Answers) # script)) = f (contestedWorld pcs nss script)"
  "meets act f (contestedWorld [demoPolicy] nss [([DeletePolicy ''a'' ''pol''], LosesAnswer)]) =
     (Inl (OtherApiError ''timeout''), snd (f (contestedWorld [markDeleted demoPolicy] nss [])))"
  "meets act f (contestedWorld pcs nss []) = f (contestedWorld pcs nss [])"
  by (simp_all add: meets_def contestedWorld_def policyId_def metaKey_def demoPolicy_def plainMeta_def Let_def)

lemma contested_world: "sh_Policies (contestedWorld pcs nss script) = pcs" "sh_Namespaces (contestedWorld pcs nss script) = nss"
  "sh_Pools (contestedWorld pcs nss script) = [demoPool]" "sharedView (contestedWorld pcs nss script) = (map pc_Meta pcs, nss)"
  by (simp_all add: contestedWorld_def sharedView_def)

lemma contested_start: "policyRuns K C sharedView (world contested)"
  by (rule policyRuns.start)
    (simp_all add: contested_def contested_world wellFormed_def demo_owners demoPolicy_def plainMeta_def)

text \<open>The sample policy, evaluated.\<close>

lemma demo_fields:
  "pl_SelectorNamespaces (pc_Spec demoPolicy) = [''x'', ''y'']" "pl_UpstreamPoolRef (pc_Spec demoPolicy) = ''p''"
  "pl_CacheProfileRef (pc_Spec demoPolicy) = ''''" "om_Namespace (pc_Meta demoPolicy) = ''a''" "om_Name (pc_Meta demoPolicy) = ''pol''"
  "om_Finalizers (pc_Meta demoPolicy) = [externalPolicyFinalizer]" "om_DeletionTimestamp (pc_Meta demoPolicy) = None"
  by (simp_all add: demoPolicy_def plainMeta_def)

lemma demo_selector: "checkSelector refK8s 0 [] [''x'', ''y''] = None"
  by (auto simp: checkSelector_iff refK8s_def refLabel_def trimSpace_alnum lit_simps)

lemma demo_references: "validatePolicyRefName refK8s ''p'' path True = Inr ''p''" "validatePolicyRefName refK8s '''' path False = Inr ''''"
  by (rule conflict_names)+

lemma demo_contains: "containsFinalizer refK8s [externalPolicyFinalizer] externalPolicyFinalizer"
  by (simp add: refK8s_def)

lemmas demo_evaluated = demo_fields demo_selector demo_references demo_contains
lemmas policy_programs = reconcilePolicy_def enforceAndReport_def setValidatedCondition_def recordPolicyEvent_def validateReferences_def
  enforcePolicy_def listManagedPolicyNamespaces_def

lemma contested_run:
  "\<exists>n. n \<in> set (sh_Namespaces (world (snd (run_state (reconcilePolicy rev False refK8s sharedClient ''a'' ''pol'') contested)))) \<and>
     ownerOf n = ''u1''"
proof -
  have free: "\<not> annotatedFor demoPolicy (om_Annotations (plainNamespace ''x''))"
    by (simp add: annotatedFor_def plainNamespace_def plainMeta_def gm_index_def demo_uid)
  have calls: "cl_GetPolicy sharedClient ns n = meets act (\<lambda>w. (lookupBy policyId (ns, n) (sh_Policies w), w))"
    "cl_GetPool sharedClient ns n = meets act (\<lambda>w. (lookupBy (metaKey \<circ> po_Meta) (ns, n) (sh_Pools w), w))"
    "cl_GetNamespace sharedClient n = meets act (\<lambda>w. (lookupBy om_Name n (sh_Namespaces w), w))"
    "cl_ListNamespaces sharedClient = meets act (\<lambda>w. (Inr (sh_Namespaces w), w))"
    "cl_PatchNamespace sharedClient x y = meets act (patchAnnotations x y)"
    "cl_PatchPolicyStatus sharedClient p q = meets act (patchStatus p q)" for ns n x y p q
    by (simp_all add: sharedClient_def comp_def)
  have find: "lookupBy policyId (''a'', ''pol'') [demoPolicy] = Inr demoPolicy"
    "lookupBy (metaKey \<circ> po_Meta) (''a'', ''p'') [demoPool] = Inr demoPool"
    "lookupBy om_Name ''y'' [plainNamespace ''x''] = Inl NotFound" "lookupBy om_Name ''x'' [plainNamespace ''x''] = Inr (plainNamespace ''x'')"
    by (simp_all add: lookupBy_def policyId_def metaKey_def demo_fields demo_meta demo_owners plainMeta_def)
  define m where "m = (plainNamespace ''x'')\<lparr>om_Annotations := mergeMap (om_Annotations (plainNamespace ''x''))
    (fst (applyPolicyAnnotations demoPolicy (om_Annotations (plainNamespace ''x'')))) (om_Annotations (plainNamespace ''x''))\<rparr>"
  have owner: "ownerOf m = ''u1''"
    using apply_annotated [of demoPolicy "om_Annotations (plainNamespace ''x'')"] demo_owners(1) [of "''x''"] demo_uid
    by (simp add: m_def ownerOf_def annotatedFor_def gm_index_def mergeMap_get)
  have patched: "snd (patchAnnotations (plainNamespace ''x'')
      ((plainNamespace ''x'')\<lparr>om_Annotations := fst (applyPolicyAnnotations demoPolicy (om_Annotations (plainNamespace ''x'')))\<rparr>)
      (contestedWorld pcs [plainNamespace ''x''] [])) = contestedWorld pcs [m] []" for pcs
    by (simp add: patchAnnotations_def demo_owners contested_world find m_def) (simp add: contestedWorld_def)
  have status: "sh_Namespaces (snd (patchStatus p q w)) = sh_Namespaces w" for p q w
    by (simp add: patchStatus_def Let_def split: sum.split)
  have "sh_Namespaces (world (snd (run_state (reconcilePolicy rev False refK8s sharedClient ''a'' ''pol'') contested))) = [m]"
    by (simp add: policy_programs demo_evaluated run_simps contested_def calls
      contested_meets contested_world demo_selected find free patched status errNamespacePolicyConflict_def case_prod_unfold
      isDeleting_def Let_def isNotFound_def managedBy_owner demo_uid demo_owners update_eq
      del: checkSelector.simps)
  then show ?thesis using owner by (intro exI [of _ m]) simp
qed

theorem no_orphaned_namespaces_witness:
  "\<exists>m \<in> set (fst (sharedView (world (snd (run_state (reconcilePolicy rev False refK8s sharedClient ''a'' ''pol'') contested))))).
     om_UID m = ''u1'' \<and> externalPolicyFinalizer \<in> set (om_Finalizers m)"
proof -
  let ?w = "world (snd (run_state (reconcilePolicy rev False refK8s sharedClient ''a'' ''pol'') contested))"
  have run: "policyRuns refK8s sharedClient sharedView ?w" by (rule policyRuns.reconcile [OF contested_start])
  obtain n where n: "n \<in> set (snd (sharedView ?w))" "ownerOf n = ''u1''"
    using contested_run by (auto simp: sharedView_def)
  have "ownerOf n \<noteq> ''''" using n(2) by simp
  from no_orphaned_namespaces [OF run shared.shared_server_axioms refK8s_finalizers n(1) this]
  show ?thesis unfolding n(2) .
qed

end
