(* ===== verification/PolicyBoard.thy ===== *)
theory PolicyBoard
  imports SharedCluster
begin

text \<open>
  What the policy controller shares with the rest of the world (\<open>policyBoard\<close>): the policies, the
  namespaces, which pools and profiles exist, and its work queue.  A policy depends on few of these
  (\<open>sameView\<close>): itself, the namespaces it selects or owns and the objects it refers to.  Every change of
  one of them, by whomever, puts the request of the policy into the queue (\<open>moved\<close>); so what is
  true of a policy stays true, or its request waits.
\<close>

section \<open>The board\<close>

record policyBoard =
  pb_Policies :: "string \<times> string \<Rightarrow> policy option"
  pb_Namespaces :: "string \<Rightarrow> namespace option"
  pb_Pools :: "(string \<times> string) set"
  pb_Profiles :: "(string \<times> string) set"
  pb_Queue :: "(string \<times> string) set"
  pb_Hand :: "(string \<times> string) set"
  pb_Sound :: bool

abbreviation uidOf :: "policy \<Rightarrow> string" where
  "uidOf pc \<equiv> om_UID (pc_Meta pc)"

text \<open>
  Objects are found under their names, no two policies have the same UID, and the server's own tables
  are sound.
\<close>

definition inOrder :: "policyBoard \<Rightarrow> bool" where
  "inOrder v \<longleftrightarrow>
     (\<forall>k pc. pb_Policies v k = Some pc \<longrightarrow> policyRequest pc = k \<and> uidOf pc \<noteq> '''') \<and>
     (\<forall>k k' pc pc'. pb_Policies v k = Some pc \<longrightarrow> pb_Policies v k' = Some pc' \<longrightarrow> uidOf pc = uidOf pc' \<longrightarrow> k = k') \<and>
     (\<forall>n ns. pb_Namespaces v n = Some ns \<longrightarrow> om_Name ns = n) \<and> pb_Sound v"

lemma inOrder_key: "inOrder v \<Longrightarrow> pb_Policies v k = Some pc \<Longrightarrow> policyRequest pc = k"
  unfolding inOrder_def by blast

definition ownedBy :: "string \<Rightarrow> policyBoard \<Rightarrow> string set" where
  "ownedBy uid v = {n. \<exists>ns. pb_Namespaces v n = Some ns \<and> ownerOf ns = uid}"

definition poolRefOf :: "policy \<Rightarrow> string \<times> string" where
  "poolRefOf pc = (om_Namespace (pc_Meta pc), trimSpace (pl_UpstreamPoolRef (pc_Spec pc)))"

definition profileRefOf :: "policy \<Rightarrow> string \<times> string" where
  "profileRefOf pc = (om_Namespace (pc_Meta pc), trimSpace (pl_CacheProfileRef (pc_Spec pc)))"

text \<open>What a policy depends on; that it loses a namespace it does not select is no concern of it.\<close>

definition sameView :: "policy \<Rightarrow> policyBoard \<Rightarrow> policyBoard \<Rightarrow> bool" where
  "sameView pc v v' \<longleftrightarrow>
     (\<forall>n \<in> set (selectedNamespaces pc). pb_Namespaces v' n = pb_Namespaces v n) \<and>
     (poolRefOf pc \<in> pb_Pools v' \<longleftrightarrow> poolRefOf pc \<in> pb_Pools v) \<and>
     (profileRefOf pc \<in> pb_Profiles v' \<longleftrightarrow> profileRefOf pc \<in> pb_Profiles v) \<and>
     ownedBy (uidOf pc) v' \<subseteq> ownedBy (uidOf pc) v"

definition moved :: "policyBoard \<Rightarrow> policyBoard \<Rightarrow> bool" where
  "moved v v' \<longleftrightarrow> inOrder v' \<and> pb_Hand v' = pb_Hand v \<and> pb_Queue v \<subseteq> pb_Queue v' \<and>
     (\<forall>k. k \<notin> pb_Queue v' \<longrightarrow> pb_Policies v' k = pb_Policies v k \<and>
        (\<forall>pc. pb_Policies v k = Some pc \<longrightarrow> sameView pc v v'))"

lemma sameView_refl: "sameView pc v v"
  by (simp add: sameView_def)

lemma sameView_trans: "sameView pc v1 v2 \<Longrightarrow> sameView pc v2 v3 \<Longrightarrow> sameView pc v1 v3"
  unfolding sameView_def by auto

lemma moved_refl: "inOrder v \<Longrightarrow> moved v v"
  by (simp add: moved_def sameView_refl)

lemma moved_trans: "moved v1 v2 \<Longrightarrow> moved v2 v3 \<Longrightarrow> moved v1 v3"
  unfolding moved_def by (metis sameView_trans subset_trans subsetD)

lemma moved_order: "moved v v' \<Longrightarrow> inOrder v'"
  by (simp add: moved_def)

lemma moved_queue: "moved v v' \<Longrightarrow> pb_Queue v \<subseteq> pb_Queue v'" "moved v v' \<Longrightarrow> pb_Hand v' = pb_Hand v"
  by (simp_all add: moved_def)

lemma moved_policy: "moved v v' \<Longrightarrow> k \<notin> pb_Queue v' \<Longrightarrow> pb_Policies v' k = pb_Policies v k"
  unfolding moved_def by blast

lemma moved_view: "moved v v' \<Longrightarrow> k \<notin> pb_Queue v' \<Longrightarrow> pb_Policies v k = Some pc \<Longrightarrow> sameView pc v v'"
  unfolding moved_def by blast

section \<open>When a policy is served\<close>

definition refsThere :: "k8s \<Rightarrow> policyBoard \<Rightarrow> policy \<Rightarrow> bool" where
  "refsThere K v pc \<longleftrightarrow> policySpecOk K (pc_Spec pc) \<and> poolRefOf pc \<in> pb_Pools v \<and>
     (pl_CacheProfileRef (pc_Spec pc) = '''' \<or> profileRefOf pc \<in> pb_Profiles v)"

text \<open>A selected namespace belongs to another policy.\<close>

definition contestedFor :: "policyBoard \<Rightarrow> policy \<Rightarrow> bool" where
  "contestedFor v pc \<longleftrightarrow>
     (\<exists>n \<in> set (selectedNamespaces pc). \<exists>ns. pb_Namespaces v n = Some ns \<and> ownerOf ns \<notin> {'''', uidOf pc})"

definition markedFor :: "string set \<Rightarrow> policyBoard \<Rightarrow> policy \<Rightarrow> bool" where
  "markedFor ns v pc \<longleftrightarrow>
     (\<forall>n \<in> ns. \<forall>x. pb_Namespaces v n = Some x \<longrightarrow> annotatedFor pc (om_Annotations x))"

definition validatedTrue :: "policy \<Rightarrow> bool" where
  "validatedTrue pc \<longleftrightarrow>
     (case find (\<lambda>c. cd_Type c = ''Validated'') (st_Conditions (pc_Status pc)) of
        None \<Rightarrow> False | Some c \<Rightarrow> cd_Status c = ConditionTrue)"

text \<open>The status of a policy says of its present generation that it is enforced, in \<open>applied\<close> namespaces, or not.\<close>

definition reports :: "policy \<Rightarrow> bool \<Rightarrow> int \<Rightarrow> bool" where
  "reports pc enforced applied \<longleftrightarrow> (validatedTrue pc \<longleftrightarrow> enforced) \<and> pc_AppliedNodes pc = applied \<and>
     st_ObservedGeneration (pc_Status pc) = om_Generation (pc_Meta pc)"

text \<open>It says that a pool or profile could not be read, for another reason than that it is missing.\<close>

definition lookupError :: "goError \<Rightarrow> bool" where
  "lookupError e \<longleftrightarrow>
     (case e of
        Wrap f _ (ApiErr x) \<Rightarrow> x \<noteq> NotFound \<and>
          (f = ''get referenced upstream pool %q: %w'' \<or> f = ''get referenced cache profile %q: %w'')
      | _ \<Rightarrow> False)"

definition validatedMessage :: "policy \<Rightarrow> message option" where
  "validatedMessage pc = map_option cd_Message (find (\<lambda>c. cd_Type c = ''Validated'') (st_Conditions (pc_Status pc)))"

definition lookupFailed :: "policy \<Rightarrow> bool" where
  "lookupFailed pc \<longleftrightarrow> (case validatedMessage pc of Some (MErr e) \<Rightarrow> lookupError e | _ \<Rightarrow> False)"

definition existing :: "string set \<Rightarrow> policyBoard \<Rightarrow> int" where
  "existing ns v = int32 (int (card (ns \<inter> dom (pb_Namespaces v))))"

definition served :: "k8s \<Rightarrow> policyBoard \<Rightarrow> policy \<Rightarrow> bool" where
  "served K v pc \<longleftrightarrow>
     (let sel = set (selectedNamespaces pc) in
      if isDeleting pc then externalPolicyFinalizer \<notin> set (om_Finalizers (pc_Meta pc))
      else externalPolicyFinalizer \<in> set (om_Finalizers (pc_Meta pc)) \<and>
        (if \<not> refsThere K v pc then reports pc False 0
         else if lookupFailed pc then reports pc False 0
         else ownedBy (uidOf pc) v \<subseteq> sel \<and>
           (if contestedFor v pc then reports pc False 0
            else markedFor sel v pc \<and> reports pc True (existing sel v))))"

definition policyInv :: "k8s \<Rightarrow> policyBoard \<Rightarrow> bool" where
  "policyInv K v \<longleftrightarrow> inOrder v \<and>
     (\<forall>k pc. pb_Policies v k = Some pc \<longrightarrow> k \<in> pb_Queue v \<union> pb_Hand v \<or> served K v pc)"

text \<open>Facts that depend on no more than what a policy sees.\<close>

definition seen :: "policy \<Rightarrow> (policyBoard \<Rightarrow> bool) \<Rightarrow> bool" where
  "seen pc G \<longleftrightarrow> (\<forall>v v'. sameView pc v v' \<longrightarrow> G v \<longrightarrow> G v')"

lemma seenD: "seen pc G \<Longrightarrow> sameView pc v v' \<Longrightarrow> G v \<Longrightarrow> G v'"
  unfolding seen_def by blast

lemma seen_True: "seen pc (\<lambda>_. True)"
  by (simp add: seen_def)

lemma seen_pure: "seen pc (\<lambda>_. b)"
  by (simp add: seen_def)

lemma seen_conj: "seen pc G \<Longrightarrow> seen pc H \<Longrightarrow> seen pc (\<lambda>v. G v \<and> H v)"
  unfolding seen_def by blast

lemma seen_when: "seen pc G \<Longrightarrow> seen pc (\<lambda>v. b \<longrightarrow> G v)"
  by (simp add: seen_def)

lemma seen_refs: "seen pc (\<lambda>v. refsThere K v pc)" "seen pc (\<lambda>v. \<not> refsThere K v pc)"
  by (auto simp: seen_def sameView_def refsThere_def)

lemma seen_pool: "seen pc (\<lambda>v. poolRefOf pc \<in> pb_Pools v)" "seen pc (\<lambda>v. profileRefOf pc \<in> pb_Profiles v)"
  by (auto simp: seen_def sameView_def)

lemma seen_owned: "seen pc (\<lambda>v. ownedBy (uidOf pc) v \<subseteq> S)"
  by (auto simp: seen_def sameView_def)

lemma seen_namespace: "n \<in> set (selectedNamespaces pc) \<Longrightarrow> seen pc (\<lambda>v. pb_Namespaces v n = x)"
  by (simp add: seen_def sameView_def)

lemma seen_contested: "seen pc (\<lambda>v. contestedFor v pc)" "seen pc (\<lambda>v. \<not> contestedFor v pc)"
  by (simp_all add: seen_def sameView_def contestedFor_def)

lemma seen_marked: "ns \<subseteq> set (selectedNamespaces pc) \<Longrightarrow> seen pc (\<lambda>v. markedFor ns v pc)"
  unfolding seen_def sameView_def markedFor_def by (metis subsetD)

lemma seen_existing: "ns \<subseteq> set (selectedNamespaces pc) \<Longrightarrow> seen pc (\<lambda>v. existing ns v = m)"
proof -
  assume ns: "ns \<subseteq> set (selectedNamespaces pc)"
  have "ns \<inter> dom (pb_Namespaces v') = ns \<inter> dom (pb_Namespaces v)" if "sameView pc v v'" for v v'
    using ns that by (auto simp: sameView_def dom_def)
  then show ?thesis by (simp add: seen_def existing_def)
qed

lemmas seen_facts = seen_True seen_pure seen_conj seen_when seen_refs seen_pool seen_owned seen_namespace seen_contested seen_marked seen_existing

lemma seen_served: "seen pc (\<lambda>v. served K v pc)"
  unfolding seen_def
proof (intro allI impI)
  fix v v' assume s: "sameView pc v v'" "served K v pc"
  let ?sel = "set (selectedNamespaces pc)"
  have e: "existing ?sel v' = existing ?sel v" using seenD [OF seen_existing [OF subset_refl] s(1)] by blast
  have r: "refsThere K v' pc \<longleftrightarrow> refsThere K v pc" "contestedFor v' pc \<longleftrightarrow> contestedFor v pc"
    using seenD [OF seen_refs(1) s(1)] seenD [OF seen_refs(2) s(1)] seenD [OF seen_contested(1) s(1)]
      seenD [OF seen_contested(2) s(1)] by blast+
  have "ownedBy (uidOf pc) v \<subseteq> ?sel \<Longrightarrow> ownedBy (uidOf pc) v' \<subseteq> ?sel" "markedFor ?sel v pc \<Longrightarrow> markedFor ?sel v' pc"
    using seenD [OF seen_owned s(1)] seenD [OF seen_marked [OF subset_refl] s(1)] by blast+
  then show "served K v' pc" using s(2) unfolding served_def Let_def r e by meson
qed

text \<open>The invariant survives every move, whoever makes it.\<close>

lemma moved_inv:
  assumes "moved v v'" "policyInv K v"
  shows "policyInv K v'"
  unfolding policyInv_def
proof (intro conjI allI impI)
  show "inOrder v'" by (rule moved_order [OF assms(1)])
  fix k pc assume pc: "pb_Policies v' k = Some pc"
  show "k \<in> pb_Queue v' \<union> pb_Hand v' \<or> served K v' pc"
  proof (cases "k \<in> pb_Queue v'")
    case False
    then have old: "pb_Policies v k = Some pc" using moved_policy [OF assms(1)] pc by simp
    then have "k \<in> pb_Queue v \<union> pb_Hand v \<or> served K v pc" using assms(2) unfolding policyInv_def by blast
    then show ?thesis
      using moved_queue [OF assms(1)] seenD [OF seen_served moved_view [OF assms(1) False old]] by blast
  qed simp
qed

section \<open>Knowledge of the policy in hand\<close>

text \<open>
  The policy of the request is still the one that was read, and \<open>G\<close> holds; or its request is in the queue
  again.  Any other policy of its UID is new.
\<close>

definition sure :: "string \<times> string \<Rightarrow> policy \<Rightarrow> (policyBoard \<Rightarrow> bool) \<Rightarrow> policyBoard \<Rightarrow> bool" where
  "sure k pc G v \<longleftrightarrow> uidOf pc \<noteq> '''' \<and>
     (\<forall>k' p. pb_Policies v k' = Some p \<longrightarrow> uidOf p = uidOf pc \<longrightarrow> k' = k \<or> k' \<in> pb_Queue v) \<and>
     (k \<in> pb_Queue v \<or> pb_Policies v k = Some pc \<and> G v)"

lemma sure_mono: "sure k pc G v \<Longrightarrow> (k \<notin> pb_Queue v \<Longrightarrow> G v \<Longrightarrow> H v) \<Longrightarrow> sure k pc H v"
  unfolding sure_def by blast

lemma sure_read: "inOrder v \<Longrightarrow> pb_Policies v k = Some pc \<Longrightarrow> G v \<Longrightarrow> sure k pc G v"
  unfolding sure_def inOrder_def by metis

lemma sure_moved:
  assumes "seen pc G" "moved v v'" "sure k pc G v"
  shows "sure k pc G v'"
proof -
  have "k' = k \<or> k' \<in> pb_Queue v'" if "pb_Policies v' k' = Some p" "uidOf p = uidOf pc" for k' p
    using that assms(3) moved_policy [OF assms(2)] moved_queue(1) [OF assms(2)] unfolding sure_def by (metis subsetD)
  moreover have "pb_Policies v' k = Some pc \<and> G v'" if q: "k \<notin> pb_Queue v'"
  proof -
    have "pb_Policies v k = Some pc" "G v" using q assms(3) moved_queue(1) [OF assms(2)] unfolding sure_def by blast+
    then show ?thesis using moved_policy [OF assms(2) q] seenD [OF assms(1) moved_view [OF assms(2) q]] by simp
  qed
  ultimately show ?thesis using assms(3) unfolding sure_def by blast
qed

section \<open>Writes\<close>

text \<open>A write to the policy of a key, which is an event of that policy if it changes it.\<close>

definition policyWritten :: "string \<times> string \<Rightarrow> policyBoard \<Rightarrow> policyBoard \<Rightarrow> bool" where
  "policyWritten k v v' \<longleftrightarrow> inOrder v' \<and>
     pb_Namespaces v' = pb_Namespaces v \<and> pb_Pools v' = pb_Pools v \<and> pb_Profiles v' = pb_Profiles v \<and>
     pb_Hand v' = pb_Hand v \<and> pb_Queue v \<subseteq> pb_Queue v' \<and>
     (\<forall>k'. k' \<noteq> k \<longrightarrow> pb_Policies v' k' = pb_Policies v k') \<and>
     (pb_Policies v' k \<noteq> pb_Policies v k \<longrightarrow> k \<in> pb_Queue v')"

text \<open>A merge patch of the annotations of a namespace, an event of every policy that selects it.\<close>

definition annotationsSent :: "namespace \<Rightarrow> namespace \<Rightarrow> namespace \<Rightarrow> namespace \<Rightarrow> bool" where
  "annotationsSent old new x x' \<longleftrightarrow> om_Name x' = om_Name x \<and>
     (\<forall>a. gm_get (om_Annotations x') a =
       (if gm_get (om_Annotations old) a \<noteq> gm_get (om_Annotations new) a then gm_get (om_Annotations new) a
        else gm_get (om_Annotations x) a))"

definition namespaceWritten :: "namespace \<Rightarrow> namespace \<Rightarrow> policyBoard \<Rightarrow> policyBoard \<Rightarrow> bool" where
  "namespaceWritten old new v v' \<longleftrightarrow>
     pb_Policies v' = pb_Policies v \<and> pb_Pools v' = pb_Pools v \<and> pb_Profiles v' = pb_Profiles v \<and>
     pb_Hand v' = pb_Hand v \<and> pb_Sound v' = pb_Sound v \<and> pb_Queue v \<subseteq> pb_Queue v' \<and>
     (\<forall>n. n \<noteq> om_Name new \<longrightarrow> pb_Namespaces v' n = pb_Namespaces v n) \<and>
     rel_option (annotationsSent old new) (pb_Namespaces v (om_Name new)) (pb_Namespaces v' (om_Name new)) \<and>
     (pb_Namespaces v' (om_Name new) \<noteq> pb_Namespaces v (om_Name new) \<longrightarrow>
       (\<forall>k pc. pb_Policies v k = Some pc \<longrightarrow> om_Name new \<in> set (selectedNamespaces pc) \<longrightarrow> k \<in> pb_Queue v'))"

lemma written_moved:
  assumes "policyWritten k v v'"
  shows "moved v v'"
proof -
  have "sameView pc v v'" for pc using assms by (simp add: policyWritten_def sameView_def ownedBy_def)
  then show ?thesis using assms unfolding moved_def policyWritten_def by metis
qed

lemma sent_owner: "annotationsSent old new x x' \<Longrightarrow> ownerOf x' = ownerOf x \<or> ownerOf x' = ownerOf new"
  by (auto simp: annotationsSent_def ownerOf_def gm_index_def)

lemma namespaceWritten_order:
  assumes "namespaceWritten old new v v'" "inOrder v"
  shows "inOrder v'"
proof -
  have "om_Name x = n" if x: "pb_Namespaces v' n = Some x" for n x
  proof (cases "n = om_Name new")
    case True
    then obtain y where "pb_Namespaces v n = Some y" "annotationsSent old new y x"
      using assms(1) x unfolding namespaceWritten_def by (metis option_rel_Some2)
    then show ?thesis using assms(2) by (simp add: annotationsSent_def inOrder_def)
  next
    case False
    then show ?thesis using assms x by (simp add: namespaceWritten_def inOrder_def)
  qed
  moreover have "pb_Policies v' = pb_Policies v" "pb_Sound v' = pb_Sound v" using assms(1) by (simp_all add: namespaceWritten_def)
  ultimately show ?thesis using assms(2) unfolding inOrder_def by simp
qed

lemma owned_written:
  assumes "namespaceWritten old new v v'" "uid \<noteq> ownerOf new"
  shows "ownedBy uid v' \<subseteq> ownedBy uid v"
proof
  fix n assume "n \<in> ownedBy uid v'"
  then obtain x' where x': "pb_Namespaces v' n = Some x'" "ownerOf x' = uid" by (auto simp: ownedBy_def)
  show "n \<in> ownedBy uid v"
  proof (cases "n = om_Name new")
    case True
    then obtain x where "pb_Namespaces v n = Some x" "annotationsSent old new x x'"
      using assms(1) x'(1) unfolding namespaceWritten_def by (metis option_rel_Some2)
    moreover from this(2) have "ownerOf x = uid" using sent_owner [of old new x x'] x'(2) assms(2) by auto
    ultimately show ?thesis by (auto simp: ownedBy_def)
  next
    case False
    then show ?thesis using assms(1) x' by (simp add: namespaceWritten_def ownedBy_def)
  qed
qed

lemma namespaceWritten_moved:
  assumes "namespaceWritten old new v v'" "inOrder v" "sure k pc G v"
    and "ownerOf new = '''' \<or> ownerOf new = uidOf pc \<and> om_Name new \<in> set (selectedNamespaces pc)"
  shows "moved v v'"
proof -
  have w: "pb_Policies v' = pb_Policies v" "pb_Hand v' = pb_Hand v" "pb_Queue v \<subseteq> pb_Queue v'"
    "pb_Pools v' = pb_Pools v" "pb_Profiles v' = pb_Profiles v"
    and other: "\<And>n. n \<noteq> om_Name new \<Longrightarrow> pb_Namespaces v' n = pb_Namespaces v n"
    and events: "\<And>k p. pb_Namespaces v' (om_Name new) \<noteq> pb_Namespaces v (om_Name new) \<Longrightarrow> pb_Policies v k = Some p \<Longrightarrow>
      om_Name new \<in> set (selectedNamespaces p) \<Longrightarrow> k \<in> pb_Queue v'"
    using assms(1) unfolding namespaceWritten_def by blast+
  have "sameView p v v'" if p: "pb_Policies v k' = Some p" "k' \<notin> pb_Queue v'" for k' p
  proof -
    have sel: "pb_Namespaces v' n = pb_Namespaces v n" if "n \<in> set (selectedNamespaces p)" for n
      using other events [OF _ p(1)] p(2) that by metis
    have "ownedBy (uidOf p) v' \<subseteq> ownedBy (uidOf p) v"
    proof (cases "uidOf p = ownerOf new")
      case True
      moreover have "uidOf p \<noteq> ''''" using assms(2) p(1) unfolding inOrder_def by blast
      ultimately have new: "uidOf p = uidOf pc" "om_Name new \<in> set (selectedNamespaces pc)" using assms(4) by auto
      have "k' \<notin> pb_Queue v" using p(2) w(3) by blast
      moreover from this have "k' = k" using assms(3) p(1) new(1) unfolding sure_def by blast
      ultimately have "p = pc" using assms(3) p(1) unfolding sure_def by simp
      then have "pb_Namespaces v' n = pb_Namespaces v n" for n using sel new(2) other by metis
      then show ?thesis by (simp add: ownedBy_def)
    qed (rule owned_written [OF assms(1)])
    then show ?thesis using sel w by (simp add: sameView_def)
  qed
  then show ?thesis using namespaceWritten_order [OF assms(1,2)] w(1-3) unfolding moved_def by simp
qed

text \<open>What is true after an accepted patch: the annotations are those of the patch, where it changes any.\<close>

definition patchSeen :: "namespace \<Rightarrow> namespace \<Rightarrow> policyBoard \<Rightarrow> bool" where
  "patchSeen old new v \<longleftrightarrow>
     (\<forall>x a. pb_Namespaces v (om_Name new) = Some x \<longrightarrow> gm_get (om_Annotations old) a \<noteq> gm_get (om_Annotations new) a \<longrightarrow>
        gm_get (om_Annotations x) a = gm_get (om_Annotations new) a)"

lemma patchSeen_written:
  assumes "namespaceWritten old new v v'"
  shows "patchSeen old new v'"
proof -
  have "gm_get (om_Annotations x') a = gm_get (om_Annotations new) a"
    if x': "pb_Namespaces v' (om_Name new) = Some x'" "gm_get (om_Annotations old) a \<noteq> gm_get (om_Annotations new) a" for x' a
  proof -
    have "rel_option (annotationsSent old new) (pb_Namespaces v (om_Name new)) (Some x')"
      using assms x'(1) unfolding namespaceWritten_def by metis
    then obtain x where "annotationsSent old new x x'" by (auto simp: option_rel_Some2)
    then show ?thesis using x'(2) by (simp add: annotationsSent_def)
  qed
  then show ?thesis by (simp add: patchSeen_def)
qed

section \<open>Counting\<close>

lemma int32_again: "int32 (int32 a + 1) = int32 (a + 1)"
  unfolding int32_def by (metis signed_take_bit_add signed_take_bit_signed_take_bit min.idem)

lemma existing_empty [simp]: "existing {} v = 0"
  by (simp add: existing_def is_int32_def)

lemma existing_insert:
  assumes "finite D" "n \<notin> D"
  shows "existing (insert n D) v = (if pb_Namespaces v n = None then existing D v else int32 (existing D v + 1))"
proof (cases "pb_Namespaces v n")
  case None
  then have "insert n D \<inter> dom (pb_Namespaces v) = D \<inter> dom (pb_Namespaces v)" by auto
  then show ?thesis using None by (simp add: existing_def)
next
  case (Some x)
  then have "insert n D \<inter> dom (pb_Namespaces v) = insert n (D \<inter> dom (pb_Namespaces v))" by auto
  then have "int (card (insert n D \<inter> dom (pb_Namespaces v))) = int (card (D \<inter> dom (pb_Namespaces v))) + 1"
    using assms by simp
  then show ?thesis using Some by (simp add: existing_def int32_again)
qed

end
