(* ===== verification/PolicyRules.thy ===== *)
theory PolicyRules
  imports PolicyBoard Outline
begin

text \<open>
  The policy controller at work on a board that others change between any two of its calls, and whose
  server may fail any call before or after it takes effect (\<open>policy_server\<close>).  The controller's own
  writes are moves of the board like those of others, and what it knows of the policy in hand is lost
  only to a move that puts the request back into the queue.  So a reconcile that ends without an error,
  and without a new event, has seen one state of its policy all along.
\<close>

section \<open>The server\<close>

text \<open>What a write sends of the status.\<close>

definition statusSent :: "policy \<Rightarrow> policy \<Rightarrow> policy \<Rightarrow> bool" where
  "statusSent old new p \<longleftrightarrow>
     (st_Conditions (pc_Status old) \<noteq> st_Conditions (pc_Status new) \<longrightarrow> st_Conditions (pc_Status p) = st_Conditions (pc_Status new)) \<and>
     (st_ObservedGeneration (pc_Status old) \<noteq> st_ObservedGeneration (pc_Status new) \<longrightarrow>
       st_ObservedGeneration (pc_Status p) = st_ObservedGeneration (pc_Status new)) \<and>
     (pc_AppliedNodes old \<noteq> pc_AppliedNodes new \<longrightarrow> pc_AppliedNodes p = pc_AppliedNodes new)"

lemma reports_with:
  assumes "conditions_documented K" "statusSent pc (withValidatedCondition K pc st reason msg n) pc"
  shows "reports pc (st = ConditionTrue) n \<and> validatedMessage pc = Some msg"
proof -
  let ?pc = "withValidatedCondition K pc st reason msg n"
  have s: "st_Conditions (pc_Status pc) = st_Conditions (pc_Status ?pc)" "pc_AppliedNodes pc = pc_AppliedNodes ?pc"
    "st_ObservedGeneration (pc_Status pc) = st_ObservedGeneration (pc_Status ?pc)"
    using assms(2) unfolding statusSent_def by metis+
  then have "pc_AppliedNodes pc = n" "st_ObservedGeneration (pc_Status pc) = om_Generation (pc_Meta pc)"
    by (simp_all add: withValidatedCondition_def)
  moreover have "validatedMessage pc = validatedMessage ?pc" using s(1) by (simp add: validatedMessage_def)
  moreover have "validatedMessage ?pc = Some msg"
    using assms(1) by (simp add: validatedMessage_def withValidatedCondition_def conditions_find)
  moreover have "validatedTrue pc \<longleftrightarrow> validatedTrue ?pc" using s(1) by (simp add: validatedTrue_def)
  moreover have "validatedTrue ?pc \<longleftrightarrow> st = ConditionTrue"
    using assms(1) by (simp add: validatedTrue_def withValidatedCondition_def conditions_find)
  ultimately show ?thesis by (simp add: reports_def)
qed

lemma released_seen:
  assumes "patchSeen ns (withoutPolicy ns) v" "ownerOf ns = uid" "uid \<noteq> ''''" "ownedBy uid v \<subseteq> insert (om_Name ns) S"
  shows "ownedBy uid v \<subseteq> S"
proof -
  have key: "ownerUIDAnnotation \<in> set policyAnnotationKeys" by (simp add: policyAnnotationKeys_def)
  have gone: "gm_get (om_Annotations (withoutPolicy ns)) ownerUIDAnnotation = None" by (simp only: withoutPolicy_get key if_True)
  moreover have "gm_get (om_Annotations ns) ownerUIDAnnotation \<noteq> None"
    using assms(2,3) by (intro owner_annotated) simp
  ultimately have "gm_get (om_Annotations x) ownerUIDAnnotation = None" if "pb_Namespaces v (om_Name ns) = Some x" for x
    using assms(1) that by (simp add: patchSeen_def withoutPolicy_def)
  then have "om_Name ns \<notin> ownedBy uid v" using assms(3) by (auto simp: ownedBy_def ownerOf_def gm_index_def)
  then show ?thesis using assms(4) by blast
qed

lemma annotatedFor_cong: "(\<And>a. gm_get m a = gm_get m' a) \<Longrightarrow> annotatedFor pc m \<longleftrightarrow> annotatedFor pc m'"
  by (simp add: annotatedFor_def gm_index_def)

text \<open>If the namespace is what was read after the patch was accepted, the patch did not change it.\<close>

lemma marked_seen:
  assumes "patchSeen ns (ns\<lparr>om_Annotations := fst (applyPolicyAnnotations pc (om_Annotations ns))\<rparr>) v"
    and "pb_Namespaces v (om_Name ns) = Some ns"
  shows "annotatedFor pc (om_Annotations ns)"
proof -
  have "gm_get (om_Annotations ns) a = gm_get (fst (applyPolicyAnnotations pc (om_Annotations ns))) a" for a
    using assms by (auto simp: patchSeen_def)
  then show ?thesis using annotatedFor_cong apply_annotated by blast
qed

lemma marked_insert: "markedFor (insert n D) v pc \<longleftrightarrow> markedFor D v pc \<and> markedFor {n} v pc"
  by (auto simp: markedFor_def)

text \<open>A policy that is being deleted is gone with its last finalizer.\<close>

locale policy_server =
  fixes C :: "'w client" and view :: "'w \<Rightarrow> policyBoard"
  assumes get_policy: "inOrder (view w) \<Longrightarrow> cl_GetPolicy C ns n w = (r1, w') \<Longrightarrow> moved (view w) (view w') \<and>
      (\<forall>pc. r1 = Inr pc \<longrightarrow> pb_Policies (view w') (ns, n) = Some pc) \<and>
      (r1 = Inl NotFound \<longrightarrow> pb_Policies (view w') (ns, n) = None)"
    and patch_policy: "inOrder (view w) \<Longrightarrow> om_Finalizers (pc_Meta old) \<noteq> om_Finalizers (pc_Meta new) \<Longrightarrow>
      cl_PatchPolicy C old new w = (r1, w') \<Longrightarrow> \<exists>v. moved (view w) v \<and>
        (isl r1 \<and> view w' = v \<or> policyWritten (policyRequest new) v (view w') \<and>
          (\<forall>pc. r1 = Inr pc \<longrightarrow> om_Finalizers (pc_Meta pc) = om_Finalizers (pc_Meta new) \<and>
            (pb_Policies (view w') (policyRequest new) = Some pc \<or>
             om_Finalizers (pc_Meta new) = [] \<and> pb_Policies (view w') (policyRequest new) = None)))"
    and patch_status: "inOrder (view w) \<Longrightarrow> cl_PatchPolicyStatus C old new w = (r1, w') \<Longrightarrow> \<exists>v. moved (view w) v \<and>
        (isl r1 \<and> view w' = v \<or> policyWritten (policyRequest new) v (view w') \<and>
          (\<forall>p. \<not> isl r1 \<longrightarrow> pb_Policies (view w') (policyRequest new) = Some p \<longrightarrow> statusSent old new p))"
    and get_pool: "inOrder (view w) \<Longrightarrow> cl_GetPool C ns n w = (r2, w') \<Longrightarrow> moved (view w) (view w') \<and>
      (if (ns, n) \<in> pb_Pools (view w') then r2 \<noteq> Inl NotFound else isl r2)"
    and get_profile: "inOrder (view w) \<Longrightarrow> cl_GetProfile C ns n w = (r3, w') \<Longrightarrow> moved (view w) (view w') \<and>
      (if (ns, n) \<in> pb_Profiles (view w') then r3 \<noteq> Inl NotFound else isl r3)"
    and get_namespace: "inOrder (view w) \<Longrightarrow> cl_GetNamespace C n w = (r4, w') \<Longrightarrow> moved (view w) (view w') \<and>
      (\<forall>x. r4 = Inr x \<longrightarrow> pb_Namespaces (view w') n = Some x) \<and> (r4 = Inl NotFound \<longrightarrow> pb_Namespaces (view w') n = None)"
    and list_namespaces: "inOrder (view w) \<Longrightarrow> cl_ListNamespaces C w = (r5, w') \<Longrightarrow> moved (view w) (view w') \<and>
      (\<forall>xs. r5 = Inr xs \<longrightarrow> set xs = ran (pb_Namespaces (view w')))"
    and patch_namespace: "inOrder (view w) \<Longrightarrow> om_Name x' = om_Name x \<Longrightarrow> cl_PatchNamespace C x x' w = (r4, w') \<Longrightarrow>
      \<exists>v. moved (view w) v \<and> (isl r4 \<and> view w' = v \<or> namespaceWritten x x' v (view w'))"

text \<open>A program of the controller makes moves of the board only.\<close>

sublocale policy_server \<subseteq> outline "\<lambda>s. view (world s)" inOrder moved
  by unfold_locales (simp_all add: moved_refl moved_order, rule moved_trans)

context policy_server
begin

lemma leads_note: "leads P (note_effect e) (\<lambda>_. P)"
  by (rule leads_silent) (simp add: note_effect_def)

section \<open>Calls\<close>

text \<open>A call that reads, and tells \<open>X\<close>.\<close>

lemma leads_read:
  assumes "\<And>w r w'. inOrder (view w) \<Longrightarrow> g w = (r, w') \<Longrightarrow> moved (view w) (view w') \<and> X r (view w')"
    and "seen pc G"
  shows "leads (sure k pc G) (api e g) (\<lambda>r v. sure k pc (\<lambda>v. G v \<and> X r v) v \<and> X r v)"
  unfolding leads_def
proof (intro allI impI)
  fix s assume s: "inOrder (view (world s))" "sure k pc G (view (world s))"
  obtain r w' where g: "g (world s) = (r, w')" by force
  have m: "moved (view (world s)) (view w')" "X r (view w')" using assms(1) [OF s(1) g] by blast+
  have "sure k pc (\<lambda>v. G v \<and> X r v) (view w')"
    by (rule sure_mono [OF sure_moved [OF assms(2) m(1) s(2)]]) (use m(2) in simp)
  then show "moved (view (world s)) (view (world (snd (run_state (api e g) s)))) \<and>
      sure k pc (\<lambda>v. G v \<and> X (fst (run_state (api e g) s)) v) (view (world (snd (run_state (api e g) s)))) \<and>
      X (fst (run_state (api e g) s)) (view (world (snd (run_state (api e g) s))))"
    using m g by (simp add: run_api)
qed

text \<open>A call that writes: from \<open>v\<close>, which others left, to \<open>v'\<close>.\<close>

lemma leads_write:
  assumes "\<And>w r w'. inOrder (view w) \<Longrightarrow> g w = (r, w') \<Longrightarrow>
      \<exists>v. moved (view w) v \<and> (isl r \<and> view w' = v \<or> W r v (view w'))"
    and "seen pc G"
    and "\<And>v v' r. inOrder v \<Longrightarrow> sure k pc G v \<Longrightarrow> W r v v' \<Longrightarrow> moved v v' \<and> sure k pc (\<lambda>v'. G v' \<and> (\<not> isl r \<longrightarrow> X r v')) v'"
  shows "leads (sure k pc G) (api e g) (\<lambda>r. sure k pc (\<lambda>v. G v \<and> (\<not> isl r \<longrightarrow> X r v)))"
  unfolding leads_def
proof (intro allI impI)
  fix s assume s: "inOrder (view (world s))" "sure k pc G (view (world s))"
  obtain r w' where g: "g (world s) = (r, w')" by force
  obtain v where v: "moved (view (world s)) v" "isl r \<and> view w' = v \<or> W r v (view w')" using assms(1) [OF s(1) g] by blast
  have known: "inOrder v" "sure k pc G v" using moved_order [OF v(1)] sure_moved [OF assms(2) v(1) s(2)] by simp_all
  have "moved v (view w') \<and> sure k pc (\<lambda>v. G v \<and> (\<not> isl r \<longrightarrow> X r v)) (view w')"
    using v(2)
  proof
    assume "isl r \<and> view w' = v"
    then show ?thesis using moved_refl [OF known(1)] sure_mono [OF known(2)] by auto
  qed (rule assms(3) [OF known])
  then show "moved (view (world s)) (view (world (snd (run_state (api e g) s)))) \<and>
      sure k pc (\<lambda>v. G v \<and> (\<not> isl (fst (run_state (api e g) s)) \<longrightarrow> X (fst (run_state (api e g) s)) v))
        (view (world (snd (run_state (api e g) s))))"
    using moved_trans [OF v(1)] g by (simp add: run_api)
qed

lemma leads_patchNamespace:
  assumes "seen pc G" "om_Name new = om_Name old"
    and "ownerOf new = '''' \<or> ownerOf new = uidOf pc \<and> om_Name new \<in> set (selectedNamespaces pc)"
  shows "leads (sure k pc G) (api e (cl_PatchNamespace C old new)) (\<lambda>r. sure k pc (\<lambda>v. G v \<and> (\<not> isl r \<longrightarrow> patchSeen old new v)))"
proof (rule leads_write [where W = "\<lambda>_. namespaceWritten old new" and X = "\<lambda>_. patchSeen old new", OF _ assms(1)])
  fix w r w' assume "inOrder (view w)" "cl_PatchNamespace C old new w = (r, w')"
  then show "\<exists>v. moved (view w) v \<and> (isl r \<and> view w' = v \<or> namespaceWritten old new v (view w'))"
    by (rule patch_namespace [OF _ assms(2)])
next
  fix v v' and r :: "apiError + namespace"
  assume v: "inOrder v" "sure k pc G v" "namespaceWritten old new v v'"
  have m: "moved v v'" by (rule namespaceWritten_moved [OF v(3,1,2) assms(3)])
  have "sure k pc (\<lambda>v'. G v' \<and> (\<not> isl r \<longrightarrow> patchSeen old new v')) v'"
    by (rule sure_mono [OF sure_moved [OF assms(1) m v(2)]]) (simp add: patchSeen_written [OF v(3)])
  with m show "moved v v' \<and> sure k pc (\<lambda>v'. G v' \<and> (\<not> isl r \<longrightarrow> patchSeen old new v')) v'" ..
qed

text \<open>Patches of the policy in hand.\<close>

lemma leads_patchPolicy:
  assumes "seen pc G" "policyRequest new = k" "om_Finalizers (pc_Meta old) \<noteq> om_Finalizers (pc_Meta new)"
  shows "leads (sure k pc G) (api e (cl_PatchPolicy C old new)) (\<lambda>r v. sure k pc G v \<and>
      (\<forall>p. r = Inr p \<longrightarrow> om_Finalizers (pc_Meta p) = om_Finalizers (pc_Meta new) \<and>
        (pb_Policies v k = Some p \<or> om_Finalizers (pc_Meta new) = [] \<and> pb_Policies v k = None)))"
  unfolding leads_def
proof (intro allI impI)
  fix s assume s: "inOrder (view (world s))" "sure k pc G (view (world s))"
  obtain r w' where g: "cl_PatchPolicy C old new (world s) = (r, w')" by force
  obtain v where v: "moved (view (world s)) v" "isl r \<and> view w' = v \<or> policyWritten k v (view w') \<and>
      (\<forall>p. r = Inr p \<longrightarrow> om_Finalizers (pc_Meta p) = om_Finalizers (pc_Meta new) \<and>
        (pb_Policies (view w') k = Some p \<or> om_Finalizers (pc_Meta new) = [] \<and> pb_Policies (view w') k = None))"
    using patch_policy [OF s(1) assms(3) g] unfolding assms(2) by blast
  have "moved v (view w')" using v moved_refl [OF moved_order [OF v(1)]] written_moved by metis
  then have m: "moved (view (world s)) (view w')" by (rule moved_trans [OF v(1)])
  show "moved (view (world s)) (view (world (snd (run_state (api e (cl_PatchPolicy C old new)) s)))) \<and>
      sure k pc G (view (world (snd (run_state (api e (cl_PatchPolicy C old new)) s)))) \<and>
      (\<forall>p. fst (run_state (api e (cl_PatchPolicy C old new)) s) = Inr p \<longrightarrow> om_Finalizers (pc_Meta p) = om_Finalizers (pc_Meta new) \<and>
        (pb_Policies (view (world (snd (run_state (api e (cl_PatchPolicy C old new)) s)))) k = Some p \<or>
         om_Finalizers (pc_Meta new) = [] \<and> pb_Policies (view (world (snd (run_state (api e (cl_PatchPolicy C old new)) s)))) k = None))"
    using m sure_moved [OF assms(1) m s(2)] v(2) g by (auto simp: run_api)
qed

section \<open>The status\<close>

lemma leads_setValidated:
  assumes "conditions_documented K" "seen pc G" "policyRequest pc = k"
  shows "leads (sure k pc G) (setValidatedCondition K C pc st reason msg n)
    (\<lambda>r. sure k pc (\<lambda>v. G v \<and> (r = None \<longrightarrow> reports pc (st = ConditionTrue) n \<and> validatedMessage pc = Some msg)))"
proof -
  let ?pc = "withValidatedCondition K pc st reason msg n"
  let ?W = "\<lambda>(r :: apiError + policy) v v'. policyWritten k v v' \<and>
    (\<forall>p. \<not> isl r \<longrightarrow> pb_Policies v' k = Some p \<longrightarrow> statusSent pc ?pc p)"
  have key: "policyRequest ?pc = k" using assms(3) by (simp add: policyRequest_def withValidatedCondition_def)
  have patch: "leads (sure k pc G) (api (PatchPolicyStatus pc ?pc) (cl_PatchPolicyStatus C pc ?pc))
      (\<lambda>r. sure k pc (\<lambda>v. G v \<and> (\<not> isl r \<longrightarrow> statusSent pc ?pc pc)))"
  proof (rule leads_write [where W = ?W, OF _ assms(2)])
    fix w r w' assume "inOrder (view w)" "cl_PatchPolicyStatus C pc ?pc w = (r, w')"
    then show "\<exists>v. moved (view w) v \<and> (isl r \<and> view w' = v \<or> ?W r v (view w'))"
      unfolding key [symmetric] by (rule patch_status)
  next
    fix v v' and r :: "apiError + policy"
    assume v: "inOrder v" "sure k pc G v" "?W r v v'"
    have m: "moved v v'" using v(3) written_moved by blast
    have "sure k pc (\<lambda>v. G v \<and> (\<not> isl r \<longrightarrow> statusSent pc ?pc pc)) v'"
      using sure_moved [OF assms(2) m v(2)] v(3) unfolding sure_def by blast
    with m show "moved v v' \<and> sure k pc (\<lambda>v. G v \<and> (\<not> isl r \<longrightarrow> statusSent pc ?pc pc)) v'" ..
  qed
  show ?thesis
    unfolding setValidatedCondition_def Let_def
  proof (rule leads_bind [OF patch], rule leads_return)
    fix r :: "apiError + policy" and v
    assume "sure k pc (\<lambda>v. G v \<and> (\<not> isl r \<longrightarrow> statusSent pc ?pc pc)) v"
    then show "sure k pc (\<lambda>v. G v \<and> ((case r of Inl e \<Rightarrow> Some (Wrap ''update ExternalDNSPolicy status: %w'' [] (ApiErr e)) | Inr _ \<Rightarrow> None) = None \<longrightarrow>
        reports pc (st = ConditionTrue) n \<and> validatedMessage pc = Some msg)) v"
      by (rule sure_mono) (use reports_with [OF assms(1)] in \<open>auto split: sum.splits\<close>)
  qed
qed

lemma leads_policyEvent: "leads P (recordPolicyEvent recorder pc ty reason msg) (\<lambda>_. P)"
  unfolding recordPolicyEvent_def by (intro leads_branch leads_return leads_note)

section \<open>Releasing namespaces\<close>

lemma leads_uid: "(uidOf pc \<noteq> '''' \<Longrightarrow> leads (sure k pc G) m Q) \<Longrightarrow> leads (sure k pc G) m Q"
  by (rule leads_pure) (auto simp: sure_def)

lemma leads_remove:
  assumes "ownerOf ns = uidOf pc" "seen pc G"
  shows "leads (sure k pc (\<lambda>v. G v \<and> ownedBy (uidOf pc) v \<subseteq> insert (om_Name ns) S)) (removeNamespacePolicyAnnotations C ns)
    (\<lambda>r. sure k pc (\<lambda>v. G v \<and> (r = None \<longrightarrow> ownedBy (uidOf pc) v \<subseteq> S)))"
proof (rule leads_uid)
  assume uid: "uidOf pc \<noteq> ''''"
  have c: "\<not> (om_Annotations ns = None \<or> \<not> snd (dropPolicyAnnotations (om_Annotations ns)))"
    using owned_dropped assms(1) uid by simp
  have patch: "leads (sure k pc (\<lambda>v. G v \<and> ownedBy (uidOf pc) v \<subseteq> insert (om_Name ns) S))
      (api (PatchNamespace ns (withoutPolicy ns)) (cl_PatchNamespace C ns (withoutPolicy ns)))
      (\<lambda>r. sure k pc (\<lambda>v. (G v \<and> ownedBy (uidOf pc) v \<subseteq> insert (om_Name ns) S) \<and> (\<not> isl r \<longrightarrow> patchSeen ns (withoutPolicy ns) v)))"
    by (rule leads_patchNamespace [OF seen_conj [OF assms(2) seen_owned]]) (use owner_without in \<open>simp_all add: withoutPolicy_def\<close>)
  show "leads (sure k pc (\<lambda>v. G v \<and> ownedBy (uidOf pc) v \<subseteq> insert (om_Name ns) S)) (removeNamespacePolicyAnnotations C ns)
      (\<lambda>r. sure k pc (\<lambda>v. G v \<and> (r = None \<longrightarrow> ownedBy (uidOf pc) v \<subseteq> S)))"
    unfolding remove_eq if_not_P [OF c]
    by (rule leads_bind [OF patch], rule leads_return, erule sure_mono)
      (use released_seen [OF _ assms(1) uid] in \<open>auto split: sum.splits\<close>)
qed

lemma leads_removeFromAll:
  assumes "\<forall>ns \<in> set nss. ownerOf ns = uidOf pc" "seen pc G"
  shows "leads (sure k pc (\<lambda>v. G v \<and> ownedBy (uidOf pc) v \<subseteq> om_Name ` set nss \<union> S)) (removeFromAll C nss)
    (\<lambda>r. sure k pc (\<lambda>v. G v \<and> (r = None \<longrightarrow> ownedBy (uidOf pc) v \<subseteq> S)))"
  using assms(1)
proof (induction nss)
  case Nil
  then show ?case by (simp add: leads_return)
next
  case (Cons ns nss)
  let ?T = "om_Name ` set nss \<union> S"
  have first: "leads (sure k pc (\<lambda>v. G v \<and> ownedBy (uidOf pc) v \<subseteq> insert (om_Name ns) ?T)) (removeNamespacePolicyAnnotations C ns)
      (\<lambda>r. sure k pc (\<lambda>v. G v \<and> (r = None \<longrightarrow> ownedBy (uidOf pc) v \<subseteq> ?T)))"
    by (rule leads_remove [OF _ assms(2)]) (use Cons.prems in simp)
  have rest: "leads (sure k pc (\<lambda>v. G v \<and> (r = None \<longrightarrow> ownedBy (uidOf pc) v \<subseteq> ?T)))
      (case r of None \<Rightarrow> removeFromAll C nss | Some e \<Rightarrow> State_Monad.return (Some e))
      (\<lambda>r. sure k pc (\<lambda>v. G v \<and> (r = None \<longrightarrow> ownedBy (uidOf pc) v \<subseteq> S)))" for r
    using Cons by (cases r) (auto intro!: leads_return elim: sure_mono)
  show ?case
    using leads_bind [OF first rest] by simp
qed

section \<open>Annotating namespaces\<close>

lemma leads_update:
  assumes "om_Name ns \<in> set (selectedNamespaces pc)" "seen pc G"
  shows "leads (sure k pc (\<lambda>v. G v \<and> pb_Namespaces v (om_Name ns) = Some ns)) (updateNamespacePolicyAnnotations C ns pc)
    (\<lambda>r. sure k pc (\<lambda>v. (G v \<and> pb_Namespaces v (om_Name ns) = Some ns) \<and> (r = None \<longrightarrow> annotatedFor pc (om_Annotations ns)) \<and>
      (\<forall>e. r = Some e \<longrightarrow> errorsIs e errNamespacePolicyConflict \<longrightarrow> contestedFor v pc)))"
proof -
  let ?new = "ns\<lparr>om_Annotations := fst (applyPolicyAnnotations pc (om_Annotations ns))\<rparr>"
  let ?G = "\<lambda>v. G v \<and> pb_Namespaces v (om_Name ns) = Some ns"
  have owner: "ownerOf ?new = uidOf pc"
    using apply_annotated [of pc "om_Annotations ns"] by (simp add: ownerOf_def annotatedFor_def)
  have patch: "leads (sure k pc ?G) (api (PatchNamespace ns ?new) (cl_PatchNamespace C ns ?new))
      (\<lambda>r. sure k pc (\<lambda>v. ?G v \<and> (\<not> isl r \<longrightarrow> patchSeen ns ?new v)))"
    by (rule leads_patchNamespace [OF seen_conj [OF assms(2) seen_namespace [OF assms(1)]]]) (use owner assms(1) in simp_all)
  show ?thesis
    unfolding update_eq
  proof (intro leads_if leads_return leads_bind [OF patch]; (erule sure_mono)?)
    fix v assume "ownerOf ns \<noteq> '''' \<and> ownerOf ns \<noteq> uidOf pc" "?G v"
    then show "?G v \<and> (Some (Wrap ''%w: namespace %q already managed by policy %q''
        [AStr (om_Name ns), AStr (if gm_index '''' (om_Annotations ns) policyNameAnnotation = '''' then ownerOf ns
          else gm_index '''' (om_Annotations ns) policyNameAnnotation)] errNamespacePolicyConflict) = None \<longrightarrow> annotatedFor pc (om_Annotations ns)) \<and>
      (\<forall>e. Some (Wrap ''%w: namespace %q already managed by policy %q''
        [AStr (om_Name ns), AStr (if gm_index '''' (om_Annotations ns) policyNameAnnotation = '''' then ownerOf ns
          else gm_index '''' (om_Annotations ns) policyNameAnnotation)] errNamespacePolicyConflict) = Some e \<longrightarrow>
        errorsIs e errNamespacePolicyConflict \<longrightarrow> contestedFor v pc)"
      using assms(1) unfolding contestedFor_def by blast
  next
    fix r :: "apiError + namespace" and v
    let ?r = "case r of Inl e \<Rightarrow> Some (Wrap ''patch namespace %q annotations: %w'' [AStr (om_Name ns)] (ApiErr e)) | Inr _ \<Rightarrow> None"
    assume "?G v \<and> (\<not> isl r \<longrightarrow> patchSeen ns ?new v)"
    then show "?G v \<and> (?r = None \<longrightarrow> annotatedFor pc (om_Annotations ns)) \<and>
        (\<forall>e. ?r = Some e \<longrightarrow> errorsIs e errNamespacePolicyConflict \<longrightarrow> contestedFor v pc)"
      using marked_seen [of ns pc v] by (cases r) (simp_all add: errNamespacePolicyConflict_def)
  qed simp
qed

lemma leads_apply:
  assumes "seen pc G" "set names \<union> D \<subseteq> set (selectedNamespaces pc)" "D \<inter> set names = {}" "distinct names" "finite D"
  shows "leads (sure k pc (\<lambda>v. G v \<and> markedFor D v pc \<and> existing D v = n)) (applyToAll C pc n names)
    (\<lambda>r. sure k pc (\<lambda>v. G v \<and> (\<forall>m. r = Inr m \<longrightarrow> markedFor (D \<union> set names) v pc \<and> existing (D \<union> set names) v = m) \<and>
      (\<forall>e. r = Inl e \<longrightarrow> errorsIs e errNamespacePolicyConflict \<longrightarrow> contestedFor v pc)))"
  using assms(2-5)
proof (induction names arbitrary: D n)
  case Nil
  then show ?case by (auto intro!: leads_return elim!: sure_mono)
next
  case (Cons nm names)
  let ?H = "\<lambda>v. G v \<and> markedFor D v pc \<and> existing D v = n"
  let ?post = "\<lambda>(r :: goError + int) v. G v \<and>
    (\<forall>m. r = Inr m \<longrightarrow> markedFor (D \<union> set (nm # names)) v pc \<and> existing (D \<union> set (nm # names)) v = m) \<and>
    (\<forall>e. r = Inl e \<longrightarrow> errorsIs e errNamespacePolicyConflict \<longrightarrow> contestedFor v pc)"
  have D: "D \<subseteq> set (selectedNamespaces pc)" "nm \<in> set (selectedNamespaces pc)" "nm \<notin> D" using Cons.prems(1,2) by auto
  have H: "seen pc ?H" by (intro seen_conj assms(1) seen_marked seen_existing D(1))
  have more: "existing (insert nm D) v = (if pb_Namespaces v nm = None then existing D v else int32 (existing D v + 1))" for v
    by (rule existing_insert [OF Cons.prems(4) D(3)])
  have rest: "leads (sure k pc (\<lambda>v. G v \<and> markedFor (insert nm D) v pc \<and> existing (insert nm D) v = m)) (applyToAll C pc m names)
      (\<lambda>r. sure k pc (?post r))" for m
    using Cons.IH [of "insert nm D" m] Cons.prems by simp
  let ?X = "\<lambda>(r :: apiError + namespace) v. (\<forall>x. r = Inr x \<longrightarrow> pb_Namespaces v nm = Some x) \<and> (r = Inl NotFound \<longrightarrow> pb_Namespaces v nm = None)"
  have get: "leads (sure k pc ?H) (api (GetNamespace nm) (cl_GetNamespace C nm)) (\<lambda>r v. sure k pc (\<lambda>v. ?H v \<and> ?X r v) v \<and> ?X r v)"
    by (rule leads_read [OF get_namespace H])
  have missing: "leads (\<lambda>v. sure k pc (\<lambda>v. ?H v \<and> ?X r v) v \<and> ?X r v) (applyToAll C pc n names) (\<lambda>r. sure k pc (?post r))"
    if "r = Inl NotFound" for r
    by (rule leads_mono [OF rest]) (use that more in \<open>auto simp: markedFor_def elim!: sure_mono\<close>)
  have after: "leads (sure k pc (\<lambda>v. (?H v \<and> pb_Namespaces v (om_Name ns) = Some ns) \<and> (u = None \<longrightarrow> annotatedFor pc (om_Annotations ns)) \<and>
        (\<forall>e. u = Some e \<longrightarrow> errorsIs e errNamespacePolicyConflict \<longrightarrow> contestedFor v pc)))
      (case u of None \<Rightarrow> applyToAll C pc (int32 (n + 1)) names | Some e \<Rightarrow> State_Monad.return (Inl e)) (\<lambda>r. sure k pc (?post r))"
    if "om_Name ns = nm" for u ns
  proof (cases u)
    case None
    show ?thesis unfolding None option.case
      by (rule leads_mono [OF rest]) (use more that in \<open>auto simp: markedFor_def elim!: sure_mono\<close>)
  qed (auto intro!: leads_return elim!: sure_mono)
  have found: "leads (\<lambda>v. sure k pc (\<lambda>v. ?H v \<and> ?X r v) v \<and> ?X r v)
      (State_Monad.bind (updateNamespacePolicyAnnotations C ns pc) (\<lambda>u. case u of
         Some e \<Rightarrow> State_Monad.return (Inl e) | None \<Rightarrow> applyToAll C pc (int32 (n + 1)) names))
      (\<lambda>r. sure k pc (?post r))" if r: "r = Inr ns" for r ns
  proof (rule leads_pure [where b = "om_Name ns = nm"])
    assume name: "om_Name ns = nm"
    have sel: "om_Name ns \<in> set (selectedNamespaces pc)" using D(2) name by simp
    show ?thesis
      by (rule leads_mono [OF leads_bind [OF leads_update [OF sel H] after [OF name]]]) (use r name in \<open>auto elim!: sure_mono\<close>)
  qed (use r in \<open>auto simp: inOrder_def\<close>)
  show ?case
    unfolding applyToAll.simps
    by (intro leads_bind [OF get] leads_case_sum leads_if missing found leads_return)
      (auto simp: isNotFound_def errNamespacePolicyConflict_def elim!: sure_mono)
qed

end

end
