(* ===== verification/PolicyAtWork.thy ===== *)
theory PolicyAtWork
  imports PolicyRules
begin

text \<open>
  The reconcile of a policy, operation by operation, on a board that others change; and the runs of the
  policy controller with its restarts.
\<close>

text \<open>What an enforcement that ended without an error, or with a conflict, has brought about.\<close>

definition enforcedWell :: "policy \<Rightarrow> goError + int \<Rightarrow> policyBoard \<Rightarrow> bool" where
  "enforcedWell pc r v \<longleftrightarrow> (let sel = set (selectedNamespaces pc) in
     case r of
       Inr m \<Rightarrow> ownedBy (uidOf pc) v \<subseteq> sel \<and> markedFor sel v pc \<and> existing sel v = m
     | Inl e \<Rightarrow> errorsIs e errNamespacePolicyConflict \<longrightarrow> ownedBy (uidOf pc) v \<subseteq> sel \<and> contestedFor v pc)"

lemma seen_enforced: "seen pc (enforcedWell pc r)"
proof (cases r)
  case (Inl e)
  show ?thesis unfolding enforcedWell_def Let_def Inl sum.case by (intro seen_facts)
next
  case (Inr m)
  show ?thesis unfolding enforcedWell_def Let_def Inr sum.case by (intro seen_facts subset_refl)
qed

lemma specOk_iff: "policySpecOk K sp \<longleftrightarrow> length (pl_SelectorNamespaces sp) \<noteq> 0 \<and> checkSelector K 0 [] (pl_SelectorNamespaces sp) = None \<and>
    (\<exists>n. validatePolicyRefName K (pl_UpstreamPoolRef sp) ''spec.upstreamPoolRef.name'' True = Inr n) \<and>
    (\<exists>n. validatePolicyRefName K (pl_CacheProfileRef sp) ''spec.cacheProfileRef.name'' False = Inr n)"
  by (auto simp: policySpecOk_def checkSelector_iff validatePolicyRefName_iff)

lemma refs_named:
  "validatePolicyRefName K (pl_UpstreamPoolRef (pc_Spec pc)) path True = Inr n \<Longrightarrow> (om_Namespace (pc_Meta pc), n) = poolRefOf pc"
  "validatePolicyRefName K (pl_CacheProfileRef (pc_Spec pc)) path' False = Inr n \<Longrightarrow> n \<noteq> '''' \<Longrightarrow>
    (om_Namespace (pc_Meta pc), n) = profileRefOf pc"
  "validatePolicyRefName K (pl_CacheProfileRef (pc_Spec pc)) path' False = Inr n \<Longrightarrow> n = '''' \<longleftrightarrow> pl_CacheProfileRef (pc_Spec pc) = ''''"
  by (auto simp: validatePolicyRefName_iff refNameOk_def poolRefOf_def profileRefOf_def)

definition settledAt :: "k8s \<Rightarrow> string \<times> string \<Rightarrow> policyBoard \<Rightarrow> bool" where
  "settledAt K k v \<longleftrightarrow> k \<in> pb_Queue v \<or> (\<forall>pc. pb_Policies v k = Some pc \<longrightarrow> served K v pc)"

lemma sure_settled: "sure k pc G v \<Longrightarrow> (G v \<Longrightarrow> served K v pc) \<Longrightarrow> settledAt K k v"
  unfolding sure_def settledAt_def by auto

lemma marked_uncontested: "markedFor (set (selectedNamespaces pc)) v pc \<Longrightarrow> \<not> contestedFor v pc"
  unfolding markedFor_def contestedFor_def annotatedFor_def ownerOf_def by blast

lemma removeFromAll_error: "\<forall>e. fst (run_state (removeFromAll C nss) s) = Some e \<longrightarrow> \<not> errorsIs e errNamespacePolicyConflict"
proof (induction nss arbitrary: s)
  case (Cons ns nss)
  then show ?case
    by (auto simp: run_simps remove_eq errNamespacePolicyConflict_def split: prod.splits sum.splits option.splits if_splits)
qed simp

context policy_server
begin

section \<open>Enforcement\<close>

lemma leads_list:
  assumes "seen pc G"
  shows "leads (sure k pc G) (listManagedPolicyNamespaces C (uidOf pc)) (\<lambda>r v.
    sure k pc (\<lambda>v. G v \<and> (\<forall>nss. r = Inr nss \<longrightarrow> ownedBy (uidOf pc) v \<subseteq> om_Name ` set nss)) v \<and>
    (\<forall>nss. r = Inr nss \<longrightarrow> (\<forall>ns \<in> set nss. ownerOf ns = uidOf pc)) \<and> (\<forall>e. r = Inl e \<longrightarrow> \<not> errorsIs e errNamespacePolicyConflict))"
proof (rule leads_uid)
  assume uid: "uidOf pc \<noteq> ''''"
  let ?X = "\<lambda>(r :: apiError + namespace list) v. \<forall>xs. r = Inr xs \<longrightarrow> set xs = ran (pb_Namespaces v)"
  have read: "leads (sure k pc G) (api ListNamespaces (cl_ListNamespaces C)) (\<lambda>r v. sure k pc (\<lambda>v. G v \<and> ?X r v) v \<and> ?X r v)"
    by (rule leads_read [OF list_namespaces assms])
  have owned: "ownedBy (uidOf pc) v \<subseteq> om_Name ` set (filter (managedBy (uidOf pc)) xs)"
    if "inOrder v" "set xs = ran (pb_Namespaces v)" for v xs
  proof
    fix n assume "n \<in> ownedBy (uidOf pc) v"
    then obtain x where x: "pb_Namespaces v n = Some x" "ownerOf x = uidOf pc" by (auto simp: ownedBy_def)
    then have "x \<in> set (filter (managedBy (uidOf pc)) xs)" using that(2) uid by (simp add: managedBy_owner ranI)
    moreover have "om_Name x = n" using that(1) x(1) by (simp add: inOrder_def)
    ultimately show "n \<in> om_Name ` set (filter (managedBy (uidOf pc)) xs)" by blast
  qed
  show "leads (sure k pc G) (listManagedPolicyNamespaces C (uidOf pc)) (\<lambda>r v.
    sure k pc (\<lambda>v. G v \<and> (\<forall>nss. r = Inr nss \<longrightarrow> ownedBy (uidOf pc) v \<subseteq> om_Name ` set nss)) v \<and>
    (\<forall>nss. r = Inr nss \<longrightarrow> (\<forall>ns \<in> set nss. ownerOf ns = uidOf pc)) \<and> (\<forall>e. r = Inl e \<longrightarrow> \<not> errorsIs e errNamespacePolicyConflict))"
    unfolding listManagedPolicyNamespaces_def
  proof (rule leads_bind [OF read], rule leads_return)
    fix r :: "apiError + namespace list" and v
    let ?r = "case r of Inl e \<Rightarrow> Inl (Wrap ''list namespaces: %w'' [] (ApiErr e)) | Inr items \<Rightarrow> Inr (filter (managedBy (uidOf pc)) items)"
    assume v: "inOrder v" "sure k pc (\<lambda>v. G v \<and> ?X r v) v \<and> ?X r v"
    have "sure k pc (\<lambda>v. G v \<and> (\<forall>nss. ?r = Inr nss \<longrightarrow> ownedBy (uidOf pc) v \<subseteq> om_Name ` set nss)) v"
      by (rule sure_mono [OF conjunct1 [OF v(2)]]) (use owned [OF v(1)] in \<open>auto split: sum.splits\<close>)
    then show "sure k pc (\<lambda>v. G v \<and> (\<forall>nss. ?r = Inr nss \<longrightarrow> ownedBy (uidOf pc) v \<subseteq> om_Name ` set nss)) v \<and>
      (\<forall>nss. ?r = Inr nss \<longrightarrow> (\<forall>ns \<in> set nss. ownerOf ns = uidOf pc)) \<and> (\<forall>e. ?r = Inl e \<longrightarrow> \<not> errorsIs e errNamespacePolicyConflict)"
      using uid by (cases r) (simp_all add: managedBy_owner errNamespacePolicyConflict_def)
  qed
qed

lemma leads_result: "leads P m Q \<Longrightarrow> (\<And>s. R (fst (run_state m s))) \<Longrightarrow> leads P m (\<lambda>r v. Q r v \<and> R r)"
  by (simp add: leads_def)

lemma leads_enforce:
  assumes "seen pc G" "anyOrder iter"
  shows "leads (sure k pc G) (enforcePolicy iter C pc) (\<lambda>r. sure k pc (\<lambda>v. G v \<and> enforcedWell pc r v))"
proof -
  let ?sel = "set (selectedNamespaces pc)" and ?names = "iter (selectedNamespaces pc)"
  let ?rest = "\<lambda>x. case x of None \<Rightarrow> applyToAll C pc 0 ?names | Some e \<Rightarrow> State_Monad.return (Inl e)"
  have names: "set ?names = ?sel" "distinct ?names"
    using anyOrder_set [OF assms(2), of "selectedNamespaces pc"] by (simp_all add: selectedNamespaces_def)
  have mark: "leads (sure k pc (\<lambda>v. G v \<and> ownedBy (uidOf pc) v \<subseteq> ?sel)) (applyToAll C pc 0 ?names)
      (\<lambda>r. sure k pc (\<lambda>v. G v \<and> enforcedWell pc r v))"
    by (rule leads_mono [OF leads_apply [where D = "{}" and G = "\<lambda>v. G v \<and> ownedBy (uidOf pc) v \<subseteq> ?sel"]])
      (use names in \<open>auto intro!: seen_conj assms(1) seen_owned simp: markedFor_def enforcedWell_def Let_def elim!: sure_mono split: sum.splits\<close>)
  have rest: "leads (\<lambda>v. sure k pc (\<lambda>v. G v \<and> (x = None \<longrightarrow> ownedBy (uidOf pc) v \<subseteq> ?sel)) v \<and>
      (\<forall>e. x = Some e \<longrightarrow> \<not> errorsIs e errNamespacePolicyConflict)) (?rest x) (\<lambda>r. sure k pc (\<lambda>v. G v \<and> enforcedWell pc r v))" for x
    by (cases x) (auto intro!: leads_return leads_mono [OF mark] simp: enforcedWell_def elim!: sure_mono)
  have release: "leads (\<lambda>v. sure k pc (\<lambda>v. G v \<and> ownedBy (uidOf pc) v \<subseteq> om_Name ` set nss) v \<and> (\<forall>ns \<in> set nss. ownerOf ns = uidOf pc))
      (State_Monad.bind (removeFromAll C (filter (\<lambda>ns. om_Name ns \<notin> ?sel) nss)) ?rest) (\<lambda>r. sure k pc (\<lambda>v. G v \<and> enforcedWell pc r v))" for nss
  proof (rule leads_pure [where b = "\<forall>ns \<in> set nss. ownerOf ns = uidOf pc"])
    let ?gone = "filter (\<lambda>ns. om_Name ns \<notin> ?sel) nss"
    assume "\<forall>ns \<in> set nss. ownerOf ns = uidOf pc"
    then have "leads (sure k pc (\<lambda>v. G v \<and> ownedBy (uidOf pc) v \<subseteq> om_Name ` set ?gone \<union> ?sel)) (removeFromAll C ?gone)
        (\<lambda>x v. sure k pc (\<lambda>v. G v \<and> (x = None \<longrightarrow> ownedBy (uidOf pc) v \<subseteq> ?sel)) v \<and>
          (\<forall>e. x = Some e \<longrightarrow> \<not> errorsIs e errNamespacePolicyConflict))"
      by (intro leads_result [OF leads_removeFromAll [OF _ assms(1)]] removeFromAll_error) auto
    then show "leads (\<lambda>v. sure k pc (\<lambda>v. G v \<and> ownedBy (uidOf pc) v \<subseteq> om_Name ` set nss) v \<and> (\<forall>ns \<in> set nss. ownerOf ns = uidOf pc))
        (State_Monad.bind (removeFromAll C ?gone) ?rest) (\<lambda>r. sure k pc (\<lambda>v. G v \<and> enforcedWell pc r v))"
      by (rule leads_bind [OF leads_mono rest]) (auto elim!: sure_mono)
  qed simp
  show ?thesis
    unfolding enforcePolicy_def
    by (intro leads_bind [OF leads_list [OF assms(1)]] leads_case_sum leads_return leads_mono [OF release])
      (auto simp: enforcedWell_def elim!: sure_mono)
qed

section \<open>Validation\<close>

text \<open>The result \<open>r\<close> of the validation tells whether the references are there, unless a lookup failed.\<close>

abbreviation judged :: "k8s \<Rightarrow> policy \<Rightarrow> goError option \<Rightarrow> policyBoard \<Rightarrow> bool" where
  "judged K pc r v \<equiv> (case r of None \<Rightarrow> refsThere K v pc | Some e \<Rightarrow> lookupError e \<or> \<not> refsThere K v pc)"

lemma seen_judged: "seen pc (\<lambda>v. judged K pc r v)"
proof (cases r)
  case (Some e)
  then show ?thesis using seen_refs(2) seen_True by (cases "lookupError e") simp_all
qed (use seen_refs(1) in simp)

lemma leads_checkProfile:
  assumes "seen pc G" "policySpecOk K (pc_Spec pc)"
    and n: "validatePolicyRefName K (pl_CacheProfileRef (pc_Spec pc)) ''spec.cacheProfileRef.name'' False = Inr n"
  shows "leads (sure k pc (\<lambda>v. G v \<and> poolRefOf pc \<in> pb_Pools v))
    (if n = '''' then State_Monad.return None
     else State_Monad.bind (api (GetProfile (om_Namespace (pc_Meta pc)) n) (cl_GetProfile C (om_Namespace (pc_Meta pc)) n))
       (\<lambda>h. State_Monad.return (case h of
         Inl e \<Rightarrow> Some (if isNotFound e then Errorf ''referenced cache profile %q does not exist'' [AStr n]
           else Wrap ''get referenced cache profile %q: %w'' [AStr n] (ApiErr e))
       | Inr _ \<Rightarrow> None)))
    (\<lambda>r. sure k pc (\<lambda>v. G v \<and> judged K pc r v))"
proof (rule leads_if)
  assume "n = ''''"
  then show "leads (sure k pc (\<lambda>v. G v \<and> poolRefOf pc \<in> pb_Pools v)) (State_Monad.return None)
      (\<lambda>r. sure k pc (\<lambda>v. G v \<and> judged K pc r v))"
    using refs_named(3) [OF n] assms(2) by (auto intro!: leads_return simp: refsThere_def elim!: sure_mono)
next
  assume e: "n \<noteq> ''''"
  let ?X = "\<lambda>(r :: apiError + profile) v. if profileRefOf pc \<in> pb_Profiles v then r \<noteq> Inl NotFound else isl r"
  have "leads (sure k pc (\<lambda>v. G v \<and> poolRefOf pc \<in> pb_Pools v))
      (api (GetProfile (om_Namespace (pc_Meta pc)) n) (cl_GetProfile C (om_Namespace (pc_Meta pc)) n))
      (\<lambda>r v. sure k pc (\<lambda>v. (G v \<and> poolRefOf pc \<in> pb_Pools v) \<and> ?X r v) v \<and> ?X r v)"
    unfolding refs_named(2) [OF n e, symmetric] by (rule leads_read [OF get_profile seen_conj [OF assms(1) seen_pool(1)]])
  then show "leads (sure k pc (\<lambda>v. G v \<and> poolRefOf pc \<in> pb_Pools v))
     (State_Monad.bind (api (GetProfile (om_Namespace (pc_Meta pc)) n) (cl_GetProfile C (om_Namespace (pc_Meta pc)) n))
       (\<lambda>h. State_Monad.return (case h of
         Inl e \<Rightarrow> Some (if isNotFound e then Errorf ''referenced cache profile %q does not exist'' [AStr n]
           else Wrap ''get referenced cache profile %q: %w'' [AStr n] (ApiErr e))
       | Inr _ \<Rightarrow> None)))
    (\<lambda>r. sure k pc (\<lambda>v. G v \<and> judged K pc r v))"
    by (rule leads_bind) (rule leads_return,
      use refs_named(3) [OF n] e assms(2) in \<open>auto simp: refsThere_def lookupError_def isNotFound_def elim!: sure_mono split: sum.splits if_splits\<close>)
qed

lemma leads_validate:
  assumes "seen pc G"
  shows "leads (sure k pc G) (validateReferences K C (Some pc)) (\<lambda>r. sure k pc (\<lambda>v. G v \<and> judged K pc r v))"
proof -
  let ?sp = "pc_Spec pc" and ?ns = "om_Namespace (pc_Meta pc)"
  let ?X = "\<lambda>(r :: apiError + pool) v. if poolRefOf pc \<in> pb_Pools v then r \<noteq> Inl NotFound else isl r"
  have bad: "leads (sure k pc H) (State_Monad.return (Some e)) (\<lambda>r. sure k pc (\<lambda>v. G v \<and> judged K pc r v))"
    if "\<And>v. H v \<Longrightarrow> G v \<and> (lookupError e \<or> \<not> refsThere K v pc)" for e H
    by (rule leads_return) (use that in \<open>auto elim!: sure_mono\<close>)
  have get: "leads (sure k pc G) (api (GetPool ?ns n) (cl_GetPool C ?ns n)) (\<lambda>r v. sure k pc (\<lambda>v. G v \<and> ?X r v) v \<and> ?X r v)"
    if "validatePolicyRefName K (pl_UpstreamPoolRef ?sp) ''spec.upstreamPoolRef.name'' True = Inr n" for n
    unfolding refs_named(1) [OF that, symmetric] by (rule leads_read [OF get_pool assms])
  have missing: "leads (\<lambda>v. sure k pc (\<lambda>v. G v \<and> ?X r v) v \<and> ?X r v) (State_Monad.return (Some (if isNotFound e
          then Errorf ''referenced upstream pool %q does not exist'' [AStr n]
          else Wrap ''get referenced upstream pool %q: %w'' [AStr n] (ApiErr e))))
      (\<lambda>r. sure k pc (\<lambda>v. G v \<and> judged K pc r v))" if "r = Inl e" for r n and e :: apiError
    by (rule leads_mono [OF bad [of "\<lambda>v. G v \<and> ?X r v"]])
      (use that in \<open>auto simp: refsThere_def lookupError_def isNotFound_def split: if_splits\<close>)
  have invalid: "leads (sure k pc G) (State_Monad.return (Some f)) (\<lambda>r. sure k pc (\<lambda>v. G v \<and> judged K pc r v))"
    if "\<not> policySpecOk K ?sp" for f
    by (rule bad) (use that in \<open>simp add: refsThere_def\<close>)
  have cache: "leads (\<lambda>v. sure k pc (\<lambda>v. G v \<and> ?X r v) v \<and> ?X r v)
     (case validatePolicyRefName K (pl_CacheProfileRef ?sp) ''spec.cacheProfileRef.name'' False of
        Inl e \<Rightarrow> State_Monad.return (Some e)
      | Inr n \<Rightarrow> if n = '''' then State_Monad.return None
          else State_Monad.bind (api (GetProfile ?ns n) (cl_GetProfile C ?ns n)) (\<lambda>h. State_Monad.return (case h of
            Inl e \<Rightarrow> Some (if isNotFound e then Errorf ''referenced cache profile %q does not exist'' [AStr n]
              else Wrap ''get referenced cache profile %q: %w'' [AStr n] (ApiErr e))
          | Inr _ \<Rightarrow> None)))
     (\<lambda>r. sure k pc (\<lambda>v. G v \<and> judged K pc r v))"
    if first: "length (pl_SelectorNamespaces ?sp) \<noteq> 0" "checkSelector K 0 [] (pl_SelectorNamespaces ?sp) = None"
      "validatePolicyRefName K (pl_UpstreamPoolRef ?sp) ''spec.upstreamPoolRef.name'' True = Inr n'" and r: "r = Inr p" for r n' p
  proof (cases "validatePolicyRefName K (pl_CacheProfileRef ?sp) ''spec.cacheProfileRef.name'' False")
    case (Inl e)
    then have "\<not> policySpecOk K ?sp" by (simp add: specOk_iff)
    then show ?thesis unfolding Inl sum.case by (intro leads_mono [OF invalid]) (auto elim!: sure_mono)
  next
    case (Inr n)
    then have "policySpecOk K ?sp" using first by (simp add: specOk_iff)
    then show ?thesis unfolding Inr sum.case
      by (intro leads_mono [OF leads_checkProfile [OF assms _ Inr]]) (use r in \<open>auto elim!: sure_mono split: if_splits\<close>)
  qed
  show ?thesis
    unfolding validateReferences_def option.case Let_def
    by (intro leads_if leads_case_option leads_case_sum leads_bind [OF get] missing cache invalid) (auto simp: specOk_iff)
qed

section \<open>The reconcile\<close>

text \<open>Of a policy that is live and has the finalizer when it is read.\<close>

lemma leads_enforceAndReport:
  assumes "conditions_documented K" "anyOrder iter" "policyRequest pc = k"
  shows "leads (sure k pc (\<lambda>_. True)) (enforceAndReport iter recorder K C pc) (\<lambda>r v.
    r = None \<and> \<not> isDeleting pc \<and> externalPolicyFinalizer \<in> set (om_Finalizers (pc_Meta pc)) \<longrightarrow> settledAt K k v)"
    (is "leads _ _ ?Q")
proof -
  have invalid: "leads (sure k pc (\<lambda>v. True \<and> judged K pc x v))
      (setValidatedCondition K C pc ConditionFalse ''ValidationFailed'' (MErr e) 0) ?Q"
    if "x = Some e" for x e
    by (rule leads_mono [OF leads_setValidated [OF assms(1) seen_judged [of pc K "Some e"] assms(3)]])
      (use that in \<open>auto simp: served_def Let_def lookupFailed_def elim!: sure_mono elim: sure_settled\<close>)
  have enforce: "leads (sure k pc (\<lambda>v. True \<and> judged K pc x v)) (enforcePolicy iter C pc)
      (\<lambda>a. sure k pc (\<lambda>v. refsThere K v pc \<and> enforcedWell pc a v))" if "x = None" for x :: "goError option"
    by (rule leads_mono [OF leads_enforce [OF seen_refs(1) assms(2)]]) (use that in \<open>auto elim!: sure_mono\<close>)
  have known: "seen pc (\<lambda>v. refsThere K v pc \<and> enforcedWell pc a v)" for a
    by (intro seen_conj seen_refs seen_enforced)
  have failed: "leads (sure k pc (\<lambda>v. refsThere K v pc \<and> enforcedWell pc a v))
      (State_Monad.bind (setValidatedCondition K C pc ConditionFalse ''EnforcementFailed'' (MErr e) 0) (\<lambda>statusErr.
        State_Monad.return (case statusErr of Some se \<Rightarrow> Some se
          | None \<Rightarrow> if errorsIs e errNamespacePolicyConflict then None else Some e)))
      ?Q" if "a = Inl e" for a e
    by (rule leads_bind [OF leads_setValidated [OF assms(1) known assms(3)] leads_return])
      (use that in \<open>auto simp: served_def Let_def enforcedWell_def elim: sure_settled split: option.splits if_splits\<close>)
  have done': "leads (sure k pc (\<lambda>v. refsThere K v pc \<and> enforcedWell pc a v))
      (setValidatedCondition K C pc ConditionTrue ''Enforced'' (MText f as) m) ?Q"
    if "a = Inr m" for a m f as
    by (rule leads_mono [OF leads_setValidated [OF assms(1) known [of a] assms(3)]], assumption)
      (use that marked_uncontested in \<open>auto simp: served_def Let_def enforcedWell_def lookupFailed_def elim: sure_settled\<close>)
  show ?thesis
    unfolding enforceAndReport_def
    by (intro leads_bind [OF leads_validate [OF seen_True]] leads_case_option leads_case_sum leads_bind [OF leads_policyEvent]
        leads_bind [OF enforce] invalid failed done')
qed

text \<open>A policy that is being deleted loses its finalizer, and this is an event.\<close>

lemma leads_finalize:
  assumes "finalizers_documented K" "policyRequest pc = k" "isDeleting pc"
  shows "leads (sure k pc (\<lambda>_. True)) (finalizePolicy K C pc) (\<lambda>r v. r = None \<longrightarrow> settledAt K k v)"
proof (cases "externalPolicyFinalizer \<in> set (om_Finalizers (pc_Meta pc))")
  case False
  then have "\<not> containsFinalizer K (om_Finalizers (pc_Meta pc)) externalPolicyFinalizer"
    using assms(1) by (simp add: finalizers_documented_def)
  then show ?thesis
    using False assms(3) by (auto simp: finalizePolicy_def served_def intro!: leads_return elim: sure_settled)
next
  case True
  let ?pc = "withFinalizers (\<lambda>fs. removeFinalizer K fs externalPolicyFinalizer) pc"
  have removed: "externalPolicyFinalizer \<notin> set (removeFinalizer K fs externalPolicyFinalizer)" for fs
    using assms(1) by (simp add: finalizers_documented_def)
  have fins: "om_Finalizers (pc_Meta pc) \<noteq> om_Finalizers (pc_Meta ?pc)"
    using True removed [of "om_Finalizers (pc_Meta pc)"] by (auto simp: withFinalizers_def)
  have key: "policyRequest ?pc = k" using assms(2) by (simp add: policyRequest_def withFinalizers_def)
  have gone: "k \<in> pb_Queue v" if "sure k pc (\<lambda>_. True) v" "pb_Policies v k = Some p \<or> pb_Policies v k = None"
    "om_Finalizers (pc_Meta p) = om_Finalizers (pc_Meta ?pc)" for v p
    using that fins unfolding sure_def by auto
  have drop: "leads (sure k pc (\<lambda>_. True)) (State_Monad.bind (api (PatchPolicy pc ?pc) (cl_PatchPolicy C pc ?pc)) (\<lambda>h.
      State_Monad.return (case h of Inl e \<Rightarrow> Some (Wrap ''remove policy finalizer: %w'' [] (ApiErr e)) | Inr _ \<Rightarrow> None)))
      (\<lambda>r v. r = None \<longrightarrow> settledAt K k v)"
    by (rule leads_bind [OF leads_patchPolicy [OF seen_True key fins] leads_return])
      (use gone in \<open>auto simp: settledAt_def split: sum.splits\<close>)
  have clear: "leads (\<lambda>v. sure k pc (\<lambda>v. True \<and> (\<forall>nss. r = Inr nss \<longrightarrow> ownedBy (uidOf pc) v \<subseteq> om_Name ` set nss)) v \<and>
      (\<forall>nss. r = Inr nss \<longrightarrow> (\<forall>ns \<in> set nss. ownerOf ns = uidOf pc)) \<and> (\<forall>e. r = Inl e \<longrightarrow> \<not> errorsIs e errNamespacePolicyConflict))
      (removeFromAll C nss) (\<lambda>r. sure k pc (\<lambda>_. True))" if r: "r = Inr nss" for r nss
  proof (rule leads_pure [where b = "\<forall>ns \<in> set nss. ownerOf ns = uidOf pc"])
    assume "\<forall>ns \<in> set nss. ownerOf ns = uidOf pc"
    then show "leads (\<lambda>v. sure k pc (\<lambda>v. True \<and> (\<forall>nss. r = Inr nss \<longrightarrow> ownedBy (uidOf pc) v \<subseteq> om_Name ` set nss)) v \<and>
      (\<forall>nss. r = Inr nss \<longrightarrow> (\<forall>ns \<in> set nss. ownerOf ns = uidOf pc)) \<and> (\<forall>e. r = Inl e \<longrightarrow> \<not> errorsIs e errNamespacePolicyConflict))
      (removeFromAll C nss) (\<lambda>r. sure k pc (\<lambda>_. True))"
      by (intro leads_mono [OF leads_removeFromAll [OF _ seen_True, where S = UNIV]]) (auto elim!: sure_mono)
  qed (use r in simp)
  have all: "leads (sure k pc (\<lambda>_. True)) (clearPolicyEnforcement C pc) (\<lambda>r. sure k pc (\<lambda>_. True))"
    unfolding clearPolicyEnforcement_def
    by (intro leads_bind [OF leads_list [OF seen_True]] leads_case_sum clear leads_return) (auto elim: sure_mono)
  show ?thesis
    unfolding finalizePolicy_def Let_def
    using True assms(1)
    by (intro leads_if leads_bind [OF all] leads_case_option drop leads_return) (simp_all add: finalizers_documented_def)
qed

lemma leads_queued: "leads P m Q \<Longrightarrow> leads (\<lambda>v. P v \<and> k \<in> pb_Queue v) m (\<lambda>r v. Q r v \<and> k \<in> pb_Queue v)"
  unfolding leads_def using moved_queue(1) by blast

lemma leads_reconcile:
  assumes "conditions_documented K" "finalizers_documented K" "anyOrder iter"
  shows "leads (\<lambda>_. True) (reconcilePolicy iter recorder K C (fst k) (snd k)) (\<lambda>r v. r = None \<longrightarrow> settledAt K k v)"
proof -
  let ?X = "\<lambda>(r :: apiError + policy) v. (\<forall>pc. r = Inr pc \<longrightarrow> pb_Policies v k = Some pc) \<and> (r = Inl NotFound \<longrightarrow> pb_Policies v k = None)"
  have contains: "containsFinalizer K fs externalPolicyFinalizer \<longleftrightarrow> externalPolicyFinalizer \<in> set fs"
    "externalPolicyFinalizer \<in> set (addFinalizer K fs externalPolicyFinalizer)" for fs
    using assms(2) by (simp_all add: finalizers_documented_def)
  have get: "leads (\<lambda>_. True) (api (GetPolicy (fst k) (snd k)) (cl_GetPolicy C (fst k) (snd k))) (\<lambda>r v. ?X r v)"
    using get_policy [of _ "fst k" "snd k"] by (simp add: leads_def run_api split: prod.split)
  have read: "leads (\<lambda>v. ?X r v) m Q" if "r = Inr pc" "policyRequest pc = k \<Longrightarrow> leads (sure k pc (\<lambda>_. True)) m Q" for r pc m Q
  proof (rule leads_pure [where b = "policyRequest pc = k"])
    assume "policyRequest pc = k"
    then show "leads (\<lambda>v. ?X r v) m Q"
      by (intro leads_mono [OF that(2)]) (use that(1) in \<open>auto intro: sure_read\<close>)
  qed (use that(1) inOrder_key in auto)
  have adopt: "leads (sure k pc0 (\<lambda>_. True)) (State_Monad.bind (api (PatchPolicy pc0 pc1) (cl_PatchPolicy C pc0 pc1)) (\<lambda>h. case h of
      Inl e \<Rightarrow> State_Monad.return (Some (f e)) | Inr pc \<Rightarrow> enforceAndReport iter recorder K C pc))
      (\<lambda>r v. r = None \<longrightarrow> settledAt K k v)"
    if new: "pc1 = withFinalizers (\<lambda>fs. addFinalizer K fs externalPolicyFinalizer) pc0" "policyRequest pc0 = k"
      "externalPolicyFinalizer \<notin> set (om_Finalizers (pc_Meta pc0))" for pc0 pc1 f
  proof -
    have fins: "om_Finalizers (pc_Meta pc0) \<noteq> om_Finalizers (pc_Meta pc1)" "om_Finalizers (pc_Meta pc1) \<noteq> []" "policyRequest pc1 = k"
      using new contains(2) [of "om_Finalizers (pc_Meta pc0)"] by (auto simp: withFinalizers_def policyRequest_def)
    have queued: "sure k pc (\<lambda>_. True) v \<and> k \<in> pb_Queue v"
      if "inOrder v" "sure k pc0 (\<lambda>_. True) v" "pb_Policies v k = Some pc" "om_Finalizers (pc_Meta pc) = om_Finalizers (pc_Meta pc1)" for pc v
      using that fins(1) sure_read [OF that(1,3)] unfolding sure_def by auto
    have rest: "leads (\<lambda>v. sure k pc (\<lambda>_. True) v \<and> k \<in> pb_Queue v) (enforceAndReport iter recorder K C pc)
        (\<lambda>r v. r = None \<longrightarrow> settledAt K k v)" if "policyRequest pc = k" for pc
      by (rule leads_mono [OF leads_queued [OF leads_enforceAndReport [OF assms(1,3) that], where k = k]]) (simp_all add: settledAt_def)
    show ?thesis
    proof (rule leads_bind [OF leads_patchPolicy [OF seen_True fins(3,1)]], rule leads_case_sum)
      fix h :: "apiError + policy" and pc assume h: "h = Inr pc"
      show "leads (\<lambda>v. sure k pc0 (\<lambda>_. True) v \<and> (\<forall>p. h = Inr p \<longrightarrow> om_Finalizers (pc_Meta p) = om_Finalizers (pc_Meta pc1) \<and>
            (pb_Policies v k = Some p \<or> om_Finalizers (pc_Meta pc1) = [] \<and> pb_Policies v k = None)))
          (enforceAndReport iter recorder K C pc) (\<lambda>r v. r = None \<longrightarrow> settledAt K k v)"
      proof (rule leads_pure [where b = "policyRequest pc = k"])
        assume "policyRequest pc = k"
        from rest [OF this] show "leads (\<lambda>v. sure k pc0 (\<lambda>_. True) v \<and> (\<forall>p. h = Inr p \<longrightarrow> om_Finalizers (pc_Meta p) = om_Finalizers (pc_Meta pc1) \<and>
            (pb_Policies v k = Some p \<or> om_Finalizers (pc_Meta pc1) = [] \<and> pb_Policies v k = None)))
          (enforceAndReport iter recorder K C pc) (\<lambda>r v. r = None \<longrightarrow> settledAt K k v)"
          by (rule leads_mono) (use h fins(2) queued in auto)
      qed (use h fins(2) inOrder_key in auto)
    qed (simp add: leads_return)
  qed
  have live: "leads (sure k pc (\<lambda>_. True)) (enforceAndReport iter recorder K C pc) (\<lambda>r v. r = None \<longrightarrow> settledAt K k v)"
    if "\<not> isDeleting pc" "externalPolicyFinalizer \<in> set (om_Finalizers (pc_Meta pc))" "policyRequest pc = k" for pc
    by (rule leads_mono [OF leads_enforceAndReport [OF assms(1,3) that(3)]]) (use that in simp_all)
  show ?thesis
    unfolding reconcilePolicy_def Let_def contains
    by (rule leads_bind [OF get], rule leads_case_sum, rule leads_return, force simp: isNotFound_def settledAt_def, rule read, assumption)
      (intro leads_if leads_finalize [OF assms(2)] live adopt refl; assumption)
qed

lemma reconcile_settles:
  assumes "conditions_documented K" "finalizers_documented K" "anyOrder iter" "inOrder (view (world s))"
    and "run_state (reconcilePolicy iter recorder K C (fst k) (snd k)) s = (r, s')"
  shows "moved (view (world s)) (view (world s')) \<and> (r = None \<longrightarrow> settledAt K k (view (world s')))"
  using leads_reconcile [OF assms(1-3), of recorder k, unfolded leads_def, rule_format, of s] assms(4)
  by (simp add: assms(5))

end

section \<open>Runs of the controller\<close>

definition takenUp :: "string \<times> string \<Rightarrow> policyBoard \<Rightarrow> policyBoard" where
  "takenUp k v = v\<lparr>pb_Queue := pb_Queue v - {k}, pb_Hand := {k}\<rparr>"

text \<open>A request is put back when its reconcile returns an error.\<close>

definition putDown :: "string \<times> string \<Rightarrow> goError option \<Rightarrow> policyBoard \<Rightarrow> policyBoard" where
  "putDown k r v = v\<lparr>pb_Queue := (if r = None then pb_Queue v else insert k (pb_Queue v)), pb_Hand := {}\<rparr>"

text \<open>
  The controller starts, and starts again, with a request for every policy there is; nothing is assumed
  of what an earlier run left behind.  It reconciles one request at a time, in any order, and ranges over
  the selected namespaces in an order that may change from one reconcile to the next.
\<close>

inductive policiesRun :: "k8s \<Rightarrow> 'w client \<Rightarrow> ('w \<Rightarrow> policyBoard) \<Rightarrow> 'w \<Rightarrow> bool" for K C view where
  start: "inOrder (view w) \<Longrightarrow> pb_Hand (view w) = {} \<Longrightarrow> dom (pb_Policies (view w)) \<subseteq> pb_Queue (view w) \<Longrightarrow> policiesRun K C view w"
| others: "policiesRun K C view w \<Longrightarrow> moved (view w) (view w') \<Longrightarrow> policiesRun K C view w'"
| reconcile: "policiesRun K C view w \<Longrightarrow> k \<in> pb_Queue (view w) \<Longrightarrow> anyOrder iter \<Longrightarrow>
    view (world s) = takenUp k (view w) \<Longrightarrow> run_state (reconcilePolicy iter recorder K C (fst k) (snd k)) s = (r, s') \<Longrightarrow>
    view w' = putDown k r (view (world s')) \<Longrightarrow> policiesRun K C view w'"

lemma served_board:
  "pb_Policies v' = pb_Policies v \<Longrightarrow> pb_Namespaces v' = pb_Namespaces v \<Longrightarrow> pb_Pools v' = pb_Pools v \<Longrightarrow>
    pb_Profiles v' = pb_Profiles v \<Longrightarrow> pb_Sound v' = pb_Sound v \<Longrightarrow> (served K v' pc \<longleftrightarrow> served K v pc) \<and> (inOrder v' \<longleftrightarrow> inOrder v)"
  by (simp add: served_def refsThere_def ownedBy_def contestedFor_def markedFor_def existing_def inOrder_def)

lemma inv_takenUp: "policyInv K v \<Longrightarrow> pb_Hand v = {} \<Longrightarrow> policyInv K (takenUp k v)"
  using served_board [of "takenUp k v" v] by (fastforce simp: policyInv_def takenUp_def)

lemma inv_putDown:
  assumes "policyInv K v" "pb_Hand v = {k}" "r = None \<longrightarrow> settledAt K k v"
  shows "policyInv K (putDown k r v)"
proof -
  have same: "served K (putDown k r v) pc \<longleftrightarrow> served K v pc" "inOrder (putDown k r v) \<longleftrightarrow> inOrder v" for pc
    using served_board [of "putDown k r v" v] by (simp_all add: putDown_def)
  have "k' \<in> pb_Queue (putDown k r v) \<or> served K v pc" if "pb_Policies v k' = Some pc" for k' pc
  proof (cases "k' = k")
    case True
    then show ?thesis using assms(3) that by (auto simp: settledAt_def putDown_def)
  next
    case False
    then have "k' \<in> pb_Queue v \<or> served K v pc" using assms(1,2) that unfolding policyInv_def by blast
    then show ?thesis by (auto simp: putDown_def)
  qed
  moreover have "pb_Policies (putDown k r v) = pb_Policies v" by (simp add: putDown_def)
  ultimately have "\<forall>k' pc. pb_Policies (putDown k r v) k' = Some pc \<longrightarrow> k' \<in> pb_Queue (putDown k r v) \<union> pb_Hand (putDown k r v) \<or> served K v pc"
    unfolding Un_iff by metis
  then show ?thesis using assms(1) unfolding policyInv_def same by blast
qed

lemma policiesRun_inv:
  assumes "policiesRun K C view w" "policy_server C view" "conditions_documented K" "finalizers_documented K"
  shows "policyInv K (view w) \<and> pb_Hand (view w) = {}"
  using assms(1)
proof induction
  case (start w)
  then show ?case unfolding policyInv_def by blast
next
  case (others w w')
  then show ?case using moved_inv moved_queue(2) by metis
next
  case (reconcile w k iter s recorder r s' w')
  have inv: "policyInv K (view (world s))" "pb_Hand (view (world s)) = {k}"
    using inv_takenUp reconcile.IH reconcile.hyps(4) by (simp_all add: takenUp_def)
  then have "inOrder (view (world s))" by (simp add: policyInv_def)
  then have run: "moved (view (world s)) (view (world s'))" "r = None \<longrightarrow> settledAt K k (view (world s'))"
    using policy_server.reconcile_settles [OF assms(2-4) reconcile.hyps(3) _ reconcile.hyps(5)] by simp_all
  have "policyInv K (view w')"
    unfolding reconcile.hyps(6) using inv_putDown [OF moved_inv [OF run(1) inv(1)]] moved_queue(2) [OF run(1)] inv(2) run(2) by simp
  then show ?case by (simp add: reconcile.hyps(6) putDown_def)
qed

text \<open>C4: no policy is forgotten, and its status tells the truth, but for a lookup that failed.  Others
  create, edit and delete policies, namespaces, pools and profiles between any two calls of the controller,
  any call fails before or after it took effect, and the operator restarts at any time.  In every state this
  leads to, a policy without a waiting request is as it should be.  If it is being deleted, it has given
  up its finalizer.  If it is live, it has its finalizer, and its status is of its present generation.  The
  status says \<open>Validated\<close> exactly if the policy is valid, the objects it refers to exist, no namespace it
  selects belongs to another policy, and the status does not report that a referenced pool or profile could
  not be read (such a failure is not retried, \<open>failed_lookup_not_retried\<close>); then all selected namespaces
  that exist are annotated for it, and it reports their number.  A policy with valid references and no failed
  lookup in its status owns no namespace that it does not select.  It is assumed that reads are current, that
  a change and the requests of its handlers come together (no listing of a handler fails), that there is one
  worker, and that nobody else writes the annotation of the owner.\<close>

theorem policies_settled_unless_pending:
  assumes "policiesRun K C view w" "policy_server C view" "conditions_documented K" "finalizers_documented K"
    and "pb_Policies (view w) k = Some pc" "k \<notin> pb_Queue (view w)"
  shows "if isDeleting pc then externalPolicyFinalizer \<notin> set (om_Finalizers (pc_Meta pc))
    else externalPolicyFinalizer \<in> set (om_Finalizers (pc_Meta pc)) \<and>
      st_ObservedGeneration (pc_Status pc) = om_Generation (pc_Meta pc) \<and>
      (validatedTrue pc \<longleftrightarrow> refsThere K (view w) pc \<and> \<not> lookupFailed pc \<and> \<not> contestedFor (view w) pc) \<and>
      (validatedTrue pc \<longrightarrow>
        (\<forall>n \<in> set (selectedNamespaces pc). \<forall>ns. pb_Namespaces (view w) n = Some ns \<longrightarrow> annotatedFor pc (om_Annotations ns)) \<and>
        pc_AppliedNodes pc = int32 (int (card (set (selectedNamespaces pc) \<inter> dom (pb_Namespaces (view w)))))) \<and>
      (refsThere K (view w) pc \<and> \<not> lookupFailed pc \<longrightarrow>
        (\<forall>n ns. pb_Namespaces (view w) n = Some ns \<longrightarrow> ownerOf ns = om_UID (pc_Meta pc) \<longrightarrow> n \<in> set (selectedNamespaces pc)))"
proof -
  have "served K (view w) pc"
    using policiesRun_inv [OF assms(1-4)] assms(5,6) unfolding policyInv_def by blast
  then show ?thesis
    by (auto simp: served_def Let_def reports_def markedFor_def existing_def ownedBy_def split: if_splits)
qed

end
