(* ===== verification/PolicyHost.thy ===== *)
theory PolicyHost
  imports PolicyAtWork
begin

text \<open>
  A cluster in memory with its work queue, that others use by a script while the policy controller
  runs: the objects of \<open>SharedCluster\<close>, pools and profiles that come and go, and the events of the
  watches.  It is a \<open>policy_server\<close>, whatever the script.
\<close>

section \<open>Events\<close>

datatype hostAct =
    UserAct userAct
  | PutPool pool
  | RemovePool string string
  | PutProfile profile
  | RemoveProfile string string

record policyHost = "hostAct scripted" +
  ph_Cluster :: shared
  ph_Queue :: "(string \<times> string) set"
  ph_Hand :: "(string \<times> string) set"

fun clusterAct :: "hostAct \<Rightarrow> shared \<Rightarrow> shared" where
  "clusterAct (UserAct a) c = act a c"
| "clusterAct (PutPool p) c = c\<lparr>sh_Pools := p # filter (\<lambda>q. metaKey (po_Meta q) \<noteq> metaKey (po_Meta p)) (sh_Pools c)\<rparr>"
| "clusterAct (RemovePool ns n) c = c\<lparr>sh_Pools := filter (\<lambda>q. metaKey (po_Meta q) \<noteq> (ns, n)) (sh_Pools c)\<rparr>"
| "clusterAct (PutProfile p) c = c\<lparr>sh_Profiles := p # filter (\<lambda>q. metaKey (pr_Meta q) \<noteq> metaKey (pr_Meta p)) (sh_Profiles c)\<rparr>"
| "clusterAct (RemoveProfile ns n) c = c\<lparr>sh_Profiles := filter (\<lambda>q. metaKey (pr_Meta q) \<noteq> (ns, n)) (sh_Profiles c)\<rparr>"

abbreviation policyAt :: "string \<times> string \<Rightarrow> shared \<Rightarrow> policy option" where
  "policyAt k c \<equiv> find (\<lambda>pc. policyId pc = k) (sh_Policies c)"

abbreviation namespaceAt :: "string \<Rightarrow> shared \<Rightarrow> namespace option" where
  "namespaceAt n c \<equiv> find (\<lambda>ns. om_Name ns = n) (sh_Namespaces c)"

definition poolKeys :: "shared \<Rightarrow> (string \<times> string) set" where
  "poolKeys c = (\<lambda>p. metaKey (po_Meta p)) ` set (sh_Pools c)"

definition profileKeys :: "shared \<Rightarrow> (string \<times> string) set" where
  "profileKeys c = (\<lambda>p. metaKey (pr_Meta p)) ` set (sh_Profiles c)"

text \<open>The change is an event of an object the policy is mapped from.\<close>

definition concerns :: "shared \<Rightarrow> shared \<Rightarrow> policy \<Rightarrow> bool" where
  "concerns c c' pc \<longleftrightarrow>
     (\<exists>n \<in> set (selectedNamespaces pc). namespaceAt n c' \<noteq> namespaceAt n c) \<or>
     (poolRefOf pc \<in> poolKeys c' \<longleftrightarrow> poolRefOf pc \<notin> poolKeys c) \<or>
     (profileRefOf pc \<in> profileKeys c' \<longleftrightarrow> profileRefOf pc \<notin> profileKeys c)"

definition events :: "shared \<Rightarrow> shared \<Rightarrow> (string \<times> string) set" where
  "events c c' =
     policyId ` (set (sh_Policies c) - set (sh_Policies c')) \<union> policyId ` (set (sh_Policies c') - set (sh_Policies c)) \<union>
     policyId ` {pc \<in> set (sh_Policies c'). concerns c c' pc}"

definition hostChange :: "(shared \<Rightarrow> shared) \<Rightarrow> policyHost \<Rightarrow> policyHost" where
  "hostChange f h =
     h\<lparr>ph_Cluster := f (ph_Cluster h), ph_Queue := ph_Queue h \<union> events (ph_Cluster h) (f (ph_Cluster h))\<rparr>"

definition hostAct :: "hostAct \<Rightarrow> policyHost \<Rightarrow> policyHost" where
  "hostAct a = hostChange (clusterAct a)"

definition onHost :: "(shared \<Rightarrow> (apiError + 'a) \<times> shared) \<Rightarrow> policyHost \<Rightarrow> (apiError + 'a) \<times> policyHost" where
  "onHost f h = (fst (f (ph_Cluster h)), hostChange (\<lambda>c. snd (f c)) h)"

definition reading :: "(shared \<Rightarrow> apiError + 'a) \<Rightarrow> policyHost \<Rightarrow> (apiError + 'a) \<times> policyHost" where
  "reading g h = (g (ph_Cluster h), h)"

definition hostClient :: "policyHost client" where
  "hostClient =
     \<lparr>cl_GetPool = (\<lambda>ns n. meets hostAct (reading (\<lambda>c. lookupBy (\<lambda>p. metaKey (po_Meta p)) (ns, n) (sh_Pools c)))),
      cl_ListPools = (\<lambda>ns. meets hostAct (reading (\<lambda>c. Inr (filter (\<lambda>p. om_Namespace (po_Meta p) = ns) (sh_Pools c))))),
      cl_PatchPool = (\<lambda>old new. meets hostAct (reading (\<lambda>c. Inl (OtherApiError ''forbidden'')))),
      cl_PatchPoolStatus = (\<lambda>old new. meets hostAct (reading (\<lambda>c. Inl (OtherApiError ''forbidden'')))),
      cl_GetProfile = (\<lambda>ns n. meets hostAct (reading (\<lambda>c. lookupBy (\<lambda>p. metaKey (pr_Meta p)) (ns, n) (sh_Profiles c)))),
      cl_PatchProfileStatus = (\<lambda>old new. meets hostAct (reading (\<lambda>c. Inl (OtherApiError ''forbidden'')))),
      cl_GetPolicy = (\<lambda>ns n. meets hostAct (reading (\<lambda>c. lookupBy policyId (ns, n) (sh_Policies c)))),
      cl_ListPolicies = (\<lambda>ns. meets hostAct (reading (\<lambda>c.
        Inr (filter (\<lambda>p. ns = None \<or> ns = Some (om_Namespace (pc_Meta p))) (sh_Policies c))))),
      cl_PatchPolicy = (\<lambda>old new. meets hostAct (onHost (patchFinalizers old new))),
      cl_PatchPolicyStatus = (\<lambda>old new. meets hostAct (onHost (patchStatus old new))),
      cl_GetNamespace = (\<lambda>n. meets hostAct (reading (\<lambda>c. lookupBy om_Name n (sh_Namespaces c)))),
      cl_ListNamespaces = meets hostAct (reading (\<lambda>c. Inr (sh_Namespaces c))),
      cl_PatchNamespace = (\<lambda>old new. meets hostAct (onHost (patchAnnotations old new))),
      cl_GetConfigMap = (\<lambda>ns n. meets hostAct (reading (\<lambda>c. Inl NotFound))),
      cl_CreateOrUpdate = (\<lambda>cm f. meets hostAct (reading (\<lambda>c. Inl (OtherApiError ''forbidden'')))),
      cl_Now = (\<lambda>w. (1, w))\<rparr>"

text \<open>The tables of the server: every object once, every UID once, and the next UID is new.\<close>

definition clusterOk :: "shared \<Rightarrow> bool" where
  "clusterOk c \<longleftrightarrow> wellFormed (sharedView c) \<and> distinct (map uidOf (sh_Policies c)) \<and>
     (\<forall>pc \<in> set (sh_Policies c). length (uidOf pc) \<le> sh_NextUID c)"

definition hostView :: "policyHost \<Rightarrow> policyBoard" where
  "hostView h =
     \<lparr>pb_Policies = (\<lambda>k. policyAt k (ph_Cluster h)), pb_Namespaces = (\<lambda>n. namespaceAt n (ph_Cluster h)),
      pb_Pools = poolKeys (ph_Cluster h), pb_Profiles = profileKeys (ph_Cluster h),
      pb_Queue = ph_Queue h, pb_Hand = ph_Hand h, pb_Sound = clusterOk (ph_Cluster h)\<rparr>"

section \<open>The view\<close>

lemma hostView_simps [simp]:
  "pb_Policies (hostView h) k = policyAt k (ph_Cluster h)" "pb_Namespaces (hostView h) n = namespaceAt n (ph_Cluster h)"
  "pb_Pools (hostView h) = poolKeys (ph_Cluster h)" "pb_Profiles (hostView h) = profileKeys (ph_Cluster h)"
  "pb_Queue (hostView h) = ph_Queue h" "pb_Hand (hostView h) = ph_Hand h" "pb_Sound (hostView h) = clusterOk (ph_Cluster h)"
  by (simp_all add: hostView_def)

lemma request_id: "policyRequest pc = policyId pc"
  by (simp add: policyRequest_def policyId_def metaKey_def)

lemma find_unique: "distinct (map f xs) \<Longrightarrow> find (\<lambda>x. f x = k) xs = Some x \<longleftrightarrow> x \<in> set xs \<and> f x = k"
  by (induction xs) auto

lemma find_named: "find (\<lambda>x. f x = k) xs = Some x \<Longrightarrow> x \<in> set xs \<and> f x = k"
  by (auto simp: find_Some_iff)

lemma find_unnamed: "find (\<lambda>x. f x = k) xs = None \<longleftrightarrow> k \<notin> f ` set xs"
  by (auto simp: find_None_iff)

lemma cluster_keys: "clusterOk c \<Longrightarrow> distinct (map policyId (sh_Policies c))" "clusterOk c \<Longrightarrow> distinct (map om_Name (sh_Namespaces c))"
  by (simp_all add: clusterOk_def sharedView_wf)

lemma host_order: "inOrder (hostView h) \<longleftrightarrow> clusterOk (ph_Cluster h)"
proof
  assume ok: "clusterOk (ph_Cluster h)"
  have uid: "uidOf pc \<noteq> ''''" if "pc \<in> set (sh_Policies (ph_Cluster h))" for pc
    using ok that unfolding clusterOk_def sharedView_wf by (metis comp_apply imageI)
  have same: "pc = pc'" if "pc \<in> set (sh_Policies (ph_Cluster h))" "pc' \<in> set (sh_Policies (ph_Cluster h))" "uidOf pc = uidOf pc'" for pc pc'
    using ok that unfolding clusterOk_def distinct_map inj_on_def by blast
  have "pc \<in> set (sh_Policies (ph_Cluster h)) \<and> policyId pc = k" if "policyAt k (ph_Cluster h) = Some pc" for k pc
    by (rule find_named [OF that])
  moreover from this have "k = k'" if "policyAt k (ph_Cluster h) = Some pc" "policyAt k' (ph_Cluster h) = Some pc'" "uidOf pc = uidOf pc'" for k k' pc pc'
    using same that by blast
  moreover have "om_Name ns = n" if "namespaceAt n (ph_Cluster h) = Some ns" for n ns
    using find_named [OF that] by blast
  ultimately show "inOrder (hostView h)"
    unfolding inOrder_def hostView_simps request_id using uid ok by blast
qed (simp add: inOrder_def)

text \<open>
  Every change of the cluster that gives no namespace an owner is a move: the events put into the queue
  whom it concerns.
\<close>

definition noNewOwner :: "shared \<Rightarrow> shared \<Rightarrow> bool" where
  "noNewOwner c c' \<longleftrightarrow> (\<forall>n' \<in> set (sh_Namespaces c'). ownerOf n' \<noteq> '''' \<longrightarrow>
     (\<exists>n \<in> set (sh_Namespaces c). om_Name n = om_Name n' \<and> ownerOf n = ownerOf n'))"

lemma event_own:
  assumes "clusterOk c" "clusterOk c'" "policyAt k c' \<noteq> policyAt k c"
  shows "k \<in> events c c'"
proof -
  note u = find_unique [OF cluster_keys(1) [OF assms(1)]] find_unique [OF cluster_keys(1) [OF assms(2)]]
  obtain pc where "policyAt k c = Some pc \<and> policyAt k c' \<noteq> Some pc \<or> policyAt k c' = Some pc \<and> policyAt k c \<noteq> Some pc"
    using assms(3) by (metis option.exhaust)
  then have "policyId pc = k \<and> (pc \<in> set (sh_Policies c) - set (sh_Policies c') \<or> pc \<in> set (sh_Policies c') - set (sh_Policies c))"
    unfolding u by auto
  then show ?thesis unfolding events_def by blast
qed

lemma event_concerned:
  assumes "policyAt k c' = Some pc" "concerns c c' pc"
  shows "k \<in> events c c'"
  using find_named [OF assms(1)] assms(2) unfolding events_def by blast

lemma owned_kept:
  assumes "clusterOk (ph_Cluster h)" "noNewOwner (ph_Cluster h) (ph_Cluster h')" "uid \<noteq> ''''"
  shows "ownedBy uid (hostView h') \<subseteq> ownedBy uid (hostView h)"
proof
  fix n assume "n \<in> ownedBy uid (hostView h')"
  then obtain x' where x': "namespaceAt n (ph_Cluster h') = Some x'" "ownerOf x' = uid" by (auto simp: ownedBy_def)
  then obtain x where "x \<in> set (sh_Namespaces (ph_Cluster h))" "om_Name x = n" "ownerOf x = uid"
    using find_named [OF x'(1)] assms(2,3) unfolding noNewOwner_def by metis
  then show "n \<in> ownedBy uid (hostView h)"
    using find_unique [OF cluster_keys(2) [OF assms(1)]] by (auto simp: ownedBy_def)
qed

lemma change_moved:
  assumes ok: "clusterOk (ph_Cluster h)" "clusterOk (f (ph_Cluster h))" and owner: "noNewOwner (ph_Cluster h) (f (ph_Cluster h))"
  shows "moved (hostView h) (hostView (hostChange f h))"
proof -
  let ?c = "ph_Cluster h" and ?h' = "hostChange f h"
  have h': "ph_Cluster ?h' = f ?c" "ph_Queue ?h' = ph_Queue h \<union> events ?c (f ?c)" "ph_Hand ?h' = ph_Hand h"
    by (simp_all add: hostChange_def)
  have same: "policyAt k (f ?c) = policyAt k ?c" if "k \<notin> ph_Queue ?h'" for k
    using event_own [OF ok] that unfolding h' by blast
  have "sameView pc (hostView h) (hostView ?h')" if k: "k \<notin> ph_Queue ?h'" and pc: "policyAt k ?c = Some pc" for k pc
  proof -
    have pc': "policyAt k (f ?c) = Some pc" using same [OF k] pc by simp
    then have "\<not> concerns ?c (f ?c) pc" using event_concerned k unfolding h' by blast
    moreover have "inOrder (hostView h)" using ok(1) by (simp add: host_order)
    then have "uidOf pc \<noteq> ''''" using pc unfolding inOrder_def hostView_simps by blast
    then have "ownedBy (uidOf pc) (hostView ?h') \<subseteq> ownedBy (uidOf pc) (hostView h)"
      by (intro owned_kept) (simp_all add: h' ok(1) owner)
    ultimately show ?thesis unfolding sameView_def hostView_simps h' concerns_def by blast
  qed
  moreover have "inOrder (hostView ?h')" using ok(2) by (simp add: host_order h')
  ultimately show ?thesis
    using same unfolding moved_def hostView_simps by (simp add: h')
qed

section \<open>What others do\<close>

lemma noNewOwner_refl: "noNewOwner c c"
  unfolding noNewOwner_def by blast

lemma noNewOwner_same: "sh_Namespaces c' = sh_Namespaces c \<Longrightarrow> noNewOwner c c'"
  unfolding noNewOwner_def by metis

lemma may_owner: "othersMay (sharedView c) (sharedView c') \<Longrightarrow> noNewOwner c c'"
  unfolding may_shared noNewOwner_def by blast

lemma clusterOk_same:
  "clusterOk c \<Longrightarrow> sh_Policies c' = sh_Policies c \<Longrightarrow> sh_Namespaces c' = sh_Namespaces c \<Longrightarrow> sh_NextUID c' = sh_NextUID c \<Longrightarrow> clusterOk c'"
  by (simp add: clusterOk_def sharedView_wf)

text \<open>A policy keeps its name and its UID.\<close>

lemma clusterOk_map:
  assumes "clusterOk c" "\<And>pc. policyId (f pc) = policyId pc" "\<And>pc. uidOf (f pc) = uidOf pc"
  shows "clusterOk (c\<lparr>sh_Policies := map f (filter P (sh_Policies c))\<rparr>)"
proof -
  have keys: "map policyId (map f xs) = map policyId xs" "map uidOf (map f xs) = map uidOf xs" for xs
    by (simp_all add: assms(2,3))
  have "'''' \<notin> (om_UID \<circ> pc_Meta) ` set (map f (filter P (sh_Policies c)))"
    using assms(1,3) unfolding clusterOk_def sharedView_wf by auto
  then show ?thesis
    using assms(1) unfolding clusterOk_def sharedView_wf
    by (simp add: keys distinct_map_filter assms(3) del: map_map)
qed

lemma length_freshUID [simp]: "length (freshUID n) = Suc n"
  by (simp add: freshUID_def)

lemma act_ok:
  assumes "clusterOk c"
  shows "clusterOk (act a c)"
proof (cases a)
  case (CreatePolicy ns n spec)
  have new: "freshUID (sh_NextUID c) \<notin> uidOf ` set (sh_Policies c)"
  proof
    assume "freshUID (sh_NextUID c) \<in> uidOf ` set (sh_Policies c)"
    then obtain pc where "pc \<in> set (sh_Policies c)" "uidOf pc = freshUID (sh_NextUID c)" by auto
    then show False using assms unfolding clusterOk_def by fastforce
  qed
  have "length (uidOf pc) \<le> Suc (sh_NextUID c)" if "pc \<in> set (sh_Policies c)" for pc
    using assms that unfolding clusterOk_def by fastforce
  then show ?thesis
    using assms new act_may [of c a] unfolding CreatePolicy clusterOk_def may_shared
    by (auto simp: distinct_map)
next
  case (EditPolicy ns n spec)
  have "clusterOk (c\<lparr>sh_Policies := map (\<lambda>pc. if policyId pc = (ns, n) then edited spec pc else pc) (filter (\<lambda>_. True) (sh_Policies c))\<rparr>)"
    by (rule clusterOk_map [OF assms]) simp_all
  then show ?thesis by (simp add: EditPolicy)
next
  case (DeletePolicy ns n)
  show ?thesis unfolding DeletePolicy act.simps by (rule clusterOk_map [OF assms]) simp_all
next
  case (CreateNamespace n)
  then show ?thesis using assms act_may [of c a] unfolding clusterOk_def may_shared by simp
next
  case (DeleteNamespace n)
  then show ?thesis using assms act_may [of c a] unfolding clusterOk_def may_shared by simp
next
  case (AnnotateNamespace n k v)
  then show ?thesis using assms act_may [of c a] unfolding clusterOk_def may_shared by simp
qed

lemma clusterAct_ok:
  assumes "clusterOk c"
  shows "clusterOk (clusterAct a c)" "noNewOwner c (clusterAct a c)"
proof -
  show "clusterOk (clusterAct a c)"
    by (cases a) (simp_all add: act_ok assms clusterOk_same [OF assms])
  have "noNewOwner c (act u c)" for u
    using act_may may_owner assms unfolding clusterOk_def by blast
  then show "noNewOwner c (clusterAct a c)" by (cases a) (simp_all add: noNewOwner_same)
qed

lemma hostView_script [simp]: "hostView (h\<lparr>sc_Script := s\<rparr>) = hostView h"
  by (cases h) (simp add: hostView_def)

interpretation hostOthers: scripted_others hostAct "\<lambda>h. inOrder (hostView h)" "\<lambda>h h'. moved (hostView h) (hostView h')"
proof unfold_locales
  fix h :: policyHost and a
  assume "inOrder (hostView h)"
  then show "moved (hostView h) (hostView (hostAct a h))"
    unfolding hostAct_def host_order using clusterAct_ok by (intro change_moved) simp_all
qed (simp_all add: moved_refl moved_order, rule moved_trans)

section \<open>It is a policy server\<close>

lemma host_read:
  "inOrder (hostView w) \<Longrightarrow> meets hostAct (reading g) w = (r, w') \<Longrightarrow> moved (hostView w) (hostView w') \<and>
    (\<forall>x. r = Inr x \<longrightarrow> g (ph_Cluster w') = Inr x) \<and> (r = Inl NotFound \<longrightarrow> g (ph_Cluster w') = Inl NotFound)"
  using hostOthers.meets_read [of w "\<lambda>h. g (ph_Cluster h)" r w'] unfolding reading_def [abs_def] by blast

lemma lookupBy_find: "lookupBy f k xs = (case find (\<lambda>x. f x = k) xs of None \<Rightarrow> Inl NotFound | Some x \<Rightarrow> Inr x)"
  by (simp add: lookupBy_def)

lemma host_get_policy:
  assumes "inOrder (hostView w)" "cl_GetPolicy hostClient ns n w = (r, w')"
  shows "moved (hostView w) (hostView w') \<and> (\<forall>pc. r = Inr pc \<longrightarrow> pb_Policies (hostView w') (ns, n) = Some pc) \<and>
    (r = Inl NotFound \<longrightarrow> pb_Policies (hostView w') (ns, n) = None)"
  using host_read [OF assms(1), of "\<lambda>c. lookupBy policyId (ns, n) (sh_Policies c)" r w'] assms(2)
  by (auto simp: hostClient_def lookupBy_find split: option.splits)

lemma host_get_namespace:
  assumes "inOrder (hostView w)" "cl_GetNamespace hostClient n w = (r, w')"
  shows "moved (hostView w) (hostView w') \<and> (\<forall>x. r = Inr x \<longrightarrow> pb_Namespaces (hostView w') n = Some x) \<and>
    (r = Inl NotFound \<longrightarrow> pb_Namespaces (hostView w') n = None)"
  using host_read [OF assms(1), of "\<lambda>c. lookupBy om_Name n (sh_Namespaces c)" r w'] assms(2)
  by (auto simp: hostClient_def lookupBy_find split: option.splits)

lemma host_get_pool:
  assumes "inOrder (hostView w)" "cl_GetPool hostClient ns n w = (r, w')"
  shows "moved (hostView w) (hostView w') \<and> (if (ns, n) \<in> pb_Pools (hostView w') then r \<noteq> Inl NotFound else isl r)"
  using host_read [OF assms(1), of "\<lambda>c. lookupBy (\<lambda>p. metaKey (po_Meta p)) (ns, n) (sh_Pools c)" r w'] assms(2)
    find_unnamed [of "\<lambda>p. metaKey (po_Meta p)" "(ns, n)" "sh_Pools (ph_Cluster w')"]
  by (cases r) (auto simp: hostClient_def lookupBy_find poolKeys_def split: option.splits)

lemma host_get_profile:
  assumes "inOrder (hostView w)" "cl_GetProfile hostClient ns n w = (r, w')"
  shows "moved (hostView w) (hostView w') \<and> (if (ns, n) \<in> pb_Profiles (hostView w') then r \<noteq> Inl NotFound else isl r)"
  using host_read [OF assms(1), of "\<lambda>c. lookupBy (\<lambda>p. metaKey (pr_Meta p)) (ns, n) (sh_Profiles c)" r w'] assms(2)
    find_unnamed [of "\<lambda>p. metaKey (pr_Meta p)" "(ns, n)" "sh_Profiles (ph_Cluster w')"]
  by (cases r) (auto simp: hostClient_def lookupBy_find profileKeys_def split: option.splits)

lemma namespaces_ran: "clusterOk c \<Longrightarrow> set (sh_Namespaces c) = ran (\<lambda>n. namespaceAt n c)"
  using find_unique [OF cluster_keys(2)] unfolding ran_def by blast

lemma host_list:
  assumes "inOrder (hostView w)" "cl_ListNamespaces hostClient w = (r, w')"
  shows "moved (hostView w) (hostView w') \<and> (\<forall>xs. r = Inr xs \<longrightarrow> set xs = ran (pb_Namespaces (hostView w')))"
proof -
  have m: "moved (hostView w) (hostView w')" "\<forall>xs. r = Inr xs \<longrightarrow> sh_Namespaces (ph_Cluster w') = xs"
    using host_read [OF assms(1), of "\<lambda>c. Inr (sh_Namespaces c)" r w'] assms(2) by (simp_all add: hostClient_def)
  have "clusterOk (ph_Cluster w')" using moved_order [OF m(1)] by (simp add: host_order)
  moreover have "pb_Namespaces (hostView w') = (\<lambda>n. namespaceAt n (ph_Cluster w'))" by (simp add: hostView_def)
  ultimately show ?thesis using m namespaces_ran by metis
qed

text \<open>A write to the policies of one name.\<close>

lemma rewritten:
  assumes ok: "clusterOk (ph_Cluster h)"
    and f: "f (ph_Cluster h) = (ph_Cluster h)\<lparr>sh_Policies := map g (filter P (sh_Policies (ph_Cluster h)))\<rparr>"
    and g: "\<And>pc. policyId (g pc) = policyId pc" "\<And>pc. uidOf (g pc) = uidOf pc"
    and other: "\<And>pc. policyId pc \<noteq> k \<Longrightarrow> g pc = pc \<and> P pc"
  shows "policyWritten k (hostView h) (hostView (hostChange f h))"
proof -
  let ?c = "ph_Cluster h"
  have ok': "clusterOk (f ?c)" unfolding f using ok g by (rule clusterOk_map)
  have "policyAt k' (f ?c) = Some x \<longleftrightarrow> policyAt k' ?c = Some x" if "k' \<noteq> k" for k' x
    unfolding find_unique [OF cluster_keys(1) [OF ok]] find_unique [OF cluster_keys(1) [OF ok']]
    using that other [of x] other g(1) by (auto simp: f image_iff)
  then have at: "policyAt k' (f ?c) = policyAt k' ?c" if "k' \<noteq> k" for k'
    using that by (metis option.exhaust)
  have c': "sh_Namespaces (f ?c) = sh_Namespaces ?c" "poolKeys (f ?c) = poolKeys ?c" "profileKeys (f ?c) = profileKeys ?c"
    by (simp_all add: f poolKeys_def profileKeys_def)
  have "k \<in> ph_Queue h \<union> events ?c (f ?c)" if "policyAt k (f ?c) \<noteq> policyAt k ?c"
    using event_own [OF ok ok' that] by blast
  moreover have "inOrder (hostView (hostChange f h))" using ok' by (simp add: host_order hostChange_def)
  ultimately show ?thesis
    unfolding policyWritten_def using at by (simp add: hostView_def hostChange_def c')
qed

lemma unchanged: "clusterOk (ph_Cluster h) \<Longrightarrow> f (ph_Cluster h) = ph_Cluster h \<Longrightarrow>
    policyWritten k (hostView h) (hostView (hostChange f h))"
  by (rule rewritten [where g = "\<lambda>pc. pc" and P = "\<lambda>_. True"]) simp_all

lemma host_patch_policy:
  assumes w: "inOrder (hostView w)" and fins: "om_Finalizers (pc_Meta old) \<noteq> om_Finalizers (pc_Meta new)"
    and run: "cl_PatchPolicy hostClient old new w = (r, w')"
  shows "\<exists>v. moved (hostView w) v \<and>
      (isl r \<and> hostView w' = v \<or> policyWritten (policyRequest new) v (hostView w') \<and>
        (\<forall>pc. r = Inr pc \<longrightarrow> om_Finalizers (pc_Meta pc) = om_Finalizers (pc_Meta new) \<and>
          (pb_Policies (hostView w') (policyRequest new) = Some pc \<or>
           om_Finalizers (pc_Meta new) = [] \<and> pb_Policies (hostView w') (policyRequest new) = None)))"
proof -
  let ?k = "policyId new" and ?fs = "om_Finalizers (pc_Meta new)"
  let ?g = "\<lambda>pc. if policyId pc = ?k then withFinalizers (\<lambda>_. ?fs) pc else pc"
  let ?P = "\<lambda>pc. \<not> (policyId pc = ?k \<and> ?fs = [] \<and> isDeleting pc)"
  have "meets hostAct (onHost (patchFinalizers old new)) w = (r, w')" using run by (simp add: hostClient_def)
  then obtain h where h: "moved (hostView w) (hostView h)"
    "isl r \<and> w' = h \<or> w' = snd (onHost (patchFinalizers old new) h) \<and> (isl r \<or> r = fst (onHost (patchFinalizers old new) h))"
    using hostOthers.meets_may [OF w] by blast
  have ok: "clusterOk (ph_Cluster h)" using moved_order [OF h(1)] by (simp add: host_order)
  let ?c = "ph_Cluster h" and ?f = "\<lambda>c. snd (patchFinalizers old new c)"
  have "policyWritten ?k (hostView h) (hostView (hostChange ?f h)) \<and>
      (\<forall>pc. fst (patchFinalizers old new ?c) = Inr pc \<longrightarrow> om_Finalizers (pc_Meta pc) = ?fs \<and>
        (policyAt ?k (?f ?c) = Some pc \<or> ?fs = [] \<and> policyAt ?k (?f ?c) = None))"
  proof (cases "lookupBy policyId ?k (sh_Policies ?c)")
    case (Inl e)
    then show ?thesis using unchanged [OF ok, of ?f] by (simp add: patchFinalizers_def)
  next
    case (Inr pc)
    have same: "isDeleting (?g pc) \<longleftrightarrow> isDeleting pc" "policyId (?g pc) = policyId pc" for pc
      by (simp_all add: isDeleting_def)
    have fins': "om_Finalizers (pc_Meta (?g pc)) = [] \<longleftrightarrow> ?fs = []" if "policyId pc = ?k" for pc using that by simp
    have "filter (\<lambda>pc. \<not> (policyId pc = ?k \<and> om_Finalizers (pc_Meta pc) = [] \<and> isDeleting pc)) (map ?g xs) = map ?g (filter ?P xs)" for xs
      unfolding filter_map comp_def same by (intro arg_cong [of _ _ "map ?g"] filter_cong refl) (use fins' in blast)
    then have c': "?f ?c = ?c\<lparr>sh_Policies := map ?g (filter ?P (sh_Policies ?c))\<rparr>"
      "fst (patchFinalizers old new ?c) = Inr (withFinalizers (\<lambda>_. ?fs) pc)"
      using fins Inr by (simp_all add: patchFinalizers_def Let_def)
    have wr: "policyWritten ?k (hostView h) (hostView (hostChange ?f h))"
      by (rule rewritten [where f = ?f and g = ?g and P = ?P, OF ok c'(1)]) simp_all
    have ok': "clusterOk (?f ?c)"
      using wr unfolding policyWritten_def host_order by (simp add: hostChange_def)
    have pc: "pc \<in> set (sh_Policies ?c)" "policyId pc = ?k" using lookupBy_in [OF Inr] by simp_all
    have "policyAt ?k (?f ?c) = Some (withFinalizers (\<lambda>_. ?fs) pc)" if "?P pc"
      unfolding find_unique [OF cluster_keys(1) [OF ok']] proof
      have "?g pc \<in> set (map ?g (filter ?P (sh_Policies ?c)))" using pc(1) that by (simp only: set_map set_filter) blast
      then show "withFinalizers (\<lambda>_. ?fs) pc \<in> set (sh_Policies (?f ?c))" using pc(2) by (simp add: c'(1))
    qed (simp add: pc)
    moreover have "policyAt ?k (?f ?c) = None" if "\<not> ?P pc"
    proof -
      have "x = pc" if "x \<in> set (sh_Policies ?c)" "policyId x = ?k" for x
        using find_unique [OF cluster_keys(1) [OF ok]] that pc by (metis option.inject)
      then show ?thesis unfolding find_unnamed c'(1) using that by auto
    qed
    ultimately show ?thesis using wr by (auto simp: c'(2))
  qed
  then show ?thesis
    using h unfolding request_id by (intro exI [of _ "hostView h"]) (auto simp: onHost_def hostChange_def)
qed

lemma host_patch_status:
  assumes w: "inOrder (hostView w)" and run: "cl_PatchPolicyStatus hostClient old new w = (r, w')"
  shows "\<exists>v. moved (hostView w) v \<and>
      (isl r \<and> hostView w' = v \<or> policyWritten (policyRequest new) v (hostView w') \<and>
        (\<forall>p. \<not> isl r \<longrightarrow> pb_Policies (hostView w') (policyRequest new) = Some p \<longrightarrow> statusSent old new p))"
proof -
  let ?k = "policyId new"
  let ?g = "\<lambda>pc. if policyId pc = ?k then pc\<lparr>pc_Status := pc_Status new, pc_AppliedNodes := pc_AppliedNodes new\<rparr> else pc"
  let ?f = "\<lambda>c. snd (patchStatus old new c)"
  have "meets hostAct (onHost (patchStatus old new)) w = (r, w')" using run by (simp add: hostClient_def)
  then obtain h where h: "moved (hostView w) (hostView h)"
    "isl r \<and> w' = h \<or> w' = snd (onHost (patchStatus old new) h) \<and> (isl r \<or> r = fst (onHost (patchStatus old new) h))"
    using hostOthers.meets_may [OF w] by blast
  have ok: "clusterOk (ph_Cluster h)" using moved_order [OF h(1)] by (simp add: host_order)
  have "policyWritten ?k (hostView h) (hostView (hostChange ?f h)) \<and>
      (\<forall>p. \<not> isl (fst (patchStatus old new (ph_Cluster h))) \<longrightarrow> policyAt ?k (?f (ph_Cluster h)) = Some p \<longrightarrow> statusSent old new p)"
  proof (cases "lookupBy policyId ?k (sh_Policies (ph_Cluster h))")
    case (Inl e)
    then show ?thesis using unchanged [OF ok, of ?f] by (simp add: patchStatus_def)
  next
    case (Inr pc)
    have c': "?f (ph_Cluster h) = (ph_Cluster h)\<lparr>sh_Policies := map ?g (filter (\<lambda>_. True) (sh_Policies (ph_Cluster h)))\<rparr>"
      using Inr by (simp add: patchStatus_def Let_def)
    have "policyWritten ?k (hostView h) (hostView (hostChange ?f h))"
      by (rule rewritten [where f = ?f and g = ?g, OF ok c']) (simp_all add: policyId_def)
    moreover have "statusSent old new p" if p: "policyAt ?k (?f (ph_Cluster h)) = Some p" for p
    proof -
      have "sh_Policies (?f (ph_Cluster h)) = map ?g (sh_Policies (ph_Cluster h))" using c' by simp
      then have "p \<in> set (map ?g (sh_Policies (ph_Cluster h)))" "policyId p = ?k" using find_named [OF p] by (simp_all only:)
      then obtain q where q: "p = ?g q" unfolding set_map by blast
      have "policyId q = policyId p" by (simp add: q policyId_def)
      then show ?thesis using q \<open>policyId p = ?k\<close> by (simp add: statusSent_def)
    qed
    ultimately show ?thesis by blast
  qed
  then show ?thesis
    using h unfolding request_id by (intro exI [of _ "hostView h"]) (auto simp: onHost_def hostChange_def)
qed

lemma annotations_sent:
  "annotationsSent old new x (x\<lparr>om_Annotations := mergeMap (om_Annotations old) (om_Annotations new) (om_Annotations x)\<rparr>)"
  by (simp add: annotationsSent_def mergeMap_get)

lemma namespaceWritten_change:
  assumes ok: "clusterOk (ph_Cluster h)"
    and f: "f (ph_Cluster h) = (ph_Cluster h)\<lparr>sh_Namespaces := map (\<lambda>x. if om_Name x = om_Name new then g x else x) (sh_Namespaces (ph_Cluster h))\<rparr>"
    and g: "\<And>x. annotationsSent old new x (g x)"
  shows "namespaceWritten old new (hostView h) (hostView (hostChange f h))"
proof -
  let ?c = "ph_Cluster h" and ?n = "om_Name new"
  have names: "om_Name (g x) = om_Name x" for x using g [of x] by (simp add: annotationsSent_def)
  have c': "sh_Policies (f ?c) = sh_Policies ?c" "poolKeys (f ?c) = poolKeys ?c" "profileKeys (f ?c) = profileKeys ?c"
    "sh_NextUID (f ?c) = sh_NextUID ?c"
    by (simp_all add: f poolKeys_def profileKeys_def)
  have "map om_Name (sh_Namespaces (f ?c)) = map om_Name (sh_Namespaces ?c)"
    unfolding f using names by simp
  then have ok': "clusterOk (f ?c)" using ok unfolding clusterOk_def sharedView_wf c' by metis
  have at: "namespaceAt n (f ?c) = map_option (\<lambda>x. if om_Name x = ?n then g x else x) (namespaceAt n ?c)" for n
  proof -
    have "find (\<lambda>x. om_Name x = n) (map (\<lambda>x. if om_Name x = ?n then g x else x) xs) =
        map_option (\<lambda>x. if om_Name x = ?n then g x else x) (find (\<lambda>x. om_Name x = n) xs)" for xs
      by (induction xs) (simp_all add: names)
    then show ?thesis by (simp add: f)
  qed
  have at_Some: "namespaceAt n (f ?c) = Some (if n = ?n then g x else x)" if "namespaceAt n ?c = Some x" for n x
    unfolding at that using find_named [OF that] by simp
  have at_None: "namespaceAt n (f ?c) = None" if "namespaceAt n ?c = None" for n
    unfolding at that by simp
  have other: "namespaceAt n (f ?c) = namespaceAt n ?c" if "n \<noteq> ?n" for n
    using at_None at_Some that by (cases "namespaceAt n ?c") simp_all
  have "rel_option (annotationsSent old new) (namespaceAt ?n ?c) (namespaceAt ?n (f ?c))"
    using at_None at_Some g by (cases "namespaceAt ?n ?c") simp_all
  moreover have "k \<in> ph_Queue h \<union> events ?c (f ?c)"
    if "namespaceAt ?n (f ?c) \<noteq> namespaceAt ?n ?c" "policyAt k ?c = Some pc" "?n \<in> set (selectedNamespaces pc)" for k pc
    using event_concerned [of k "f ?c" pc ?c] that unfolding concerns_def c' by blast
  ultimately show ?thesis
    unfolding namespaceWritten_def using other ok ok' by (simp add: hostView_def hostChange_def c')
qed

lemma host_patch_namespace:
  assumes w: "inOrder (hostView w)" and run: "cl_PatchNamespace hostClient x x' w = (r, w')"
  shows "\<exists>v. moved (hostView w) v \<and> (isl r \<and> hostView w' = v \<or> namespaceWritten x x' v (hostView w'))"
proof -
  let ?g = "\<lambda>y. y\<lparr>om_Annotations := mergeMap (om_Annotations x) (om_Annotations x') (om_Annotations y)\<rparr>"
  have "meets hostAct (onHost (patchAnnotations x x')) w = (r, w')" using run by (simp add: hostClient_def)
  then obtain h where h: "moved (hostView w) (hostView h)"
    "isl r \<and> w' = h \<or> w' = snd (onHost (patchAnnotations x x') h) \<and> (isl r \<or> r = fst (onHost (patchAnnotations x x') h))"
    using hostOthers.meets_may [OF w] by blast
  let ?c = "ph_Cluster h" and ?f = "\<lambda>c. snd (patchAnnotations x x' c)"
  have ok: "clusterOk ?c" using moved_order [OF h(1)] by (simp add: host_order)
  show ?thesis
  proof (cases "lookupBy om_Name (om_Name x') (sh_Namespaces ?c)")
    case (Inl e)
    then have r: "patchAnnotations x x' ?c = (Inl e, ?c)" by (simp add: patchAnnotations_def)
    then have "hostChange ?f h = h" by (simp add: hostChange_def events_def concerns_def)
    then have "isl r \<and> hostView w' = hostView h" using h(2) r by (auto simp: onHost_def)
    then show ?thesis using h(1) by blast
  next
    case (Inr y)
    then have "?f ?c = ?c\<lparr>sh_Namespaces := map (\<lambda>y. if om_Name y = om_Name x' then ?g y else y) (sh_Namespaces ?c)\<rparr>"
      by (simp add: patchAnnotations_def Let_def)
    then have "namespaceWritten x x' (hostView h) (hostView (hostChange ?f h))"
      using annotations_sent by (rule namespaceWritten_change [OF ok])
    then show ?thesis using h by (auto simp: onHost_def)
  qed
qed

lemmas host_laws = host_get_policy host_patch_policy host_patch_status host_get_pool host_get_profile
  host_get_namespace host_list host_patch_namespace

interpretation host: policy_server hostClient hostView
  by unfold_locales (rule host_laws; assumption)+

text \<open>The requests of an event are those that the handlers of the watches return.\<close>

lemma find_member: "find (\<lambda>n. f n = k) xs = None \<longleftrightarrow> k \<notin> set (remdups (map f xs))"
  by (auto simp: find_None_iff)

lemma watch_requests:
  assumes "sc_Script (world s) = []"
  shows "set (fst (run_state (mapNamespaceToPolicies hostClient obj) s)) =
      policyId ` {pc \<in> set (sh_Policies (ph_Cluster (world s))). om_Name obj \<in> set (selectedNamespaces pc)}"
    and "set (fst (run_state (mapUpstreamPoolToPolicies hostClient obj) s)) =
      policyId ` {pc \<in> set (sh_Policies (ph_Cluster (world s))). poolRefOf pc = metaKey obj}"
    and "set (fst (run_state (mapCacheProfileToPolicies hostClient obj) s)) =
      policyId ` {pc \<in> set (sh_Policies (ph_Cluster (world s))). profileRefOf pc = metaKey obj}"
proof -
  have list: "cl_ListPolicies hostClient ns (world s) =
      (Inr (filter (\<lambda>p. ns = None \<or> ns = Some (om_Namespace (pc_Meta p))) (sh_Policies (ph_Cluster (world s)))), world s)" for ns
    by (simp add: hostClient_def meets_def assms reading_def)
  show "set (fst (run_state (mapNamespaceToPolicies hostClient obj) s)) =
      policyId ` {pc \<in> set (sh_Policies (ph_Cluster (world s))). om_Name obj \<in> set (selectedNamespaces pc)}"
    unfolding mapNamespaceToPolicies_def find_member selectedNamespaces_def by (simp add: run_simps list request_id)
  show "set (fst (run_state (mapUpstreamPoolToPolicies hostClient obj) s)) =
      policyId ` {pc \<in> set (sh_Policies (ph_Cluster (world s))). poolRefOf pc = metaKey obj}"
    unfolding mapUpstreamPoolToPolicies_def by (auto simp: run_simps list request_id poolRefOf_def metaKey_def)
  show "set (fst (run_state (mapCacheProfileToPolicies hostClient obj) s)) =
      policyId ` {pc \<in> set (sh_Policies (ph_Cluster (world s))). profileRefOf pc = metaKey obj}"
    unfolding mapCacheProfileToPolicies_def by (auto simp: run_simps list request_id profileRefOf_def metaKey_def)
qed

lemma events_mapped:
  assumes "sc_Script (world s) = []"
  shows "events c (ph_Cluster (world s)) =
    policyId ` (set (sh_Policies c) - set (sh_Policies (ph_Cluster (world s)))) \<union>
    policyId ` (set (sh_Policies (ph_Cluster (world s))) - set (sh_Policies c)) \<union>
    (\<Union>n \<in> {n. namespaceAt n (ph_Cluster (world s)) \<noteq> namespaceAt n c}.
       set (fst (run_state (mapNamespaceToPolicies hostClient (newMeta '''' n n)) s))) \<union>
    (\<Union>k \<in> poolKeys (ph_Cluster (world s)) - poolKeys c \<union> (poolKeys c - poolKeys (ph_Cluster (world s))).
       set (fst (run_state (mapUpstreamPoolToPolicies hostClient (newMeta (fst k) (snd k) '''')) s))) \<union>
    (\<Union>k \<in> profileKeys (ph_Cluster (world s)) - profileKeys c \<union> (profileKeys c - profileKeys (ph_Cluster (world s))).
       set (fst (run_state (mapCacheProfileToPolicies hostClient (newMeta (fst k) (snd k) '''')) s)))"
  unfolding watch_requests [OF assms] events_def concerns_def newMeta_simps prod.collapse by blast

end
