(* ===== verification/PolicyKept.thy ===== *)
theory PolicyKept
  imports PolicyHost
begin

text \<open>
  A run of the policy controller on the cluster of \<open>PolicyHost\<close>, for which the theorem on settled
  policies says what is true at its end.
\<close>

section \<open>A run\<close>

text \<open>
  A policy enforced by an earlier run of the controller, which starts again: the first read is refused
  and the request put back, the second reconcile finds everything as it should be.
\<close>

definition keptPolicy :: policy where
  "keptPolicy = withValidatedCondition refK8s demoPolicy ConditionTrue ''Enforced''
     (MText ''References are valid and policy is enforced'' []) 1"

definition keptNamespace :: namespace where
  "keptNamespace = (plainNamespace ''x'')\<lparr>om_Annotations := fst (applyPolicyAnnotations keptPolicy (om_Annotations (plainNamespace ''x'')))\<rparr>"

definition keptHost :: "(hostAct list \<times> fault) list \<Rightarrow> (string \<times> string) set \<Rightarrow> (string \<times> string) set \<Rightarrow> policyHost" where
  "keptHost script q hand =
     \<lparr>sc_Script = script,
      ph_Cluster = \<lparr>sc_Script = [], sh_Policies = [keptPolicy], sh_Namespaces = [keptNamespace], sh_Pools = [demoPool],
        sh_Profiles = [], sh_NextUID = 2\<rparr>,
      ph_Queue = q, ph_Hand = hand\<rparr>"

lemma kept_policy: "pc_Meta keptPolicy = pc_Meta demoPolicy" "pc_Spec keptPolicy = pc_Spec demoPolicy"
  by (simp_all add: keptPolicy_def withValidatedCondition_def)

lemma kept_status: "withValidatedCondition refK8s keptPolicy ConditionTrue ''Enforced''
    (MText ''References are valid and policy is enforced'' []) 1 = keptPolicy"
  by (simp add: keptPolicy_def withValidatedCondition_def refK8s_def refSetCondition_settles)

lemma kept_meta: "policyId keptPolicy = (''a'', ''pol'')" "uidOf keptPolicy = ''u1''" "selectedNamespaces keptPolicy = [''x'', ''y'']"
  "om_Name keptNamespace = ''x''" "ownerOf keptNamespace = ''u1''" "annotatedFor keptPolicy (om_Annotations keptNamespace)"
proof -
  show mark: "annotatedFor keptPolicy (om_Annotations keptNamespace)" using apply_annotated by (simp add: keptNamespace_def)
  show "ownerOf keptNamespace = ''u1''" using mark by (simp add: annotatedFor_def ownerOf_def kept_policy demo_uid)
qed (simp_all add: policyId_def metaKey_def kept_policy demo_uid demo_selected [unfolded selectedNamespaces_def] selectedNamespaces_def
    keptNamespace_def demo_owners, simp add: demoPolicy_def plainMeta_def)

lemma kept_ok: "clusterOk (ph_Cluster (keptHost script q hand))"
  by (simp add: clusterOk_def sharedView_wf keptHost_def kept_meta)

lemma kept_view: "hostView (keptHost script q hand) = hostView (keptHost [] {} {}) \<lparr>pb_Queue := q, pb_Hand := hand\<rparr>"
  by (simp add: hostView_def keptHost_def)

lemma kept_refused:
  "\<exists>es. run_state (reconcilePolicy rev recorder refK8s hostClient ''a'' ''pol'') \<lparr>world = keptHost [([], Refuses)] {} h, effects = []\<rparr> =
     (Some (Wrap ''get ExternalDNSPolicy %s: %w'' [AStr ''a/pol''] (ApiErr (OtherApiError ''refused''))),
      \<lparr>world = keptHost [] {} h, effects = es\<rparr>)"
  by (simp add: reconcilePolicy_def run_simps hostClient_def meets_def keptHost_def isNotFound_def)

lemma kept_calls:
  "cl_GetPolicy hostClient ''a'' ''pol'' (keptHost [] q h) = (Inr keptPolicy, keptHost [] q h)"
  "cl_GetPool hostClient ''a'' ''p'' (keptHost [] q h) = (Inr demoPool, keptHost [] q h)"
  "cl_GetNamespace hostClient ''x'' (keptHost [] q h) = (Inr keptNamespace, keptHost [] q h)"
  "cl_GetNamespace hostClient ''y'' (keptHost [] q h) = (Inl NotFound, keptHost [] q h)"
  "cl_ListNamespaces hostClient (keptHost [] q h) = (Inr [keptNamespace], keptHost [] q h)"
  "cl_PatchPolicyStatus hostClient keptPolicy keptPolicy (keptHost [] q h) = (Inr keptPolicy, keptHost [] q h)"
  by (simp_all add: hostClient_def meets_def reading_def keptHost_def lookupBy_def kept_meta onHost_def patchStatus_def
      hostChange_def events_def concerns_def Let_def demo_meta) (simp_all add: metaKey_def plainMeta_def)

lemma kept_found:
  "\<exists>es. run_state (reconcilePolicy rev recorder refK8s hostClient ''a'' ''pol'') \<lparr>world = keptHost [] q h, effects = []\<rparr> =
     (None, \<lparr>world = keptHost [] q h, effects = es\<rparr>)"
proof -
  have one: "int32 1 = 1" by (simp add: is_int32_def)
  show ?thesis
    by (simp add: policy_programs demo_evaluated run_simps kept_calls kept_policy kept_meta
      kept_status isDeleting_def Let_def managedBy_owner demo_uid update_eq isNotFound_def one errNamespacePolicyConflict_def
      del: checkSelector.simps)
qed

lemma kept_run: "policiesRun refK8s hostClient hostView (keptHost [] {} {})"
proof -
  let ?k = "(''a'', ''pol'')"
  have order: "inOrder (hostView (keptHost script q hand))" for script q hand by (simp add: host_order kept_ok)
  have "dom (\<lambda>k. policyAt k (ph_Cluster (keptHost script q hand))) \<subseteq> {?k}" for script q hand
    by (auto simp: keptHost_def kept_meta split: if_splits)
  then have 1: "policiesRun refK8s hostClient hostView (keptHost [([], Refuses)] {?k} {})"
    by (intro policiesRun.start order) (simp_all add: hostView_def keptHost_def)
  have rev: "anyOrder rev" by (simp add: anyOrder_def)
  have taken: "hostView (keptHost script {} {?k}) = takenUp ?k (hostView (keptHost script' {?k} {}))" for script script'
    by (simp add: takenUp_def hostView_def keptHost_def)
  have put: "hostView (keptHost [] (if r = None then {} else {?k}) {}) = putDown ?k r (hostView (keptHost [] {} {?k}))" for r
    by (simp add: putDown_def hostView_def keptHost_def)
  let ?e = "Some (Wrap ''get ExternalDNSPolicy %s: %w'' [AStr ''a/pol''] (ApiErr (OtherApiError ''refused'')))"
  obtain es where es: "run_state (reconcilePolicy rev False refK8s hostClient ''a'' ''pol'') \<lparr>world = keptHost [([], Refuses)] {} {?k}, effects = []\<rparr> =
      (?e, \<lparr>world = keptHost [] {} {?k}, effects = es\<rparr>)" using kept_refused by blast
  have 2: "policiesRun refK8s hostClient hostView (keptHost [] {?k} {})"
    by (rule policiesRun.reconcile [OF 1 _ rev, where k = ?k and s = "\<lparr>world = keptHost [([], Refuses)] {} {?k}, effects = []\<rparr>"
        and r = ?e and s' = "\<lparr>world = keptHost [] {} {?k}, effects = es\<rparr>" and recorder = False])
      (use taken put [of ?e] es in \<open>simp_all add: keptHost_def\<close>)
  obtain es where es: "run_state (reconcilePolicy rev False refK8s hostClient ''a'' ''pol'') \<lparr>world = keptHost [] {} {?k}, effects = []\<rparr> =
      (None, \<lparr>world = keptHost [] {} {?k}, effects = es\<rparr>)" using kept_found by blast
  show ?thesis
    by (rule policiesRun.reconcile [OF 2 _ rev, where k = ?k and s = "\<lparr>world = keptHost [] {} {?k}, effects = []\<rparr>"
        and r = None and s' = "\<lparr>world = keptHost [] {} {?k}, effects = es\<rparr>" and recorder = False])
      (use taken put [of None] es in \<open>simp_all add: keptHost_def\<close>)
qed

lemma kept_validated: "validatedTrue keptPolicy"
  by (simp add: validatedTrue_def keptPolicy_def withValidatedCondition_def refK8s_def demoPolicy_def noStatus_def)

theorem policies_settled_unless_pending_witness:
  "let v = hostView (keptHost [] {} {}) in
     refsThere refK8s v keptPolicy \<and> \<not> contestedFor v keptPolicy \<and> annotatedFor keptPolicy (om_Annotations keptNamespace) \<and>
     st_ObservedGeneration (pc_Status keptPolicy) = om_Generation (pc_Meta keptPolicy)"
proof -
  have at: "pb_Policies (hostView (keptHost [] {} {})) (''a'', ''pol'') = Some keptPolicy"
    "pb_Namespaces (hostView (keptHost [] {} {})) ''x'' = Some keptNamespace" "(''a'', ''pol'') \<notin> pb_Queue (hostView (keptHost [] {} {}))"
    by (simp_all add: hostView_def keptHost_def kept_meta)
  have live: "\<not> isDeleting keptPolicy" by (simp add: isDeleting_def kept_policy) (simp add: demoPolicy_def plainMeta_def)
  from policies_settled_unless_pending [OF kept_run host.policy_server_axioms refK8s_conditions refK8s_finalizers at(1,3)]
  show ?thesis
    unfolding Let_def if_not_P [OF live] using kept_validated at(2) kept_meta(3) by auto
qed

end
