(* ===== verification/PolicyQuiet.thy ===== *)
theory PolicyQuiet
  imports PolicyBoard Outline
begin

text \<open>
  The policy controller left to itself.  Every change of a policy or of a namespace it selects asks for
  another reconcile, also those the controller makes.  Where no two policies select a namespace, this ends:
  each policy has an outcome that its first reconcile reaches, and the second changes nothing.
\<close>

section \<open>What a reconcile makes of a policy\<close>

definition refusal :: "k8s \<Rightarrow> 'w client \<Rightarrow> 'w \<Rightarrow> policy \<Rightarrow> goError option" where
  "refusal K C w pc = fst (run_state (validateReferences K C (Some pc)) \<lparr>world = w, effects = []\<rparr>)"

definition finalized :: "k8s \<Rightarrow> policy \<Rightarrow> policy" where
  "finalized K pc =
     (if externalPolicyFinalizer \<in> set (om_Finalizers (pc_Meta pc)) then pc
      else withFinalizers (\<lambda>fs. addFinalizer K fs externalPolicyFinalizer) pc)"

text \<open>The policy with the status of a reconcile, \<open>e\<close> the error of the validation, \<open>n\<close> the number of selected namespaces.\<close>

definition outcome :: "k8s \<Rightarrow> goError option \<Rightarrow> int \<Rightarrow> policy \<Rightarrow> policy" where
  "outcome K e n pc =
     (case e of
        Some e \<Rightarrow> withValidatedCondition K (finalized K pc) ConditionFalse ''ValidationFailed'' (MErr e) 0
      | None \<Rightarrow> withValidatedCondition K (finalized K pc) ConditionTrue ''Enforced''
          (MText ''References are valid and policy is enforced'' []) n)"

definition selectedCount :: "policy \<Rightarrow> namespace list \<Rightarrow> int" where
  "selectedCount pc nss = int (card (set (selectedNamespaces pc) \<inter> om_Name ` set nss))"

lemma finalized_parts: "pc_Spec (finalized K pc) = pc_Spec pc" "uidOf (finalized K pc) = uidOf pc"
  "policyRequest (finalized K pc) = policyRequest pc" "om_Namespace (pc_Meta (finalized K pc)) = om_Namespace (pc_Meta pc)"
  "isDeleting (finalized K pc) = isDeleting pc" "selectedNamespaces (finalized K pc) = selectedNamespaces pc"
  "policyKey (finalized K pc) = policyKey pc"
  by (simp_all add: finalized_def withFinalizers_def policyRequest_def isDeleting_def selectedNamespaces_def policyKey_def)

lemma withValidated_parts: "pc_Spec (withValidatedCondition K pc st r msg n) = pc_Spec pc"
  "pc_Meta (withValidatedCondition K pc st r msg n) = pc_Meta pc"
  by (simp_all add: withValidatedCondition_def)

lemma outcome_parts: "pc_Spec (outcome K e n pc) = pc_Spec pc" "pc_Meta (outcome K e n pc) = pc_Meta (finalized K pc)"
  by (simp_all add: outcome_def withValidated_parts finalized_parts split: option.split)

lemma outcome_same: "policyRequest (outcome K e n pc) = policyRequest pc" "uidOf (outcome K e n pc) = uidOf pc"
  "selectedNamespaces (outcome K e n pc) = selectedNamespaces pc" "isDeleting (outcome K e n pc) = isDeleting pc"
  using finalized_parts [of K pc] by (simp_all add: policyRequest_def selectedNamespaces_def isDeleting_def outcome_parts)

lemma finalized_has: "finalizers_documented K \<Longrightarrow> externalPolicyFinalizer \<in> set (om_Finalizers (pc_Meta (finalized K pc)))"
  by (simp add: finalized_def withFinalizers_def finalizers_documented_def)

lemma outcome_finalized: "finalizers_documented K \<Longrightarrow> finalized K (outcome K e n pc) = outcome K e n pc"
  using finalized_has [of K pc] by (simp add: finalized_def [of K "outcome K e n pc"] outcome_parts)

lemma validated_again: "conditions_settle K \<Longrightarrow>
    withValidatedCondition K (withValidatedCondition K pc st r msg n) st r msg n = withValidatedCondition K pc st r msg n"
  by (simp add: conditions_settle_def withValidatedCondition_def)

lemma outcome_settles:
  assumes "finalizers_documented K" "conditions_settle K"
  shows "outcome K e n (outcome K e n pc) = outcome K e n pc"
proof -
  obtain st r msg m where o: "outcome K e n p = withValidatedCondition K (finalized K p) st r msg m" for p
    by (cases e) (simp_all add: outcome_def)
  show ?thesis
    by (subst o) (simp only: outcome_finalized [OF assms(1)], simp only: o validated_again [OF assms(2)])
qed

lemma annotations_finalized: "applyPolicyAnnotations (finalized K pc) m = applyPolicyAnnotations pc m"
  "annotatedFor (finalized K pc) m \<longleftrightarrow> annotatedFor pc m"
  by (simp_all add: applyPolicyAnnotations_def annotatedFor_def finalized_parts)

lemma enforcedOn_finalized: "enforcedOn (finalized K pc) = enforcedOn pc"
  by (rule ext) (simp add: enforcedOn_def afterApply_def annotations_finalized finalized_parts)

lemma enforcedOn_outcome: "enforcedOn (outcome K e n pc) = enforcedOn pc"
proof -
  have "enforcedOn (outcome K e n pc) = enforcedOn (finalized K pc)"
    by (rule ext) (simp add: enforcedOn_def afterApply_def applyPolicyAnnotations_def annotatedFor_def policyKey_def outcome_parts
      finalized_parts selectedNamespaces_def)
  then show ?thesis by (simp add: enforcedOn_finalized)
qed

lemma replaceBy_same: "distinct (map f xs) \<Longrightarrow> x \<in> set xs \<Longrightarrow> replaceBy f x xs = xs"
  unfolding replaceBy_def by (intro map_idI) (auto simp: distinct_map inj_on_def)

lemma replaceBy_twice: "f y = f x \<Longrightarrow> replaceBy f y (replaceBy f x xs) = replaceBy f y xs"
  by (simp add: replaceBy_def)

lemma replaceBy_in: "f y = f x \<Longrightarrow> x \<in> set xs \<Longrightarrow> y \<in> set (replaceBy f y xs)"
  by (auto simp: replaceBy_def)

lemma replaceBy_keys [simp]: "map f (replaceBy f y xs) = map f xs"
  by (simp add: replaceBy_def)

section \<open>A server nobody else uses\<close>

locale quiet_server = namespace_server +
  fixes pols :: "'a \<Rightarrow> policy list" and refs :: "'a \<Rightarrow> (string \<times> string) set \<times> (string \<times> string) set"
  assumes get_policy: "cl_GetPolicy C ns n w = (lookupBy policyRequest (ns, n) (pols w), w)"
    and get_pool: "\<exists>r. cl_GetPool C ns n w = (r, w) \<and> (if (ns, n) \<in> fst (refs w) then \<not> isl r else r = Inl NotFound)"
    and get_profile: "\<exists>r. cl_GetProfile C ns n w = (r, w) \<and> (if (ns, n) \<in> snd (refs w) then \<not> isl r else r = Inl NotFound)"
    and patch_keeps: "cl_PatchNamespace C x x' w = (r, w') \<Longrightarrow> pols w' = pols w \<and> refs w' = refs w"
    and patch_policy: "\<exists>w'. cl_PatchPolicy C old new w = (Inr new, w') \<and>
      pols w' = replaceBy policyRequest new (pols w) \<and> refs w' = refs w \<and> view w' = view w"
    and patch_status: "\<exists>w'. cl_PatchPolicyStatus C old new w = (Inr new, w') \<and>
      pols w' = replaceBy policyRequest new (pols w) \<and> refs w' = refs w \<and> view w' = view w"

text \<open>The enforcement changes neither the policies nor what they refer to.\<close>

sublocale quiet_server \<subseteq> frame: outline "\<lambda>s. (pols (world s), refs (world s))" "\<lambda>_. True" "(=)"
  by unfold_locales simp_all

context quiet_server
begin

definition preserves :: "('a sys, 'b) state \<Rightarrow> bool" where
  "preserves m \<longleftrightarrow> frame.leads (\<lambda>_. True) m (\<lambda>_ _. True)"

lemma preserves_iff: "preserves m \<longleftrightarrow> (\<forall>s. pols (world (snd (run_state m s))) = pols (world s) \<and> refs (world (snd (run_state m s))) = refs (world s))"
  by (auto simp: preserves_def frame.leads_def)

lemma preserves_return: "preserves (State_Monad.return x)"
  by (simp add: preserves_def frame.leads_return)

lemma preserves_bind: "preserves m \<Longrightarrow> (\<And>a. preserves (f a)) \<Longrightarrow> preserves (State_Monad.bind m f)"
  unfolding preserves_def by (rule frame.leads_bind)

lemma preserves_api: "(\<And>w r w'. g w = (r, w') \<Longrightarrow> pols w' = pols w \<and> refs w' = refs w) \<Longrightarrow> preserves (api e g)"
  by (auto simp: preserves_iff run_api split: prod.split)

lemma preserves_calls: "preserves (api e (cl_PatchNamespace C x x'))" "preserves (api e1 (cl_ListNamespaces C))" "preserves (api e2 (cl_GetNamespace C n))"
  by (rule preserves_api; use patch_keeps in \<open>auto simp: list_namespaces get_namespace\<close>)+

lemma preserves_remove: "preserves (removeFromAll C nss)"
proof (induction nss)
  case (Cons ns nss)
  have "preserves (removeNamespacePolicyAnnotations C ns)"
    unfolding remove_eq by (auto intro: preserves_bind preserves_calls preserves_return)
  then show ?case by (auto intro!: preserves_bind preserves_return Cons.IH split: option.split)
qed (simp add: preserves_return)

lemma preserves_apply: "preserves (applyToAll C pc n names)"
proof (induction names arbitrary: n)
  case (Cons nm names)
  have "preserves (updateNamespacePolicyAnnotations C ns pc)" for ns
    unfolding update_eq by (auto intro: preserves_bind preserves_calls preserves_return)
  then show ?case by (auto intro!: preserves_bind preserves_return preserves_calls Cons.IH split: option.split sum.split)
qed (simp add: preserves_return)

lemma preserves_enforce: "preserves (enforcePolicy iter C pc)"
  unfolding enforcePolicy_def listManagedPolicyNamespaces_def
  by (auto intro!: preserves_bind preserves_return preserves_calls preserves_remove preserves_apply split: option.split sum.split)

section \<open>A reconcile\<close>

lemma got_refs:
  "\<exists>r. cl_GetPool C ns n w = (r, w) \<and> (isl r \<longleftrightarrow> (ns, n) \<notin> fst (refs w)) \<and> (\<forall>e. r = Inl e \<longrightarrow> e = NotFound)"
  "\<exists>r. cl_GetProfile C ns n w = (r, w) \<and> (isl r \<longleftrightarrow> (ns, n) \<notin> snd (refs w)) \<and> (\<forall>e. r = Inl e \<longrightarrow> e = NotFound)"
proof -
  obtain r where "cl_GetPool C ns n w = (r, w)" "if (ns, n) \<in> fst (refs w) then \<not> isl r else r = Inl NotFound" using get_pool by blast
  then show "\<exists>r. cl_GetPool C ns n w = (r, w) \<and> (isl r \<longleftrightarrow> (ns, n) \<notin> fst (refs w)) \<and> (\<forall>e. r = Inl e \<longrightarrow> e = NotFound)"
    by (intro exI [of _ r]) (auto split: if_splits)
  obtain r where "cl_GetProfile C ns n w = (r, w)" "if (ns, n) \<in> snd (refs w) then \<not> isl r else r = Inl NotFound" using get_profile by blast
  then show "\<exists>r. cl_GetProfile C ns n w = (r, w) \<and> (isl r \<longleftrightarrow> (ns, n) \<notin> snd (refs w)) \<and> (\<forall>e. r = Inl e \<longrightarrow> e = NotFound)"
    by (intro exI [of _ r]) (auto split: if_splits)
qed

text \<open>The result depends on the references of the policy, and the world is as before.\<close>

lemma validate_refs:
  assumes "refs (world s') = refs (world s)" "pc_Spec pc' = pc_Spec pc" "om_Namespace (pc_Meta pc') = om_Namespace (pc_Meta pc)"
  shows "\<exists>e t t'. run_state (validateReferences K C (Some pc)) s = (e, t) \<and> world t = world s \<and>
    run_state (validateReferences K C (Some pc')) s' = (e, t') \<and> world t' = world s'"
proof -
  let ?ns = "om_Namespace (pc_Meta pc)" and ?check = "checkSelector K 0 [] (pl_SelectorNamespaces (pc_Spec pc))"
  let ?pool = "validatePolicyRefName K (pl_UpstreamPoolRef (pc_Spec pc)) ''spec.upstreamPoolRef.name'' True"
  let ?cache = "validatePolicyRefName K (pl_CacheProfileRef (pc_Spec pc)) ''spec.cacheProfileRef.name'' False"
  note val = validateReferences_def option.case(2) Let_def assms(2,3)
  show ?thesis
  proof (cases "pl_SelectorNamespaces (pc_Spec pc) = [] \<or> (\<exists>e. ?check = Some e) \<or> (\<exists>e. ?pool = Inl e)")
    case True
    then show ?thesis by (cases "pl_SelectorNamespaces (pc_Spec pc) = []"; cases ?check; cases ?pool) (simp_all add: val)
  next
    case False
    then obtain p where p: "pl_SelectorNamespaces (pc_Spec pc) \<noteq> []" "?check = None" "?pool = Inr p" by (cases ?pool; cases ?check) auto
    obtain g g' where g: "cl_GetPool C ?ns p (world s) = (g, world s)" "cl_GetPool C ?ns p (world s') = (g', world s')"
      "isl g \<longleftrightarrow> isl g'" "\<forall>e. g = Inl e \<longrightarrow> e = NotFound" "\<forall>e. g' = Inl e \<longrightarrow> e = NotFound"
      using got_refs(1) [of ?ns p "world s"] got_refs(1) [of ?ns p "world s'"] assms(1) by auto
    show ?thesis
    proof (cases "isl g")
      case True
      then have "g = Inl NotFound" "g' = Inl NotFound" using g(3-5) by (auto simp: isl_def)
      then show ?thesis using p by (simp add: val run_simps g(1,2))
    next
      case False
      then obtain a a' where a: "g = Inr a" "g' = Inr a'" using g(3) by (cases g; cases g') auto
      show ?thesis
      proof (cases "\<exists>n. ?cache = Inr n \<and> n \<noteq> ''''")
        case False
        then show ?thesis using p by (cases ?cache) (simp_all add: val run_simps g(1,2) a)
      next
        case True
        then obtain n where n: "?cache = Inr n" "n \<noteq> ''''" by blast
        obtain h h' where h: "cl_GetProfile C ?ns n (world s) = (h, world s)" "cl_GetProfile C ?ns n (world s') = (h', world s')"
          "isl h \<longleftrightarrow> isl h'" "\<forall>e. h = Inl e \<longrightarrow> e = NotFound" "\<forall>e. h' = Inl e \<longrightarrow> e = NotFound"
          using got_refs(2) [of ?ns n "world s"] got_refs(2) [of ?ns n "world s'"] assms(1) by auto
        have "case_sum (\<lambda>e. Some (f e)) (\<lambda>_. None) h = case_sum (\<lambda>e. Some (f e)) (\<lambda>_. None) h'" for f :: "apiError \<Rightarrow> goError"
          using h(3-5) by (cases h; cases h') auto
        then show ?thesis using p n by (simp add: val run_simps g(1,2) h(1,2) a)
      qed
    qed
  qed
qed

lemma validate_run: "\<exists>t. run_state (validateReferences K C (Some pc)) s = (refusal K C (world s) pc, t) \<and> world t = world s"
  using validate_refs [of "\<lparr>world = world s, effects = []\<rparr>" s pc pc K] by (auto simp: refusal_def)

lemma refusal_same:
  "refs w' = refs w \<Longrightarrow> pc_Spec pc' = pc_Spec pc \<Longrightarrow> om_Namespace (pc_Meta pc') = om_Namespace (pc_Meta pc) \<Longrightarrow>
    refusal K C w' pc' = refusal K C w pc"
  using validate_refs [of "\<lparr>world = w', effects = []\<rparr>" "\<lparr>world = w, effects = []\<rparr>" pc' pc K] by (auto simp: refusal_def)

lemma status_run: "\<exists>t. run_state (setValidatedCondition K C pc st r msg n) s = (None, t) \<and>
    pols (world t) = replaceBy policyRequest (withValidatedCondition K pc st r msg n) (pols (world s)) \<and>
    refs (world t) = refs (world s) \<and> view (world t) = view (world s)"
proof -
  let ?pc = "withValidatedCondition K pc st r msg n"
  obtain w where "cl_PatchPolicyStatus C pc ?pc (world s) = (Inr ?pc, w)" "pols w = replaceBy policyRequest ?pc (pols (world s))"
    "refs w = refs (world s)" "view w = view (world s)" using patch_status by blast
  then show ?thesis by (auto simp: setValidatedCondition_def run_simps Let_def)
qed

lemma event_run: "\<exists>t. run_state (recordPolicyEvent recorder pc ty reason msg) s = ((), t) \<and> world t = world s"
  by (simp add: recordPolicyEvent_def run_simps)

definition uncontested :: "'a \<Rightarrow> policy \<Rightarrow> bool" where
  "uncontested w pc \<longleftrightarrow> (\<forall>ns \<in> set (view w). om_Name ns \<in> set (selectedNamespaces pc) \<longrightarrow> ownerOf ns \<in> {'''', uidOf pc})"

text \<open>The world after a reconcile of the policy.\<close>

definition reconciledTo :: "k8s \<Rightarrow> policy \<Rightarrow> 'a \<Rightarrow> 'a \<Rightarrow> bool" where
  "reconciledTo K pc w w' \<longleftrightarrow> refs w' = refs w \<and>
     pols w' = replaceBy policyRequest (outcome K (refusal K C w pc) (selectedCount pc (view w)) pc) (pols w) \<and>
     view w' = (if refusal K C w pc = None then map (enforcedOn pc) (view w) else view w)"

lemma report_run:
  assumes "anyOrder iter" "uidOf pc \<noteq> ''''" "distinct (map om_Name (view (world s)))" "uncontested (world s) pc"
    and "length (selectedNamespaces pc) < 2 ^ 31"
    and pc: "pc1 = finalized K pc" and s: "refs (world s) = refs w" "view (world s) = view w" "pols (world s) = replaceBy policyRequest pc1 (pols w)"
  shows "\<exists>t. run_state (enforceAndReport iter recorder K C pc1) s = (None, t) \<and> reconciledTo K pc w (world t)"
proof -
  note parts = finalized_parts [of K pc, folded pc]
  obtain s1 where s1: "run_state (validateReferences K C (Some pc1)) s = (refusal K C (world s) pc1, s1)" "world s1 = world s"
    using validate_run by blast
  have ref: "refusal K C (world s) pc1 = refusal K C w pc" using refusal_same [OF s(1)] parts by simp
  have key: "policyRequest (withValidatedCondition K pc1 st r msg n) = policyRequest pc1" for st r msg n
    by (simp add: policyRequest_def withValidated_parts)
  show ?thesis
  proof (cases "refusal K C w pc")
    case (Some e)
    obtain s2 where s2: "run_state (recordPolicyEvent recorder pc1 EventTypeWarning ''ValidationFailed'' (MErr e)) s1 = ((), s2)" "world s2 = world s1"
      using event_run by blast
    obtain t where "run_state (setValidatedCondition K C pc1 ConditionFalse ''ValidationFailed'' (MErr e) 0) s2 = (None, t)"
      "pols (world t) = replaceBy policyRequest (withValidatedCondition K pc1 ConditionFalse ''ValidationFailed'' (MErr e) 0) (pols (world s2))"
      "refs (world t) = refs (world s2)" "view (world t) = view (world s2)" using status_run by blast
    then show ?thesis
      using s1 s2 by (intro exI [of _ t])
        (simp add: enforceAndReport_def ref Some reconciledTo_def s outcome_def pc [symmetric] replaceBy_twice key)
  next
    case None
    let ?ok = "MText ''References are valid and policy is enforced'' []" and ?ev = "MText ''Validated and enforced ExternalDNSPolicy'' []"
    have "\<forall>ns \<in> set (view (world s1)). om_Name ns \<in> set (selectedNamespaces pc1) \<longrightarrow> ownerOf ns = '''' \<or> ownerOf ns = uidOf pc1"
      using assms(4) unfolding uncontested_def s1(2) parts by simp
    then obtain s2 where s2: "run_state (enforcePolicy iter C pc1) s1 = (Inr (selectedCount pc1 (view (world s1))), s2)"
      "view (world s2) = map (enforcedOn pc1) (view (world s1))"
      using enforcePolicy_run [OF assms(1), of pc1 s1] assms(2,3,5) s1(2) parts unfolding selectedCount_def by auto
    have kept: "pols (world s2) = pols (world s1)" "refs (world s2) = refs (world s1)"
      using preserves_enforce [of iter pc1] s2(1) unfolding preserves_iff by (metis snd_conv)+
    have count: "selectedCount pc1 xs = selectedCount pc xs" for xs by (simp add: selectedCount_def parts)
    obtain s3 where s3: "run_state (recordPolicyEvent recorder pc1 EventTypeNormal ''Enforced'' ?ev) s2 = ((), s3)" "world s3 = world s2"
      using event_run by blast
    obtain t where "run_state (setValidatedCondition K C pc1 ConditionTrue ''Enforced'' ?ok (selectedCount pc (view w))) s3 = (None, t)"
      "pols (world t) = replaceBy policyRequest (withValidatedCondition K pc1 ConditionTrue ''Enforced'' ?ok (selectedCount pc (view w))) (pols (world s3))"
      "refs (world t) = refs (world s3)" "view (world t) = view (world s3)" using status_run by blast
    then show ?thesis
      using s1 s2 s3 by (intro exI [of _ t])
        (simp add: enforceAndReport_def ref None reconciledTo_def s outcome_def pc [symmetric] replaceBy_twice key count kept
          enforcedOn_finalized [of K pc, folded pc])
  qed
qed

lemma reconcile_run:
  assumes "finalizers_documented K" "anyOrder iter" "uidOf pc \<noteq> ''''" "distinct (map om_Name (view (world s)))" "uncontested (world s) pc"
    and "length (selectedNamespaces pc) < 2 ^ 31" "pc \<in> set (pols (world s))" "distinct (map policyRequest (pols (world s)))" "\<not> isDeleting pc"
  shows "\<exists>t. run_state (reconcilePolicy iter recorder K C (fst (policyRequest pc)) (snd (policyRequest pc))) s = (None, t) \<and>
    reconciledTo K pc (world s) (world t)"
proof -
  have get: "cl_GetPolicy C (fst (policyRequest pc)) (snd (policyRequest pc)) (world s) = (Inr pc, world s)"
    using lookupBy_Inr [OF assms(8,7)] by (simp add: get_policy)
  define s1 where "s1 = s\<lparr>effects := effects s @ [GetPolicy (fst (policyRequest pc)) (snd (policyRequest pc)) (Inr pc)]\<rparr>"
  have s1: "world s1 = world s" by (simp add: s1_def)
  have contains: "containsFinalizer K fs externalPolicyFinalizer \<longleftrightarrow> externalPolicyFinalizer \<in> set fs" for fs
    using assms(1) by (simp add: finalizers_documented_def)
  let ?pc = "finalized K pc"
  show ?thesis
  proof (cases "externalPolicyFinalizer \<in> set (om_Finalizers (pc_Meta pc))")
    case True
    then have "finalized K pc = pc" by (simp add: finalized_def)
    moreover have "pols (world s) = replaceBy policyRequest pc (pols (world s))" using replaceBy_same [OF assms(8,7)] by simp
    ultimately show ?thesis
      using report_run [of iter pc s1 pc K "world s" recorder] assms(2-6) True
      by (simp add: s1 reconcilePolicy_def run_simps get assms(9) contains s1_def [symmetric])
  next
    case False
    then have fin: "withFinalizers (\<lambda>fs. addFinalizer K fs externalPolicyFinalizer) pc = ?pc" by (simp add: finalized_def)
    obtain w where w: "cl_PatchPolicy C pc ?pc (world s) = (Inr ?pc, w)" "pols w = replaceBy policyRequest ?pc (pols (world s))"
      "refs w = refs (world s)" "view w = view (world s)" using patch_policy by blast
    define s2 where "s2 = s1\<lparr>world := w, effects := effects s1 @ [PatchPolicy pc ?pc (Inr ?pc)]\<rparr>"
    have "world s2 = w" by (simp add: s2_def)
    then show ?thesis
      using report_run [of iter pc s2 ?pc K "world s" recorder] assms(2-6) False w
      by (simp add: uncontested_def reconcilePolicy_def run_simps get assms(9) contains fin Let_def s1_def s2_def)
  qed
qed

lemma gone_run:
  assumes "k \<notin> policyRequest ` set (pols (world s))"
  shows "\<exists>t. run_state (reconcilePolicy iter recorder K C (fst k) (snd k)) s = (None, t) \<and> world t = world s"
  using lookupBy_Inl [OF assms] by (simp add: reconcilePolicy_def run_simps get_policy isNotFound_def)

end

end
