(* ===== verification/PolicyDrain.thy ===== *)
theory PolicyDrain
  imports PolicyQuiet
begin

text \<open>
  The queue of the policy controller runs empty in an orderly cluster, where no two policies select the same
  namespace and none has to wait for a namespace that still belongs to another one: a reconcile changes
  nothing that concerns another policy, and a policy that has reached its outcome is left as it is.
\<close>

section \<open>Policies that do not meet\<close>

text \<open>No two policies select the same namespace, no selected namespace belongs to anybody else, and no policy
  is being deleted.\<close>

definition orderly :: "policy list \<Rightarrow> namespace list \<Rightarrow> bool" where
  "orderly ps nss \<longleftrightarrow> distinct (map policyRequest ps) \<and> distinct (map om_Name nss) \<and>
     (\<forall>pc \<in> set ps. uidOf pc \<noteq> '''' \<and> \<not> isDeleting pc \<and> length (selectedNamespaces pc) < 2 ^ 31 \<and>
        (\<forall>ns \<in> set nss. om_Name ns \<in> set (selectedNamespaces pc) \<longrightarrow> ownerOf ns \<in> {'''', uidOf pc}) \<and>
        (\<forall>q \<in> set ps. q \<noteq> pc \<longrightarrow> uidOf q \<noteq> uidOf pc \<and> set (selectedNamespaces q) \<inter> set (selectedNamespaces pc) = {}))"

text \<open>The enforcement of one policy leaves what another one selects or owns alone.\<close>

lemma enforced_apart:
  assumes "orderly ps nss" "pc \<in> set ps" "q \<in> set ps" "q \<noteq> pc" "ns \<in> set nss"
  shows "om_Name ns \<in> set (selectedNamespaces q) \<Longrightarrow> enforcedOn pc ns = ns"
    and "enforcedOn q ns = ns \<Longrightarrow> enforcedOn q (enforcedOn pc ns) = enforcedOn pc ns"
proof -
  have pc: "uidOf pc \<noteq> ''''" "om_Name ns \<in> set (selectedNamespaces pc) \<longrightarrow> ownerOf ns \<in> {'''', uidOf pc}"
    and q: "uidOf q \<noteq> ''''" "om_Name ns \<in> set (selectedNamespaces q) \<longrightarrow> ownerOf ns \<in> {'''', uidOf q}"
    and two: "uidOf q \<noteq> uidOf pc" "set (selectedNamespaces q) \<inter> set (selectedNamespaces pc) = {}"
    using assms unfolding orderly_def by blast+
  show one: "enforcedOn pc ns = ns" if "om_Name ns \<in> set (selectedNamespaces q)"
    using that pc(1) q(2) two by (auto simp: enforcedOn_def)
  assume "enforcedOn q ns = ns"
  then show "enforcedOn q (enforcedOn pc ns) = enforcedOn pc ns"
    using one two q(1) by (cases "om_Name ns \<in> set (selectedNamespaces q)")
      (auto simp: enforcedOn_def owner_afterApply owner_afterRemove)
qed

text \<open>The requests that changes of policies and of selected namespaces put into the queue.\<close>

definition asked :: "policy list \<Rightarrow> namespace list \<Rightarrow> policy list \<Rightarrow> namespace list \<Rightarrow> (string \<times> string) set" where
  "asked ps nss ps' nss' = policyRequest ` {pc \<in> set ps'. pc \<notin> set ps \<or>
     (\<exists>n \<in> set (selectedNamespaces pc). lookupBy om_Name n nss' \<noteq> lookupBy om_Name n nss)}"

text \<open>\<open>n\<close> reconciles of waiting requests, in any order, with nobody else at work.\<close>

inductive policiesWorked :: "k8s \<Rightarrow> 'w client \<Rightarrow> ('w \<Rightarrow> policy list) \<Rightarrow> ('w \<Rightarrow> namespace list) \<Rightarrow>
    (string \<times> string) set \<Rightarrow> 'w sys \<Rightarrow> nat \<Rightarrow> (string \<times> string) set \<Rightarrow> 'w sys \<Rightarrow> bool" for K C pols nss Q0 s0 where
  rest: "policiesWorked K C pols nss Q0 s0 0 Q0 s0"
| work: "policiesWorked K C pols nss Q0 s0 n Q s \<Longrightarrow> k \<in> Q \<Longrightarrow> anyOrder iter \<Longrightarrow>
    run_state (reconcilePolicy iter recorder K C (fst k) (snd k)) s = (r, s') \<Longrightarrow>
    policiesWorked K C pols nss Q0 s0 (Suc n)
      (Q - {k} \<union> asked (pols (world s)) (nss (world s)) (pols (world s')) (nss (world s')) \<union> (if r = None then {} else {k})) s'"

lemma lookup_map:
  "(\<And>x. key (f x) = key x) \<Longrightarrow> (\<And>x. x \<in> set xs \<Longrightarrow> key x = k \<Longrightarrow> f x = x) \<Longrightarrow> lookupBy key k (map f xs) = lookupBy key k xs"
  by (induction xs) (auto simp: lookupBy_def)

context quiet_server
begin

definition restful :: "k8s \<Rightarrow> 'a \<Rightarrow> policy \<Rightarrow> bool" where
  "restful K w pc \<longleftrightarrow> outcome K (refusal K C w pc) (selectedCount pc (view w)) pc = pc \<and>
     (refusal K C w pc = None \<longrightarrow> (\<forall>ns \<in> set (view w). enforcedOn pc ns = ns))"

text \<open>One reconcile, of the policy \<open>pc\<close>.\<close>

lemma reconciled_parts:
  assumes ord: "orderly (pols w) (view w)" and pc: "pc \<in> set (pols w)" and rec: "reconciledTo K pc w w'"
    and K: "finalizers_documented K" "conditions_settle K"
  defines "pc' \<equiv> outcome K (refusal K C w pc) (selectedCount pc (view w)) pc"
  shows "set (pols w') = insert pc' (set (pols w) - {pc})" "map policyRequest (pols w') = map policyRequest (pols w)"
    and "map om_Name (view w') = map om_Name (view w)" "refs w' = refs w"
    and "restful K w' pc'"
    and "q \<in> set (pols w) \<Longrightarrow> q \<noteq> pc \<Longrightarrow> restful K w q \<Longrightarrow> restful K w' q"
    and "orderly (pols w') (view w')"
    and "asked (pols w) (view w) (pols w') (view w') \<subseteq> (if restful K w pc then {} else {policyRequest pc})"
proof -
  have dist: "distinct (map policyRequest (pols w))" and uid: "uidOf pc \<noteq> ''''" using ord pc by (auto simp: orderly_def)
  have key: "policyRequest pc' = policyRequest pc" "uidOf pc' = uidOf pc" "selectedNamespaces pc' = selectedNamespaces pc"
    "isDeleting pc' = isDeleting pc" "pc_Spec pc' = pc_Spec pc" "enforcedOn pc' = enforcedOn pc"
    by (simp_all add: pc'_def outcome_same outcome_parts finalized_parts enforcedOn_outcome)
  have r: "refs w' = refs w" "pols w' = replaceBy policyRequest pc' (pols w)"
    "view w' = (if refusal K C w pc = None then map (enforcedOn pc) (view w) else view w)"
    using rec by (simp_all add: reconciledTo_def pc'_def)
  show "refs w' = refs w" by (rule r(1))
  have only: "q = pc" if "q \<in> set (pols w)" "policyRequest q = policyRequest pc" for q
    using dist pc that by (auto simp: distinct_map inj_on_def)
  show pols': "set (pols w') = insert pc' (set (pols w) - {pc})"
    unfolding r(2) replaceBy_def set_map image_def using pc only key(1) by auto
  show "map policyRequest (pols w') = map policyRequest (pols w)" by (simp add: r(2))
  show names: "map om_Name (view w') = map om_Name (view w)" by (simp add: r(3))
  then have count: "selectedCount q (view w') = selectedCount q (view w)" for q
    unfolding selectedCount_def by (metis list.set_map)
  have ref: "refusal K C w' q = refusal K C w q" for q by (rule refusal_same [OF r(1)]) simp_all
  have ns: "om_Namespace (pc_Meta pc') = om_Namespace (pc_Meta pc)" using key(1) by (simp add: policyRequest_def)
  have ref': "refusal K C w pc' = refusal K C w pc" by (rule refusal_same [OF refl key(5) ns])
  have "outcome K (refusal K C w pc) (selectedCount pc (view w)) pc' = pc'" unfolding pc'_def by (rule outcome_settles [OF K])
  moreover have "enforcedOn pc ns = ns" if "refusal K C w pc = None" "ns \<in> set (view w')" for ns
    using that enforced_twice [OF uid] by (auto simp: r(3))
  moreover have "selectedCount pc' (view w) = selectedCount pc (view w)" by (simp add: selectedCount_def key)
  ultimately show "restful K w' pc'" by (simp add: restful_def ref ref' count key)
  show "restful K w' q" if q: "q \<in> set (pols w)" "q \<noteq> pc" "restful K w q"
  proof -
    have "\<forall>ns \<in> set (view w'). enforcedOn q ns = ns" if "refusal K C w q = None"
      using q enforced_apart(2) [OF ord pc q(1,2)] that by (auto simp: restful_def r(3))
    then show ?thesis using q(3) by (simp add: restful_def ref count)
  qed
  have view': "\<exists>ns \<in> set (view w). ns' = ns \<or> refusal K C w pc = None \<and> ns' = enforcedOn pc ns" if "ns' \<in> set (view w')" for ns'
    using that by (auto simp: r(3) split: if_splits)
  have owner: "ownerOf ns' \<in> {'''', uidOf q}"
    if "ns' \<in> set (view w')" "q \<in> set (pols w)" "om_Name ns' \<in> set (selectedNamespaces q)" for q ns'
  proof -
    from view' [OF that(1)] obtain ns where ns: "ns \<in> set (view w)" "ns' = ns \<or> ns' = enforcedOn pc ns" by blast
    then have sel: "om_Name ns \<in> set (selectedNamespaces q)" using that(3) by auto
    then have "ownerOf ns \<in> {'''', uidOf q}" using ord that(2) ns(1) unfolding orderly_def by blast
    then show ?thesis
      using ns enforced_apart(1) [OF ord pc that(2) _ ns(1) sel] sel by (cases "q = pc") (auto simp: enforcedOn_def owner_afterApply)
  qed
  have same: "\<exists>p \<in> set (pols w). uidOf p = uidOf q \<and> selectedNamespaces p = selectedNamespaces q \<and> isDeleting p = isDeleting q \<and>
      (p = q \<or> p = pc \<and> q = pc')" if "q \<in> set (pols w')" for q
    using that pc key unfolding pols' by auto
  show "orderly (pols w') (view w')"
    unfolding orderly_def
  proof (intro conjI ballI impI)
    show "distinct (map policyRequest (pols w'))" using dist by (simp add: r(2))
    show "distinct (map om_Name (view w'))" using ord names by (simp add: orderly_def)
  next
    fix q assume q: "q \<in> set (pols w')"
    obtain p where p: "p \<in> set (pols w)" "uidOf p = uidOf q" "selectedNamespaces p = selectedNamespaces q" "isDeleting p = isDeleting q"
      "p = q \<or> p = pc \<and> q = pc'" using same [OF q] by blast
    then show "uidOf q \<noteq> ''''" "\<not> isDeleting q" "length (selectedNamespaces q) < 2 ^ 31"
      using ord unfolding orderly_def by (metis, metis, metis)
    show "ownerOf n \<in> {'''', uidOf q}" if "n \<in> set (view w')" "om_Name n \<in> set (selectedNamespaces q)" for n
      using owner [OF that(1) p(1)] that(2) p(2,3) by simp
    fix q2 assume q2: "q2 \<in> set (pols w')" "q2 \<noteq> q"
    obtain p2 where p2: "p2 \<in> set (pols w)" "uidOf p2 = uidOf q2" "selectedNamespaces p2 = selectedNamespaces q2"
      "p2 = q2 \<or> p2 = pc \<and> q2 = pc'" using same [OF q2(1)] by blast
    have "p2 \<noteq> p" using p(5) p2(4) q q2 unfolding pols' by auto
    then show "uidOf q2 \<noteq> uidOf q" "set (selectedNamespaces q2) \<inter> set (selectedNamespaces q) = {}"
      using ord p(1-3) p2(1-3) unfolding orderly_def by metis+
  qed
  show "asked (pols w) (view w) (pols w') (view w') \<subseteq> (if restful K w pc then {} else {policyRequest pc})"
  proof (cases "restful K w pc")
    case True
    then have "pc' = pc" "view w' = view w" by (auto simp: restful_def pc'_def r(3) intro!: map_idI)
    then show ?thesis using True pols' pc by (auto simp: asked_def)
  next
    case False
    have "lookupBy om_Name n (view w') = lookupBy om_Name n (view w)" if "q \<in> set (pols w)" "q \<noteq> pc" "n \<in> set (selectedNamespaces q)" for q n
      using enforced_apart(1) [OF ord pc that(1,2)] that(3) by (auto simp: r(3) intro!: lookup_map)
    then show ?thesis using False pols' key(1) by (auto simp: asked_def)
  qed
qed

text \<open>A reconcile takes one request from the queue, and comes with a request less or a policy at rest more.\<close>

definition restless :: "k8s \<Rightarrow> 'a \<Rightarrow> policy set" where
  "restless K w = {pc \<in> set (pols w). \<not> restful K w pc}"

definition onCourse :: "k8s \<Rightarrow> 'a \<Rightarrow> (string \<times> string) set \<Rightarrow> 'a \<Rightarrow> bool" where
  "onCourse K w0 Q w \<longleftrightarrow> orderly (pols w) (view w) \<and> finite Q \<and> refs w = refs w0 \<and>
     map policyRequest (pols w) = map policyRequest (pols w0) \<and> map om_Name (view w) = map om_Name (view w0) \<and>
     (\<forall>pc \<in> set (pols w). policyRequest pc \<in> Q \<or> restful K w pc)"

lemma work_step:
  assumes course: "onCourse K w0 Q (world s)" and k: "k \<in> Q" and iter: "anyOrder iter"
    and K: "finalizers_documented K" "conditions_settle K"
  shows "\<exists>s'. run_state (reconcilePolicy iter recorder K C (fst k) (snd k)) s = (None, s') \<and>
    (let Q' = Q - {k} \<union> asked (pols (world s)) (view (world s)) (pols (world s')) (view (world s')) in
     onCourse K w0 Q' (world s') \<and> Suc (card Q' + card (restless K (world s'))) \<le> card Q + card (restless K (world s)))"
proof -
  have ord: "orderly (pols (world s)) (view (world s))" and fin: "finite Q"
    and waits: "\<And>q. q \<in> set (pols (world s)) \<Longrightarrow> policyRequest q \<in> Q \<or> restful K (world s) q"
    using course by (simp_all add: onCourse_def)
  have Q: "card Q = Suc (card (Q - {k}))" using fin k by (rule card.remove)
  show ?thesis
  proof (cases "k \<in> policyRequest ` set (pols (world s))")
    case False
    then obtain t where t: "run_state (reconcilePolicy iter recorder K C (fst k) (snd k)) s = (None, t)" "world t = world s"
      using gone_run by blast
    have "asked (pols (world s)) (view (world s)) (pols (world s)) (view (world s)) = {}" by (auto simp: asked_def)
    then show ?thesis using t course False Q by (intro exI [of _ t]) (auto simp: Let_def onCourse_def)
  next
    case True
    then obtain pc where pc: "pc \<in> set (pols (world s))" "k = policyRequest pc" by blast
    have facts: "uidOf pc \<noteq> ''''" "distinct (map om_Name (view (world s)))" "uncontested (world s) pc"
      "length (selectedNamespaces pc) < 2 ^ 31" "distinct (map policyRequest (pols (world s)))" "\<not> isDeleting pc"
      using ord pc(1) by (auto simp: orderly_def uncontested_def)
    obtain t where t: "run_state (reconcilePolicy iter recorder K C (fst k) (snd k)) s = (None, t)" "reconciledTo K pc (world s) (world t)"
      using reconcile_run [OF K(1) iter facts(1-4) pc(1) facts(5,6)] unfolding pc(2) by blast
    define pc' where "pc' = outcome K (refusal K C (world s) pc) (selectedCount pc (view (world s))) pc"
    note p = reconciled_parts [OF ord pc(1) t(2) K, folded pc'_def]
    let ?asked = "asked (pols (world s)) (view (world s)) (pols (world t)) (view (world t))"
    have key: "policyRequest pc' = k" by (simp add: pc'_def outcome_same pc(2))
    have only: "q = pc" if "q \<in> set (pols (world s))" "policyRequest q = k" for q
      using facts(5) pc that by (auto simp: distinct_map inj_on_def)
    have "policyRequest q \<in> Q - {k} \<or> restful K (world t) q" if q: "q \<in> set (pols (world t))" for q
    proof (cases "q = pc'")
      case False
      then have q: "q \<in> set (pols (world s))" "q \<noteq> pc" using q p(1) by auto
      then show ?thesis using waits [OF q(1)] p(6) [OF q] only [OF q(1)] by blast
    qed (simp add: p(5))
    moreover have "finite (Q - {k} \<union> ?asked)" using fin p(8) by (auto intro: finite_subset split: if_splits)
    ultimately have c: "onCourse K w0 (Q - {k} \<union> ?asked) (world t)"
      using course p(2-4,7) by (auto simp: onCourse_def)
    have less: "restless K (world t) \<subseteq> restless K (world s) - {pc}"
      using p(1,5,6) by (auto simp: restless_def)
    have "finite (restless K (world s))" by (simp add: restless_def)
    then have few: "card (restless K (world t)) \<le> card (restless K (world s) - {pc})" using less by (intro card_mono) auto
    have "Suc (card (Q - {k} \<union> ?asked) + card (restless K (world t))) \<le> card Q + card (restless K (world s))"
    proof (cases "restful K (world s) pc")
      case True
      then have "?asked = {}" using p(8) by simp
      then show ?thesis using few Q card_Diff1_le [of "restless K (world s)" pc] by simp
    next
      case False
      then have "pc \<in> restless K (world s)" using pc(1) by (simp add: restless_def)
      then have "card (restless K (world s)) = Suc (card (restless K (world s) - {pc}))"
        by (intro card.remove) (simp_all add: restless_def)
      moreover have "card (Q - {k} \<union> ?asked) \<le> card Q"
        using p(8) False k fin unfolding pc(2) by (intro card_mono) auto
      ultimately show ?thesis using few by simp
    qed
    then show ?thesis using t(1) c by (intro exI [of _ t]) (simp add: Let_def)
  qed
qed

end

section \<open>At rest\<close>

text \<open>What a policy refers to is there.\<close>

definition refersTo :: "k8s \<Rightarrow> (string \<times> string) set \<times> (string \<times> string) set \<Rightarrow> policy \<Rightarrow> bool" where
  "refersTo K R pc \<longleftrightarrow> policySpecOk K (pc_Spec pc) \<and>
     (om_Namespace (pc_Meta pc), pl_UpstreamPoolRef (pc_Spec pc)) \<in> fst R \<and>
     (pl_CacheProfileRef (pc_Spec pc) = '''' \<or> (om_Namespace (pc_Meta pc), pl_CacheProfileRef (pc_Spec pc)) \<in> snd R)"

text \<open>The policy is enforced, or its status says why not.\<close>

definition atRest :: "k8s \<Rightarrow> (string \<times> string) set \<times> (string \<times> string) set \<Rightarrow> namespace list \<Rightarrow> policy \<Rightarrow> bool" where
  "atRest K R nss pc \<longleftrightarrow> externalPolicyFinalizer \<in> set (om_Finalizers (pc_Meta pc)) \<and>
     (validatedTrue pc \<longleftrightarrow> refersTo K R pc) \<and>
     (validatedTrue pc \<longrightarrow> pc_AppliedNodes pc = selectedCount pc nss \<and>
       (\<forall>ns \<in> set nss. if om_Name ns \<in> set (selectedNamespaces pc) then annotatedFor pc (om_Annotations ns) else ownerOf ns \<noteq> uidOf pc))"

lemma outcome_validated: "conditions_documented K \<Longrightarrow> validatedTrue (outcome K e n pc) \<longleftrightarrow> e = None"
  by (cases e) (simp_all add: outcome_def validatedTrue_def withValidatedCondition_def conditions_find)

lemma enforced_fixed:
  assumes "enforcedOn pc ns = ns" "uidOf pc \<noteq> ''''"
  shows "if om_Name ns \<in> set (selectedNamespaces pc) then annotatedFor pc (om_Annotations ns) else ownerOf ns \<noteq> uidOf pc"
proof (cases "om_Name ns \<in> set (selectedNamespaces pc)")
  case True
  then have "afterApply pc ns = ns" using assms(1) by (simp add: enforcedOn_def)
  then show ?thesis using True annotated_afterApply [of pc ns] by simp
next
  case False
  have "ownerOf ns \<noteq> uidOf pc"
  proof
    assume "ownerOf ns = uidOf pc"
    then have "afterRemove ns = ns" using assms(1) False by (simp add: enforcedOn_def)
    then show False using owner_afterRemove [of ns] \<open>ownerOf ns = uidOf pc\<close> assms(2) by simp
  qed
  then show ?thesis using False by simp
qed

context quiet_server
begin

lemma refusal_None: "refusal K C w pc = None \<longleftrightarrow> refersTo K (refs w) pc"
proof -
  let ?ns = "om_Namespace (pc_Meta pc)" and ?p = "pl_UpstreamPoolRef (pc_Spec pc)" and ?c = "pl_CacheProfileRef (pc_Spec pc)"
  obtain g h where g: "cl_GetPool C ?ns ?p w = (g, w)" "isl g \<longleftrightarrow> (?ns, ?p) \<notin> fst (refs w)"
    and h: "cl_GetProfile C ?ns ?c w = (h, w)" "isl h \<longleftrightarrow> (?ns, ?c) \<notin> snd (refs w)"
    using got_refs by metis
  show ?thesis
    using g(2) h(2) unfolding refusal_def validateReferences_ok refersTo_def by (cases g; cases h) (auto simp: g(1) h(1))
qed

lemma restful_atRest:
  assumes "restful K w pc" "uidOf pc \<noteq> ''''" "finalizers_documented K" "conditions_documented K"
  shows "atRest K (refs w) (view w) pc"
proof -
  have o: "outcome K (refusal K C w pc) (selectedCount pc (view w)) pc = pc" using assms(1) by (simp add: restful_def)
  have "externalPolicyFinalizer \<in> set (om_Finalizers (pc_Meta pc))"
    using finalized_has [OF assms(3), of pc] outcome_parts(2) [of K "refusal K C w pc" "selectedCount pc (view w)" pc] by (simp add: o)
  moreover have val: "validatedTrue pc \<longleftrightarrow> refersTo K (refs w) pc"
    using outcome_validated [OF assms(4), of "refusal K C w pc" "selectedCount pc (view w)" pc] by (simp add: o refusal_None)
  moreover have "pc_AppliedNodes pc = selectedCount pc (view w)" if "refusal K C w pc = None"
  proof -
    have "pc_AppliedNodes (outcome K None n p) = n" for n p by (simp add: outcome_def withValidatedCondition_def)
    then show ?thesis using o that by metis
  qed
  ultimately show ?thesis
    using assms(1) enforced_fixed assms(2) by (auto simp: atRest_def restful_def refusal_None)
qed

lemma worked_course:
  assumes "policiesWorked K C pols view Q0 s0 n Q s" "onCourse K (world s0) Q0 (world s0)"
    and "finalizers_documented K" "conditions_settle K"
  shows "onCourse K (world s0) Q (world s) \<and> n + card Q + card (restless K (world s)) \<le> card Q0 + card (restless K (world s0))"
  using assms(1)
proof induction
  case rest
  then show ?case using assms(2) by simp
next
  case (work n Q s k iter recorder r s')
  then show ?case
    using work_step [OF conjunct1 [OF work.IH] work.hyps(2,3) assms(3,4), of recorder] by (auto simp: Let_def)
qed

lemma work_ends:
  assumes "policiesWorked K C pols view Q0 s0 n Q s" "onCourse K (world s0) Q (world s)"
    and "finalizers_documented K" "conditions_settle K"
  shows "\<exists>m s'. policiesWorked K C pols view Q0 s0 m {} s'"
  using assms(1,2)
proof (induction "card Q + card (restless K (world s))" arbitrary: n Q s rule: less_induct)
  case less
  show ?case
  proof (cases "Q = {}")
    case True
    then show ?thesis using less.prems(1) by blast
  next
    case False
    then obtain k where k: "k \<in> Q" by blast
    have any: "anyOrder (\<lambda>xs. xs)" by (simp add: anyOrder_def)
    let ?Q = "\<lambda>t. Q - {k} \<union> asked (pols (world s)) (view (world s)) (pols (world t)) (view (world t))"
    obtain t where t: "run_state (reconcilePolicy (\<lambda>xs. xs) False K C (fst k) (snd k)) s = (None, t)"
      "onCourse K (world s0) (?Q t) (world t)" "Suc (card (?Q t) + card (restless K (world t))) \<le> card Q + card (restless K (world s))"
      using work_step [OF less.prems(2) k any assms(3,4), of False] by (auto simp: Let_def)
    have "policiesWorked K C pols view Q0 s0 (Suc n) (?Q t) t"
      using policiesWorked.work [OF less.prems(1) k any t(1)] by simp
    then show ?thesis using less.hyps [of "?Q t" t] t(2,3) by simp
  qed
qed

lemma drained:
  assumes "policiesWorked K C pols view Q s n Q' s'" "onCourse K (world s) Q (world s)"
    and "finalizers_documented K" "conditions_documented K" "conditions_settle K"
  shows "n + card Q' \<le> card Q + length (pols (world s)) \<and>
    (Q' = {} \<longrightarrow> map policyRequest (pols (world s')) = map policyRequest (pols (world s)) \<and>
      (\<forall>pc \<in> set (pols (world s')). atRest K (refs (world s)) (view (world s')) pc))"
proof -
  have c: "onCourse K (world s) Q' (world s')" "n + card Q' + card (restless K (world s')) \<le> card Q + card (restless K (world s))"
    using worked_course [OF assms(1-3,5)] by blast+
  have "card (restless K (world s)) \<le> card (set (pols (world s)))" by (intro card_mono) (auto simp: restless_def)
  then have "card (restless K (world s)) \<le> length (pols (world s))" using card_length le_trans by blast
  moreover have "atRest K (refs (world s)) (view (world s')) pc" if "Q' = {}" "pc \<in> set (pols (world s'))" for pc
  proof -
    have "restful K (world s') pc" "uidOf pc \<noteq> ''''" "refs (world s') = refs (world s)"
      using c(1) that by (auto simp: onCourse_def orderly_def)
    then show ?thesis using restful_atRest [OF _ _ assms(3,4)] by metis
  qed
  ultimately show ?thesis using c by (auto simp: onCourse_def)
qed

lemma course_start:
  "orderly (pols w) (view w) \<Longrightarrow> finite Q \<Longrightarrow> policyRequest ` set (pols w) \<subseteq> Q \<Longrightarrow> onCourse K w Q w"
  by (auto simp: onCourse_def)

lemma comes_to_rest:
  assumes "orderly (pols (world s)) (view (world s))" "finite Q" "policyRequest ` set (pols (world s)) \<subseteq> Q"
    and "finalizers_documented K" "conditions_documented K" "conditions_settle K"
  shows "(\<exists>n s'. policiesWorked K C pols view Q s n {} s') \<and>
    (\<forall>n Q' s'. policiesWorked K C pols view Q s n Q' s' \<longrightarrow>
      n + card Q' \<le> card Q + length (pols (world s)) \<and>
      (Q' = {} \<longrightarrow> map policyRequest (pols (world s')) = map policyRequest (pols (world s)) \<and>
        (\<forall>pc \<in> set (pols (world s')). atRest K (refs (world s)) (view (world s')) pc)))"
  using work_ends [OF policiesWorked.rest course_start [OF assms(1-3)] assms(4,6)] drained [OF _ course_start [OF assms(1-3)] assms(4-6)]
  by blast

end

text \<open>C6: left to itself the policy controller comes to rest in an orderly cluster, that is, where no two
  policies select the same namespace, no selected namespace is still annotated for anybody but the policy
  that selects it, no policy is being deleted and none selects \<open>2^31\<close> namespaces or more (and policies and
  namespaces have the distinct names, and policies the distinct UIDs, that a cluster gives them).  When the
  requests of all policies wait, and perhaps those of deleted ones, then on a server
  that answers, whichever request is taken next and in whatever order Go ranges over the namespaces, the
  queue is empty after at most one reconcile for each request and one for each policy, although every
  change of a policy or a selected namespace asks for another reconcile.  Then every policy has its
  finalizer and says \<open>Validated\<close> exactly if what it refers to is there; and in that case precisely the
  namespaces it selects are annotated for it.\<close>

theorem policies_come_to_rest:
  assumes "quiet_server C nss pols refs" "finalizers_documented K" "conditions_documented K" "conditions_settle K"
    and "orderly (pols (world s)) (nss (world s))" "finite Q" "policyRequest ` set (pols (world s)) \<subseteq> Q"
  shows "(\<exists>n s'. policiesWorked K C pols nss Q s n {} s') \<and>
    (\<forall>n Q' s'. policiesWorked K C pols nss Q s n Q' s' \<longrightarrow>
      n + card Q' \<le> card Q + length (pols (world s)) \<and>
      (Q' = {} \<longrightarrow> map policyRequest (pols (world s')) = map policyRequest (pols (world s)) \<and>
        (\<forall>pc \<in> set (pols (world s')). atRest K (refs (world s)) (nss (world s')) pc)))"
  by (rule quiet_server.comes_to_rest [OF assms(1,5-7,2-4)])

section \<open>The server in memory\<close>

lemma lookup_isl: "isl (lookupBy f k xs) \<longleftrightarrow> k \<notin> f ` set xs"
  by (auto simp: lookupBy_def find_None_iff find_Some_iff split: option.split)

definition memRefs :: "cluster \<Rightarrow> (string \<times> string) set \<times> (string \<times> string) set" where
  "memRefs w = ((metaKey \<circ> po_Meta) ` set (mc_Pools w), (metaKey \<circ> pr_Meta) ` set (mc_Profiles w))"

lemma request_meta: "policyRequest = metaKey \<circ> pc_Meta"
  by (rule ext) (simp add: policyRequest_def metaKey_def)

interpretation mempol: quiet_server memClient mc_Namespaces mc_Policies memRefs
proof unfold_locales
  fix ns n w
  show "\<exists>r. cl_GetPool memClient ns n w = (r, w) \<and> (if (ns, n) \<in> fst (memRefs w) then \<not> isl r else r = Inl NotFound)"
    using lookup_isl [of "metaKey \<circ> po_Meta" "(ns, n)" "mc_Pools w"] lookupBy_Inl [of "(ns, n)" "metaKey \<circ> po_Meta" "mc_Pools w"]
    by (auto simp: memClient_def memRefs_def)
  show "\<exists>r. cl_GetProfile memClient ns n w = (r, w) \<and> (if (ns, n) \<in> snd (memRefs w) then \<not> isl r else r = Inl NotFound)"
    using lookup_isl [of "metaKey \<circ> pr_Meta" "(ns, n)" "mc_Profiles w"] lookupBy_Inl [of "(ns, n)" "metaKey \<circ> pr_Meta" "mc_Profiles w"]
    by (auto simp: memClient_def memRefs_def)
qed (auto simp: memClient_def memRefs_def request_meta)

text \<open>Two policies, the second of which refers to a pool that does not exist.\<close>

definition brokenPolicy :: policy where
  "brokenPolicy = demoPolicy\<lparr>pc_Meta := (plainMeta ''a'' ''broken'')\<lparr>om_UID := ''u2''\<rparr>,
     pc_Spec := \<lparr>pl_SelectorNamespaces = [''w''], pl_UpstreamPoolRef = ''none'', pl_CacheProfileRef = ''''\<rparr>\<rparr>"

definition pairState :: "cluster sys" where
  "pairState = \<lparr>world = policyCluster\<lparr>mc_Policies := [demoPolicy, brokenPolicy]\<rparr>, effects = []\<rparr>"

lemma pair_orderly: "orderly (mc_Policies (world pairState)) (mc_Namespaces (world pairState))"
proof -
  have "trimSpace ''w'' = ''w''" by (simp add: trimSpace_alnum lit_simps)
  then have "selectedNamespaces brokenPolicy = [''w'']" by (simp add: selectedNamespaces_def brokenPolicy_def)
  moreover have "policyRequest brokenPolicy = (''a'', ''broken'')" "policyRequest demoPolicy = (''a'', ''pol'')" "uidOf brokenPolicy = ''u2''"
    by (simp_all add: policyRequest_def brokenPolicy_def demoPolicy_def plainMeta_def)
  moreover have "\<not> isDeleting brokenPolicy" "\<not> isDeleting demoPolicy"
    by (simp_all add: isDeleting_def brokenPolicy_def demoPolicy_def plainMeta_def)
  ultimately show ?thesis
    by (simp add: orderly_def pairState_def policyCluster_def demo_owners demo_uid demo_selected)
qed

theorem policies_come_to_rest_witness:
  "\<exists>n s'. policiesWorked refK8s memClient mc_Policies mc_Namespaces {(''a'', ''pol''), (''a'', ''broken''), (''a'', ''gone'')} pairState n {} s' \<and>
     n \<le> 5 \<and> (\<forall>pc \<in> set (mc_Policies (world s')). atRest refK8s (memRefs (world pairState)) (mc_Namespaces (world s')) pc)"
proof -
  let ?Q = "{(''a'', ''pol''), (''a'', ''broken''), (''a'', ''gone'')}"
  have fin: "finite ?Q" by simp
  have "policyRequest ` set (mc_Policies (world pairState)) \<subseteq> ?Q"
    by (simp add: pairState_def policyRequest_def brokenPolicy_def demoPolicy_def plainMeta_def)
  note rest = policies_come_to_rest [OF mempol.quiet_server_axioms refK8s_finalizers refK8s_conditions refK8s_settle pair_orderly fin this]
  obtain n s' where run: "policiesWorked refK8s memClient mc_Policies mc_Namespaces ?Q pairState n {} s'" using rest by blast
  have bound: "card ?Q + length (mc_Policies (world pairState)) = 5" by (simp add: pairState_def)
  from conjunct2 [OF rest, rule_format, OF run]
  show ?thesis using run unfolding bound by auto
qed

end
