(* ===== verification/PolicyRestless.thy ===== *)
theory PolicyRestless
  imports PolicyDrain
begin

text \<open>
  A policy two of whose namespaces belong to other policies does not come to rest: which conflict is
  reported depends on the order in which Go ranges over the selected namespaces, a new message is a
  new status, and the event of a new status is a request for the next reconcile.
\<close>

section \<open>A conflict\<close>

text \<open>The conflict over a namespace, which names the policy it belongs to.\<close>

definition conflictOver :: "namespace \<Rightarrow> goError" where
  "conflictOver ns = Wrap ''%w: namespace %q already managed by policy %q''
     [AStr (om_Name ns), AStr (let name = gm_index '''' (om_Annotations ns) policyNameAnnotation in
        if name = '''' then ownerOf ns else name)] errNamespacePolicyConflict"

text \<open>The policy, when it was reported.\<close>

definition refusedOver :: "k8s \<Rightarrow> namespace \<Rightarrow> policy \<Rightarrow> policy" where
  "refusedOver K ns pc = withValidatedCondition K pc ConditionFalse ''EnforcementFailed'' (MErr (conflictOver ns)) 0"

lemma refused_parts: "pc_Spec (refusedOver K ns pc) = pc_Spec pc" "pc_Meta (refusedOver K ns pc) = pc_Meta pc"
  by (simp_all add: refusedOver_def withValidated_parts)

lemma conflict_inj: "conflictOver x = conflictOver y \<Longrightarrow> om_Name x = om_Name y"
  by (simp add: conflictOver_def)

lemma refused_other:
  assumes "conditions_documented K" "om_Name x \<noteq> om_Name y"
  shows "refusedOver K y (refusedOver K x pc) \<noteq> refusedOver K x pc"
proof
  let ?msg = "\<lambda>pc. map_option cd_Message (find (\<lambda>c. cd_Type c = ''Validated'') (st_Conditions (pc_Status pc)))"
  have msg: "?msg (refusedOver K n q) = Some (MErr (conflictOver n))" for n q
    by (simp add: refusedOver_def withValidatedCondition_def conditions_find [OF assms(1)])
  assume "refusedOver K y (refusedOver K x pc) = refusedOver K x pc"
  then have "Some (MErr (conflictOver y)) = Some (MErr (conflictOver x))" using msg by metis
  then show False using conflict_inj assms(2) by (metis message.inject(1) option.inject)
qed

text \<open>An order that begins with \<open>n\<close>.\<close>

definition firstly :: "string \<Rightarrow> string list \<Rightarrow> string list" where
  "firstly n xs = (if n \<in> set xs then n # remove1 n xs else xs)"

lemma firstly_order: "anyOrder (firstly n)"
  by (simp add: anyOrder_def firstly_def)

context quiet_server
begin

text \<open>Whichever order begins with a namespace of another policy, its conflict is what the reconcile reports,
  and it changes nothing else.\<close>

lemma enforce_refused:
  assumes "iter (selectedNamespaces pc) = om_Name n # rest" "n \<in> set (view (world s))" "distinct (map om_Name (view (world s)))"
    and "ownerOf n \<notin> {'''', uidOf pc}" "\<forall>ns \<in> set (view (world s)). ownerOf ns = uidOf pc \<longrightarrow> om_Name ns \<in> set (selectedNamespaces pc)"
    and "uidOf pc \<noteq> ''''"
  shows "\<exists>t. run_state (enforcePolicy iter C pc) s = (Inl (conflictOver n), t) \<and> world t = world s"
proof -
  have none: "filter (\<lambda>ns. managedBy (uidOf pc) ns \<and> om_Name ns \<notin> set (selectedNamespaces pc)) (view (world s)) = []"
    using assms(5,6) by (auto simp: filter_empty_conv managedBy_owner)
  have get: "cl_GetNamespace C (om_Name n) (world s) = (Inr n, world s)"
    using lookupBy_Inr [OF assms(3,2)] by (simp add: get_namespace)
  have conflict: "updateNamespacePolicyAnnotations C n pc = State_Monad.return (Some (conflictOver n))"
    using assms(4) by (auto simp: updateNamespacePolicyAnnotations_def conflictOver_def ownerOf_def Let_def)
  show ?thesis
    by (simp add: enforcePolicy_def listManagedPolicyNamespaces_def run_simps list_namespaces none assms(1) get conflict)
qed

lemma refused_run:
  assumes "finalizers_documented K" "pc \<in> set (pols (world s))" "distinct (map policyRequest (pols (world s)))"
    and "externalPolicyFinalizer \<in> set (om_Finalizers (pc_Meta pc))" "\<not> isDeleting pc" "refersTo K (refs (world s)) pc" "uidOf pc \<noteq> ''''"
    and "distinct (map om_Name (view (world s)))"
    and "\<forall>ns \<in> set (view (world s)). ownerOf ns = uidOf pc \<longrightarrow> om_Name ns \<in> set (selectedNamespaces pc)"
    and "n \<in> set (view (world s))" "ownerOf n \<notin> {'''', uidOf pc}" "iter (selectedNamespaces pc) = om_Name n # rest"
  shows "\<exists>t. run_state (reconcilePolicy iter recorder K C (fst (policyRequest pc)) (snd (policyRequest pc))) s = (None, t) \<and>
    pols (world t) = replaceBy policyRequest (refusedOver K n pc) (pols (world s)) \<and> refs (world t) = refs (world s) \<and>
    view (world t) = view (world s)"
proof -
  have get: "cl_GetPolicy C (fst (policyRequest pc)) (snd (policyRequest pc)) (world s) = (Inr pc, world s)"
    using lookupBy_Inr [OF assms(3,2)] by (simp add: get_policy)
  have contains: "containsFinalizer K (om_Finalizers (pc_Meta pc)) externalPolicyFinalizer"
    using assms(1,4) by (simp add: finalizers_documented_def)
  define s1 where "s1 = s\<lparr>effects := effects s @ [GetPolicy (fst (policyRequest pc)) (snd (policyRequest pc)) (Inr pc)]\<rparr>"
  have s1: "world s1 = world s" by (simp add: s1_def)
  obtain s2 where s2: "run_state (validateReferences K C (Some pc)) s1 = (None, s2)" "world s2 = world s"
    using validate_run [of K pc s1] refusal_None [of K "world s" pc] assms(6) s1 by auto
  obtain s3 where s3: "run_state (enforcePolicy iter C pc) s2 = (Inl (conflictOver n), s3)" "world s3 = world s"
    using enforce_refused [of iter pc n rest s2] assms(7-12) s2(2) by auto
  obtain s4 where s4: "run_state (recordPolicyEvent recorder pc EventTypeWarning ''EnforcementFailed'' (MErr (conflictOver n))) s3 = ((), s4)"
    "world s4 = world s3" using event_run by blast
  obtain t where t: "run_state (setValidatedCondition K C pc ConditionFalse ''EnforcementFailed'' (MErr (conflictOver n)) 0) s4 = (None, t)"
    "pols (world t) = replaceBy policyRequest (refusedOver K n pc) (pols (world s))" "refs (world t) = refs (world s)"
    "view (world t) = view (world s)"
    using status_run [of K pc ConditionFalse "''EnforcementFailed''" "MErr (conflictOver n)" 0 s4] s3(2) s4(2)
    by (auto simp: refusedOver_def)
  have "errorsIs (conflictOver n) errNamespacePolicyConflict" by (simp add: conflictOver_def errNamespacePolicyConflict_def)
  then have "run_state (reconcilePolicy iter recorder K C (fst (policyRequest pc)) (snd (policyRequest pc))) s = (None, t)"
    using assms(5) s2(1) s3(1) s4(1) t(1)
    by (simp add: reconcilePolicy_def enforceAndReport_def run_simps get contains s1_def)
  then show ?thesis using t(2-4) by blast
qed

end

text \<open>C38: left to itself the policy controller need not come to rest.  Take a server that answers and that nobody
  else uses, and a policy whose references are there, of whose selected namespaces at least two belong to other
  policies.  Then there is an infinite run of reconciles of this policy, none of which fails: in turn Go ranges over
  the selected namespaces beginning with the first and with the second of the two, and the reconcile reports the
  conflict over the namespace it begins with.  From the first report on, a reconcile changes nothing but the message of
  the policy's condition, and neither a namespace nor another policy at any time; and by this change it asks
  for the next reconcile of the policy, and for nothing else.\<close>

theorem contested_policy_restless:
  assumes "quiet_server C nss pols refs" "finalizers_documented K" "conditions_documented K"
    and "pc \<in> set (pols (world s))" "distinct (map policyRequest (pols (world s)))" "externalPolicyFinalizer \<in> set (om_Finalizers (pc_Meta pc))"
    and "\<not> isDeleting pc" "refersTo K (refs (world s)) pc" "uidOf pc \<noteq> ''''" "distinct (map om_Name (nss (world s)))"
    and "\<forall>ns \<in> set (nss (world s)). ownerOf ns = uidOf pc \<longrightarrow> om_Name ns \<in> set (selectedNamespaces pc)"
    and "x \<in> set (nss (world s))" "om_Name x \<in> set (selectedNamespaces pc)" "ownerOf x \<notin> {'''', uidOf pc}"
    and "y \<in> set (nss (world s))" "om_Name y \<in> set (selectedNamespaces pc)" "ownerOf y \<notin> {'''', uidOf pc}" "x \<noteq> y"
  shows "\<exists>run pcs. run 0 = s \<and> pcs 0 = pc \<and>
    (\<forall>i. let n = (if even i then x else y) in
      (\<exists>iter rest. anyOrder iter \<and> iter (selectedNamespaces pc) = om_Name n # rest \<and>
        run_state (reconcilePolicy iter recorder K C (fst (policyRequest pc)) (snd (policyRequest pc))) (run i) = (None, run (Suc i))) \<and>
      pcs (Suc i) = withValidatedCondition K (pcs i) ConditionFalse ''EnforcementFailed'' (MErr (conflictOver n)) 0 \<and>
      pols (world (run i)) = replaceBy policyRequest (pcs i) (pols (world s)) \<and> nss (world (run i)) = nss (world s) \<and>
      (i > 0 \<longrightarrow> asked (pols (world (run i))) (nss (world (run i))) (pols (world (run (Suc i)))) (nss (world (run (Suc i)))) = {policyRequest pc}))"
proof -
  define ns where "ns i = (if even i then x else y)" for i :: nat
  define pcs where "pcs i = rec_nat pc (\<lambda>i. refusedOver K (ns i)) i" for i
  have pcs: "pcs 0 = pc" "pcs (Suc i) = refusedOver K (ns i) (pcs i)" for i by (simp_all add: pcs_def)
  have meta: "pc_Meta (pcs i) = pc_Meta pc \<and> pc_Spec (pcs i) = pc_Spec pc" for i
    by (induction i) (simp_all add: pcs refused_parts)
  then have key: "policyRequest (pcs i) = policyRequest pc" "selectedNamespaces (pcs i) = selectedNamespaces pc"
    "isDeleting (pcs i) = isDeleting pc" "uidOf (pcs i) = uidOf pc" "refersTo K r (pcs i) \<longleftrightarrow> refersTo K r pc" for i r
    by (simp_all add: policyRequest_def selectedNamespaces_def isDeleting_def refersTo_def)
  have n: "ns i \<in> set (nss (world s))" "om_Name (ns i) \<in> set (selectedNamespaces pc)" "ownerOf (ns i) \<notin> {'''', uidOf pc}" for i
    using assms(12-17) by (simp_all add: ns_def)
  have "om_Name x \<noteq> om_Name y" using assms(10,12,15,18) by (auto simp: distinct_map inj_on_def)
  then have names: "om_Name (ns i) \<noteq> om_Name (ns (Suc i))" for i by (simp add: ns_def)
  have again: "pcs (Suc (Suc i)) \<noteq> pcs (Suc i)" for i
    unfolding pcs(2) by (rule refused_other [OF assms(3) names])
  define ok where "ok i t \<longleftrightarrow> pols (world t) = replaceBy policyRequest (pcs i) (pols (world s)) \<and> nss (world t) = nss (world s) \<and>
    refs (world t) = refs (world s) \<and> (i = 0 \<longrightarrow> t = s)" for i t
  define step where "step i t t' \<longleftrightarrow> (\<exists>iter rest. anyOrder iter \<and> iter (selectedNamespaces pc) = om_Name (ns i) # rest \<and>
    run_state (reconcilePolicy iter recorder K C (fst (policyRequest pc)) (snd (policyRequest pc))) t = (None, t'))" for i t t'
  have start: "\<exists>t. ok 0 t" using replaceBy_same [OF assms(5,4)] by (auto simp: ok_def pcs)
  have after: "\<exists>t'. ok (Suc i) t' \<and> step i t t'" if t: "ok i t" for i t
  proof -
    have first: "firstly (om_Name (ns i)) (selectedNamespaces pc) = om_Name (ns i) # remove1 (om_Name (ns i)) (selectedNamespaces pc)"
      using n(2) by (simp add: firstly_def)
    have p: "pcs i \<in> set (pols (world t))" using replaceBy_in [OF key(1) assms(4)] t by (simp add: ok_def)
    have dist: "distinct (map policyRequest (pols (world t)))" using t assms(5) by (simp add: ok_def)
    obtain t' where t': "run_state (reconcilePolicy (firstly (om_Name (ns i))) recorder K C (fst (policyRequest pc)) (snd (policyRequest pc))) t = (None, t')"
      "pols (world t') = replaceBy policyRequest (pcs (Suc i)) (pols (world t))" "refs (world t') = refs (world t)" "nss (world t') = nss (world t)"
      using quiet_server.refused_run [OF assms(1,2) p dist, of "ns i" "firstly (om_Name (ns i))" _ recorder, unfolded key]
        assms(6-11) meta n first t unfolding pcs(2) by (auto simp: ok_def)
    have "ok (Suc i) t'"
      using t t'(2-4) key(1) replaceBy_twice [of policyRequest "pcs (Suc i)" "pcs i"] by (simp add: ok_def)
    then show ?thesis using t'(1) firstly_order first unfolding step_def by blast
  qed
  obtain run where run: "\<And>i. ok i (run i) \<and> step i (run i) (run (Suc i))"
  proof -
    have "\<exists>f. \<forall>i. ok i (f i) \<and> step i (f i) (f (Suc i))"
      by (rule dependent_nat_choice) (use start after in blast)+
    then show ?thesis using that by blast
  qed
  have "asked (pols (world (run (Suc i)))) (nss (world (run (Suc i)))) (pols (world (run (Suc (Suc i))))) (nss (world (run (Suc (Suc i))))) =
      {policyRequest pc}" for i
  proof -
    have r: "pols (world (run j)) = replaceBy policyRequest (pcs j) (pols (world s))" "nss (world (run j)) = nss (world s)" for j
      using run [of j] by (simp_all add: ok_def)
    have mem: "q \<in> set (pols (world (run j))) \<longleftrightarrow> q = pcs j \<or> q \<in> set (pols (world s)) \<and> policyRequest q \<noteq> policyRequest pc" for q j
      using assms(4) key(1) by (auto simp: r(1) replaceBy_def image_iff)
    have "{q \<in> set (pols (world (run (Suc (Suc i))))). q \<notin> set (pols (world (run (Suc i)))) \<or>
        (\<exists>n \<in> set (selectedNamespaces q). lookupBy om_Name n (nss (world s)) \<noteq> lookupBy om_Name n (nss (world s)))} = {pcs (Suc (Suc i))}"
      unfolding mem using again [of i] key(1) by auto
    then show ?thesis by (simp add: asked_def r(2) key(1))
  qed
  then have asks: "asked (pols (world (run i))) (nss (world (run i))) (pols (world (run (Suc i)))) (nss (world (run (Suc i)))) = {policyRequest pc}"
    if "i > 0" for i
    using that by (cases i) simp_all
  show ?thesis
    using run asks pcs unfolding Let_def ns_def [symmetric] ok_def step_def refusedOver_def
    by (intro exI [of _ run] exI [of _ pcs]) auto
qed

text \<open>The two namespaces belong to \<open>otherPolicy\<close>.\<close>

definition otherPolicy :: policy where
  "otherPolicy = demoPolicy\<lparr>pc_Meta := (plainMeta ''a'' ''other'')\<lparr>om_UID := ''u2'', om_Finalizers := [externalPolicyFinalizer]\<rparr>\<rparr>"

definition takenNamespace :: "string \<Rightarrow> namespace" where
  "takenNamespace n = (plainNamespace n)\<lparr>om_Annotations := Some [(ownerUIDAnnotation, ''u2''), (policyNameAnnotation, ''a/other'')]\<rparr>"

definition contestedState :: "cluster sys" where
  "contestedState = \<lparr>world = policyCluster\<lparr>mc_Policies := [otherPolicy, demoPolicy],
     mc_Namespaces := [takenNamespace ''x'', takenNamespace ''y'']\<rparr>, effects = []\<rparr>"

lemma taken_meta: "om_Name (takenNamespace n) = n" "ownerOf (takenNamespace n) = ''u2''"
  by (simp_all add: takenNamespace_def plainNamespace_def plainMeta_def ownerOf_def gm_index_def gm_get_def gm_make_def)

theorem contested_policy_restless_witness:
  "\<exists>run :: nat \<Rightarrow> cluster sys. run 0 = contestedState \<and>
    (\<forall>i. \<exists>iter. anyOrder iter \<and> run_state (reconcilePolicy iter True refK8s memClient ''a'' ''pol'') (run i) = (None, run (Suc i))) \<and>
    (\<forall>i > 0. asked (mc_Policies (world (run i))) (mc_Namespaces (world (run i)))
      (mc_Policies (world (run (Suc i)))) (mc_Namespaces (world (run (Suc i)))) = {(''a'', ''pol'')})"
proof -
  let ?w = "world contestedState"
  have req: "policyRequest demoPolicy = (''a'', ''pol'')" "policyRequest otherPolicy = (''a'', ''other'')"
    by (simp_all add: policyRequest_def otherPolicy_def demoPolicy_def plainMeta_def)
  have pols: "demoPolicy \<in> set (mc_Policies ?w)" "distinct (map policyRequest (mc_Policies ?w))"
    by (simp_all add: contestedState_def req)
  have fin: "externalPolicyFinalizer \<in> set (om_Finalizers (pc_Meta demoPolicy))" "\<not> isDeleting demoPolicy"
    by (simp_all add: demoPolicy_def isDeleting_def plainMeta_def)
  have dns: "refLabel ''x'' = []" "refLabel ''y'' = []" "refSubdomain ''p'' = []" by code_simp+
  have refs: "refersTo refK8s (memRefs ?w) demoPolicy"
    by (simp add: refersTo_def memRefs_def contestedState_def policyCluster_def policySpecOk_def refNameOk_def demoPolicy_def refK8s_def dns
        demoCluster_def demo_meta metaKey_def plainMeta_def)
  have nss: "mc_Namespaces ?w = [takenNamespace ''x'', takenNamespace ''y'']" by (simp add: contestedState_def)
  have uid: "uidOf demoPolicy \<noteq> ''''" "distinct (map om_Name (mc_Namespaces ?w))"
    "\<forall>ns \<in> set (mc_Namespaces ?w). ownerOf ns = uidOf demoPolicy \<longrightarrow> om_Name ns \<in> set (selectedNamespaces demoPolicy)"
    by (simp_all add: nss taken_meta demo_uid)
  have x: "takenNamespace ''x'' \<in> set (mc_Namespaces ?w)" "om_Name (takenNamespace ''x'') \<in> set (selectedNamespaces demoPolicy)"
    "ownerOf (takenNamespace ''x'') \<notin> {'''', uidOf demoPolicy}"
    and y: "takenNamespace ''y'' \<in> set (mc_Namespaces ?w)" "om_Name (takenNamespace ''y'') \<in> set (selectedNamespaces demoPolicy)"
    "ownerOf (takenNamespace ''y'') \<notin> {'''', uidOf demoPolicy}"
    by (simp_all add: nss taken_meta demo_uid demo_selected)
  have two: "takenNamespace ''x'' \<noteq> takenNamespace ''y''"
  proof
    assume "takenNamespace ''x'' = takenNamespace ''y''"
    then have "om_Name (takenNamespace ''x'') = om_Name (takenNamespace ''y'')" by (rule arg_cong)
    then show False by (simp add: taken_meta)
  qed
  note result = contested_policy_restless [where recorder = True, OF mempol.quiet_server_axioms refK8s_finalizers refK8s_conditions
      pols fin refs uid x y two, unfolded req fst_conv snd_conv Let_def]
  show ?thesis
  proof (rule exE [OF result], erule exE, elim conjE, rule exI, intro conjI allI impI, assumption)
    fix run :: "nat \<Rightarrow> cluster sys" and pcs i
    assume all: "\<forall>i. (\<exists>iter rest. anyOrder iter \<and> iter (selectedNamespaces demoPolicy) =
        om_Name (if even i then takenNamespace ''x'' else takenNamespace ''y'') # rest \<and>
        run_state (reconcilePolicy iter True refK8s memClient ''a'' ''pol'') (run i) = (None, run (Suc i))) \<and>
      pcs (Suc i) = withValidatedCondition refK8s (pcs i) ConditionFalse ''EnforcementFailed''
        (MErr (conflictOver (if even i then takenNamespace ''x'' else takenNamespace ''y''))) 0 \<and>
      mc_Policies (world (run i)) = replaceBy policyRequest (pcs i) (mc_Policies ?w) \<and> mc_Namespaces (world (run i)) = mc_Namespaces ?w \<and>
      (0 < i \<longrightarrow> asked (mc_Policies (world (run i))) (mc_Namespaces (world (run i)))
        (mc_Policies (world (run (Suc i)))) (mc_Namespaces (world (run (Suc i)))) = {(''a'', ''pol'')})"
    from all [THEN spec, of i] show "\<exists>iter. anyOrder iter \<and> run_state (reconcilePolicy iter True refK8s memClient ''a'' ''pol'') (run i) = (None, run (Suc i))"
      by (elim conjE exE, intro exI conjI)
    assume "0 < i"
    with all [THEN spec, of i] show "asked (mc_Policies (world (run i))) (mc_Namespaces (world (run i)))
        (mc_Policies (world (run (Suc i)))) (mc_Namespaces (world (run (Suc i)))) = {(''a'', ''pol'')}"
      by (elim conjE) (erule mp)
  qed
qed

end
