(* ===== verification/Drain.thy ===== *)
theory Drain
  imports Failover
begin

text \<open>
  The controller left to itself.  Every change of a pool is an event, also those the controller makes
  (no predicate filters them), so a reconcile that changes the status asks for the next one.  This ends:
  each pool has a verdict that the reconciles approach, and a reconcile that finds it changes nothing.
\<close>

section \<open>What a reconcile makes of a pool\<close>

definition verdict :: "k8s \<Rightarrow> string \<Rightarrow> pool \<Rightarrow> pool" where
  "verdict K active p =
     (if poolName p = active
      then withReadyCondition K p ConditionTrue ''Ready'' (MText ''Configuration rendered successfully'' [])
      else withReadyCondition K p ConditionFalse ''Superseded'' (MText ''pool %q is active in this namespace'' [AStr active]))"

lemma verdict_same: "samePool p (verdict K active p)"
  by (simp add: verdict_def samePool_ready)

lemma verdict_meta: "po_Meta (verdict K active p) = po_Meta p" "poolKey (verdict K active p) = poolKey p"
  using verdict_same [of p K active] by (simp_all add: samePool_def poolKey_def)

lemma verdict_settles: "conditions_settle K \<Longrightarrow> verdict K active (verdict K active p) = verdict K active p"
  by (simp add: conditions_settle_def verdict_def withReadyCondition_def)

lemma verdict_ready: "conditions_documented K \<Longrightarrow> verdict K active p = p \<Longrightarrow> readyTrue p \<longleftrightarrow> poolName p = active"
  using readyTrue_with [of K p] unfolding verdict_def by (metis conditionStatus.distinct(1))

text \<open>The pools that do not show it yet.\<close>

definition unsettled :: "k8s \<Rightarrow> string \<Rightarrow> string \<Rightarrow> pool list \<Rightarrow> pool set" where
  "unsettled K active ns ps = {q \<in> set (poolsIn ns ps). verdict K active q \<noteq> q}"

lemma unsettled_replace:
  assumes "conditions_settle K" "distinct (map poolKey ps)" "p \<in> set (poolsIn ns ps)"
  shows "unsettled K active ns (replaceBy poolKey (verdict K active p) ps) = unsettled K active ns ps - {p}"
proof -
  have p: "p \<in> set ps" "om_Namespace (po_Meta p) = ns" using assms(3) by (simp_all add: poolsIn_def)
  have "q = p" if "q \<in> set ps" "poolKey q = poolKey p" for q
    using assms(2) p(1) that by (auto simp: distinct_map inj_on_def)
  then show ?thesis
    using replace_same(2) [OF assms(2) p(1) verdict_same] verdict_settles [OF assms(1)] p(2)
    by (auto simp: unsettled_def poolsIn_def verdict_meta)
qed

lemma replace_settled:
  assumes "distinct (map poolKey ps)" "p \<in> set ps"
  shows "replaceBy poolKey p ps = ps"
proof -
  have "q = p" if "q \<in> set ps" "poolKey q = poolKey p" for q
    using assms that by (auto simp: distinct_map inj_on_def)
  then show ?thesis unfolding replaceBy_def by (intro map_idI) auto
qed

section \<open>The queue\<close>

text \<open>The names in a namespace whose pool is not as it was.\<close>

definition changedNames :: "string \<Rightarrow> pool list \<Rightarrow> pool list \<Rightarrow> string set" where
  "changedNames ns before after = poolName ` {q \<in> set (poolsIn ns after). q \<notin> set before}"

text \<open>\<open>n\<close> reconciles of waiting requests, in any order: a request is put back when its reconcile fails or
  asks for it, and those of the pools it changed are added.\<close>

inductive worked :: "poolReconciler \<Rightarrow> k8s \<Rightarrow> 'w client \<Rightarrow> ('w \<Rightarrow> pool list) \<Rightarrow> string \<Rightarrow> string set \<Rightarrow> 'w poolSys \<Rightarrow>
    nat \<Rightarrow> string set \<Rightarrow> 'w poolSys \<Rightarrow> bool" for R K C pools ns Q0 s0 where
  rest: "worked R K C pools ns Q0 s0 0 Q0 s0"
| work: "worked R K C pools ns Q0 s0 n Q s \<Longrightarrow> name \<in> Q \<Longrightarrow> run_state (reconcilePool R K C ns name) s = (r, s') \<Longrightarrow>
    worked R K C pools ns Q0 s0 (Suc n)
      (Q - {name} \<union> changedNames ns (pools (world s)) (pools (world s')) \<union> (if r = (0, None) then {} else {name})) s'"

lemma changed_replace:
  assumes "distinct (map poolKey ps)" "p \<in> set ps" "samePool p p'"
  shows "changedNames ns ps (replaceBy poolKey p' ps) \<subseteq> (if p' = p then {} else {poolName p})"
  using replace_same(2) [OF assms] assms(2,3) by (auto simp: changedNames_def poolsIn_def samePool_def)

lemma queue_shrinks:
  assumes "conditions_settle K" "distinct (map poolKey ps)" "p \<in> set (poolsIn ns ps)" "finite Q" "name \<in> Q"
    and ps': "ps' = replaceBy poolKey (verdict K active p) ps"
  shows "Suc (card (Q - {name} \<union> changedNames ns ps ps') + 2 * card (unsettled K active ns ps')) \<le>
    card Q + 2 * card (unsettled K active ns ps)"
proof -
  let ?U = "unsettled K active ns ps"
  have U: "unsettled K active ns ps' = ?U - {p}" unfolding ps' by (rule unsettled_replace [OF assms(1-3)])
  have p: "p \<in> set ps" using assms(3) by (simp add: poolsIn_def)
  have ch: "changedNames ns ps ps' \<subseteq> (if verdict K active p = p then {} else {poolName p})"
    unfolding ps' by (rule changed_replace [OF assms(2) p verdict_same])
  have Q: "card Q = Suc (card (Q - {name}))" using assms(4,5) by (rule card.remove)
  show ?thesis
  proof (cases "verdict K active p = p")
    case True
    then have "p \<notin> ?U" by (simp add: unsettled_def)
    then show ?thesis using True ch Q by (simp add: U)
  next
    case False
    then have "p \<in> ?U" using assms(3) by (simp add: unsettled_def)
    moreover have "finite ?U" by (simp add: unsettled_def)
    ultimately have "card ?U = Suc (card (?U - {p}))" by (intro card.remove)
    moreover have "card (Q - {name} \<union> changedNames ns ps ps') \<le> card (insert (poolName p) (Q - {name}))"
      using ch False assms(4) by (intro card_mono) auto
    moreover have "card (insert (poolName p) (Q - {name})) \<le> Suc (card (Q - {name}))" by (simp add: card_insert_if assms(4))
    ultimately show ?thesis using Q by (simp add: U)
  qed
qed

context api_server
begin

text \<open>The state of work begun in \<open>s0\<close> with \<open>Q\<close> still waiting.\<close>

definition onCourse where
  "onCourse R K ns active json s0 Q s \<longleftrightarrow>
     list_all2 samePool (pools (world s0)) (pools (world s)) \<and> profs (world s) = profs (world s0) \<and>
     (\<exists>n. circuitOf (circuit s) (operatorNamespace R ns) = Closed n) \<and>
     (\<forall>q \<in> set (poolsIn ns (pools (world s))). poolName q \<in> Q \<or>
       verdict K active q = q \<and> (poolName q = active \<longrightarrow> publishes R ns json (cms (world s))))"

text \<open>A reconcile brings one pool of the namespace to its verdict: its own, or the active one in place of
  a pool that is gone.\<close>

lemma verdict_run:
  assumes "rc_ConfigGen R = Some (Generate cpus)" "rc_ConfigRenderer R = Some render"
    and "distinct (map poolKey (pools (world s)))" "p \<in> set (poolsIn ns (pools (world s)))"
    and "gm_get (om_Annotations (po_Meta p)) initialRVAnnotation \<noteq> None" "validateDNSUpstreamPool K (Some p) = None"
    and "fst (selectFromPools (poolsIn ns (pools (world s)))) = active"
    and "poolName p = active \<longrightarrow> buildsConfig R (Generate cpus) render p (defaultProfileOf ns (profs (world s))) json"
    and "circuitOf (circuit s) (operatorNamespace R ns) = Closed n"
    and "poolName p = name \<or> name \<notin> poolName ` set (poolsIn ns (pools (world s))) \<and> poolName p = active"
  shows "\<exists>s'. run_state (reconcilePool R K C ns name) s = ((0, None), s') \<and>
      pools (world s') = replaceBy poolKey (verdict K active p) (pools (world s)) \<and> profs (world s') = profs (world s) \<and>
      (\<exists>n. circuitOf (circuit s') (operatorNamespace R ns) = Closed n) \<and>
      (if poolName p = active then publishes R ns json (cms (world s')) else cms (world s') = cms (world s))"
proof -
  have p: "p \<in> set (pools (world s))" "om_Namespace (po_Meta p) = ns" using assms(4) by (simp_all add: poolsIn_def)
  note run = assms(1,2) p(1) assms(3,5,6)
  consider (own) "poolName p = name" "poolName p = active" | (other) "poolName p = name" "poolName p \<noteq> active"
    | (gone) "name \<notin> poolName ` set (poolsIn ns (pools (world s)))" "poolName p = active" using assms(10) by blast
  then show ?thesis
  proof cases
    case own
    have "fst (selectFromPools (poolsIn ns (pools (world s)))) = poolName p" using assms(7) own(2) by simp
    then show ?thesis
      using publish_run [OF run, unfolded p(2), OF _ _ assms(9), of json] assms(8) own publishes_map
      by (auto simp: verdict_def)
  next
    case other
    then show ?thesis
      using superseded_run [OF run, unfolded p(2), OF assms(7) [symmetric]] assms(9) by (auto simp: verdict_def)
  next
    case gone
    have key: "(ns, name) \<notin> poolKey ` set (pools (world s))"
      using gone(1) by (auto simp: poolKey_def metaKey_def poolsIn_def)
    obtain q qs where sorted: "sortPoolsForSelection (poolsIn ns (pools (world s))) = q # qs"
      using assms(4) set_sortPools [of "poolsIn ns (pools (world s))"]
      by (cases "sortPoolsForSelection (poolsIn ns (pools (world s)))") auto
    have "q \<in> set (poolsIn ns (pools (world s)))" using sorted by (metis list.set_intros(1) set_sortPools)
    moreover have "poolName q = poolName p" using sorted assms(7) gone(2) by (simp add: selectFromPools_def)
    ultimately have "q = p" using assms(3,4) by (auto simp: poolsIn_def poolKey_def metaKey_def distinct_map inj_on_def)
    then have head: "sortPoolsForSelection (poolsIn ns (pools (world s))) = p # qs" using sorted by simp
    have "buildsConfig R (Generate cpus) render p (defaultProfileOf ns (profs (world s))) json" using assms(8) gone(2) by simp
    then obtain s' where s': "run_state (reconcilePool R K C ns name) s = ((0, None), s')"
      "pools (world s') = replaceBy poolKey (verdict K active p) (pools (world s))" "profs (world s') = profs (world s)"
      "cms (world s') = publishedMap R ns json (cms (world s))" "circuitOf (circuit s') (operatorNamespace R ns) = Closed 0"
      using failover_run [OF assms(1,2) key head _ assms(9), of json K] gone(2) by (auto simp: verdict_def)
    have "publishes R ns json (cms (world s'))" unfolding s'(4) by (rule publishes_map)
    then show ?thesis using s' gone(2) by (intro exI [of _ s']) simp
  qed
qed

lemma course_kept:
  assumes "conditions_settle K" "onCourse R K ns active json s0 Q s" "distinct (map poolKey (pools (world s)))"
    and "p \<in> set (poolsIn ns (pools (world s)))"
    and "poolName p = name \<or> name \<notin> poolName ` set (poolsIn ns (pools (world s))) \<and> poolName p = active"
    and "pools (world s') = replaceBy poolKey (verdict K active p) (pools (world s))" "profs (world s') = profs (world s)"
    and "\<exists>n. circuitOf (circuit s') (operatorNamespace R ns) = Closed n"
    and "if poolName p = active then publishes R ns json (cms (world s')) else cms (world s') = cms (world s)"
  shows "onCourse R K ns active json s0 (Q - {name} \<union> X) s'"
proof -
  have p: "p \<in> set (pools (world s))" "om_Namespace (po_Meta p) = ns" using assms(4) by (simp_all add: poolsIn_def)
  have same: "list_all2 samePool (pools (world s0)) (pools (world s))" using assms(2) by (simp add: onCourse_def)
  have "list_all2 samePool (pools (world s0)) (pools (world s'))"
    unfolding assms(6)
    by (rule list_all2_trans [OF _ same replace_same(1) [OF assms(3) p(1) verdict_same]]) (rule samePool_trans)
  moreover have "poolName q \<in> Q - {name} \<or>
      verdict K active q = q \<and> (poolName q = active \<longrightarrow> publishes R ns json (cms (world s')))"
    if q: "q \<in> set (poolsIn ns (pools (world s')))" for q
  proof (cases "q = verdict K active p")
    case True
    then show ?thesis using assms(9) verdict_settles [OF assms(1)] by (auto simp: verdict_meta)
  next
    case False
    then have old: "q \<in> set (poolsIn ns (pools (world s)))" "poolKey q \<noteq> poolKey p"
      using q replace_same(2) [OF assms(3) p(1) verdict_same] unfolding assms(6) by (auto simp: poolsIn_def)
    then have "poolName q \<noteq> name"
      using assms(5) p(2) by (auto simp: poolsIn_def poolKey_def metaKey_def)
    then show ?thesis using assms(2,9) old(1) by (auto simp: onCourse_def split: if_splits)
  qed
  ultimately show ?thesis using assms(2,7,8) unfolding onCourse_def by auto
qed

lemma course_run:
  assumes "conditions_settle K" "rc_ConfigGen R = Some (Generate cpus)" "rc_ConfigRenderer R = Some render"
    and "distinct (map poolKey (pools (world s0)))"
    and "\<forall>q \<in> set (poolsIn ns (pools (world s0))). gm_get (om_Annotations (po_Meta q)) initialRVAnnotation \<noteq> None \<and>
      validateDNSUpstreamPool K (Some q) = None \<and>
      (poolName q = active \<longrightarrow> buildsConfig R (Generate cpus) render q (defaultProfileOf ns (profs (world s0))) json)"
    and "fst (selectFromPools (poolsIn ns (pools (world s0)))) = active" "active \<in> poolName ` set (poolsIn ns (pools (world s0)))"
    and "onCourse R K ns active json s0 Q s" "finite Q" "name \<in> Q"
  shows "\<exists>s'. run_state (reconcilePool R K C ns name) s = ((0, None), s') \<and>
      onCourse R K ns active json s0 (Q - {name} \<union> changedNames ns (pools (world s)) (pools (world s'))) s' \<and>
      Suc (card (Q - {name} \<union> changedNames ns (pools (world s)) (pools (world s'))) +
          2 * card (unsettled K active ns (pools (world s')))) \<le>
        card Q + 2 * card (unsettled K active ns (pools (world s)))"
proof -
  have same: "list_all2 samePool (pools (world s0)) (pools (world s))" and pr: "profs (world s) = profs (world s0)"
    using assms(8) by (simp_all add: onCourse_def)
  obtain n where n: "circuitOf (circuit s) (operatorNamespace R ns) = Closed n" using assms(8) by (auto simp: onCourse_def)
  have sel: "fst (selectFromPools (poolsIn ns (pools (world s)))) = active"
    using select_same [OF poolsIn_same [OF same]] assms(6) by simp
  have dist: "distinct (map poolKey (pools (world s)))" using keys_same [OF same] assms(4) by simp
  have names: "poolName ` set (poolsIn ns (pools (world s))) = poolName ` set (poolsIn ns (pools (world s0)))"
    using names_same [OF poolsIn_same [OF same, of ns]] by (metis list.set_map)
  define who where "who = (if name \<in> poolName ` set (poolsIn ns (pools (world s0))) then name else active)"
  have listed: "who \<in> poolName ` set (poolsIn ns (pools (world s0)))" unfolding who_def using assms(7) by simp
  obtain p where p: "p \<in> set (poolsIn ns (pools (world s)))" "poolName p = who"
    "gm_get (om_Annotations (po_Meta p)) initialRVAnnotation \<noteq> None" "validateDNSUpstreamPool K (Some p) = None"
    "poolName p = active \<longrightarrow> buildsConfig R (Generate cpus) render p (defaultProfileOf ns (profs (world s))) json"
    using pool_again [OF same listed assms(5)] unfolding pr by (auto simp: poolsIn_def)
  have who: "poolName p = name \<or> name \<notin> poolName ` set (poolsIn ns (pools (world s))) \<and> poolName p = active"
    unfolding p(2) names who_def by simp
  obtain s' where s': "run_state (reconcilePool R K C ns name) s = ((0, None), s')"
    "pools (world s') = replaceBy poolKey (verdict K active p) (pools (world s))" "profs (world s') = profs (world s)"
    "\<exists>n. circuitOf (circuit s') (operatorNamespace R ns) = Closed n"
    "if poolName p = active then publishes R ns json (cms (world s')) else cms (world s') = cms (world s)"
    using verdict_run [OF assms(2,3) dist p(1,3,4) sel p(5) n who] by blast
  show ?thesis
    using s'(1) queue_shrinks [OF assms(1) dist p(1) assms(9,10) s'(2)] course_kept [OF assms(1,8) dist p(1) who s'(2-5)]
    by blast
qed

lemma worked_course:
  assumes "conditions_settle K" "rc_ConfigGen R = Some (Generate cpus)" "rc_ConfigRenderer R = Some render"
    and "distinct (map poolKey (pools (world s0)))"
    and "\<forall>q \<in> set (poolsIn ns (pools (world s0))). gm_get (om_Annotations (po_Meta q)) initialRVAnnotation \<noteq> None \<and>
      validateDNSUpstreamPool K (Some q) = None \<and>
      (poolName q = active \<longrightarrow> buildsConfig R (Generate cpus) render q (defaultProfileOf ns (profs (world s0))) json)"
    and "fst (selectFromPools (poolsIn ns (pools (world s0)))) = active" "active \<in> poolName ` set (poolsIn ns (pools (world s0)))"
    and "worked R K C pools ns Q0 s0 n Q s" "finite Q0" "onCourse R K ns active json s0 Q0 s0"
  shows "finite Q \<and> onCourse R K ns active json s0 Q s \<and>
      n + card Q + 2 * card (unsettled K active ns (pools (world s))) \<le>
        card Q0 + 2 * card (unsettled K active ns (pools (world s0)))"
  using assms(8)
proof induction
  case rest
  then show ?case using assms(9,10) by simp
next
  case (work n Q s name r s')
  have Q: "finite Q" "onCourse R K ns active json s0 Q s" using work.IH by blast+
  obtain s2 where s2: "run_state (reconcilePool R K C ns name) s = ((0, None), s2)"
    "onCourse R K ns active json s0 (Q - {name} \<union> changedNames ns (pools (world s)) (pools (world s2))) s2"
    "Suc (card (Q - {name} \<union> changedNames ns (pools (world s)) (pools (world s2))) +
        2 * card (unsettled K active ns (pools (world s2)))) \<le> card Q + 2 * card (unsettled K active ns (pools (world s)))"
    using course_run [OF assms(1-7) Q(2,1) work.hyps(2)] by blast
  have "r = (0, None)" "s' = s2" using s2(1) work.hyps(3) by simp_all
  moreover have "finite (changedNames ns (pools (world s)) (pools (world s2)))" by (simp add: changedNames_def)
  ultimately show ?case using s2(2,3) work.IH Q(1) by simp
qed

lemma work_ends:
  assumes "conditions_settle K" "rc_ConfigGen R = Some (Generate cpus)" "rc_ConfigRenderer R = Some render"
    and "distinct (map poolKey (pools (world s0)))"
    and "\<forall>q \<in> set (poolsIn ns (pools (world s0))). gm_get (om_Annotations (po_Meta q)) initialRVAnnotation \<noteq> None \<and>
      validateDNSUpstreamPool K (Some q) = None \<and>
      (poolName q = active \<longrightarrow> buildsConfig R (Generate cpus) render q (defaultProfileOf ns (profs (world s0))) json)"
    and "fst (selectFromPools (poolsIn ns (pools (world s0)))) = active" "active \<in> poolName ` set (poolsIn ns (pools (world s0)))"
    and "finite Q0" "onCourse R K ns active json s0 Q0 s0"
  shows "\<exists>n s. worked R K C pools ns Q0 s0 n {} s"
proof -
  have "\<exists>n s. worked R K C pools ns Q0 s0 n {} s" if "worked R K C pools ns Q0 s0 n Q s" for n Q s
    using that
  proof (induction "card Q + 2 * card (unsettled K active ns (pools (world s)))" arbitrary: n Q s rule: less_induct)
    case less
    show ?case
    proof (cases "Q = {}")
      case True
      then show ?thesis using less.prems by blast
    next
      case False
      then obtain name where name: "name \<in> Q" by blast
      have Q: "finite Q" "onCourse R K ns active json s0 Q s"
        using worked_course [OF assms(1-7) less.prems assms(8,9)] by blast+
      obtain s2 where s2: "run_state (reconcilePool R K C ns name) s = ((0, None), s2)"
        "Suc (card (Q - {name} \<union> changedNames ns (pools (world s)) (pools (world s2))) +
          2 * card (unsettled K active ns (pools (world s2)))) \<le> card Q + 2 * card (unsettled K active ns (pools (world s)))"
        using course_run [OF assms(1-7) Q(2,1) name] by blast
      show ?thesis
        by (rule less.hyps [OF _ worked.work [OF less.prems name s2(1)]]) (use s2(2) in simp)
    qed
  qed
  then show ?thesis using worked.rest by blast
qed

end

section \<open>The property\<close>

lemma onCourse_start:
  assumes "api_server C pools profs cms" "poolName ` set (poolsIn ns (pools (world s))) \<subseteq> Q"
    and "circuitOf (circuit s) (operatorNamespace R ns) = Closed n"
  shows "api_server.onCourse pools profs cms R K ns active json s Q s"
  using assms(2,3) unfolding api_server.onCourse_def [OF assms(1)]
  by (auto simp: samePool_def list_all2_same)

text \<open>C5: left to itself, the controller comes to rest.  When requests wait for the pools of a namespace,
  valid and stamped, and perhaps for deleted ones, then on a server that answers, whichever request is
  taken next, the queue is empty after at most one reconcile for each request and two for each pool,
  although every change of a status asks for another reconcile; and then the configuration of the
  selected pool is in the ConfigMap and exactly this pool is ready.\<close>

theorem queue_drains:
  assumes "api_server C pools profs cms" "conditions_documented K" "conditions_settle K"
    and "rc_ConfigGen R = Some (Generate cpus)" "rc_ConfigRenderer R = Some render"
    and "distinct (map poolKey (pools (world s)))"
    and "\<forall>q \<in> set (poolsIn ns (pools (world s))). gm_get (om_Annotations (po_Meta q)) initialRVAnnotation \<noteq> None \<and>
      validateDNSUpstreamPool K (Some q) = None"
    and "p \<in> set (poolsIn ns (pools (world s)))" "fst (selectFromPools (poolsIn ns (pools (world s)))) = poolName p"
    and "buildsConfig R (Generate cpus) render p (defaultProfileOf ns (profs (world s))) json"
    and "circuitOf (circuit s) (operatorNamespace R ns) = Closed m"
    and "finite Q" "poolName ` set (poolsIn ns (pools (world s))) \<subseteq> Q"
  shows "(\<exists>n s'. worked R K C pools ns Q s n {} s') \<and>
    (\<forall>n Q' s'. worked R K C pools ns Q s n Q' s' \<longrightarrow>
      n + card Q' \<le> card Q + 2 * length (poolsIn ns (pools (world s))) \<and>
      (Q' = {} \<longrightarrow>
        (\<exists>cm \<in> set (cms (world s')). cmKey cm = (operatorNamespace R ns, resolvedAgentConfigMapName R) \<and>
          gm_get (cm_Data cm) ''config.json'' = Some json) \<and>
        (\<forall>q \<in> set (poolsIn ns (pools (world s'))). readyTrue q \<longleftrightarrow> poolName q = poolName p)))"
proof -
  let ?ps = "poolsIn ns (pools (world s))"
  have "q = p" if "q \<in> set ?ps" "poolName q = poolName p" for q
    using assms(6,8) that by (auto simp: poolsIn_def poolKey_def metaKey_def distinct_map inj_on_def)
  then have good: "\<forall>q \<in> set ?ps. gm_get (om_Annotations (po_Meta q)) initialRVAnnotation \<noteq> None \<and>
      validateDNSUpstreamPool K (Some q) = None \<and>
      (poolName q = poolName p \<longrightarrow> buildsConfig R (Generate cpus) render q (defaultProfileOf ns (profs (world s))) json)"
    using assms(7,10) by blast
  have listed: "poolName p \<in> poolName ` set ?ps" using assms(8) by blast
  note hyps = assms(1,3-6) good assms(9) listed
  note start = onCourse_start [OF assms(1,13,11), of K "poolName p" json]
  have few: "card (unsettled K (poolName p) ns (pools (world s))) \<le> length ?ps"
    by (rule le_trans [OF card_mono card_length]) (auto simp: unsettled_def)
  have "\<exists>n s'. worked R K C pools ns Q s n {} s'" using api_server.work_ends [OF hyps assms(12) start] .
  moreover have "n + card Q' \<le> card Q + 2 * length ?ps \<and> (Q' = {} \<longrightarrow> publishes R ns json (cms (world s')) \<and>
      (\<forall>q \<in> set (poolsIn ns (pools (world s'))). readyTrue q \<longleftrightarrow> poolName q = poolName p))"
    if run: "worked R K C pools ns Q s n Q' s'" for n Q' s'
  proof -
    have c: "api_server.onCourse pools profs cms R K ns (poolName p) json s Q' s'"
      "n + card Q' + 2 * card (unsettled K (poolName p) ns (pools (world s'))) \<le>
        card Q + 2 * card (unsettled K (poolName p) ns (pools (world s)))"
      using api_server.worked_course [OF hyps run assms(12) start] by blast+
    have same: "list_all2 samePool (pools (world s)) (pools (world s'))"
      using c(1) by (simp add: api_server.onCourse_def [OF assms(1)])
    have "poolName p \<in> poolName ` set (poolsIn ns (pools (world s')))"
      using names_same [OF poolsIn_same [OF same, of ns]] listed by (metis list.set_map)
    then show ?thesis
      using c few verdict_ready [OF assms(2)] by (auto simp: api_server.onCourse_def [OF assms(1)])
  qed
  ultimately show ?thesis unfolding publishes_def by blast
qed

theorem queue_drains_witness:
  "\<exists>n s'. worked (demoReconciler '''') refK8s memClient mc_Pools ''a'' {''gone'', ''p'', ''q''} youngState n {} s' \<and> n \<le> 7 \<and>
    (\<forall>q \<in> set (poolsIn ''a'' (mc_Pools (world s'))). readyTrue q \<longleftrightarrow> poolName q = ''p'')"
proof -
  have names: "poolName ` set (poolsIn ''a'' (mc_Pools (world youngState))) \<subseteq> {''gone'', ''p'', ''q''}"
    by (auto simp: young_pools)
  have three: "card {''gone'', ''p'', ''q''} + 2 * length (poolsIn ''a'' (mc_Pools (world youngState))) = 7"
    by (simp add: young_pools)
  show ?thesis
    using queue_drains [OF mem.api_server_axioms refK8s_conditions refK8s_settle demo_components(1) [of "''''"]
        demo_components(2) [of "''''"] young_facts _ names] three
    unfolding young_pools(4) by fastforce
qed

end
