(* ===== verification/PoolGaps.thy ===== *)
theory PoolGaps
  imports Drain
begin

text \<open>
  What the pool controller leaves open on a server that answers every request: namespaces that share one
  key of one ConfigMap, and a pool that is published without being validated.
\<close>

section \<open>The server\<close>

text \<open>The server of \<open>api_server\<close>, which also answers for ConfigMaps and for changes of a pool's annotations.\<close>

locale full_server = api_server C pools profs cms
  for C :: "'w client" and pools :: "'w \<Rightarrow> pool list" and profs :: "'w \<Rightarrow> profile list" and cms :: "'w \<Rightarrow> configMap list" +
  assumes get_config: "cl_GetConfigMap C ns n w = (lookupBy cmKey (ns, n) (cms w), w)"
    and patch_pool: "\<exists>w'. cl_PatchPool C old new w = (Inr new, w') \<and>
      pools w' = replaceBy poolKey new (pools w) \<and> profs w' = profs w \<and> cms w' = cms w"

text \<open>What the agents of a namespace read: the value of the key in the ConfigMap, \<open>None\<close> where the key is missing.\<close>

definition keyHolds :: "poolReconciler \<Rightarrow> string \<Rightarrow> string option \<Rightarrow> configMap list \<Rightarrow> bool" where
  "keyHolds R ns v cs \<longleftrightarrow>
     (\<exists>cm \<in> set cs. cmKey cm = (operatorNamespace R ns, resolvedAgentConfigMapName R)) \<and>
     (\<forall>cm \<in> set cs. cmKey cm = (operatorNamespace R ns, resolvedAgentConfigMapName R) \<longrightarrow>
        gm_get (cm_Data cm) ''config.json'' = v)"

lemma keyHolds_same: "operatorNamespace R ns = operatorNamespace R ns' \<Longrightarrow> keyHolds R ns v cs \<longleftrightarrow> keyHolds R ns' v cs"
  by (simp add: keyHolds_def)

lemma upsertBy_holds:
  assumes "\<And>c. cmKey (f c) = cmKey c" "\<And>c. gm_get (cm_Data (f c)) ''config.json'' = v"
    and "cmKey cm = (operatorNamespace R ns, resolvedAgentConfigMapName R)"
  shows "keyHolds R ns v (upsertBy cmKey cm f cs)"
proof (cases "cmKey cm \<in> cmKey ` set cs")
  case True
  then obtain c where c: "c \<in> set cs" "cmKey c = cmKey cm" by (metis imageE)
  then show ?thesis
    using assms unfolding keyHolds_def upsertBy_def if_P [OF True] by (auto intro!: bexI [of _ "f c"])
next
  case False
  then show ?thesis
    using assms unfolding keyHolds_def upsertBy_def if_not_P [OF False] by (auto simp: image_iff)
qed

lemma published_holds: "keyHolds R ns (Some json) (publishedMap R ns json cs)"
  unfolding publishedMap_def
  by (rule upsertBy_holds) (simp_all add: mutateConfigMap_def cmKey_def)

text \<open>A namespace without pools: the key is removed.\<close>

context full_server
begin

lemma remove_run:
  assumes "rc_ConfigGen R = Some gen" "rc_ConfigRenderer R = Some render"
    and "poolsIn ns (pools (world s)) = []"
    and "\<exists>cm \<in> set (cms (world s)). cmKey cm = (operatorNamespace R ns, resolvedAgentConfigMapName R)"
  shows "\<exists>s'. run_state (reconcilePool R K C ns name) s = ((0, None), s') \<and> pools (world s') = pools (world s) \<and>
    keyHolds R ns None (cms (world s'))"
proof -
  let ?k = "(operatorNamespace R ns, resolvedAgentConfigMapName R)"
  have "(ns, name) \<notin> poolKey ` set (pools (world s))"
    using assms(3) by (auto simp: poolsIn_def filter_empty_conv poolKey_def metaKey_def)
  then have get: "cl_GetPool C ns name (world s) = (Inl NotFound, world s)"
    using lookupBy_Inl [of "(ns, name)" poolKey "pools (world s)"] by (simp add: get_pool)
  obtain calls m where m: "clearActivePoolSelectionMetric ns (metric s) = (calls, m)" by force
  obtain cm where cm: "lookupBy cmKey ?k (cms (world s)) = Inr cm" "cmKey cm = ?k"
  proof (cases "find (\<lambda>x. cmKey x = ?k) (cms (world s))")
    case None
    then show ?thesis using assms(4) by (auto simp: find_None_iff)
  next
    case (Some c)
    then have "cmKey c = ?k" by (auto simp: find_Some_iff)
    then show ?thesis using that [of c] Some by (simp add: lookupBy_def)
  qed
  obtain w where w: "cl_CreateOrUpdate C cm (mutateConfigMap (DeleteDataKey ''config.json'')) (world s) = (Inr (), w)"
    "pools w = pools (world s)" "cms w = upsertBy cmKey cm (mutateConfigMap (DeleteDataKey ''config.json'')) (cms (world s))"
    using upsert by blast
  have "keyHolds R ns None (cms w)"
    unfolding w(3)
    by (rule upsertBy_holds) (use cm(2) in \<open>auto simp: mutateConfigMap_def cmKey_def\<close>)
  then show ?thesis
    using w m cm get
    by (simp add: reconcilePool_def reconcileAfterPoolDeletion_def removeConfigKey_def run_simps assms(1-3) list_pools
        get_config isNotFound_def Let_def)
qed

end

lemma poolsIn_replace:
  assumes "poolKey p' = poolKey p" "om_Namespace (po_Meta p) \<noteq> ns"
  shows "poolsIn ns (replaceBy poolKey p' ps) = poolsIn ns ps"
  using assms unfolding poolsIn_def replaceBy_def
  by (induction ps) (auto simp: poolKey_def metaKey_def)

text \<open>C36: where the operator's namespace is set, pools are selected per namespace but all namespaces write the same
  key of the same ConfigMap.  Take any server that answers and pools of two namespaces, stamped, valid and each
  selected in its own namespace, with a closed circuit.  After both are reconciled the key holds the configuration
  of the second, while both pools say \<open>Ready\<close>.  And if the second pool is then deleted, being the only one of its
  namespace, the reconcile of the deletion removes the key, while the first pool still exists and says \<open>Ready\<close>.\<close>

theorem namespaces_share_key:
  assumes "full_server C pools profs cms" "conditions_documented K"
    and "rc_ConfigGen R = Some gen" "rc_ConfigRenderer R = Some render"
    and "p \<in> set (pools (world s))" "q \<in> set (pools (world s))" "distinct (map poolKey (pools (world s)))"
    and "om_Namespace (po_Meta p) = a" "om_Namespace (po_Meta q) = b" "a \<noteq> b" "operatorNamespace R a = operatorNamespace R b"
    and "gm_get (om_Annotations (po_Meta p)) initialRVAnnotation \<noteq> None" "validateDNSUpstreamPool K (Some p) = None"
    and "gm_get (om_Annotations (po_Meta q)) initialRVAnnotation \<noteq> None" "validateDNSUpstreamPool K (Some q) = None"
    and "fst (selectFromPools (poolsIn a (pools (world s)))) = poolName p"
    and "fst (selectFromPools (poolsIn b (pools (world s)))) = poolName q"
    and "buildsConfig R gen render p (defaultProfileOf a (profs (world s))) json"
    and "buildsConfig R gen render q (defaultProfileOf b (profs (world s))) json'"
    and "circuitOf (circuit s) (operatorNamespace R a) = Closed n"
  shows "\<exists>s1 s2. run_state (reconcilePool R K C a (poolName p)) s = ((0, None), s1) \<and>
    run_state (reconcilePool R K C b (poolName q)) s1 = ((0, None), s2) \<and>
    keyHolds R a (Some json) (cms (world s1)) \<and> keyHolds R a (Some json') (cms (world s2)) \<and>
    (\<exists>p' \<in> set (pools (world s2)). samePool p p' \<and> readyTrue p') \<and> (\<exists>q' \<in> set (pools (world s2)). samePool q q' \<and> readyTrue q') \<and>
    (\<forall>s3. poolsIn b (pools (world s)) = [q] \<and> pools (world s3) = filter (\<lambda>x. poolKey x \<noteq> (b, poolName q)) (pools (world s2)) \<and>
        cms (world s3) = cms (world s2) \<longrightarrow>
      (\<exists>s4. run_state (reconcilePool R K C b (poolName q)) s3 = ((0, None), s4) \<and> keyHolds R a None (cms (world s4)) \<and>
        (\<exists>p' \<in> set (pools (world s4)). samePool p p' \<and> readyTrue p')))"
proof -
  have api: "api_server C pools profs cms" using assms(1) by (simp add: full_server_def)
  let ?ready = "\<lambda>p. withReadyCondition K p ConditionTrue ''Ready'' (MText ''Configuration rendered successfully'' [])"
  have key: "poolKey (?ready x) = poolKey x" "samePool x (?ready x)" "readyTrue (?ready x)" for x
    using readyTrue_with [OF assms(2)] samePool_ready by (simp_all add: poolKey_def withReadyCondition_def)
  have keys: "poolKey p = (a, poolName p)" "poolKey q = (b, poolName q)"
    using assms(8,9) by (simp_all add: poolKey_def metaKey_def)
  obtain s1 where s1: "run_state (reconcilePool R K C a (poolName p)) s = ((0, None), s1)"
    "pools (world s1) = replaceBy poolKey (?ready p) (pools (world s))" "profs (world s1) = profs (world s)"
    "cms (world s1) = publishedMap R a json (cms (world s))" "circuitOf (circuit s1) (operatorNamespace R b) = Closed 0"
    using api_server.publish_run [OF api assms(3,4,5,7,12,13), unfolded assms(8), OF assms(16,18,20)] unfolding assms(11) by blast
  have mem1: "x \<in> set (pools (world s1)) \<longleftrightarrow> x = ?ready p \<or> x \<in> set (pools (world s)) \<and> poolKey x \<noteq> poolKey p" for x
    unfolding s1(2) by (rule replace_same(2) [OF assms(7,5) key(2)])
  have dist1: "distinct (map poolKey (pools (world s1)))"
    using keys_same [OF replace_same(1) [OF assms(7,5) key(2) [of p]]] assms(7) unfolding s1(2) by simp
  have q1: "q \<in> set (pools (world s1))" using mem1 assms(6,10) keys by simp
  have in1: "poolsIn b (pools (world s1)) = poolsIn b (pools (world s))"
    unfolding s1(2) using assms(8,10) by (intro poolsIn_replace [OF key(1)]) simp
  have sel1: "fst (selectFromPools (poolsIn b (pools (world s1)))) = poolName q" unfolding in1 by (rule assms(17))
  have build1: "buildsConfig R gen render q (defaultProfileOf b (profs (world s1))) json'" unfolding s1(3) by (rule assms(19))
  obtain s2 where s2: "run_state (reconcilePool R K C b (poolName q)) s1 = ((0, None), s2)"
    "pools (world s2) = replaceBy poolKey (?ready q) (pools (world s1))" "cms (world s2) = publishedMap R b json' (cms (world s1))"
    using api_server.publish_run [OF api assms(3,4) q1 dist1 assms(14,15), unfolded assms(9), OF sel1 build1 s1(5)] by blast
  have mem2: "x \<in> set (pools (world s2)) \<longleftrightarrow> x = ?ready q \<or> x \<in> set (pools (world s1)) \<and> poolKey x \<noteq> poolKey q" for x
    unfolding s2(2) by (rule replace_same(2) [OF dist1 q1 key(2)])
  have p2: "?ready p \<in> set (pools (world s2))" using mem1 mem2 keys key(1) assms(10) by simp
  have held: "keyHolds R a (Some json) (cms (world s1))" "keyHolds R a (Some json') (cms (world s2))"
    unfolding s1(4) s2(3) keyHolds_same [OF assms(11), of "Some json'"] by (rule published_holds)+
  have last: "\<exists>s4. run_state (reconcilePool R K C b (poolName q)) s3 = ((0, None), s4) \<and> keyHolds R a None (cms (world s4)) \<and>
      (\<exists>p' \<in> set (pools (world s4)). samePool p p' \<and> readyTrue p')"
    if only: "poolsIn b (pools (world s)) = [q]" and s3: "pools (world s3) = filter (\<lambda>x. poolKey x \<noteq> (b, poolName q)) (pools (world s2))"
      "cms (world s3) = cms (world s2)" for s3
  proof -
    have "poolKey x = poolKey q" if "x \<in> set (pools (world s2))" "om_Namespace (po_Meta x) = b" for x
    proof (cases "x = ?ready q")
      case False
      then have "x \<in> set (poolsIn b (pools (world s1)))" using that mem2 by (simp add: poolsIn_def)
      then show ?thesis unfolding in1 only by simp
    qed (simp add: key(1))
    then have "poolsIn b (pools (world s3)) = []"
      unfolding poolsIn_def s3(1) using keys(2) by (auto simp: filter_empty_conv)
    moreover have "\<exists>cm \<in> set (cms (world s3)). cmKey cm = (operatorNamespace R b, resolvedAgentConfigMapName R)"
      using held(2) unfolding s3(2) keyHolds_def assms(11) by blast
    ultimately obtain s4 where s4: "run_state (reconcilePool R K C b (poolName q)) s3 = ((0, None), s4)"
      "pools (world s4) = pools (world s3)" "keyHolds R b None (cms (world s4))"
      using full_server.remove_run [OF assms(1,3,4)] by blast
    have "?ready p \<in> set (pools (world s4))" using p2 keys key(1) assms(10) by (simp add: s4(2) s3(1))
    then show ?thesis using s4 key(2,3) keyHolds_same [OF assms(11)] by blast
  qed
  have "?ready q \<in> set (pools (world s2))" using mem2 by blast
  then show ?thesis
    using s1(1) s2(1) held p2 key(2,3) last by blast
qed

text \<open>The server in memory.\<close>

interpretation memfull: full_server memClient mc_Pools mc_Profiles mc_ConfigMaps
proof unfold_locales
  fix ns n w
  show "cl_GetConfigMap memClient ns n w = (lookupBy cmKey (ns, n) (mc_ConfigMaps w), w)" by (simp add: memClient_def)
next
  fix old new w
  show "\<exists>w'. cl_PatchPool memClient old new w = (Inr new, w') \<and> mc_Pools w' = replaceBy poolKey new (mc_Pools w) \<and>
      mc_Profiles w' = mc_Profiles w \<and> mc_ConfigMaps w' = mc_ConfigMaps w"
    by (simp add: memClient_def replaceBy_def poolKey_def)
qed

text \<open>A stamped pool of another namespace.\<close>

definition otherStored :: pool where
  "otherStored = stampInitialRV (samplePool ''b'' ''q'' [''1.1.1.1''])"

lemma otherStored_meta: "po_Meta otherStored = (plainMeta ''b'' ''q'')\<lparr>om_Annotations := Some [(initialRVAnnotation, ''7'')]\<rparr>"
  by (simp add: otherStored_def stampInitialRV_def samplePool_def plainMeta_def gm_set_def gm_make_def)

lemma otherStored_builds: "buildsConfig (demoReconciler e) (Generate 4) (unbound_Render plainTemplates 4) otherStored None ''1''"
proof -
  obtain c where "Generate 4 (Some otherStored) None = Inr c"
    "unbound_Render plainTemplates 4 (Some c) = Inr ''unbound.conf''" "length (ec_Upstreams c) = 1"
    using demo_builds [of "[''1.1.1.1'']" otherStored "''b''" "''q''" None] by (auto simp: otherStored_def stampInitialRV_def)
  then show ?thesis by (simp add: buildsConfig_def demoReconciler_def)
qed

definition twoState :: "cluster poolSys" where
  "twoState = demoState (demoCluster [demoStored, otherStored])"

lemma two_pools: "mc_Pools (world twoState) = [demoStored, otherStored]" "mc_Profiles (world twoState) = []"
  "circuit twoState = newBreaker" "poolName demoStored = ''p''" "poolName otherStored = ''q''"
  "poolsIn ''a'' [demoStored, otherStored] = [demoStored]" "poolsIn ''b'' [demoStored, otherStored] = [otherStored]"
  by (simp_all add: twoState_def demoState_def demoCluster_def emptyCluster_def poolsIn_def demoStored_meta otherStored_meta plainMeta_def)

theorem namespaces_share_key_witness:
  "\<exists>s1 s2. run_state (reconcilePool (demoReconciler ''sys'') refK8s memClient ''a'' ''p'') twoState = ((0, None), s1) \<and>
    run_state (reconcilePool (demoReconciler ''sys'') refK8s memClient ''b'' ''q'') s1 = ((0, None), s2) \<and>
    keyHolds (demoReconciler ''sys'') ''a'' (Some ''1'') (mc_ConfigMaps (world s2)) \<and>
    (\<exists>p' \<in> set (mc_Pools (world s2)). samePool demoStored p' \<and> readyTrue p') \<and>
    (\<exists>s3 s4. run_state (reconcilePool (demoReconciler ''sys'') refK8s memClient ''b'' ''q'') s3 = ((0, None), s4) \<and>
      keyHolds (demoReconciler ''sys'') ''a'' None (mc_ConfigMaps (world s4)) \<and>
      (\<exists>p' \<in> set (mc_Pools (world s4)). samePool demoStored p' \<and> readyTrue p'))"
proof -
  let ?R = "demoReconciler ''sys''"
  have mem: "demoStored \<in> set (mc_Pools (world twoState))" "otherStored \<in> set (mc_Pools (world twoState))" by (simp_all add: two_pools)
  have dist: "distinct (map poolKey (mc_Pools (world twoState)))"
    by (simp add: two_pools poolKey_def metaKey_def)
  have ns: "om_Namespace (po_Meta demoStored) = ''a''" "om_Namespace (po_Meta otherStored) = ''b''" "''a'' \<noteq> ''b''"
    by (simp_all add: demoStored_meta otherStored_meta plainMeta_def)
  have "trimSpace ''sys'' = ''sys''" by (simp add: trimSpace_alnum lit_simps)
  then have op: "operatorNamespace ?R ''a'' = operatorNamespace ?R ''b''" by (simp add: operatorNamespace_def demoReconciler_def)
  have stamps: "gm_get (om_Annotations (po_Meta demoStored)) initialRVAnnotation \<noteq> None"
    "gm_get (om_Annotations (po_Meta otherStored)) initialRVAnnotation \<noteq> None"
    by (simp_all add: demoStored_meta otherStored_meta gm_get_def gm_make_def)
  have valid: "validateDNSUpstreamPool refK8s (Some demoStored) = None" "validateDNSUpstreamPool refK8s (Some otherStored) = None"
    by (rule demo_valid) (simp_all add: demoStored_def otherStored_def stampInitialRV_def validateDNSUpstreamPool_iff samplePool_ok)
  have sel: "fst (selectFromPools (poolsIn ''a'' (mc_Pools (world twoState)))) = poolName demoStored"
    "fst (selectFromPools (poolsIn ''b'' (mc_Pools (world twoState)))) = poolName otherStored"
    by (simp_all add: two_pools selectFromPools_def)
  have builds: "buildsConfig ?R (Generate 4) (unbound_Render plainTemplates 4) demoStored (defaultProfileOf ''a'' (mc_Profiles (world twoState))) ''2''"
    "buildsConfig ?R (Generate 4) (unbound_Render plainTemplates 4) otherStored (defaultProfileOf ''b'' (mc_Profiles (world twoState))) ''1''"
    using demo_builds_stored otherStored_builds by (simp_all add: two_pools defaultProfileOf_def)
  have closed: "circuitOf (circuit twoState) (operatorNamespace ?R ''a'') = Closed 0" by (simp add: two_pools circuitOf_new)
  obtain s1 s2 :: "cluster poolSys" where s2: "run_state (reconcilePool ?R refK8s memClient ''a'' ''p'') twoState = ((0, None), s1)"
    "run_state (reconcilePool ?R refK8s memClient ''b'' ''q'') s1 = ((0, None), s2)"
    "keyHolds ?R ''a'' (Some ''1'') (mc_ConfigMaps (world s2))"
    "\<exists>p' \<in> set (mc_Pools (world s2)). samePool demoStored p' \<and> readyTrue p'"
    "\<forall>s3. poolsIn ''b'' (mc_Pools (world twoState)) = [otherStored] \<and>
        mc_Pools (world s3) = filter (\<lambda>x. poolKey x \<noteq> (''b'', ''q'')) (mc_Pools (world s2)) \<and>
        mc_ConfigMaps (world s3) = mc_ConfigMaps (world s2) \<longrightarrow>
      (\<exists>s4. run_state (reconcilePool ?R refK8s memClient ''b'' ''q'') s3 = ((0, None), s4) \<and>
        keyHolds ?R ''a'' None (mc_ConfigMaps (world s4)) \<and> (\<exists>p' \<in> set (mc_Pools (world s4)). samePool demoStored p' \<and> readyTrue p'))"
    using namespaces_share_key [OF memfull.full_server_axioms refK8s_conditions demo_components(1) [of "''sys''"]
        demo_components(2) [of "''sys''"] mem dist ns op stamps(1) valid(1) stamps(2) valid(2) sel builds closed]
    unfolding two_pools(4,5)
    by (elim exE conjE) (rule that; assumption)
  let ?s3 = "s2\<lparr>world := (world s2)\<lparr>mc_Pools := filter (\<lambda>x. poolKey x \<noteq> (''b'', ''q'')) (mc_Pools (world s2))\<rparr>\<rparr>"
  have "\<exists>s4. run_state (reconcilePool ?R refK8s memClient ''b'' ''q'') ?s3 = ((0, None), s4) \<and> keyHolds ?R ''a'' None (mc_ConfigMaps (world s4)) \<and> (\<exists>p' \<in> set (mc_Pools (world s4)). samePool demoStored p' \<and> readyTrue p')"
    using s2(5) [THEN spec, of ?s3] by (auto simp: two_pools)
  then show ?thesis using s2(1-4) by blast
qed

section \<open>A deletion skips validation\<close>

context api_server
begin

text \<open>The reconcile of a stamped pool that does not pass the validation.\<close>

lemma invalid_run:
  assumes "rc_ConfigGen R = Some gen" "rc_ConfigRenderer R = Some render"
    and "p \<in> set (pools (world s))" "distinct (map poolKey (pools (world s)))"
    and "gm_get (om_Annotations (po_Meta p)) initialRVAnnotation \<noteq> None" "validateDNSUpstreamPool K (Some p) = Some e"
  shows "\<exists>s'. run_state (reconcilePool R K C (om_Namespace (po_Meta p)) (poolName p)) s = ((0, None), s') \<and>
    pools (world s') = replaceBy poolKey (withReadyCondition K p ConditionFalse ''InvalidSpec'' (MErr e)) (pools (world s)) \<and>
    profs (world s') = profs (world s) \<and> cms (world s') = cms (world s) \<and> circuit s' = circuit s"
proof -
  have get: "cl_GetPool C (om_Namespace (po_Meta p)) (poolName p) (world s) = (Inr p, world s)"
    using lookupBy_Inr [OF assms(4,3)] by (simp add: get_pool poolKey_def metaKey_def)
  define s1 where "s1 = s\<lparr>effects := effects s @ [GetPool (om_Namespace (po_Meta p)) (poolName p) (Inr p)]\<rparr>"
  have "run_state (reconcilePool R K C (om_Namespace (po_Meta p)) (poolName p)) s =
      run_state (failPool R K C p ''InvalidSpec'' (MErr e) (0, None)) s1"
    using assms(1,2,5,6) by (simp add: reconcilePool_def ensureInitialRVAnnotation_def run_simps get s1_def)
  then show ?thesis using fail_run [of R K p "''InvalidSpec''" "MErr e" "(0, None)" s1] by (simp add: s1_def)
qed

end

text \<open>C40: after a deletion the configuration is rebuilt without validation.  On any server that answers and with a
  closed circuit, a pool that is first in the selection order of those left is published and says \<open>Ready\<close>
  although \<open>validateDNSUpstreamPool\<close> refuses it, provided only that its configuration can be generated and
  rendered.  When the pool is then reconciled itself it says \<open>Ready=False\<close>, \<open>InvalidSpec\<close>, and its
  configuration stays in the ConfigMap.\<close>

theorem deletion_skips_validation:
  assumes "api_server C pools profs cms" "conditions_documented K"
    and "rc_ConfigGen R = Some (Generate cpus)" "rc_ConfigRenderer R = Some render"
    and "(ns, name) \<notin> poolKey ` set (pools (world s))" "distinct (map poolKey (pools (world s)))"
    and "sortPoolsForSelection (poolsIn ns (pools (world s))) = p # ps"
    and "gm_get (om_Annotations (po_Meta p)) initialRVAnnotation \<noteq> None" "validateDNSUpstreamPool K (Some p) \<noteq> None"
    and "buildsConfig R (Generate cpus) render p (defaultProfileOf ns (profs (world s))) json"
    and "circuitOf (circuit s) (operatorNamespace R ns) = Closed n"
  shows "\<exists>s1 s2 p1 p2. run_state (reconcilePool R K C ns name) s = ((0, None), s1) \<and>
    run_state (reconcilePool R K C ns (poolName p)) s1 = ((0, None), s2) \<and>
    keyHolds R ns (Some json) (cms (world s1)) \<and> p1 \<in> set (pools (world s1)) \<and> samePool p p1 \<and> readyTrue p1 \<and>
    cms (world s2) = cms (world s1) \<and> p2 \<in> set (pools (world s2)) \<and> samePool p p2 \<and>
    (\<exists>c. find (\<lambda>c. cd_Type c = ''Ready'') (st_Conditions (po_Status p2)) = Some c \<and>
      cd_Status c = ConditionFalse \<and> cd_Reason c = ''InvalidSpec'')"
proof -
  let ?p1 = "withReadyCondition K p ConditionTrue ''Ready'' (MText ''Configuration rendered successfully'' [])"
  obtain e where e: "validateDNSUpstreamPool K (Some p) = Some e" using assms(9) by blast
  have p: "p \<in> set (pools (world s))" "om_Namespace (po_Meta p) = ns"
    using assms(7) set_sortPools [of "poolsIn ns (pools (world s))"] by (auto simp: poolsIn_def)
  obtain s1 where s1: "run_state (reconcilePool R K C ns name) s = ((0, None), s1)"
    "pools (world s1) = replaceBy poolKey ?p1 (pools (world s))" "cms (world s1) = publishedMap R ns json (cms (world s))"
    using api_server.failover_run [OF assms(1,3,4,5,7,10,11)] by blast
  have mem1: "?p1 \<in> set (pools (world s1))"
    unfolding s1(2) replace_same(2) [OF assms(6) p(1) samePool_ready] by blast
  have dist1: "distinct (map poolKey (pools (world s1)))"
    using keys_same [OF replace_same(1) [OF assms(6) p(1) samePool_ready]] assms(6) unfolding s1(2) by simp
  have same: "po_Meta ?p1 = po_Meta p" "validateDNSUpstreamPool K (Some ?p1) = Some e"
    using e by (simp_all add: withReadyCondition_def validateDNSUpstreamPool_def)
  have stamp: "gm_get (om_Annotations (po_Meta ?p1)) initialRVAnnotation \<noteq> None" using assms(8) unfolding same(1) .
  let ?p2 = "withReadyCondition K ?p1 ConditionFalse ''InvalidSpec'' (MErr e)"
  obtain s2 where s2: "run_state (reconcilePool R K C ns (poolName p)) s1 = ((0, None), s2)"
    "pools (world s2) = replaceBy poolKey ?p2 (pools (world s1))" "cms (world s2) = cms (world s1)"
    using api_server.invalid_run [OF assms(1,3,4) mem1 dist1 stamp same(2)] unfolding same(1) p(2) by blast
  have mem2: "?p2 \<in> set (pools (world s2))"
    unfolding s2(2) replace_same(2) [OF dist1 mem1 samePool_ready] by blast
  have reason: "\<exists>c. find (\<lambda>c. cd_Type c = ''Ready'') (st_Conditions (po_Status ?p2)) = Some c \<and>
      cd_Status c = ConditionFalse \<and> cd_Reason c = ''InvalidSpec''"
    by (simp add: withReadyCondition_def conditions_find [OF assms(2)])
  have held: "keyHolds R ns (Some json) (cms (world s1))" unfolding s1(3) by (rule published_holds)
  have "samePool p ?p2" by (rule samePool_trans [OF samePool_ready samePool_ready])
  then show ?thesis
    using s1(1) s2(1,3) held mem1 mem2 reason readyTrue_with [OF assms(2)] samePool_ready
    by (intro exI [of _ s1] exI [of _ s2] exI [of _ ?p1] exI [of _ ?p2] conjI) simp_all
qed

text \<open>A pool that names the same resolver twice: the repository's schema of the resource admits it.\<close>

definition twicePool :: pool where
  "twicePool = stampInitialRV \<lparr>po_Meta = plainMeta ''a'' ''twice'',
     po_Spec = \<lparr>ps_Upstreams = replicate 2 \<lparr>up_Address = ''1.1.1.1'', up_Port = 53, up_Transport = ''dns'',
         up_TLSServerName = '''', up_Weight = 1, up_Preference = 100\<rparr>,
       ps_WorkerThreads = 2, ps_DNSSECMode = ''off'', ps_DomainFilter = \<lparr>df_Allow = [], df_Deny = [], df_Action = ''refused''\<rparr>\<rparr>,
     po_Status = noStatus\<rparr>"

lemma twicePool_meta: "po_Meta twicePool = (plainMeta ''a'' ''twice'')\<lparr>om_Annotations := Some [(initialRVAnnotation, ''7'')]\<rparr>"
  by (simp add: twicePool_def stampInitialRV_def plainMeta_def gm_set_def gm_make_def)

lemma twicePool_builds: "buildsConfig (demoReconciler e) (Generate 4) (unbound_Render plainTemplates 4) twicePool None ''2''"
proof -
  have t: "trimSpace ''1.1.1.1'' = ''1.1.1.1''" by (rule addressOk_trim) simp
  have w: "trimSpace ''dns'' = ''dns''" "trimSpace ''off'' = ''off''" by (simp_all add: trimSpace_alnum lit_simps)
  have l: "lower_byte CHR ''d'' = CHR ''d''" "lower_byte CHR ''n'' = CHR ''n''" "lower_byte CHR ''s'' = CHR ''s''"
    "lower_byte CHR ''o'' = CHR ''o''" "lower_byte CHR ''f'' = CHR ''f''" by code_simp+
  have "\<exists>c. Generate 4 (Some twicePool) None = Inr c \<and> configNormal c \<and> plainConfig c \<and> length (ec_Upstreams c) = 2"
    by (simp add: Generate_Inr_iff twicePool_def stampInitialRV_def t w l insertionSort_def upstreamLess_def configNormal_def plainConfig_def upstreamNormal_def numeral_2_eq_2
        generateUpstream_def normalizeUpstreamTransport_def normalizeDNSSECMode_def gen_defaultUpstreamPortForTransport_def
        normalizeUpstreamWeight_def normalizeUpstreamPreference_def resolveWorkerThreads_def Let_def)
  then show ?thesis
    using plain_compat by (auto simp: unbound.render_normal plainTemplates_def buildsConfig_def demoReconciler_def)
qed

theorem deletion_skips_validation_witness:
  "\<exists>s1 p1. run_state (reconcilePool (demoReconciler '''') refK8s memClient ''a'' ''gone'') (demoState (demoCluster [twicePool])) =
     ((0, None), s1) \<and> p1 \<in> set (mc_Pools (world s1)) \<and> samePool twicePool p1 \<and> readyTrue p1 \<and>
     keyHolds (demoReconciler '''') ''a'' (Some ''2'') (mc_ConfigMaps (world s1)) \<and>
     validateDNSUpstreamPool refK8s (Some p1) \<noteq> None"
proof -
  let ?s = "demoState (demoCluster [twicePool])"
  have pools: "mc_Pools (world ?s) = [twicePool]" "mc_Profiles (world ?s) = []"
    by (simp_all add: demoState_def demoCluster_def emptyCluster_def)
  have gone: "(''a'', ''gone'') \<notin> poolKey ` set (mc_Pools (world ?s))" "distinct (map poolKey (mc_Pools (world ?s)))"
    by (simp_all add: pools poolKey_def metaKey_def twicePool_meta plainMeta_def)
  have sorted: "sortPoolsForSelection (poolsIn ''a'' (mc_Pools (world ?s))) = [twicePool]"
    by (simp add: pools poolsIn_def twicePool_meta plainMeta_def)
  have stamp: "gm_get (om_Annotations (po_Meta twicePool)) initialRVAnnotation \<noteq> None"
    by (simp add: twicePool_meta gm_get_def gm_make_def)
  have invalid: "validateDNSUpstreamPool refK8s (Some twicePool) \<noteq> None"
    by (simp add: validateDNSUpstreamPool_iff poolSpecOk_def twicePool_def stampInitialRV_def numeral_2_eq_2)
  have builds: "buildsConfig (demoReconciler '''') (Generate 4) (unbound_Render plainTemplates 4) twicePool
      (defaultProfileOf ''a'' (mc_Profiles (world ?s))) ''2''"
    using twicePool_builds by (simp add: pools defaultProfileOf_def)
  have closed: "circuitOf (circuit ?s) (operatorNamespace (demoReconciler '''') ''a'') = Closed 0"
    by (simp add: demoState_def circuitOf_new)
  have still: "validateDNSUpstreamPool refK8s (Some p1) \<noteq> None" if "samePool twicePool p1" for p1
    using invalid valid_same [OF that, of refK8s] by simp
  show ?thesis
    using deletion_skips_validation [OF mem.api_server_axioms refK8s_conditions demo_components(1) [of "''''"]
        demo_components(2) [of "''''"] gone sorted stamp invalid builds closed] still by blast
qed

end
