(* ===== verification/Recreation.thy ===== *)
theory Recreation
  imports PoolGaps
begin

text \<open>
  A pool that is deleted and created again under its name before the deletion is reconciled: the two
  requests are one, and the reconcile sees a live pool.  No other pool of the namespace has changed, so
  no request for another one waits.
\<close>

section \<open>The reconcile of a new pool\<close>

lemma replace_twice:
  "poolKey p' = poolKey p \<Longrightarrow> replaceBy poolKey p' (replaceBy poolKey p ps) = replaceBy poolKey p' ps"
  by (simp add: replaceBy_def)

lemma stamp_key: "poolKey (stampInitialRV p) = poolKey p" "poolName (stampInitialRV p) = poolName p"
    "om_Namespace (po_Meta (stampInitialRV p)) = om_Namespace (po_Meta p)" "po_Spec (stampInitialRV p) = po_Spec p"
  by (simp_all add: stampInitialRV_def poolKey_def metaKey_def)

definition supersededBy :: "k8s \<Rightarrow> string \<Rightarrow> pool \<Rightarrow> pool" where
  "supersededBy K active p =
     withReadyCondition K p ConditionFalse ''Superseded'' (MText ''pool %q is active in this namespace'' [AStr active])"

lemma superseded_key: "poolKey (supersededBy K active p) = poolKey p" "samePool p (supersededBy K active p)"
  by (simp_all add: supersededBy_def samePool_ready) (simp add: poolKey_def withReadyCondition_def)

context full_server
begin

lemma new_run:
  assumes "rc_ConfigGen R = Some gen" "rc_ConfigRenderer R = Some render"
    and "p \<in> set (pools (world s))" "distinct (map poolKey (pools (world s)))" "om_Namespace (po_Meta p) = ns"
    and "gm_get (om_Annotations (po_Meta p)) initialRVAnnotation = None" "validateDNSUpstreamPool K (Some p) = None"
    and "fst (selectFromPools (poolsIn ns (replaceBy poolKey (stampInitialRV p) (pools (world s))))) = active" "active \<noteq> poolName p"
  shows "\<exists>s'. run_state (reconcilePool R K C ns (poolName p)) s = ((0, None), s') \<and>
    pools (world s') = replaceBy poolKey (supersededBy K active (stampInitialRV p)) (pools (world s)) \<and>
    cms (world s') = cms (world s)"
proof -
  let ?p = "stampInitialRV p"
  have get: "cl_GetPool C ns (poolName p) (world s) = (Inr p, world s)"
    using lookupBy_Inr [OF assms(4,3)] by (simp add: get_pool poolKey_def metaKey_def assms(5))
  obtain w where w: "cl_PatchPool C p ?p (world s) = (Inr ?p, w)" "pools w = replaceBy poolKey ?p (pools (world s))"
    "cms w = cms (world s)" using patch_pool by blast
  have valid: "validateDNSUpstreamPool K (Some ?p) = None" using assms(7) by (simp add: validateDNSUpstreamPool_iff stamp_key)
  have "?p \<in> set (poolsIn ns (pools w))"
    using assms(3,5) by (auto simp: w(2) poolsIn_def replaceBy_def stamp_key image_iff)
  moreover have sel: "fst (selectFromPools (poolsIn ns (pools w))) = active" using assms(8) by (simp add: w(2))
  ultimately obtain cnt where active: "selectFromPools (poolsIn ns (pools w)) = (active, cnt, ''oldest_pool'')"
    using select_other [of ?p "poolsIn ns (pools w)"] assms(9) by (metis prod.collapse stamp_key(2))
  then have "cnt > 1" by (auto simp: selectFromPools_def split: list.splits if_splits)
  obtain calls m where m: "recordActivePoolSelectionMetric ns active ''oldest_pool'' (metric s) = (calls, m)" by force
  define s1 where "s1 = s\<lparr>world := w, metric := m, effects := effects s @ [GetPool ns (poolName p) (Inr p), PatchPool p ?p (Inr ?p),
      ListPools ns (Inr (poolsIn ns (pools w)))] @ map Gauge calls\<rparr>"
  have "run_state (reconcilePool R K C ns (poolName p)) s =
      run_state (failPool R K C ?p ''Superseded'' (MText ''pool %q is active in this namespace'' [AStr active]) (0, None)) s1"
    using assms(1,2,5,6,9) m \<open>cnt > 1\<close>
    by (simp add: reconcilePool_def ensureInitialRVAnnotation_def reconcileValidPool_def selectActivePoolName_def
        run_simps get w(1) valid list_pools active stamp_key s1_def Let_def)
  then show ?thesis
    using fail_run [of R K ?p "''Superseded''" "MText ''pool %q is active in this namespace'' [AStr active]" "(0, None)" s1]
      replace_twice [OF superseded_key(1)]
    by (auto simp: s1_def w(2,3) supersededBy_def [symmetric] superseded_key)
qed

text \<open>From then on nothing changes.\<close>

lemma old_run:
  assumes "conditions_settle K" "rc_ConfigGen R = Some gen" "rc_ConfigRenderer R = Some render"
    and "pools (world s) = replaceBy poolKey p' ps" "p' = supersededBy K active p0" "p \<in> set ps" "distinct (map poolKey ps)"
    and "poolKey p' = poolKey p" "om_Namespace (po_Meta p') = ns" "poolName p' = name"
    and "gm_get (om_Annotations (po_Meta p')) initialRVAnnotation \<noteq> None" "validateDNSUpstreamPool K (Some p') = None"
    and "fst (selectFromPools (poolsIn ns (pools (world s)))) = active" "active \<noteq> name"
  shows "\<exists>s'. run_state (reconcilePool R K C ns name) s = ((0, None), s') \<and> pools (world s') = pools (world s) \<and>
    cms (world s') = cms (world s)"
proof -
  have mem: "p' \<in> set (pools (world s))" using assms(6,8) by (auto simp: assms(4) replaceBy_def image_iff)
  have "map poolKey (pools (world s)) = map poolKey ps" using assms(8) by (auto simp: assms(4) replaceBy_def)
  then have dist: "distinct (map poolKey (pools (world s)))" using assms(7) by simp
  have "supersededBy K active p' = p'" using assms(1) by (simp add: assms(5) conditions_settle_def supersededBy_def withReadyCondition_def)
  then have "replaceBy poolKey (supersededBy K active p') (pools (world s)) = pools (world s)"
    using replace_settled [OF dist mem] by simp
  then show ?thesis
    using superseded_run [OF assms(2,3) mem dist assms(11,12)] assms(9,10,13,14) unfolding supersededBy_def by auto
qed

end

lemma replace_alike: "samePool a b \<Longrightarrow> list_all2 samePool (replaceBy poolKey a ps) (replaceBy poolKey b ps)"
  by (auto simp: replaceBy_def list_all2_map1 list_all2_map2 list_all2_same samePool_def poolKey_def)

section \<open>The queue\<close>

text \<open>C37: a pool created again is taken for a live one, and the next pool is forgotten.  Take a server that answers,
  and a namespace in which a new pool, still without the stamp, has taken the name of a deleted one while the request of
  this name waits; the other pools of the namespace are as they were, none of them ready, and one of them is selected.
  Then the queue is empty after two reconciles of this name, and no other name is ever put into it.  The
  ConfigMap is as before, so it keeps the configuration of the deleted pool; the other pools, the selected one among
  them, are as before too; and no pool of the namespace is ready.\<close>

theorem recreated_pool_forgotten:
  assumes "full_server C pools profs cms" "conditions_documented K" "conditions_settle K"
    and "rc_ConfigGen R = Some gen" "rc_ConfigRenderer R = Some render"
    and "p \<in> set (pools (world s))" "distinct (map poolKey (pools (world s)))" "om_Namespace (po_Meta p) = ns"
    and "gm_get (om_Annotations (po_Meta p)) initialRVAnnotation = None" "validateDNSUpstreamPool K (Some p) = None"
    and "fst (selectFromPools (poolsIn ns (replaceBy poolKey (stampInitialRV p) (pools (world s))))) = active" "active \<noteq> poolName p"
    and "\<forall>q \<in> set (poolsIn ns (pools (world s))). poolName q \<noteq> poolName p \<longrightarrow> \<not> readyTrue q"
  shows "(\<exists>s'. worked R K C pools ns {poolName p} s 2 {} s') \<and>
    (\<forall>n Q s'. worked R K C pools ns {poolName p} s n Q s' \<longrightarrow>
      n \<le> 2 \<and> Q \<subseteq> {poolName p} \<and> cms (world s') = cms (world s) \<and>
      (\<forall>q. poolKey q \<noteq> poolKey p \<longrightarrow> (q \<in> set (pools (world s')) \<longleftrightarrow> q \<in> set (pools (world s)))) \<and>
      (Q = {} \<longrightarrow> fst (selectFromPools (poolsIn ns (pools (world s')))) = active \<and>
        (\<forall>q \<in> set (poolsIn ns (pools (world s'))). \<not> readyTrue q)))"
proof -
  define p' where "p' = supersededBy K active (stampInitialRV p)"
  define ps where "ps = replaceBy poolKey p' (pools (world s))"
  have key: "poolKey p' = poolKey p" "samePool (stampInitialRV p) p'" by (simp_all add: p'_def superseded_key stamp_key)
  have meta: "om_Namespace (po_Meta p') = ns" "poolName p' = poolName p"
    "gm_get (om_Annotations (po_Meta p')) initialRVAnnotation \<noteq> None" "validateDNSUpstreamPool K (Some p') = None"
    using key(2) assms(8,10) by (simp_all add: samePool_def stamp_key validateDNSUpstreamPool_iff) (simp add: stampInitialRV_def)
  have mem: "q \<in> set ps \<longleftrightarrow> q = p' \<or> q \<in> set (pools (world s)) \<and> poolKey q \<noteq> poolKey p" for q
    using assms(6) key(1) by (auto simp: ps_def replaceBy_def image_iff)
  have sel: "fst (selectFromPools (poolsIn ns ps)) = active"
    using select_same [OF poolsIn_same [OF replace_alike [OF key(2)]]] assms(11) by (simp add: ps_def)
  have unready: "\<not> readyTrue p'" by (simp add: p'_def supersededBy_def readyTrue_with [OF assms(2)])
  have idle: "\<not> readyTrue q" if "q \<in> set (poolsIn ns ps)" for q
    using that assms(8,13) unready mem by (auto simp: poolsIn_def poolKey_def metaKey_def)
  have "p' \<notin> set (pools (world s))"
  proof
    assume "p' \<in> set (pools (world s))"
    then have "p' = p" using assms(6,7) key(1) by (auto simp: distinct_map inj_on_def)
    then show False using meta(3) assms(9) by simp
  qed
  then have first: "changedNames ns (pools (world s)) ps = {poolName p}"
    using mem meta(1,2) by (auto simp: changedNames_def poolsIn_def intro!: image_eqI [of _ _ p'])
  have none: "changedNames ns ps ps = {}" by (auto simp: changedNames_def poolsIn_def)
  obtain s1 where s1: "run_state (reconcilePool R K C ns (poolName p)) s = ((0, None), s1)" "pools (world s1) = ps"
    "cms (world s1) = cms (world s)"
    using full_server.new_run [OF assms(1,4-12)] unfolding ps_def p'_def by blast
  have again: "\<exists>t'. run_state (reconcilePool R K C ns (poolName p)) t = ((0, None), t') \<and> pools (world t') = ps \<and>
      cms (world t') = cms (world t)" if t: "pools (world t) = ps" for t
  proof -
    have "fst (selectFromPools (poolsIn ns (pools (world t)))) = active" unfolding t by (rule sel)
    from full_server.old_run [OF assms(1,3,4,5) t [unfolded ps_def] p'_def assms(6,7) key(1) meta this assms(12)]
    show ?thesis unfolding t .
  qed
  have course: "n = 0 \<and> Q = {poolName p} \<and> s' = s \<or>
      (n = 1 \<and> Q = {poolName p} \<or> n = 2 \<and> Q = {}) \<and> pools (world s') = ps \<and> cms (world s') = cms (world s)"
    if "worked R K C pools ns {poolName p} s n Q s'" for n Q s'
    using that
  proof induction
    case (work n Q t name r t')
    then have Q: "Q = {poolName p}" "name = poolName p" "n = 0 \<or> n = 1" by auto
    show ?case
    proof (cases "n = 0")
      case True
      then have "t = s" using work.IH by auto
      then have "r = (0, None)" "t' = s1" using work.hyps(3) s1(1) Q(2) by simp_all
      then show ?thesis using True \<open>t = s\<close> Q s1(2,3) first by simp
    next
      case False
      then have t: "n = 1" "pools (world t) = ps" "cms (world t) = cms (world s)" using work.IH Q by auto
      obtain t2 where "run_state (reconcilePool R K C ns (poolName p)) t = ((0, None), t2)" "pools (world t2) = ps"
        "cms (world t2) = cms (world t)" using again [OF t(2)] by blast
      then show ?thesis using work.hyps(3) Q t none by simp
    qed
  qed simp
  obtain s2 where s2: "run_state (reconcilePool R K C ns (poolName p)) s1 = ((0, None), s2)" "pools (world s2) = ps"
    using again [OF s1(2)] by blast
  have "worked R K C pools ns {poolName p} s (Suc 0) {poolName p} s1"
    using worked.work [OF worked.rest [of R K C pools ns "{poolName p}" s] _ s1(1)] by (simp add: s1(2) first)
  then have "worked R K C pools ns {poolName p} s (Suc (Suc 0)) {} s2"
    using worked.work [OF _ _ s2(1), of pools "{poolName p}" s "Suc 0" "{poolName p}"] by (simp add: s1(2) s2(2) none)
  moreover have "n \<le> 2 \<and> Q \<subseteq> {poolName p} \<and> cms (world s') = cms (world s) \<and>
      (\<forall>q. poolKey q \<noteq> poolKey p \<longrightarrow> (q \<in> set (pools (world s')) \<longleftrightarrow> q \<in> set (pools (world s)))) \<and>
      (Q = {} \<longrightarrow> fst (selectFromPools (poolsIn ns (pools (world s')))) = active \<and>
        (\<forall>q \<in> set (poolsIn ns (pools (world s'))). \<not> readyTrue q))"
    if "worked R K C pools ns {poolName p} s n Q s'" for n Q s'
    using course [OF that] sel idle mem key(1) by auto
  ultimately show ?thesis unfolding numeral_2_eq_2 by blast
qed

text \<open>The pool \<open>p\<close> was created again after \<open>q\<close>.\<close>

definition againPool :: pool where
  "againPool = demoPool\<lparr>po_Meta := (plainMeta ''a'' ''p'')\<lparr>om_UID := ''p2'', om_ResourceVersion := ''9'', om_CreationTimestamp := 7\<rparr>\<rparr>"

definition againState :: "cluster poolSys" where
  "againState = demoState ((demoCluster [youngPool, againPool])\<lparr>mc_ConfigMaps :=
     [\<lparr>cm_Name = ''astradns-agent-config'', cm_Namespace = ''a'', cm_Data = Some [(''config.json'', ''2'')]\<rparr>]\<rparr>)"

lemma again_meta: "po_Meta againPool = (plainMeta ''a'' ''p'')\<lparr>om_UID := ''p2'', om_ResourceVersion := ''9'', om_CreationTimestamp := 7\<rparr>"
  "po_Meta (stampInitialRV againPool) = (plainMeta ''a'' ''p'')\<lparr>om_UID := ''p2'', om_ResourceVersion := ''9'',
     om_CreationTimestamp := 7, om_Annotations := Some [(initialRVAnnotation, ''9'')]\<rparr>"
  by (simp_all add: againPool_def stampInitialRV_def plainMeta_def gm_set_def gm_make_def)

lemma again_pools: "mc_Pools (world againState) = [youngPool, againPool]"
  by (simp add: againState_def demoState_def demoCluster_def)

theorem recreated_pool_forgotten_witness:
  "\<exists>s'. worked (demoReconciler '''') refK8s memClient mc_Pools ''a'' {''p''} againState 2 {} s' \<and>
    mc_ConfigMaps (world s') = mc_ConfigMaps (world againState) \<and> youngPool \<in> set (mc_Pools (world s')) \<and>
    fst (selectFromPools (poolsIn ''a'' (mc_Pools (world s')))) = poolName youngPool \<and>
    (\<forall>q \<in> set (poolsIn ''a'' (mc_Pools (world s'))). \<not> readyTrue q)"
proof -
  have mem: "againPool \<in> set (mc_Pools (world againState))" by (simp add: again_pools)
  have dist: "distinct (map poolKey (mc_Pools (world againState)))" "om_Namespace (po_Meta againPool) = ''a''"
    by (simp_all add: again_pools poolKey_def metaKey_def again_meta youngPool_meta plainMeta_def)
  have new: "gm_get (om_Annotations (po_Meta againPool)) initialRVAnnotation = None"
    by (simp add: again_meta plainMeta_def)
  have valid: "validateDNSUpstreamPool refK8s (Some againPool) = None" by (rule demo_valid) (simp add: againPool_def)
  have "replaceBy poolKey (stampInitialRV againPool) [youngPool, againPool] = [youngPool, stampInitialRV againPool]"
    by (simp add: replaceBy_def poolKey_def metaKey_def again_meta youngPool_meta plainMeta_def)
  then have sel: "fst (selectFromPools (poolsIn ''a'' (replaceBy poolKey (stampInitialRV againPool) (mc_Pools (world againState))))) =
      poolName youngPool" "poolName youngPool \<noteq> poolName againPool"
    by (simp_all add: again_pools poolsIn_def selectFromPools_def sortPoolsForSelection_def insertionSort_def poolLess_def
        again_meta youngPool_meta plainMeta_def initialRV_def)
  have "st_Conditions (po_Status youngPool) = []"
    by (simp add: youngPool_def demoStored_def stampInitialRV_def demoPool_def samplePool_def noStatus_def)
  then have idle: "\<forall>q \<in> set (poolsIn ''a'' (mc_Pools (world againState))). poolName q \<noteq> poolName againPool \<longrightarrow> \<not> readyTrue q"
    by (simp add: again_pools poolsIn_def readyTrue_def)
  have name: "poolName againPool = ''p''" "poolKey youngPool \<noteq> poolKey againPool"
    by (simp_all add: again_meta youngPool_meta poolKey_def metaKey_def plainMeta_def)
  note result = recreated_pool_forgotten [OF memfull.full_server_axioms refK8s_conditions refK8s_settle demo_components(1) [of "''''"]
        demo_components(2) [of "''''"] mem dist new valid sel idle, unfolded name(1)]
  obtain s' where s': "worked (demoReconciler '''') refK8s memClient mc_Pools ''a'' {''p''} againState 2 {} s'"
    using conjunct1 [OF result] by blast
  have "youngPool \<in> set (mc_Pools (world againState))" by (simp add: again_pools)
  with conjunct2 [OF result, rule_format, OF s'] show ?thesis using s' name(2) by blast
qed

end
