(* ===== verification/OpenCircuit.thy ===== *)
theory OpenCircuit
  imports PoolFindings
begin

text \<open>
  The whole reconcile and the circuit: when it asks to be run again after a while, and what it does when
  the circuit is open.  \<open>requeues\<close> says it of a program, whatever the server answers, and is proved along
  the structure of the reconcile.
\<close>

section \<open>What a reconcile makes of the circuit\<close>

definition clocksOf :: "effect list \<Rightarrow> int list" where
  "clocksOf es = concat (map (\<lambda>e. case e of ReadClock now \<Rightarrow> [now] | _ \<Rightarrow> []) es)"

text \<open>The circuit of \<open>ns\<close> was open when the clock was read for the first time, just before the ConfigMap is written.\<close>

definition foundOpen :: "string \<Rightarrow> breaker \<Rightarrow> effect list \<Rightarrow> bool" where
  "foundOpen ns b es \<longleftrightarrow>
     (case clocksOf es of [] \<Rightarrow> False | now # _ \<Rightarrow> fst (isConfigMapCircuitOpen ns now b) \<noteq> None)"

text \<open>The last call reports it, and the reconcile returns an error only if this call fails.\<close>

definition reportsOpen :: "k8s \<Rightarrow> effect list \<Rightarrow> goError option \<Rightarrow> bool" where
  "reportsOpen K es e \<longleftrightarrow> es \<noteq> [] \<and>
     (\<exists>p msg r. last es = PatchPoolStatus p (withReadyCondition K p ConditionFalse ''ConfigMapCircuitOpen'' msg) r \<and>
        (e = None \<longleftrightarrow> \<not> isl r))"

text \<open>
  The result of a program, read by \<open>out\<close>: run again after thirty seconds exactly if the pool is \<open>live\<close> and
  the circuit was open; and when it was open, no ConfigMap is written.
\<close>

definition requeues :: "bool \<Rightarrow> string \<Rightarrow> k8s \<Rightarrow> ('a \<Rightarrow> reconcileResult) \<Rightarrow> ('w poolSys, 'a) state \<Rightarrow> bool" where
  "requeues live ns K out m \<longleftrightarrow>
     (\<forall>s. \<exists>es. effects (snd (run_state m s)) = effects s @ es \<and>
        fst (out (fst (run_state m s))) = (if live \<and> foundOpen ns (circuit s) es then 30000000000 else 0) \<and>
        (foundOpen ns (circuit s) es \<longrightarrow> filter isWrite es = [] \<and> reportsOpen K es (snd (out (fst (run_state m s))))))"

text \<open>Programs that neither read the clock nor write a ConfigMap nor touch the circuit.\<close>

definition aside :: "('w poolSys, 'a) state \<Rightarrow> bool" where
  "aside m \<longleftrightarrow>
     (\<forall>s. \<exists>es. effects (snd (run_state m s)) = effects s @ es \<and> clocksOf es = [] \<and> filter isWrite es = [] \<and>
        circuit (snd (run_state m s)) = circuit s)"

named_theorems aside_intro "programs that leave the circuit aside"
named_theorems requeues_intro "the rules of requeues"

lemma clocksOf_simps [simp]:
  "clocksOf [] = []" "clocksOf (es @ es') = clocksOf es @ clocksOf es'" "clocksOf (ReadClock now # es) = now # clocksOf es"
  "clocksOf (map Gauge calls) = []"
  by (simp_all add: clocksOf_def)

lemma clocksOf_Cons [simp]: "(\<And>now. e \<noteq> ReadClock now) \<Longrightarrow> clocksOf (e # es) = clocksOf es"
  by (simp add: clocksOf_def split: effect.split)

lemma aside_return [aside_intro]: "aside (State_Monad.return x)"
  by (simp add: aside_def)

lemma aside_api [aside_intro]: "(\<And>r now. e r \<noteq> ReadClock now) \<Longrightarrow> (\<And>r. \<not> isWrite (e r)) \<Longrightarrow> aside (api e f)"
  by (simp add: aside_def run_api split: prod.split)

lemma aside_metric [aside_intro]: "aside (withMetric f)"
  by (auto simp: aside_def run_withMetric filter_empty_conv split: prod.split)

lemma aside_event [aside_intro]: "aside (recordPoolEvent R p typ reason msg)"
  by (simp add: aside_def recordPoolEvent_def run_note_effect)

lemma aside_bind [aside_intro]:
  assumes "aside m" "\<And>a. aside (f a)"
  shows "aside (State_Monad.bind m f)"
  unfolding aside_def
proof
  fix s
  obtain a t where m: "run_state m s = (a, t)" by force
  obtain es where es: "effects t = effects s @ es" "clocksOf es = []" "filter isWrite es = []" "circuit t = circuit s"
    using assms(1) m unfolding aside_def by (metis snd_conv)
  obtain es' where "effects (snd (run_state (f a) t)) = effects t @ es'" "clocksOf es' = []" "filter isWrite es' = []"
    "circuit (snd (run_state (f a) t)) = circuit t"
    using assms(2) unfolding aside_def by blast
  then show "\<exists>es. effects (snd (run_state (State_Monad.bind m f) s)) = effects s @ es \<and> clocksOf es = [] \<and>
      filter isWrite es = [] \<and> circuit (snd (run_state (State_Monad.bind m f) s)) = circuit s"
    using m es by (intro exI [of _ "es @ es'"]) simp
qed

lemma aside_case [aside_intro]:
  "(\<And>a. aside (f a)) \<Longrightarrow> (\<And>b. aside (g b)) \<Longrightarrow> aside (case x of Inl a \<Rightarrow> f a | Inr b \<Rightarrow> g b)"
  "aside m \<Longrightarrow> (\<And>b. aside (g b)) \<Longrightarrow> aside (case y of None \<Rightarrow> m | Some b \<Rightarrow> g b)"
  "aside m \<Longrightarrow> aside n \<Longrightarrow> aside (if c then m else n)"
  by (simp_all split: sum.split option.split)

text \<open>A program that leaves the circuit aside does not ask to be run again.\<close>

lemma requeues_aside:
  assumes "aside m" "\<And>s. fst (out (fst (run_state m s))) = 0"
  shows "requeues live ns K out m"
  unfolding requeues_def
proof
  fix s
  obtain es where "effects (snd (run_state m s)) = effects s @ es" "clocksOf es = []"
    using assms(1) unfolding aside_def by blast
  then show "\<exists>es. effects (snd (run_state m s)) = effects s @ es \<and>
      fst (out (fst (run_state m s))) = (if live \<and> foundOpen ns (circuit s) es then 30000000000 else 0) \<and>
      (foundOpen ns (circuit s) es \<longrightarrow> filter isWrite es = [] \<and> reportsOpen K es (snd (out (fst (run_state m s)))))"
    using assms(2) by (intro exI [of _ es]) (simp add: foundOpen_def)
qed

lemma requeues_return [requeues_intro]: "fst (out x) = 0 \<Longrightarrow> requeues live ns K out (State_Monad.return x)"
  by (rule requeues_aside [OF aside_return]) simp

lemma foundOpen_after: "clocksOf es = [] \<Longrightarrow> foundOpen ns b (es @ es') \<longleftrightarrow> foundOpen ns b es'"
  by (simp add: foundOpen_def)

lemma reportsOpen_after: "reportsOpen K es' e \<Longrightarrow> reportsOpen K (es @ es') e"
  by (simp add: reportsOpen_def)

lemma requeues_after:
  assumes "aside m" "\<And>s. requeues live ns K out (f (fst (run_state m s)))"
  shows "requeues live ns K out (State_Monad.bind m f)"
  unfolding requeues_def
proof
  fix s
  obtain a t where m: "run_state m s = (a, t)" by force
  obtain es where es: "effects t = effects s @ es" "clocksOf es = []" "filter isWrite es = []" "circuit t = circuit s"
    using assms(1) m unfolding aside_def by (metis snd_conv)
  have "requeues live ns K out (f a)" using assms(2) [of s] m by simp
  then obtain es' where es': "effects (snd (run_state (f a) t)) = effects t @ es'"
    "fst (out (fst (run_state (f a) t))) = (if live \<and> foundOpen ns (circuit t) es' then 30000000000 else 0)"
    "foundOpen ns (circuit t) es' \<longrightarrow> filter isWrite es' = [] \<and> reportsOpen K es' (snd (out (fst (run_state (f a) t))))"
    unfolding requeues_def by blast
  show "\<exists>es. effects (snd (run_state (State_Monad.bind m f) s)) = effects s @ es \<and>
      fst (out (fst (run_state (State_Monad.bind m f) s))) = (if live \<and> foundOpen ns (circuit s) es then 30000000000 else 0) \<and>
      (foundOpen ns (circuit s) es \<longrightarrow> filter isWrite es = [] \<and> reportsOpen K es (snd (out (fst (run_state (State_Monad.bind m f) s)))))"
    using es es' m foundOpen_after [OF es(2)] reportsOpen_after by (intro exI [of _ "es @ es'"]) simp
qed

lemma requeues_then [requeues_intro]:
  "aside m \<Longrightarrow> (\<And>a. requeues live ns K out (f a)) \<Longrightarrow> requeues live ns K out (State_Monad.bind m f)"
  by (rule requeues_after)

lemma requeues_case [requeues_intro]:
  "(\<And>a. x = Inl a \<Longrightarrow> requeues live ns K out (f a)) \<Longrightarrow> (\<And>b. x = Inr b \<Longrightarrow> requeues live ns K out (g b)) \<Longrightarrow>
    requeues live ns K out (case x of Inl a \<Rightarrow> f a | Inr b \<Rightarrow> g b)"
  "requeues live ns K out m \<Longrightarrow> (\<And>b. requeues live ns K out (g b)) \<Longrightarrow> requeues live ns K out (case y of None \<Rightarrow> m | Some b \<Rightarrow> g b)"
  "requeues live ns K out m \<Longrightarrow> (\<And>b bs. requeues live ns K out (h b bs)) \<Longrightarrow> requeues live ns K out (case z of [] \<Rightarrow> m | b # bs \<Rightarrow> h b bs)"
  "(\<And>a b. requeues live ns K out (k a b)) \<Longrightarrow> requeues live ns K out (case u of (a, b) \<Rightarrow> k a b)"
  "requeues live ns K out m \<Longrightarrow> requeues live ns K out n \<Longrightarrow> requeues live ns K out (if c then m else n)"
  by (simp_all split: sum.split option.split list.split prod.split)

section \<open>Along the reconcile\<close>

lemma aside_status [aside_intro]: "aside (setReadyCondition K C p status reason msg)"
  unfolding setReadyCondition_def Let_def by (intro aside_intro) simp_all

lemma requeues_fail [requeues_intro]: "fst res = 0 \<Longrightarrow> requeues live ns K id (failPool R K C p reason msg res)"
  unfolding failPool_def
  by (intro requeues_intro aside_intro) (simp split: option.split)

text \<open>The write of the ConfigMap: it is refused with the circuit's error exactly if the circuit is found open.\<close>

abbreviation saysOpen :: "goError option \<Rightarrow> bool" where
  "saysOpen r \<equiv> \<exists>e. r = Some e \<and> errorsIs e errConfigMapCircuitOpen"

lemma upsert_found:
  obtains es where
    "effects (snd (run_state (upsertConfigMapWithCircuitBreaker R C ns json) s)) = effects s @ es" "clocksOf es \<noteq> []"
    "foundOpen ns (circuit s) es \<longleftrightarrow> saysOpen (fst (run_state (upsertConfigMapWithCircuitBreaker R C ns json) s))"
    "foundOpen ns (circuit s) es \<Longrightarrow> filter isWrite es = []"
proof -
  obtain now w where now: "cl_Now C (world s) = (now, w)" by force
  obtain u b where u: "isConfigMapCircuitOpen ns now (circuit s) = (u, b)" by force
  obtain r w2 where r: "cl_CreateOrUpdate C \<lparr>cm_Name = resolvedAgentConfigMapName R, cm_Namespace = ns, cm_Data = None\<rparr>
      (mutateConfigMap (SetDataKey agentConfigKey json)) w = (r, w2)" by force
  obtain t1 w3 where t1: "cl_Now C w2 = (t1, w3)" by force
  obtain t2 w4 where t2: "cl_Now C w3 = (t2, w4)" by force
  show thesis
    by (rule that [of "performed (upsertConfigMapWithCircuitBreaker R C ns json) s"]; cases u; cases r)
      (simp_all add: performed_def upsertConfigMapWithCircuitBreaker_def upsertConfigMap_def run_simps Let_def foundOpen_def
        now u r t1 t2 errConfigMapCircuitOpen_def)
qed

text \<open>How a program ends: with the result \<open>d\<close>, and, where the circuit was found open, with the report.\<close>

definition ends :: "k8s \<Rightarrow> ('a \<Rightarrow> reconcileResult) \<Rightarrow> int \<Rightarrow> bool \<Rightarrow> ('w poolSys, 'a) state \<Rightarrow> bool" where
  "ends K out d b m \<longleftrightarrow>
     (\<forall>s. \<exists>es. effects (snd (run_state m s)) = effects s @ es \<and> fst (out (fst (run_state m s))) = d \<and>
        (b \<longrightarrow> filter isWrite es = [] \<and> reportsOpen K es (snd (out (fst (run_state m s))))))"

lemma foundOpen_first: "clocksOf es \<noteq> [] \<Longrightarrow> foundOpen ns b (es @ es') \<longleftrightarrow> foundOpen ns b es"
  by (auto simp: foundOpen_def neq_Nil_conv)

lemma requeues_upsert:
  assumes "\<And>r. ends K out (if live \<and> saysOpen r then 30000000000 else 0) (saysOpen r) (f r)"
  shows "requeues live ns K out (State_Monad.bind (upsertConfigMapWithCircuitBreaker R C ns json) f)"
  unfolding requeues_def
proof
  fix s
  obtain r t where m: "run_state (upsertConfigMapWithCircuitBreaker R C ns json) s = (r, t)" by force
  obtain es where es: "effects t = effects s @ es" "clocksOf es \<noteq> []" "foundOpen ns (circuit s) es \<longleftrightarrow> saysOpen r"
    "foundOpen ns (circuit s) es \<Longrightarrow> filter isWrite es = []"
    by (rule upsert_found [of R C ns json s]) (use m in auto)
  obtain es' where es': "effects (snd (run_state (f r) t)) = effects t @ es'"
    "fst (out (fst (run_state (f r) t))) = (if live \<and> saysOpen r then 30000000000 else 0)"
    "saysOpen r \<longrightarrow> filter isWrite es' = [] \<and> reportsOpen K es' (snd (out (fst (run_state (f r) t))))"
    using assms [of r, unfolded ends_def, THEN spec, of t] by (elim exE conjE)
  have run: "run_state (State_Monad.bind (upsertConfigMapWithCircuitBreaker R C ns json) f) s = run_state (f r) t" using m by simp
  have found: "foundOpen ns (circuit s) (es @ es') \<longleftrightarrow> saysOpen r" using foundOpen_first [OF es(2)] es(3) by blast
  show "\<exists>es. effects (snd (run_state (State_Monad.bind (upsertConfigMapWithCircuitBreaker R C ns json) f) s)) = effects s @ es \<and>
      fst (out (fst (run_state (State_Monad.bind (upsertConfigMapWithCircuitBreaker R C ns json) f) s))) =
        (if live \<and> foundOpen ns (circuit s) es then 30000000000 else 0) \<and>
      (foundOpen ns (circuit s) es \<longrightarrow> filter isWrite es = [] \<and>
        reportsOpen K es (snd (out (fst (run_state (State_Monad.bind (upsertConfigMapWithCircuitBreaker R C ns json) f) s)))))"
    unfolding run
  proof (intro exI [of _ "es @ es'"] conjI impI)
    show "effects (snd (run_state (f r) t)) = effects s @ es @ es'" using es(1) es'(1) by simp
    show "fst (out (fst (run_state (f r) t))) = (if live \<and> foundOpen ns (circuit s) (es @ es') then 30000000000 else 0)"
      unfolding found by (rule es'(2))
    assume "foundOpen ns (circuit s) (es @ es')"
    then have "saysOpen r" unfolding found .
    then show "filter isWrite (es @ es') = []" "reportsOpen K (es @ es') (snd (out (fst (run_state (f r) t))))"
      using es(3,4) es'(3) reportsOpen_after by (simp_all only: filter_append append_Nil)
  qed
qed

lemma ends_fail:
  "ends K id (fst res) False (failPool R K C p reason msg res)"
  "reason = ''ConfigMapCircuitOpen'' \<Longrightarrow> snd res = None \<Longrightarrow> ends K id (fst res) True (failPool R K C p reason msg res)"
  unfolding ends_def
  by (auto simp: failPool_def setReadyCondition_def recordPoolEvent_def run_simps Let_def reportsOpen_def
    split: prod.split sum.split option.split)

lemma requeues_store:
  "requeues True (operatorNamespace R (om_Namespace (po_Meta p))) K id (storeConfig R K C p json)"
proof -
  have ok: "ends K id 0 False (State_Monad.bind (recordPoolEvent R p et reason msg) (\<lambda>_.
      State_Monad.bind (setReadyCondition K C p st reason' msg') (\<lambda>e. State_Monad.return (0, e))))" for et reason msg st reason' msg'
    by (auto simp: ends_def setReadyCondition_def recordPoolEvent_def run_simps Let_def split: prod.split)
  show ?thesis
    unfolding storeConfig_def Let_def
    by (rule requeues_upsert) (auto simp: ok errConfigMapCircuitOpen_def
      intro!: ends_fail(1) [where res = "(0, e)" for e, simplified] ends_fail(2) [where res = "(t, None)" for t, simplified]
      split: option.split)
qed


lemma requeues_render:
  "requeues True (operatorNamespace R (om_Namespace (po_Meta p))) K id (renderAndStore R gen render K C p prof)"
  unfolding renderAndStore_def
  by (intro requeues_case requeues_fail requeues_store) simp_all

lemma requeues_build:
  "requeues True (operatorNamespace R (om_Namespace (po_Meta p))) K id (buildConfig R gen render K C p)"
  unfolding buildConfig_def getDefaultCacheProfile_def Let_def
  by (intro requeues_then requeues_case requeues_fail requeues_render aside_intro) simp_all

lemma requeues_valid:
  "requeues True (operatorNamespace R (om_Namespace (po_Meta p))) K id (reconcileValidPool R gen render K C p)"
  unfolding reconcileValidPool_def selectActivePoolName_def
  by (intro requeues_then requeues_case requeues_fail requeues_build requeues_return aside_intro) simp_all

lemma requeues_quiet: "aside m \<Longrightarrow> requeues False ns K (\<lambda>r. (0, map_option f r)) m"
  by (rule requeues_aside) simp_all

lemma requeues_rebuild:
  "requeues False (operatorNamespace R ns) K (\<lambda>r. (0, map_option f r)) (rebuildWithProfile R gen render K C ns p prof)"
proof -
  have ends: "ends K (\<lambda>r. (0, map_option f r)) 0 False (State_Monad.return e)"
    "ends K (\<lambda>r. (0, map_option f r)) 0 False (State_Monad.bind (setReadyCondition K C p st reason msg)
      (\<lambda>e. State_Monad.return (map_option g e)))"
    "ends K (\<lambda>r. (0, map_option f r)) 0 True (State_Monad.bind (recordPoolEvent R p et reason' msg')
      (\<lambda>_. State_Monad.bind (setReadyCondition K C p ConditionFalse ''ConfigMapCircuitOpen'' msg)
      (\<lambda>e. State_Monad.return (map_option g e))))"
    for e :: "goError option" and st reason msg g et reason' msg'
    by (auto simp: ends_def setReadyCondition_def recordPoolEvent_def run_simps Let_def reportsOpen_def split: prod.split sum.split)
  show ?thesis
    unfolding rebuildWithProfile_def
    by (rule requeues_case requeues_upsert requeues_quiet aside_intro aside_status |
      simp add: ends errConfigMapCircuitOpen_def split: option.split)+
qed

lemma requeues_remove: "requeues False ns K (\<lambda>r. (0, map_option f r)) (removeConfigKey R C ns)"
  unfolding requeues_def
proof
  fix s :: "'a poolSys"
  let ?name = "resolvedAgentConfigMapName R"
  obtain g w where g: "cl_GetConfigMap C ns ?name (world s) = (g, w)" by force
  have "clocksOf (performed (removeConfigKey R C ns) s) = []"
    "effects (snd (run_state (removeConfigKey R C ns) s)) = effects s @ performed (removeConfigKey R C ns) s"
    using g by (cases g; simp add: performed_def removeConfigKey_def Let_def run_simps split: prod.split)+
  then show "\<exists>es. effects (snd (run_state (removeConfigKey R C ns) s)) = effects s @ es \<and>
      fst (0, map_option f (fst (run_state (removeConfigKey R C ns) s))) = (if False \<and> foundOpen ns (circuit s) es then 30000000000 else 0) \<and>
      (foundOpen ns (circuit s) es \<longrightarrow> filter isWrite es = [] \<and>
        reportsOpen K es (snd (0, map_option f (fst (run_state (removeConfigKey R C ns) s)))))"
    by (intro exI [of _ "performed (removeConfigKey R C ns) s"]) (simp add: foundOpen_def)
qed

lemma requeues_deletion:
  "requeues False (operatorNamespace R ns) K (\<lambda>r. (0, map_option f r)) (reconcileAfterPoolDeletion R gen render K C ns)"
  unfolding reconcileAfterPoolDeletion_def rebuildForPool_def getDefaultCacheProfile_def
  by (rule requeues_case requeues_then requeues_rebuild requeues_remove requeues_quiet aside_intro | simp)+

section \<open>The reconcile\<close>

lemma requeues_map:
  "requeues live ns K (out \<circ> g) m \<Longrightarrow> requeues live ns K out (State_Monad.bind m (\<lambda>r. State_Monad.return (g r)))"
  unfolding requeues_def by (simp add: split_beta)

lemma stamped_namespace:
  assumes "\<And>p q w q'. fst (cl_PatchPool C p q w) = Inr q' \<Longrightarrow> om_Namespace (po_Meta q') = om_Namespace (po_Meta q)"
    and "fst (run_state (ensureInitialRVAnnotation C p0) s) = Inr p"
  shows "om_Namespace (po_Meta p) = om_Namespace (po_Meta p0)"
  using assms(2) assms(1) [of p0 "stampInitialRV p0"]
  by (auto simp: ensureInitialRVAnnotation_def run_simps Let_def stampInitialRV_def split: if_splits prod.splits sum.splits)
    (metis fst_conv)+

lemma aside_ensure: "aside (ensureInitialRVAnnotation C p)"
  unfolding ensureInitialRVAnnotation_def Let_def
  by (intro aside_intro) simp_all

lemma requeues_live:
  assumes "\<And>p q w q'. fst (cl_PatchPool C p q w) = Inr q' \<Longrightarrow> om_Namespace (po_Meta q') = om_Namespace (po_Meta q)"
  shows "requeues True (operatorNamespace R (om_Namespace (po_Meta p0))) K id
    (State_Monad.bind (ensureInitialRVAnnotation C p0) (\<lambda>a. case a of
       Inl e \<Rightarrow> State_Monad.return (0, Some (Wrap ''stamp initial resource version: %w'' [] e))
     | Inr p \<Rightarrow> (case validateDNSUpstreamPool K (Some p) of
         Some e \<Rightarrow> failPool R K C p ''InvalidSpec'' (MErr e) (0, None)
       | None \<Rightarrow> reconcileValidPool R gen render K C p)))"
  (is "requeues True ?ns K id (State_Monad.bind ?m ?f)")
proof (rule requeues_after [OF aside_ensure])
  fix s :: "'a poolSys"
  show "requeues True ?ns K id (?f (fst (run_state ?m s)))"
  proof (cases "fst (run_state ?m s)")
    case (Inl e)
    then show ?thesis by (simp add: requeues_return)
  next
    case (Inr p)
    then have "om_Namespace (po_Meta p) = om_Namespace (po_Meta p0)" using stamped_namespace [of C p0 s p] assms by blast
    then show ?thesis
      using requeues_valid [of R p K gen render C]
      by (simp add: Inr requeues_fail split: option.split)
  qed
qed

text \<open>C32: an open circuit and the reconcile as a whole, whatever the server answers, provided only that it
  answers with pools of the namespace it is asked about.  If the circuit of the namespace is open when the
  reconcile comes to write the ConfigMap, then nothing is written, the last call reports
  \<open>Ready=False\<close>, \<open>ConfigMapCircuitOpen\<close>, and an error is returned only if this call fails.
  The reconcile asks to be run again after thirty seconds exactly if the circuit was open and the pool was
  found: after a deletion, when the configuration is rebuilt for the oldest pool left, an open circuit is
  reported in the same way but nothing asks for another try.\<close>

theorem open_circuit_requeues:
  assumes "\<forall>w p. fst (cl_GetPool C ns name w) = Inr p \<longrightarrow> om_Namespace (po_Meta p) = ns"
    and "\<forall>p q w q'. fst (cl_PatchPool C p q w) = Inr q' \<longrightarrow> om_Namespace (po_Meta q') = om_Namespace (po_Meta q)"
  shows "let (requeueAfter, e) = fst (run_state (reconcilePool R K C ns name) s);
      es = performed (reconcilePool R K C ns name) s;
      isOpen = foundOpen (operatorNamespace R ns) (circuit s) es in
    requeueAfter = (if isOpen \<and> (\<exists>p es'. es = GetPool ns name (Inr p) # es') then 30000000000 else 0) \<and>
    (isOpen \<longrightarrow> filter isWrite es = [] \<and> reportsOpen K es e)"
proof -
  have shape: ?thesis
    if es: "effects (snd (run_state (reconcilePool R K C ns name) s)) = effects s @ es"
      and fst: "fst (fst (run_state (reconcilePool R K C ns name) s)) =
        (if foundOpen (operatorNamespace R ns) (circuit s) es \<and> (\<exists>p es'. es = GetPool ns name (Inr p) # es') then 30000000000 else 0)"
      and op: "foundOpen (operatorNamespace R ns) (circuit s) es \<Longrightarrow>
        filter isWrite es = [] \<and> reportsOpen K es (snd (fst (run_state (reconcilePool R K C ns name) s)))" for es
    using es fst op by (simp add: performed_def split_beta Let_def)
  show ?thesis
  proof (cases "\<exists>gen render. rc_ConfigGen R = Some gen \<and> rc_ConfigRenderer R = Some render")
    case False
    then have "run_state (reconcilePool R K C ns name) s =
        ((0, Some (Errorf ''config generator and renderer must be configured'' [])), s)"
      by (auto simp: reconcilePool_def split: option.split)
    then show ?thesis by (intro shape [of "[]"]) (simp_all add: foundOpen_def)
  next
    case True
    then obtain gen render where R: "rc_ConfigGen R = Some gen" "rc_ConfigRenderer R = Some render" by blast
    obtain g w where g: "cl_GetPool C ns name (world s) = (g, w)" by force
    let ?s = "s\<lparr>world := w, effects := effects s @ [GetPool ns name g]\<rparr>"
    have after: ?thesis
      if "requeues live (operatorNamespace R ns) K id m" "run_state (reconcilePool R K C ns name) s = run_state m ?s"
        "live \<longleftrightarrow> (\<exists>p. g = Inr p)" for live m
    proof -
      note rule = that(1) [unfolded requeues_def, THEN spec, of ?s] and eqs = that(2,3)
      obtain es where es: "effects (snd (run_state m ?s)) = effects ?s @ es"
        "fst (id (fst (run_state m ?s))) = (if live \<and> foundOpen (operatorNamespace R ns) (circuit ?s) es then 30000000000 else 0)"
        "foundOpen (operatorNamespace R ns) (circuit ?s) es \<longrightarrow>
          filter isWrite es = [] \<and> reportsOpen K es (snd (id (fst (run_state m ?s))))"
        using rule by (elim exE conjE)
      have found: "foundOpen (operatorNamespace R ns) (circuit s) (GetPool ns name g # es) \<longleftrightarrow>
          foundOpen (operatorNamespace R ns) (circuit s) es"
        by (simp add: foundOpen_def)
      show ?thesis
        by (rule shape [of "GetPool ns name g # es"])
          (use es eqs reportsOpen_after [of K es _ "[GetPool ns name g]"] in \<open>auto simp: found\<close>)
    qed
    show ?thesis
    proof (cases g)
      case (Inr p)
      then have ns: "om_Namespace (po_Meta p) = ns" using assms(1) g Inr by (metis fst_conv)
      show ?thesis
        by (rule after [OF requeues_live [of C R p K gen render, unfolded ns]])
          (use assms(2) in \<open>blast | simp add: reconcilePool_def R run_simps g Inr\<close>)+
    next
      case (Inl e)
      show ?thesis
      proof (cases "isNotFound e")
        case True
        have "requeues False (operatorNamespace R ns) K id (State_Monad.bind (reconcileAfterPoolDeletion R gen render K C ns)
            (\<lambda>r. State_Monad.return (0, map_option (Wrap ''regenerate config after delete: %w'' []) r)))"
          by (rule requeues_map) (use requeues_deletion [of R ns K] in \<open>simp add: comp_def\<close>)
        then show ?thesis
          by (rule after) (simp_all add: reconcilePool_def R run_simps g Inl True)
      next
        case False
        have "requeues False (operatorNamespace R ns) K id (State_Monad.return
            (0, Some (Wrap ''get DNSUpstreamPool %s: %w'' [AStr (ns @ ''/'' @ name)] (ApiErr e))))"
          by (rule requeues_return) simp
        then show ?thesis
          by (rule after) (simp_all add: reconcilePool_def R run_simps g Inl False)
      qed
    qed
  qed
qed

text \<open>The circuit of \<open>a\<close> is open; one pool is found, the other one is not.\<close>

lemma open_runs:
  "\<exists>es. performed (reconcilePool (demoReconciler '''') refK8s memClient ''a'' ''p'') openState =
     GetPool ''a'' ''p'' (Inr demoStored) # es \<and> clocksOf es = [1]"
  "\<exists>es. performed (reconcilePool (demoReconciler '''') refK8s memClient ''a'' ''gone'') openState =
     GetPool ''a'' ''gone'' (Inl NotFound) # es \<and> clocksOf es = [1]"
proof -
  obtain c where c: "Generate 4 (Some demoStored) None = Inr c"
    "unbound_Render plainTemplates 4 (Some c) = Inr ''unbound.conf''" "length (ec_Upstreams c) = 2"
    using demo_builds [of "[''1.1.1.1'', ''9.9.9.9'']" demoStored "''a''" "''p''" None]
    by (auto simp: demoPool_def demoStored_def stampInitialRV_def)
  have v: "validateDNSUpstreamPool refK8s (Some demoStored) = None"
    by (rule demo_valid) (simp add: demoStored_def stampInitialRV_def)
  show "\<exists>es. performed (reconcilePool (demoReconciler '''') refK8s memClient ''a'' ''p'') openState =
      GetPool ''a'' ''p'' (Inr demoStored) # es \<and> clocksOf es = [1]"
    "\<exists>es. performed (reconcilePool (demoReconciler '''') refK8s memClient ''a'' ''gone'') openState =
      GetPool ''a'' ''gone'' (Inl NotFound) # es \<and> clocksOf es = [1]"
    by (simp_all add: performed_def openState_def reconciler_defs run_simps demo_defs v c demoStored_meta errConfigMapCircuitOpen_def)
qed

theorem open_circuit_requeues_witness:
  "fst (fst (run_state (reconcilePool (demoReconciler '''') refK8s memClient ''a'' ''p'') openState)) = 30000000000 \<and>
   fst (fst (run_state (reconcilePool (demoReconciler '''') refK8s memClient ''a'' ''gone'') openState)) = 0 \<and>
   (\<exists>e. reportsOpen refK8s (performed (reconcilePool (demoReconciler '''') refK8s memClient ''a'' ''gone'') openState) e)"
proof -
  have get: "\<forall>w p. fst (cl_GetPool memClient ns n w) = Inr p \<longrightarrow> om_Namespace (po_Meta p) = ns" for ns n
    by (auto simp: memClient_def lookupBy_def metaKey_def find_Some_iff split: option.splits)
  have patch: "\<forall>p q w q'. fst (cl_PatchPool memClient p q w) = Inr q' \<longrightarrow> om_Namespace (po_Meta q') = om_Namespace (po_Meta q)"
    by (simp add: memClient_def)
  have isopen: "foundOpen (operatorNamespace (demoReconciler '''') ''a'') (circuit openState) (GetPool ns n r # es)"
    if "clocksOf es = [1]" for ns n r es
    using that by (simp add: foundOpen_def openState_def demo_defs)
  obtain es where es: "performed (reconcilePool (demoReconciler '''') refK8s memClient ''a'' ''p'') openState =
      GetPool ''a'' ''p'' (Inr demoStored) # es" "clocksOf es = [1]" using open_runs(1) by blast
  obtain es' where es': "performed (reconcilePool (demoReconciler '''') refK8s memClient ''a'' ''gone'') openState =
      GetPool ''a'' ''gone'' (Inl NotFound) # es'" "clocksOf es' = [1]" using open_runs(2) by blast
  show ?thesis
    using open_circuit_requeues [OF get [of "''a''" "''p''"] patch, of "demoReconciler ''''" refK8s openState]
      open_circuit_requeues [OF get [of "''a''" "''gone''"] patch, of "demoReconciler ''''" refK8s openState]
    by (auto simp: Let_def split_beta es es' isopen)
qed

end
