(* ===== verification/Spec2Isabelle.thy ===== *)
theory Spec2Isabelle
  imports ConfigCorrect SelectionCorrect ProfileCorrect Retry PoolCluster PolicyKept PolicyRestless Recreation OpenCircuit
begin

text \<open>
  A model of the AstraDNS operator and its verification.  The operator is a set of Kubernetes
  controllers.  Pools of upstream resolvers (\<open>DNSUpstreamPool\<close>) and a cache profile
  (\<open>DNSCacheProfile\<close>) become the configuration of a DNS engine, stored as JSON under one key of a
  ConfigMap that the agents mount; policies (\<open>ExternalDNSPolicy\<close>) are enforced as annotations on
  namespaces.

  \<^bold>\<open>The parts and their theories.\<close>  The paths are below \<open>src/\<close>.

  \<^item> \<open>controllers/dnsupstreampool_controller.go\<close>.  \<open>PoolValidation\<close>: \<open>validateDNSUpstreamPool\<close> and
    its helpers.  \<open>Selection\<close>: the comparator and the choice of the active pool.  \<open>Breaker\<close>: the
    circuit breaker around ConfigMap writes.  \<open>Metrics\<close>: the gauge of the active pool.
    \<open>PoolReconciler\<close>: \<open>Reconcile\<close>, cut into \<open>reconcilePool\<close>, \<open>reconcileValidPool\<close>,
    \<open>buildConfig\<close>, \<open>renderAndStore\<close> and \<open>storeConfig\<close> in the order of the function, the path after a
    deletion (\<open>reconcileAfterPoolDeletion\<close>, \<open>rebuildForPool\<close>, \<open>rebuildWithProfile\<close>) and the watch.
  \<^item> \<open>pkg/engineconfig/defaultgen.go\<close>: \<open>Generator\<close>.  \<open>pkg/engineconfig/*/renderer.go\<close>: \<open>Renderers\<close>,
    with the name of the engine before the names of the functions.
  \<^item> \<open>controllers/dnscacheprofile_controller.go\<close>: \<open>CacheProfile\<close>.
    \<open>controllers/externaldnspolicy_controller.go\<close>: \<open>Policy\<close>.
    \<open>controllers/dnsupstreampool_webhook.go\<close>: \<open>Webhook\<close>.  \<open>cmd/main.go\<close> and the registrations:
    \<open>Startup\<close>.
  \<^item> Of the language and its library: \<open>GoStrings\<close> (\<open>strings\<close>, \<open>strconv\<close>), \<open>Netip\<close>
    (\<open>netip.ParseAddr\<close>), \<open>GoSort\<close> (\<open>sort\<close>), \<open>Prelude\<close> (maps that may be nil, \<open>int32\<close>).
    \<open>ApiTypes\<close> holds the data: the fields of the API types that the sources read or write, and errors
    as values that keep the wrapping \<open>errors.Is\<close> looks through.

  \<^bold>\<open>State and effects\<close> (\<open>Effects\<close>).  A controller is a program of the state monad over the world, of
  which nothing is known, and the history of its calls with their answers.  The API server and the
  clock are the argument \<open>client\<close>; reads may change the world too, so any interference of other actors
  between two calls is covered.  The pool reconciler also holds its two memories, the breaker and the
  metric.  Each of their operations runs under its mutex, so concurrent use is a sequence of operations;
  \<open>time.Now()\<close> is a call.  In \<open>isConfigMapCircuitOpen\<close> and \<open>recordConfigMapUpdateFailure\<close> the clock is
  read just before the operation instead of within it.

  \<^bold>\<open>How properties are proved.\<close>
  \<open>Traces\<close> and \<open>PoolTrace\<close>, \<open>PolicyTrace\<close> give each call of a reconcile its justification in the calls
  before it, for every server: from this follow the safety properties (\<open>PoolSafety\<close>,
  \<open>PolicySteps\<close>, \<open>Watches\<close>).
  \<open>PoolState\<close> has the invariant of the memory in all reachable states and the refinement of the breaker
  to the two-state circuit of \<open>Breaker\<close>, through the locale \<open>circuit_breaker\<close>.
  \<open>ApiServer\<close> is the interface of a server that answers and that nobody else changes, a locale with an
  instance in memory; \<open>Converge\<close> and \<open>Failover\<close> prove that a namespace settles on its oldest pool and
  hands over after a deletion, and bound the requests of a reconcile; \<open>Drain\<close> that the queue of a
  namespace runs empty although every change of a status asks for another reconcile.  \<open>PolicyEnforce\<close> (the
  locale \<open>namespace_server\<close>) and \<open>PolicyCorrect\<close> do the same for policies; \<open>PolicyQuiet\<close> (the locale
  \<open>quiet_server\<close>) and \<open>PolicyDrain\<close> that the queue of the policies runs empty where no two select the same
  namespace and no selected one is still annotated for another policy, and \<open>PolicyRestless\<close> that it need not
  where two namespaces of a policy belong to others.  \<open>Rbac\<close> holds the
  permissions the controllers declare in their \<open>+kubebuilder:rbac\<close> markers and the role deployed from
  them (\<open>config/rbac/role.yaml\<close>), and compares them with the requests of the reconciles; what a request
  needs follows the documentation of the client, and the API group of events is an argument.
  \<open>ConfigCorrect\<close> is about configurations: validation against its declarative specification,
  generation, order, and the three engines; \<open>RendererContract\<close> states the contract of a renderer as a
  locale and interprets it on all three.  \<open>SelectionCorrect\<close>: the selection and the webhook.
  \<open>PoolBehaviour\<close> and \<open>ProfileCorrect\<close>: whole branches.  \<open>StartupCorrect\<close>: start-up.
  \<open>PoolGaps\<close> and \<open>Recreation\<close>: what the pool controller leaves open, on any server that answers (the locale
  \<open>full_server\<close>, which extends \<open>api_server\<close>): namespaces that share a key, a pool published without
  validation, a pool created again.  \<open>OpenCircuit\<close>: the circuit and the reconcile as a whole, with
  \<open>PoolFindings\<close> for the path after a deletion.  \<open>Retry\<close>: which failed requests end a reconcile with an error, by rules that follow the
  structure of a program.
  \<open>Reference\<close> and \<open>Demo\<close> hold the instances the witnesses run on.

  \<^bold>\<open>Others at work.\<close>  The theories above assume a server nobody else uses, or nothing at all.  Three
  families treat a cluster in use, by rely and guarantee: between any two calls of the controller
  others do what the rely admits, and any call may fail before or after it took effect.  The rules of
  such proof outlines are those of \<open>Outline\<close>.
  \<open>Ownership\<close> has the policies and namespaces others may create, edit and delete (\<open>othersMay\<close>), the
  locale \<open>shared_server\<close> and the states the policy controller can reach (\<open>policyRuns\<close>);
  \<open>SharedCluster\<close> is the instance in memory.  \<open>Board\<close> has the pools, profiles, ConfigMaps and the work
  queue (\<open>boardMay\<close>) with the invariant that what is not as it should be has a request waiting;
  \<open>WorkQueue\<close> and \<open>PoolAtWork\<close> prove that the reconcile keeps it, in the locale \<open>board_server\<close>, and
  define the runs with their restarts (\<open>controllerRuns\<close>); \<open>PoolCluster\<close> is the instance in memory.
  \<open>PolicyBoard\<close> has what the policy controller shares with others: the policies, the namespaces, which
  pools and profiles exist, and its work queue.  There the rely is also the guarantee (\<open>moved\<close>): whoever
  changes something a policy depends on puts its request into the queue, which \<open>PolicyHost.events_mapped\<close>
  shows to be what the handlers of the watches do.  The invariant says that a policy without a request
  is \<open>served\<close>: enforced, or reported as what it is.  \<open>PolicyRules\<close> (the locale \<open>policy_server\<close>) and
  \<open>PolicyAtWork\<close> prove that a reconcile that ends without an error leaves its policy served or with a new
  request, and define the runs (\<open>policiesRun\<close>); \<open>PolicyHost\<close> is the instance in memory, \<open>PolicyKept\<close> a run
  on it.
  All instances follow an arbitrary script of what others do and which calls fail (\<open>Scripted\<close>).
  What is assumed there: a call that is answered is answered from the state of its moment (the cache of the
  client may lag behind); a controller has one worker; a request that ends with an error, or asks to be
  run again, is put back into the queue.
  For the pools: no two pools of a namespace are created in the same second; a name is used again only after
  the deletion of its pool was reconciled (\<open>Recreation\<close> shows what happens otherwise); and no two of the
  namespaces that ever have pools (\<open>bo_Spaces\<close>) share the namespace their ConfigMap is in (\<open>apart\<close>).  Where
  \<open>POD_NAMESPACE\<close> is set, as in the manifests of the repository, this means that all pools are in one
  namespace; where it is not, it always holds.  \<open>PoolGaps\<close> shows what happens otherwise.
  For the policies: a change and the requests of its watch event are one step, and the lists of the
  handlers do not fail; and nobody but the controller writes the annotation of the owner.  The reads of the
  pool and the profile a policy refers to may fail like any other call; a policy is then served once its
  status reports that failure (\<open>lookupFailed\<close>), since the code does not retry it
  (\<open>Retry.failed_lookup_not_retried\<close>).

  \<^bold>\<open>Arguments of the model.\<close>  What is not in the repository is an argument: the name checks, condition
  and finalizer helpers of Kubernetes' packages (\<open>k8s\<close>, with what their documentation promises as
  \<open>dns1123_documented\<close>, \<open>conditions_documented\<close>, \<open>finalizers_documented\<close>), the API client, the text
  templates of the engines (\<open>templates\<close>), \<open>json.MarshalIndent\<close> of the configuration and the decoding
  of admission requests, whose types have their tags elsewhere, the registry of renderers and the
  manager (\<open>startEnv\<close>), the flags of other modules, the number of processors, and the order in which Go
  ranges over a map (\<open>anyOrder\<close>).

  \<^bold>\<open>Bounds.\<close>  There is no fuel: the loops of the sources run over lists and are structural recursions,
  and the parsers of addresses, numbers and the command line are total functions on their input.
  \<open>sort.Slice\<close> is the insertion sort the library uses up to twelve elements; for longer slices \<open>GoSort\<close>
  shows that a result with the library's contract is unique wherever the comparator is an order
  and elements that are not ordered are equal.  \<open>Drain\<close> bounds the reconciles until the queue of a
  namespace is empty by its requests and twice its pools, \<open>PolicyDrain\<close> those of the policies by their
  requests and their number, \<open>Failover\<close> the calls of one reconcile by six.  Integers of the API are mathematical integers: the
  sources only compare them, convert them to a wider type, or count; \<open>applyToAll\<close> counts in \<open>int32\<close>.

  \<^bold>\<open>Not modelled.\<close>  Log lines; contexts and their cancellation; the fields of the API types that no
  code reads (\<open>spec.loadBalancing\<close>, \<open>spec.healthCheck\<close>); the times of conditions, which
  \<open>meta.SetStatusCondition\<close> keeps; the registration of types and of the gauge; the signal handler; the
  Helm chart, the CRD schemas and the manifests but the role, which are data for Kubernetes; tests and scripts.
\<close>

end
